(* ===== verification/Prelude.thy ===== *)
theory Prelude
  imports Main "HOL-Library.Word"
begin

text \<open>
  Shared ground of the development: the integer types of the C sources, facts about bit tests and
  masks that every register access needs, and the arithmetic of power-of-two ring indices.

  The ring arithmetic is an interface: the UART FIFOs of the board support package (128 slots, 32-bit
  indices) and the descriptor rings of the Ethernet driver (64 slots, 16-bit indices) step an index
  with a different function, but each promises the same law, which the locale \<open>ring\<close> states; the FIFO
  lemmas are proved once inside it.
\<close>

unbundle bit_operations_syntax

section \<open>Integer types of the sources\<close>

type_synonym u8 = "8 word"
type_synonym u16 = "16 word"
type_synonym u32 = "32 word"
type_synonym u64 = "64 word"
type_synonym s32 = "32 word"

named_theorems model_defs \<comment> \<open>definitions of straight-line driver code, unfolded together\<close>

section \<open>Bit tests and masks\<close>

lemma and_exp_eq_0_iff: "(x :: 'a::len word) AND 2 ^ n = 0 \<longleftrightarrow> \<not> (n < LENGTH('a) \<and> bit x n)"
proof
  assume eq: "x AND 2 ^ n = 0"
  show "\<not> (n < LENGTH('a) \<and> bit x n)"
  proof
    assume "n < LENGTH('a) \<and> bit x n"
    then have "bit (x AND 2 ^ n) n" by (simp add: bit_simps)
    with eq show False by simp
  qed
next
  assume "\<not> (n < LENGTH('a) \<and> bit x n)"
  then show "x AND 2 ^ n = 0"
    by (intro bit_word_eqI) (auto simp: bit_simps)
qed

lemma and_bit_numeral [simp]:
  fixes x :: u32
  shows "x AND 1 = 0 \<longleftrightarrow> \<not> bit x 0" "x AND 2 = 0 \<longleftrightarrow> \<not> bit x 1" "x AND 4 = 0 \<longleftrightarrow> \<not> bit x 2"
    "x AND 8 = 0 \<longleftrightarrow> \<not> bit x 3" "x AND 16 = 0 \<longleftrightarrow> \<not> bit x 4"
    "x AND 0x80000000 = 0 \<longleftrightarrow> \<not> bit x 31"
  using and_exp_eq_0_iff [of x 0] and_exp_eq_0_iff [of x 1] and_exp_eq_0_iff [of x 2]
    and_exp_eq_0_iff [of x 3] and_exp_eq_0_iff [of x 4] and_exp_eq_0_iff [of x 31] by simp_all

lemma or_exp_restore: "bit x n \<Longrightarrow> (x :: 'a::len word) AND NOT (2 ^ n) OR 2 ^ n = x"
  by (rule bit_word_eqI) (auto simp: bit_simps)

lemma and_not_exp_same: "\<not> bit x n \<Longrightarrow> (x :: 'a::len word) AND NOT (2 ^ n) = x"
  by (rule bit_word_eqI) (auto simp: bit_simps)

lemma word_and_mask_le: "(x :: 'a::len word) AND m \<le> m"
  by (simp add: word_and_le1)

lemma unat_and_mask: "unat ((x :: 'a::len word) AND mask n) = unat x mod 2 ^ n"
  by (metis take_bit_eq_mask take_bit_eq_mod unsigned_take_bit_eq)

lemma or_and_eq_0_iff: "(x OR y) AND m = (0 :: 'a::len word) \<longleftrightarrow> x AND m = 0 \<and> y AND m = 0"
  by (auto simp: bit_eq_iff bit_simps)

lemma and_3_eq_0_iff: "(x :: u32) AND 3 = 0 \<longleftrightarrow> 4 dvd unat x"
proof -
  have "unat (x AND 3) = unat x mod 4" using unat_and_mask [of x 2] by (simp add: mask_eq_exp_minus_1)
  then show ?thesis by (metis dvd_eq_mod_eq_0 unat_eq_zero unsigned_0)
qed

lemma and_31_eq_0_iff: "(x :: u32) AND 31 = 0 \<longleftrightarrow> 32 dvd unat x"
proof -
  have "unat (x AND 31) = unat x mod 32" using unat_and_mask [of x 5] by (simp add: mask_eq_exp_minus_1)
  then show ?thesis by (metis dvd_eq_mod_eq_0 unat_eq_zero unsigned_0)
qed

lemma ucast_u8_u32 [simp]: "ucast (ucast (x :: u8) :: u32) = x"
  by (rule bit_word_eqI) (auto simp: bit_simps)

lemma upt_0_Suc: "[0..<Suc n] = 0 # map Suc [0..<n]"
  by (simp add: map_Suc_upt upt_conv_Cons del: upt_Suc)

lemma unat_u32_less: "unat (x :: u32) < 0x100000000"
  using unsigned_less [of x, where 'a = nat] by simp

lemma bit_exp_u32: "bit (2 ^ n :: u32) i \<longleftrightarrow> n < 32 \<and> i = n"
  by (auto simp: bit_exp_iff)

lemma sint_small:
  assumes "(x :: u32) < 0x80000000"
  shows "sint x = uint x"
proof -
  have "uint x < 2 ^ 31" using assms by (simp add: word_less_def)
  moreover have "(0::int) \<le> uint x" by simp
  ultimately show ?thesis
    unfolding sint_uint by (intro signed_take_bit_int_eq_self) (simp_all add: order.trans [of _ 0])
qed

lemma unat_plus_one_less:
  fixes x y :: "'a::len word"
  assumes "x < y"
  shows "unat (x + 1) = Suc (unat x)"
proof -
  have "Suc (unat x) \<le> unat y" using assms by (simp add: word_less_nat_alt)
  also have "\<dots> < 2 ^ LENGTH('a)" by (rule unsigned_less)
  finally have "Suc (unat x) < 2 ^ LENGTH('a)" .
  then show ?thesis by (simp add: unat_word_ariths)
qed

section \<open>Ring indices\<close>

text \<open>Slots from \<open>t\<close> (oldest) up to but not including \<open>h\<close> in a ring of \<open>N\<close> slots.\<close>

definition ring_dist :: "nat \<Rightarrow> nat \<Rightarrow> nat \<Rightarrow> nat" where
  "ring_dist N t h = (h + N - t) mod N"

definition ring_slots :: "nat \<Rightarrow> nat \<Rightarrow> nat \<Rightarrow> nat list" where
  "ring_slots N t h = map (\<lambda>k. (t + k) mod N) [0..<ring_dist N t h]"

definition ring_contents :: "nat \<Rightarrow> 'a list \<Rightarrow> nat \<Rightarrow> nat \<Rightarrow> 'a list" where
  "ring_contents N buf t h = map ((!) buf) (ring_slots N t h)"

lemma ring_dist_less: "0 < N \<Longrightarrow> ring_dist N t h < N"
  by (simp add: ring_dist_def)

lemma ring_dist_self [simp]: "ring_dist N t t = 0"
  by (simp add: ring_dist_def)

lemma ring_dist_eq_0_iff: "t < N \<Longrightarrow> h < N \<Longrightarrow> ring_dist N t h = 0 \<longleftrightarrow> t = h"
  by (cases "h < t") (auto simp: ring_dist_def mod_if)

lemma ring_dist_Suc_head:
  assumes "t < N" "h < N" "Suc h mod N \<noteq> t"
  shows "ring_dist N t (Suc h mod N) = Suc (ring_dist N t h)"
  using assms by (auto simp: ring_dist_def mod_if split: if_splits)

lemma ring_dist_Suc_tail:
  assumes "t < N" "h < N" "t \<noteq> h"
  shows "Suc (ring_dist N (Suc t mod N) h) = ring_dist N t h"
  using assms by (auto simp: ring_dist_def mod_if split: if_splits)

lemma ring_dist_full_iff:
  assumes "t < N" "h < N" "1 < N"
  shows "Suc h mod N = t \<longleftrightarrow> ring_dist N t h = N - 1"
  using assms by (auto simp: ring_dist_def mod_if split: if_splits)

lemma ring_slot_at_dist: "t < N \<Longrightarrow> h < N \<Longrightarrow> (t + ring_dist N t h) mod N = h"
  by (auto simp: ring_dist_def mod_if split: if_splits)

lemma length_ring_slots [simp]: "length (ring_slots N t h) = ring_dist N t h"
  by (simp add: ring_slots_def)

lemma length_ring_contents [simp]: "length (ring_contents N buf t h) = ring_dist N t h"
  by (simp add: ring_contents_def)

lemma ring_slots_less: "0 < N \<Longrightarrow> i \<in> set (ring_slots N t h) \<Longrightarrow> i < N"
  by (auto simp: ring_slots_def)

lemma ring_slots_self [simp]: "ring_slots N t t = []"
  by (simp add: ring_slots_def)

lemma ring_slots_snoc:
  assumes "t < N" "h < N" "Suc h mod N \<noteq> t"
  shows "ring_slots N t (Suc h mod N) = ring_slots N t h @ [h]"
  using assms by (simp add: ring_slots_def ring_dist_Suc_head ring_slot_at_dist)

lemma ring_slots_Cons:
  assumes "t < N" "h < N" "t \<noteq> h"
  shows "ring_slots N t h = t # ring_slots N (Suc t mod N) h"
proof -
  have "[0..<ring_dist N t h] = 0 # map Suc [0..<ring_dist N (Suc t mod N) h]"
    by (metis ring_dist_Suc_tail [OF assms] map_Suc_upt upt_conv_Cons zero_less_Suc)
  then show ?thesis using assms(1)
    by (simp add: ring_slots_def mod_simps)
qed

lemma mod_add_cancel_nat:
  assumes "(t + a) mod N = (t + b) mod (N::nat)"
  shows "a mod N = b mod N"
proof -
  have "int (t + a) mod int N = int (t + b) mod int N" using assms by (metis of_nat_mod)
  then have "int N dvd (int a - int b)" by (simp add: mod_eq_dvd_iff)
  then have "int a mod int N = int b mod int N" by (simp add: mod_eq_dvd_iff)
  then show ?thesis by (metis of_nat_eq_iff of_nat_mod)
qed

lemma ring_slots_distinct: "distinct (ring_slots N t h)"
proof (cases "0 < N")
  case True
  have "inj_on (\<lambda>k. (t + k) mod N) {0..<ring_dist N t h}"
  proof (rule inj_onI)
    fix a b assume a: "a \<in> {0..<ring_dist N t h}" and b: "b \<in> {0..<ring_dist N t h}"
      and eq: "(t + a) mod N = (t + b) mod N"
    have "a < N" "b < N" using a b ring_dist_less [OF True, of t h] by auto
    then show "a = b" using mod_add_cancel_nat [OF eq] by simp
  qed
  then show ?thesis by (simp add: ring_slots_def distinct_map)
next
  case False
  then show ?thesis by (simp add: ring_slots_def distinct_map)
qed

text \<open>Writing the free slot or reading the oldest one, on the contents.\<close>

lemma ring_contents_enq:
  assumes "length buf = N" "t < N" "h < N" "Suc h mod N \<noteq> t"
  shows "ring_contents N (buf[h := x]) t (Suc h mod N) = ring_contents N buf t h @ [x]"
proof -
  have h: "h \<notin> set (ring_slots N t h)"
    using ring_slots_distinct [of N t "Suc h mod N"] ring_slots_snoc [OF assms(2-4)] by simp
  have "map ((!) (buf[h := x])) (ring_slots N t h) = map ((!) buf) (ring_slots N t h)"
  proof (rule map_cong [OF refl])
    fix i assume "i \<in> set (ring_slots N t h)"
    with h have "h \<noteq> i" by auto
    then show "buf[h := x] ! i = buf ! i" by simp
  qed
  with assms show ?thesis by (simp add: ring_contents_def ring_slots_snoc)
qed

lemma ring_contents_deq:
  assumes "t < N" "h < N" "t \<noteq> h"
  shows "ring_contents N buf t h = buf ! t # ring_contents N buf (Suc t mod N) h"
  using ring_slots_Cons [OF assms] by (simp add: ring_contents_def)

lemma ring_contents_self [simp]: "ring_contents N buf t t = []"
  by (simp add: ring_contents_def)

section \<open>The interface of a ring index\<close>

text \<open>
  What a client of a ring relies on: the step function moves an index to the next slot, around the
  end. \<open>tail\<close> is the oldest slot, \<open>head\<close> the free one; the ring is full when stepping \<open>head\<close> gives
  \<open>tail\<close>, so one slot stays empty.
\<close>

locale ring =
  fixes nxt :: "'i::len word \<Rightarrow> 'i word" and N :: nat
  assumes unat_nxt: "unat (nxt i) = Suc (unat i) mod N"
    and N_gt_1: "1 < N"
begin

lemma nxt_less: "unat (nxt i) < N"
  using N_gt_1 by (simp add: unat_nxt)

lemma nxt_neq: "unat i < N \<Longrightarrow> nxt i \<noteq> i"
  using N_gt_1 unat_nxt [of i] by (auto simp: mod_if split: if_splits)

lemma nxt_eq_iff: "nxt h = t \<longleftrightarrow> Suc (unat h) mod N = unat t"
  by (metis unat_nxt word_unat_eq_iff)

lemma dist_less: "ring_dist N (unat t) (unat h) < N"
  using N_gt_1 by (simp add: ring_dist_less)

lemma empty_iff:
  "unat t < N \<Longrightarrow> unat h < N \<Longrightarrow> ring_contents N buf (unat t) (unat h) = [] \<longleftrightarrow> t = h"
  by (metis length_0_conv length_ring_contents ring_dist_eq_0_iff word_unat_eq_iff)

lemma full_iff:
  "unat t < N \<Longrightarrow> unat h < N \<Longrightarrow>
    nxt h = t \<longleftrightarrow> length (ring_contents N buf (unat t) (unat h)) = N - 1"
  using ring_dist_full_iff [of "unat t" N "unat h"] N_gt_1 by (simp add: nxt_eq_iff)

lemma enq:
  assumes "length buf = N" "unat t < N" "unat h < N" "nxt h \<noteq> t"
  shows "ring_contents N (buf[unat h := x]) (unat t) (unat (nxt h))
    = ring_contents N buf (unat t) (unat h) @ [x]"
  using ring_contents_enq [OF assms(1-3)] assms(4) by (simp add: nxt_eq_iff unat_nxt)

lemma deq:
  assumes "unat t < N" "unat h < N" "t \<noteq> h"
  shows "ring_contents N buf (unat t) (unat h)
    = buf ! unat t # ring_contents N buf (unat (nxt t)) (unat h)"
  using ring_contents_deq [OF assms(1,2)] assms(3) by (simp add: unat_nxt word_unat_eq_iff)

end

end
