(* ===== verification/Mcu_Regs.thy ===== *)
theory Mcu_Regs
  imports Prelude
begin

text \<open>
  The register map of the microcontroller: base addresses, register offsets, bits and codes of
  \<^verbatim>\<open>sw/include/eriscv_mcu_config.h\<close> and \<^verbatim>\<open>sw/include/eriscv_mcu.h\<close>, under the names of the macros.
  They are abbreviations, so a term holds the number and arithmetic on addresses is evaluated by
  the simplifier. The feature flags and the version numbers of the headers are left out.
\<close>

section \<open>eriscv_mcu_config.h\<close>

abbreviation (input) ERISCV_MCU_PMP_ENTRIES :: u32 where "ERISCV_MCU_PMP_ENTRIES \<equiv> 16"
abbreviation (input) ERISCV_MCU_SOC_CLOCK_HZ :: u32 where "ERISCV_MCU_SOC_CLOCK_HZ \<equiv> 100000000"
abbreviation (input) ERISCV_MCU_UART_BOARD_BAUD :: u32 where "ERISCV_MCU_UART_BOARD_BAUD \<equiv> 115200"
abbreviation (input) ERISCV_MCU_UART_BOARD_DIVISOR :: u32 where "ERISCV_MCU_UART_BOARD_DIVISOR \<equiv> 868"
abbreviation (input) ERISCV_MCU_UART_DIVISOR :: u32 where "ERISCV_MCU_UART_DIVISOR \<equiv> 8"
abbreviation (input) ERISCV_MCU_PLIC_SOURCES :: u32 where "ERISCV_MCU_PLIC_SOURCES \<equiv> 32"
abbreviation (input) ERISCV_MCU_UART0_PLIC_SOURCE :: u32 where "ERISCV_MCU_UART0_PLIC_SOURCE \<equiv> 1"
abbreviation (input) ERISCV_MCU_TIMER0_PLIC_SOURCE :: u32 where "ERISCV_MCU_TIMER0_PLIC_SOURCE \<equiv> 2"
abbreviation (input) ERISCV_MCU_SPI0_PLIC_SOURCE :: u32 where "ERISCV_MCU_SPI0_PLIC_SOURCE \<equiv> 3"
abbreviation (input) ERISCV_MCU_WDT0_PLIC_SOURCE :: u32 where "ERISCV_MCU_WDT0_PLIC_SOURCE \<equiv> 4"
abbreviation (input) ERISCV_MCU_DMA_PLIC_SOURCE :: u32 where "ERISCV_MCU_DMA_PLIC_SOURCE \<equiv> 5"
abbreviation (input) ERISCV_MCU_IMEM_BASE :: u32 where "ERISCV_MCU_IMEM_BASE \<equiv> 0x10000000"
abbreviation (input) ERISCV_MCU_IMEM_SIZE :: u32 where "ERISCV_MCU_IMEM_SIZE \<equiv> 0x20000"
abbreviation (input) ERISCV_MCU_DMEM_BASE :: u32 where "ERISCV_MCU_DMEM_BASE \<equiv> 0x11000000"
abbreviation (input) ERISCV_MCU_DMEM_SIZE :: u32 where "ERISCV_MCU_DMEM_SIZE \<equiv> 0x20000"
abbreviation (input) ERISCV_MCU_BOOT_ADDR :: u32 where "ERISCV_MCU_BOOT_ADDR \<equiv> 0x10000000"
abbreviation (input) ERISCV_MCU_CLINT_BASE :: u32 where "ERISCV_MCU_CLINT_BASE \<equiv> 0x2000000"
abbreviation (input) ERISCV_MCU_PLIC_BASE :: u32 where "ERISCV_MCU_PLIC_BASE \<equiv> 0xc000000"
abbreviation (input) ERISCV_MCU_UART0_BASE :: u32 where "ERISCV_MCU_UART0_BASE \<equiv> 0x40000000"
abbreviation (input) ERISCV_MCU_GPIO0_BASE :: u32 where "ERISCV_MCU_GPIO0_BASE \<equiv> 0x40010000"
abbreviation (input) ERISCV_MCU_TIMER0_BASE :: u32 where "ERISCV_MCU_TIMER0_BASE \<equiv> 0x40020000"
abbreviation (input) ERISCV_MCU_SPI0_BASE :: u32 where "ERISCV_MCU_SPI0_BASE \<equiv> 0x40030000"
abbreviation (input) ERISCV_MCU_WDT0_BASE :: u32 where "ERISCV_MCU_WDT0_BASE \<equiv> 0x40040000"
abbreviation (input) ERISCV_MCU_CLK_RST_BASE :: u32 where "ERISCV_MCU_CLK_RST_BASE \<equiv> 0x40050000"
abbreviation (input) ERISCV_MCU_DMA_BASE :: u32 where "ERISCV_MCU_DMA_BASE \<equiv> 0x50000000"
abbreviation (input) ERISCV_MCU_SYSTEM_SRAM_BASE :: u32 where "ERISCV_MCU_SYSTEM_SRAM_BASE \<equiv> 0x80000000"
abbreviation (input) ERISCV_MCU_SYSTEM_SRAM_SIZE :: u32 where "ERISCV_MCU_SYSTEM_SRAM_SIZE \<equiv> 0x80000"

section \<open>eriscv_mcu.h\<close>

abbreviation (input) ERISCV_MCU_CLINT_MSIP :: u32 where "ERISCV_MCU_CLINT_MSIP \<equiv> 0x0"
abbreviation (input) ERISCV_MCU_CLINT_MTIMECMP :: u32 where "ERISCV_MCU_CLINT_MTIMECMP \<equiv> 0x4000"
abbreviation (input) ERISCV_MCU_CLINT_MTIME :: u32 where "ERISCV_MCU_CLINT_MTIME \<equiv> 0xbff8"
abbreviation (input) ERISCV_MCU_PLIC_PENDING :: u32 where "ERISCV_MCU_PLIC_PENDING \<equiv> 0x1000"
abbreviation (input) ERISCV_MCU_PLIC_ENABLE :: u32 where "ERISCV_MCU_PLIC_ENABLE \<equiv> 0x2000"
abbreviation (input) ERISCV_MCU_PLIC_THRESHOLD :: u32 where "ERISCV_MCU_PLIC_THRESHOLD \<equiv> 0x200000"
abbreviation (input) ERISCV_MCU_PLIC_CLAIM :: u32 where "ERISCV_MCU_PLIC_CLAIM \<equiv> 0x200004"
abbreviation (input) ERISCV_MCU_UART_TXDATA :: u32 where "ERISCV_MCU_UART_TXDATA \<equiv> 0x0"
abbreviation (input) ERISCV_MCU_UART_RXDATA :: u32 where "ERISCV_MCU_UART_RXDATA \<equiv> 0x4"
abbreviation (input) ERISCV_MCU_UART_STATUS :: u32 where "ERISCV_MCU_UART_STATUS \<equiv> 0x8"
abbreviation (input) ERISCV_MCU_UART_BAUDDIV :: u32 where "ERISCV_MCU_UART_BAUDDIV \<equiv> 0xc"
abbreviation (input) ERISCV_MCU_UART_CTRL :: u32 where "ERISCV_MCU_UART_CTRL \<equiv> 0x10"
abbreviation (input) ERISCV_MCU_UART_TX_WATERMARK :: u32 where "ERISCV_MCU_UART_TX_WATERMARK \<equiv> 0x14"
abbreviation (input) ERISCV_MCU_UART_RX_WATERMARK :: u32 where "ERISCV_MCU_UART_RX_WATERMARK \<equiv> 0x18"
abbreviation (input) ERISCV_MCU_UART_IRQ_STATUS :: u32 where "ERISCV_MCU_UART_IRQ_STATUS \<equiv> 0x1c"
abbreviation (input) ERISCV_MCU_UART_STATUS_TX_READY :: u32 where "ERISCV_MCU_UART_STATUS_TX_READY \<equiv> 1"
abbreviation (input) ERISCV_MCU_UART_STATUS_RX_VALID :: u32 where "ERISCV_MCU_UART_STATUS_RX_VALID \<equiv> 2"
abbreviation (input) ERISCV_MCU_UART_STATUS_TX_BUSY :: u32 where "ERISCV_MCU_UART_STATUS_TX_BUSY \<equiv> 4"
abbreviation (input) ERISCV_MCU_UART_STATUS_RX_OVERRUN :: u32 where "ERISCV_MCU_UART_STATUS_RX_OVERRUN \<equiv> 8"
abbreviation (input) ERISCV_MCU_UART_CTRL_TX_ENABLE :: u32 where "ERISCV_MCU_UART_CTRL_TX_ENABLE \<equiv> 1"
abbreviation (input) ERISCV_MCU_UART_CTRL_RX_ENABLE :: u32 where "ERISCV_MCU_UART_CTRL_RX_ENABLE \<equiv> 2"
abbreviation (input) ERISCV_MCU_UART_CTRL_RX_IRQ_EN :: u32 where "ERISCV_MCU_UART_CTRL_RX_IRQ_EN \<equiv> 4"
abbreviation (input) ERISCV_MCU_UART_CTRL_TX_IRQ_EN :: u32 where "ERISCV_MCU_UART_CTRL_TX_IRQ_EN \<equiv> 8"
abbreviation (input) ERISCV_MCU_UART_CTRL_ERR_IRQ_EN :: u32 where "ERISCV_MCU_UART_CTRL_ERR_IRQ_EN \<equiv> 16"
abbreviation (input) ERISCV_MCU_UART_IRQ_RX_WATERMARK :: u32 where "ERISCV_MCU_UART_IRQ_RX_WATERMARK \<equiv> 1"
abbreviation (input) ERISCV_MCU_UART_IRQ_TX_WATERMARK :: u32 where "ERISCV_MCU_UART_IRQ_TX_WATERMARK \<equiv> 2"
abbreviation (input) ERISCV_MCU_UART_IRQ_RX_OVERRUN :: u32 where "ERISCV_MCU_UART_IRQ_RX_OVERRUN \<equiv> 4"
abbreviation (input) ERISCV_MCU_GPIO_OUT :: u32 where "ERISCV_MCU_GPIO_OUT \<equiv> 0x0"
abbreviation (input) ERISCV_MCU_GPIO_IN :: u32 where "ERISCV_MCU_GPIO_IN \<equiv> 0x4"
abbreviation (input) ERISCV_MCU_GPIO_DIR :: u32 where "ERISCV_MCU_GPIO_DIR \<equiv> 0x8"
abbreviation (input) ERISCV_MCU_TIMER_CTRL :: u32 where "ERISCV_MCU_TIMER_CTRL \<equiv> 0x0"
abbreviation (input) ERISCV_MCU_TIMER_COUNT :: u32 where "ERISCV_MCU_TIMER_COUNT \<equiv> 0x4"
abbreviation (input) ERISCV_MCU_TIMER_COMPARE :: u32 where "ERISCV_MCU_TIMER_COMPARE \<equiv> 0x8"
abbreviation (input) ERISCV_MCU_TIMER_STATUS :: u32 where "ERISCV_MCU_TIMER_STATUS \<equiv> 0xc"
abbreviation (input) ERISCV_MCU_TIMER_CTRL_ENABLE :: u32 where "ERISCV_MCU_TIMER_CTRL_ENABLE \<equiv> 1"
abbreviation (input) ERISCV_MCU_TIMER_CTRL_IRQ_EN :: u32 where "ERISCV_MCU_TIMER_CTRL_IRQ_EN \<equiv> 2"
abbreviation (input) ERISCV_MCU_DMA_CTRL :: u32 where "ERISCV_MCU_DMA_CTRL \<equiv> 0x0"
abbreviation (input) ERISCV_MCU_DMA_STATUS :: u32 where "ERISCV_MCU_DMA_STATUS \<equiv> 0x4"
abbreviation (input) ERISCV_MCU_DMA_SRC :: u32 where "ERISCV_MCU_DMA_SRC \<equiv> 0x8"
abbreviation (input) ERISCV_MCU_DMA_DST :: u32 where "ERISCV_MCU_DMA_DST \<equiv> 0xc"
abbreviation (input) ERISCV_MCU_DMA_LEN :: u32 where "ERISCV_MCU_DMA_LEN \<equiv> 0x10"
abbreviation (input) ERISCV_MCU_DMA_DESC_HEAD :: u32 where "ERISCV_MCU_DMA_DESC_HEAD \<equiv> 0x14"
abbreviation (input) ERISCV_MCU_DMA_CTRL_START :: u32 where "ERISCV_MCU_DMA_CTRL_START \<equiv> 1"
abbreviation (input) ERISCV_MCU_DMA_CTRL_IRQ_EN :: u32 where "ERISCV_MCU_DMA_CTRL_IRQ_EN \<equiv> 2"
abbreviation (input) ERISCV_MCU_DMA_CTRL_ABORT :: u32 where "ERISCV_MCU_DMA_CTRL_ABORT \<equiv> 4"
abbreviation (input) ERISCV_MCU_DMA_CTRL_DESC_START :: u32 where "ERISCV_MCU_DMA_CTRL_DESC_START \<equiv> 8"
abbreviation (input) ERISCV_MCU_DMA_CTRL_UART_TX :: u32 where "ERISCV_MCU_DMA_CTRL_UART_TX \<equiv> 16"
abbreviation (input) ERISCV_MCU_DMA_STATUS_BUSY :: u32 where "ERISCV_MCU_DMA_STATUS_BUSY \<equiv> 1"
abbreviation (input) ERISCV_MCU_DMA_STATUS_DONE :: u32 where "ERISCV_MCU_DMA_STATUS_DONE \<equiv> 2"
abbreviation (input) ERISCV_MCU_DMA_STATUS_ERROR :: u32 where "ERISCV_MCU_DMA_STATUS_ERROR \<equiv> 4"
abbreviation (input) ERISCV_MCU_DMA_STATUS_DESC_IRQ :: u32 where "ERISCV_MCU_DMA_STATUS_DESC_IRQ \<equiv> 8"
abbreviation (input) ERISCV_MCU_DMA_OK :: int where "ERISCV_MCU_DMA_OK \<equiv> 0"
abbreviation (input) ERISCV_MCU_DMA_EINVAL :: int where "ERISCV_MCU_DMA_EINVAL \<equiv> - 1"
abbreviation (input) ERISCV_MCU_DMA_EBUSY :: int where "ERISCV_MCU_DMA_EBUSY \<equiv> - 2"
abbreviation (input) ERISCV_MCU_DMA_EIO :: int where "ERISCV_MCU_DMA_EIO \<equiv> - 3"
abbreviation (input) ERISCV_MCU_DMA_ETIMEOUT :: int where "ERISCV_MCU_DMA_ETIMEOUT \<equiv> - 4"
abbreviation (input) ERISCV_MCU_DMA_DESCRIPTOR_ALIGN :: u32 where "ERISCV_MCU_DMA_DESCRIPTOR_ALIGN \<equiv> 32"
abbreviation (input) ERISCV_MCU_DMA_DESCRIPTOR_SIZE :: u32 where "ERISCV_MCU_DMA_DESCRIPTOR_SIZE \<equiv> 32"
abbreviation (input) ERISCV_MCU_DMA_MAX_DESCRIPTOR_COUNT :: u32 where "ERISCV_MCU_DMA_MAX_DESCRIPTOR_COUNT \<equiv> 256"
abbreviation (input) ERISCV_MCU_DMA_DESC_CTRL_OWN :: u32 where "ERISCV_MCU_DMA_DESC_CTRL_OWN \<equiv> 1"
abbreviation (input) ERISCV_MCU_DMA_DESC_CTRL_IRQ_EN :: u32 where "ERISCV_MCU_DMA_DESC_CTRL_IRQ_EN \<equiv> 2"
abbreviation (input) ERISCV_MCU_DMA_DESC_CTRL_END :: u32 where "ERISCV_MCU_DMA_DESC_CTRL_END \<equiv> 4"
abbreviation (input) ERISCV_MCU_DMA_DESC_CTRL_SRC_INC :: u32 where "ERISCV_MCU_DMA_DESC_CTRL_SRC_INC \<equiv> 8"
abbreviation (input) ERISCV_MCU_DMA_DESC_CTRL_DST_INC :: u32 where "ERISCV_MCU_DMA_DESC_CTRL_DST_INC \<equiv> 16"
abbreviation (input) ERISCV_MCU_DMA_DESC_STATUS_DONE :: u32 where "ERISCV_MCU_DMA_DESC_STATUS_DONE \<equiv> 1"
abbreviation (input) ERISCV_MCU_DMA_DESC_STATUS_ERROR :: u32 where "ERISCV_MCU_DMA_DESC_STATUS_ERROR \<equiv> 2"
abbreviation (input) ERISCV_MCU_MIE_MSIE :: u32 where "ERISCV_MCU_MIE_MSIE \<equiv> 8"
abbreviation (input) ERISCV_MCU_MIE_MTIE :: u32 where "ERISCV_MCU_MIE_MTIE \<equiv> 128"
abbreviation (input) ERISCV_MCU_MIE_MEIE :: u32 where "ERISCV_MCU_MIE_MEIE \<equiv> 0x800"
abbreviation (input) ERISCV_MCU_MSTATUS_MIE :: u32 where "ERISCV_MCU_MSTATUS_MIE \<equiv> 8"
abbreviation (input) ERISCV_MCU_MSTATUS_FS_SHIFT :: u32 where "ERISCV_MCU_MSTATUS_FS_SHIFT \<equiv> 13"
abbreviation (input) ERISCV_MCU_MSTATUS_FS_MASK :: u32 where "ERISCV_MCU_MSTATUS_FS_MASK \<equiv> 0x6000"
abbreviation (input) ERISCV_MCU_MSTATUS_FS_INITIAL :: u32 where "ERISCV_MCU_MSTATUS_FS_INITIAL \<equiv> 0x2000"
abbreviation (input) ERISCV_MCU_MSTATUS_FS_DIRTY :: u32 where "ERISCV_MCU_MSTATUS_FS_DIRTY \<equiv> 0x6000"
abbreviation (input) ERISCV_MCU_FFLAGS_NX :: u32 where "ERISCV_MCU_FFLAGS_NX \<equiv> 1"
abbreviation (input) ERISCV_MCU_FFLAGS_UF :: u32 where "ERISCV_MCU_FFLAGS_UF \<equiv> 2"
abbreviation (input) ERISCV_MCU_FFLAGS_OF :: u32 where "ERISCV_MCU_FFLAGS_OF \<equiv> 4"
abbreviation (input) ERISCV_MCU_FFLAGS_DZ :: u32 where "ERISCV_MCU_FFLAGS_DZ \<equiv> 8"
abbreviation (input) ERISCV_MCU_FFLAGS_NV :: u32 where "ERISCV_MCU_FFLAGS_NV \<equiv> 16"
abbreviation (input) ERISCV_MCU_MCAUSE_INTERRUPT :: u32 where "ERISCV_MCU_MCAUSE_INTERRUPT \<equiv> 0x80000000"
abbreviation (input) ERISCV_MCU_MCAUSE_CODE_MASK :: u32 where "ERISCV_MCU_MCAUSE_CODE_MASK \<equiv> 0x7fffffff"
abbreviation (input) ERISCV_MCU_MCAUSE_MSI :: u32 where "ERISCV_MCU_MCAUSE_MSI \<equiv> 3"
abbreviation (input) ERISCV_MCU_MCAUSE_MTI :: u32 where "ERISCV_MCU_MCAUSE_MTI \<equiv> 7"
abbreviation (input) ERISCV_MCU_MCAUSE_MEI :: u32 where "ERISCV_MCU_MCAUSE_MEI \<equiv> 11"
abbreviation (input) ERISCV_MCU_CLKRST_CLK_EN :: u32 where "ERISCV_MCU_CLKRST_CLK_EN \<equiv> 0x0"
abbreviation (input) ERISCV_MCU_CLKRST_CLK_STATUS :: u32 where "ERISCV_MCU_CLKRST_CLK_STATUS \<equiv> 0x4"
abbreviation (input) ERISCV_MCU_CLKRST_PERI_RST :: u32 where "ERISCV_MCU_CLKRST_PERI_RST \<equiv> 0x8"
abbreviation (input) ERISCV_MCU_CLKRST_RST_CAUSE :: u32 where "ERISCV_MCU_CLKRST_RST_CAUSE \<equiv> 0xc"
abbreviation (input) ERISCV_MCU_CLKRST_SLEEP_CTRL :: u32 where "ERISCV_MCU_CLKRST_SLEEP_CTRL \<equiv> 0x10"
abbreviation (input) ERISCV_MCU_CLKRST_WAKE_EN :: u32 where "ERISCV_MCU_CLKRST_WAKE_EN \<equiv> 0x14"
abbreviation (input) ERISCV_MCU_CLKRST_WAKE_STATUS :: u32 where "ERISCV_MCU_CLKRST_WAKE_STATUS \<equiv> 0x18"
abbreviation (input) ERISCV_MCU_CLKRST_SOFT_RST :: u32 where "ERISCV_MCU_CLKRST_SOFT_RST \<equiv> 0x1c"
abbreviation (input) ERISCV_MCU_CLK_UART :: u32 where "ERISCV_MCU_CLK_UART \<equiv> 1"
abbreviation (input) ERISCV_MCU_CLK_SPI :: u32 where "ERISCV_MCU_CLK_SPI \<equiv> 2"
abbreviation (input) ERISCV_MCU_CLK_TIMER :: u32 where "ERISCV_MCU_CLK_TIMER \<equiv> 4"
abbreviation (input) ERISCV_MCU_CLK_GPIO :: u32 where "ERISCV_MCU_CLK_GPIO \<equiv> 8"
abbreviation (input) ERISCV_MCU_CLK_WDT :: u32 where "ERISCV_MCU_CLK_WDT \<equiv> 16"
abbreviation (input) ERISCV_MCU_CLK_ALL :: u32 where "ERISCV_MCU_CLK_ALL \<equiv> 0x1f"
abbreviation (input) ERISCV_MCU_WAKE_UART_RX :: u32 where "ERISCV_MCU_WAKE_UART_RX \<equiv> 1"
abbreviation (input) ERISCV_MCU_WAKE_MTIP :: u32 where "ERISCV_MCU_WAKE_MTIP \<equiv> 512"
abbreviation (input) ERISCV_MCU_WAKE_WDT_PRE :: u32 where "ERISCV_MCU_WAKE_WDT_PRE \<equiv> 0x400"
abbreviation (input) ERISCV_MCU_SLEEP_REQ :: u32 where "ERISCV_MCU_SLEEP_REQ \<equiv> 1"
abbreviation (input) ERISCV_MCU_WFI_SLEEP_EN :: u32 where "ERISCV_MCU_WFI_SLEEP_EN \<equiv> 4"
abbreviation (input) ERISCV_MCU_WDT_CTRL :: u32 where "ERISCV_MCU_WDT_CTRL \<equiv> 0x0"
abbreviation (input) ERISCV_MCU_WDT_TIMEOUT :: u32 where "ERISCV_MCU_WDT_TIMEOUT \<equiv> 0x4"
abbreviation (input) ERISCV_MCU_WDT_WINDOW :: u32 where "ERISCV_MCU_WDT_WINDOW \<equiv> 0x8"
abbreviation (input) ERISCV_MCU_WDT_FEED :: u32 where "ERISCV_MCU_WDT_FEED \<equiv> 0xc"
abbreviation (input) ERISCV_MCU_WDT_STATUS :: u32 where "ERISCV_MCU_WDT_STATUS \<equiv> 0x10"
abbreviation (input) ERISCV_MCU_WDT_LOCK :: u32 where "ERISCV_MCU_WDT_LOCK \<equiv> 0x14"
abbreviation (input) ERISCV_MCU_WDT_PRETIMEOUT :: u32 where "ERISCV_MCU_WDT_PRETIMEOUT \<equiv> 0x18"
abbreviation (input) ERISCV_MCU_WDT_FEED_MAGIC :: u32 where "ERISCV_MCU_WDT_FEED_MAGIC \<equiv> 0xacce55ed"
abbreviation (input) ERISCV_MCU_WDT_CTRL_ENABLE :: u32 where "ERISCV_MCU_WDT_CTRL_ENABLE \<equiv> 1"
abbreviation (input) ERISCV_MCU_WDT_CTRL_WINDOW :: u32 where "ERISCV_MCU_WDT_CTRL_WINDOW \<equiv> 2"
abbreviation (input) ERISCV_MCU_WDT_CTRL_IRQ_EN :: u32 where "ERISCV_MCU_WDT_CTRL_IRQ_EN \<equiv> 4"
abbreviation (input) ERISCV_MCU_WDT_STATUS_EXPIRED :: u32 where "ERISCV_MCU_WDT_STATUS_EXPIRED \<equiv> 1"
abbreviation (input) ERISCV_MCU_WDT_STATUS_RESET :: u32 where "ERISCV_MCU_WDT_STATUS_RESET \<equiv> 2"
abbreviation (input) ERISCV_MCU_WDT_STATUS_LOCKED :: u32 where "ERISCV_MCU_WDT_STATUS_LOCKED \<equiv> 4"
abbreviation (input) ERISCV_MCU_WDT_STATUS_PRETIMEOUT :: u32 where "ERISCV_MCU_WDT_STATUS_PRETIMEOUT \<equiv> 8"

text \<open>The macros with an argument: the PLIC priority register of a source, a GPIO wake source.\<close>

definition ERISCV_MCU_PLIC_PRIORITY :: "u32 \<Rightarrow> u32" where
  [simp]: "ERISCV_MCU_PLIC_PRIORITY i = 4 * i"

definition ERISCV_MCU_WAKE_GPIO :: "u32 \<Rightarrow> u32" where
  "ERISCV_MCU_WAKE_GPIO n = push_bit (unat (1 + n)) 1"

end
