(* ===== verification/Machine.thy ===== *)
theory Machine
  imports Mcu_Regs
begin

text \<open>
  The machine the bare-metal code runs on: the devices behind the memory-mapped bus, the control and
  status registers the code touches, and a trace of every bus access, CSR access and fence in
  program order. The devices are a parameter: a \<open>bus\<close> says how their state answers a load and takes
  a store, and whatever happens between two accesses (time, arriving bytes) is part of that state's
  own evolution. The RTL models of the peripherals are instances of it.

  Every driver is a function on a state record that extends \<open>mach\<close>, so its static variables sit in
  the same record; a polling loop that may not end returns an \<open>option\<close>, \<open>None\<close> for never.
\<close>

section \<open>Bus, CSRs and trace\<close>

record 'd bus =
  bus_rd :: "u32 \<Rightarrow> 'd \<Rightarrow> u32 \<times> 'd"
  bus_wr :: "u32 \<Rightarrow> u32 \<Rightarrow> 'd \<Rightarrow> 'd"

datatype csr = Mstatus | Mie | Mtvec | Mcause | Mtval | Fcsr | Pmpcfg0 | Pmpaddr0 | Pmpaddr1

datatype access =
    Rd u32 u32          \<comment> \<open>load: address, value\<close>
  | Wr u32 u32          \<comment> \<open>store: address, value\<close>
  | CsrRd csr u32       \<comment> \<open>csrr\<close>
  | CsrWr csr u32       \<comment> \<open>csrw\<close>
  | CsrSet csr u32      \<comment> \<open>csrs\<close>
  | CsrClr csr u32      \<comment> \<open>csrc\<close>
  | Fence
  | Wfi

record 'd mach =
  dev :: 'd
  csrs :: "csr \<Rightarrow> u32"
  ram :: "u32 \<Rightarrow> u8"     \<comment> \<open>the program's own memory, by byte address\<close>
  trace :: "access list"

text \<open>An aligned word of memory, little endian.\<close>

definition load_word :: "(u32 \<Rightarrow> u8) \<Rightarrow> u32 \<Rightarrow> u32" where
  "load_word r a = ucast (r a) OR push_bit 8 (ucast (r (a + 1))) OR
     push_bit 16 (ucast (r (a + 2))) OR push_bit 24 (ucast (r (a + 3)))"

section \<open>Instructions the code issues\<close>

definition csr_read :: "csr \<Rightarrow> ('d, 'e) mach_scheme \<Rightarrow> u32 \<times> ('d, 'e) mach_scheme" where
  "csr_read c m = (csrs m c, m\<lparr>trace := trace m @ [CsrRd c (csrs m c)]\<rparr>)"

definition csr_write :: "csr \<Rightarrow> u32 \<Rightarrow> ('d, 'e) mach_scheme \<Rightarrow> ('d, 'e) mach_scheme" where
  "csr_write c v m = m\<lparr>csrs := (csrs m)(c := v), trace := trace m @ [CsrWr c v]\<rparr>"

definition csr_set :: "csr \<Rightarrow> u32 \<Rightarrow> ('d, 'e) mach_scheme \<Rightarrow> ('d, 'e) mach_scheme" where
  "csr_set c v m = m\<lparr>csrs := (csrs m)(c := csrs m c OR v), trace := trace m @ [CsrSet c v]\<rparr>"

definition csr_clear :: "csr \<Rightarrow> u32 \<Rightarrow> ('d, 'e) mach_scheme \<Rightarrow> ('d, 'e) mach_scheme" where
  "csr_clear c v m =
     m\<lparr>csrs := (csrs m)(c := csrs m c AND NOT v), trace := trace m @ [CsrClr c v]\<rparr>"

definition fence :: "('d, 'e) mach_scheme \<Rightarrow> ('d, 'e) mach_scheme" where
  "fence m = m\<lparr>trace := trace m @ [Fence]\<rparr>"

definition wfi :: "('d, 'e) mach_scheme \<Rightarrow> ('d, 'e) mach_scheme" where
  "wfi m = m\<lparr>trace := trace m @ [Wfi]\<rparr>"

definition eriscv_mcu_mmio_write32 ::
    "'d bus \<Rightarrow> u32 \<Rightarrow> u32 \<Rightarrow> ('d, 'e) mach_scheme \<Rightarrow> ('d, 'e) mach_scheme" where
  "eriscv_mcu_mmio_write32 B addr value m =
     m\<lparr>dev := bus_wr B addr value (dev m), trace := trace m @ [Wr addr value]\<rparr>"

definition eriscv_mcu_mmio_read32 ::
    "'d bus \<Rightarrow> u32 \<Rightarrow> ('d, 'e) mach_scheme \<Rightarrow> u32 \<times> ('d, 'e) mach_scheme" where
  "eriscv_mcu_mmio_read32 B addr m =
     (let (v, d) = bus_rd B addr (dev m)
      in (v, m\<lparr>dev := d, trace := trace m @ [Rd addr v]\<rparr>))"

text \<open>
  The value a load returns and the state it leaves, apart: straight-line code reads better, and
  simplifies better, in this form.
\<close>

lemma mmio_read32_eq:
  "eriscv_mcu_mmio_read32 B a m =
    (fst (bus_rd B a (dev m)),
     m\<lparr>dev := snd (bus_rd B a (dev m)), trace := trace m @ [Rd a (fst (bus_rd B a (dev m)))]\<rparr>)"
  by (simp add: eriscv_mcu_mmio_read32_def split: prod.split)

lemmas mach_simps =
  mmio_read32_eq eriscv_mcu_mmio_write32_def csr_read_def csr_write_def csr_set_def csr_clear_def
  fence_def wfi_def

section \<open>Floating-point state and machine interrupts\<close>

text \<open>\<open>fflags\<close> is the low five bits of \<open>fcsr\<close>.\<close>

definition eriscv_mcu_fp_enable :: "('d, 'e) mach_scheme \<Rightarrow> ('d, 'e) mach_scheme" where
  "eriscv_mcu_fp_enable m = csr_set Mstatus ERISCV_MCU_MSTATUS_FS_INITIAL m"

definition eriscv_mcu_fp_read_mstatus ::
    "('d, 'e) mach_scheme \<Rightarrow> u32 \<times> ('d, 'e) mach_scheme" where
  "eriscv_mcu_fp_read_mstatus m = csr_read Mstatus m"

definition eriscv_mcu_fp_read_fflags ::
    "('d, 'e) mach_scheme \<Rightarrow> u32 \<times> ('d, 'e) mach_scheme" where
  "eriscv_mcu_fp_read_fflags m = (let (v, m) = csr_read Fcsr m in (v AND 0x1f, m))"

definition eriscv_mcu_fp_clear_fflags :: "('d, 'e) mach_scheme \<Rightarrow> ('d, 'e) mach_scheme" where
  "eriscv_mcu_fp_clear_fflags m = csr_clear Fcsr 0x1f m"

definition eriscv_mcu_fp_read_fcsr ::
    "('d, 'e) mach_scheme \<Rightarrow> u32 \<times> ('d, 'e) mach_scheme" where
  "eriscv_mcu_fp_read_fcsr m = csr_read Fcsr m"

definition eriscv_mcu_fp_write_fcsr ::
    "u32 \<Rightarrow> ('d, 'e) mach_scheme \<Rightarrow> ('d, 'e) mach_scheme" where
  "eriscv_mcu_fp_write_fcsr value m = csr_write Fcsr value m"

definition eriscv_mcu_enable_machine_irqs ::
    "u32 \<Rightarrow> ('d, 'e) mach_scheme \<Rightarrow> ('d, 'e) mach_scheme" where
  "eriscv_mcu_enable_machine_irqs msk m =
     csr_set Mstatus ERISCV_MCU_MSTATUS_MIE (csr_set Mie msk m)"

definition eriscv_mcu_disable_machine_irqs :: "('d, 'e) mach_scheme \<Rightarrow> ('d, 'e) mach_scheme" where
  "eriscv_mcu_disable_machine_irqs m = csr_clear Mstatus ERISCV_MCU_MSTATUS_MIE m"

section \<open>Reading a trace\<close>

text \<open>The values stored to an address, the values loaded from it, in order.\<close>

fun writes_to :: "u32 \<Rightarrow> access list \<Rightarrow> u32 list" where
  "writes_to a [] = []"
| "writes_to a (Wr b v # es) = (if b = a then v # writes_to a es else writes_to a es)"
| "writes_to a (_ # es) = writes_to a es"

fun reads_of :: "u32 \<Rightarrow> access list \<Rightarrow> u32 list" where
  "reads_of a [] = []"
| "reads_of a (Rd b v # es) = (if b = a then v # reads_of a es else reads_of a es)"
| "reads_of a (_ # es) = reads_of a es"

lemma writes_to_append [simp]: "writes_to a (xs @ ys) = writes_to a xs @ writes_to a ys"
  by (induction a xs rule: writes_to.induct) auto

lemma reads_of_append [simp]: "reads_of a (xs @ ys) = reads_of a xs @ reads_of a ys"
  by (induction a xs rule: reads_of.induct) auto

text \<open>No CSR access: code between masking and unmasking interrupts.\<close>

fun csr_free :: "access list \<Rightarrow> bool" where
  "csr_free [] = True"
| "csr_free (CsrRd _ _ # _) = False"
| "csr_free (CsrWr _ _ # _) = False"
| "csr_free (CsrSet _ _ # _) = False"
| "csr_free (CsrClr _ _ # _) = False"
| "csr_free (_ # es) = csr_free es"

lemma csr_free_append [simp]: "csr_free (xs @ ys) \<longleftrightarrow> csr_free xs \<and> csr_free ys"
  by (induction xs rule: csr_free.induct) auto

end
