(* ===== verification/Mcu_Bsp.thy ===== *)
theory Mcu_Bsp
  imports Machine
begin

text \<open>
  The inline functions of \<^verbatim>\<open>sw/include/eriscv_mcu.h\<close> for the CLINT, the PLIC, the GPIO, the APB timer,
  the clock and reset controller and the watchdog. Each is the access sequence of its C body.
\<close>

section \<open>CLINT\<close>

definition eriscv_mcu_clint_set_msip ::
    "'d bus \<Rightarrow> int \<Rightarrow> ('d, 'e) mach_scheme \<Rightarrow> ('d, 'e) mach_scheme" where
  "eriscv_mcu_clint_set_msip B pending m =
     eriscv_mcu_mmio_write32 B (ERISCV_MCU_CLINT_BASE + ERISCV_MCU_CLINT_MSIP)
       (if pending \<noteq> 0 then 1 else 0) m"

definition eriscv_mcu_clint_set_mtimecmp ::
    "'d bus \<Rightarrow> u64 \<Rightarrow> ('d, 'e) mach_scheme \<Rightarrow> ('d, 'e) mach_scheme" where
  "eriscv_mcu_clint_set_mtimecmp B value m =
    (let m = eriscv_mcu_mmio_write32 B (ERISCV_MCU_CLINT_BASE + ERISCV_MCU_CLINT_MTIMECMP + 4)
               0xffffffff m;
         m = eriscv_mcu_mmio_write32 B (ERISCV_MCU_CLINT_BASE + ERISCV_MCU_CLINT_MTIMECMP)
               (ucast value) m
     in eriscv_mcu_mmio_write32 B (ERISCV_MCU_CLINT_BASE + ERISCV_MCU_CLINT_MTIMECMP + 4)
          (ucast (drop_bit 32 value)) m)"

text \<open>High word, low word, high word again, until the two high words agree.\<close>

partial_function (option) eriscv_mcu_clint_read_mtime ::
    "'d bus \<Rightarrow> ('d, 'e) mach_scheme \<Rightarrow> (u64 \<times> ('d, 'e) mach_scheme) option" where
  "eriscv_mcu_clint_read_mtime B m =
    (let (hi, m) = eriscv_mcu_mmio_read32 B (ERISCV_MCU_CLINT_BASE + ERISCV_MCU_CLINT_MTIME + 4) m;
         (lo, m) = eriscv_mcu_mmio_read32 B (ERISCV_MCU_CLINT_BASE + ERISCV_MCU_CLINT_MTIME) m;
         (hi2, m) = eriscv_mcu_mmio_read32 B (ERISCV_MCU_CLINT_BASE + ERISCV_MCU_CLINT_MTIME + 4) m
     in if hi \<noteq> hi2 then eriscv_mcu_clint_read_mtime B m
        else Some (push_bit 32 (ucast hi) OR ucast lo, m))"

section \<open>PLIC\<close>

definition eriscv_mcu_plic_set_priority ::
    "'d bus \<Rightarrow> u32 \<Rightarrow> u32 \<Rightarrow> ('d, 'e) mach_scheme \<Rightarrow> ('d, 'e) mach_scheme" where
  "eriscv_mcu_plic_set_priority B source_id priority m =
    (if source_id \<noteq> 0 \<and> source_id \<le> ERISCV_MCU_PLIC_SOURCES
     then eriscv_mcu_mmio_write32 B
            (ERISCV_MCU_PLIC_BASE + ERISCV_MCU_PLIC_PRIORITY source_id) (priority AND 7) m
     else m)"

definition eriscv_mcu_plic_set_enabled ::
    "'d bus \<Rightarrow> u32 \<Rightarrow> int \<Rightarrow> ('d, 'e) mach_scheme \<Rightarrow> ('d, 'e) mach_scheme" where
  "eriscv_mcu_plic_set_enabled B source_id enabled m =
    (if source_id = 0 \<or> source_id > ERISCV_MCU_PLIC_SOURCES then m
     else
       let address = ERISCV_MCU_PLIC_BASE + ERISCV_MCU_PLIC_ENABLE + 4 * drop_bit 5 source_id;
           (value, m) = eriscv_mcu_mmio_read32 B address m;
           value = (if enabled \<noteq> 0 then value OR push_bit (unat (source_id AND 31)) 1
                    else value AND NOT (push_bit (unat (source_id AND 31)) 1))
       in eriscv_mcu_mmio_write32 B address value m)"

definition eriscv_mcu_plic_set_threshold ::
    "'d bus \<Rightarrow> u32 \<Rightarrow> ('d, 'e) mach_scheme \<Rightarrow> ('d, 'e) mach_scheme" where
  "eriscv_mcu_plic_set_threshold B threshold m =
     eriscv_mcu_mmio_write32 B (ERISCV_MCU_PLIC_BASE + ERISCV_MCU_PLIC_THRESHOLD) (threshold AND 7) m"

definition eriscv_mcu_plic_claim ::
    "'d bus \<Rightarrow> ('d, 'e) mach_scheme \<Rightarrow> u32 \<times> ('d, 'e) mach_scheme" where
  "eriscv_mcu_plic_claim B m =
     eriscv_mcu_mmio_read32 B (ERISCV_MCU_PLIC_BASE + ERISCV_MCU_PLIC_CLAIM) m"

definition eriscv_mcu_plic_complete ::
    "'d bus \<Rightarrow> u32 \<Rightarrow> ('d, 'e) mach_scheme \<Rightarrow> ('d, 'e) mach_scheme" where
  "eriscv_mcu_plic_complete B source_id m =
     eriscv_mcu_mmio_write32 B (ERISCV_MCU_PLIC_BASE + ERISCV_MCU_PLIC_CLAIM) source_id m"

section \<open>GPIO and APB timer\<close>

definition eriscv_mcu_gpio_set_direction ::
    "'d bus \<Rightarrow> u32 \<Rightarrow> ('d, 'e) mach_scheme \<Rightarrow> ('d, 'e) mach_scheme" where
  "eriscv_mcu_gpio_set_direction B bits m =
     eriscv_mcu_mmio_write32 B (ERISCV_MCU_GPIO0_BASE + ERISCV_MCU_GPIO_DIR) bits m"

definition eriscv_mcu_gpio_write ::
    "'d bus \<Rightarrow> u32 \<Rightarrow> ('d, 'e) mach_scheme \<Rightarrow> ('d, 'e) mach_scheme" where
  "eriscv_mcu_gpio_write B value m =
     eriscv_mcu_mmio_write32 B (ERISCV_MCU_GPIO0_BASE + ERISCV_MCU_GPIO_OUT) value m"

definition eriscv_mcu_timer_start ::
    "'d bus \<Rightarrow> u32 \<Rightarrow> int \<Rightarrow> ('d, 'e) mach_scheme \<Rightarrow> ('d, 'e) mach_scheme" where
  "eriscv_mcu_timer_start B compare irq_en m =
    (let m = eriscv_mcu_mmio_write32 B (ERISCV_MCU_TIMER0_BASE + ERISCV_MCU_TIMER_COMPARE) compare m;
         ctrl = ERISCV_MCU_TIMER_CTRL_ENABLE;
         ctrl = (if irq_en \<noteq> 0 then ctrl OR ERISCV_MCU_TIMER_CTRL_IRQ_EN else ctrl);
         m = eriscv_mcu_mmio_write32 B (ERISCV_MCU_TIMER0_BASE + ERISCV_MCU_TIMER_COUNT) 0 m
     in eriscv_mcu_mmio_write32 B (ERISCV_MCU_TIMER0_BASE + ERISCV_MCU_TIMER_CTRL) ctrl m)"

definition eriscv_mcu_timer_expired ::
    "'d bus \<Rightarrow> ('d, 'e) mach_scheme \<Rightarrow> bool \<times> ('d, 'e) mach_scheme" where
  "eriscv_mcu_timer_expired B m =
    (let (v, m) = eriscv_mcu_mmio_read32 B (ERISCV_MCU_TIMER0_BASE + ERISCV_MCU_TIMER_STATUS) m
     in (v AND 1 \<noteq> 0, m))"

section \<open>Clock and reset controller\<close>

definition eriscv_mcu_clk_enable ::
    "'d bus \<Rightarrow> u32 \<Rightarrow> ('d, 'e) mach_scheme \<Rightarrow> ('d, 'e) mach_scheme" where
  "eriscv_mcu_clk_enable B msk m =
    (let (value, m) = eriscv_mcu_mmio_read32 B
                        (ERISCV_MCU_CLK_RST_BASE + ERISCV_MCU_CLKRST_CLK_EN) m
     in eriscv_mcu_mmio_write32 B (ERISCV_MCU_CLK_RST_BASE + ERISCV_MCU_CLKRST_CLK_EN)
          (value OR (msk AND ERISCV_MCU_CLK_ALL)) m)"

definition eriscv_mcu_clk_disable ::
    "'d bus \<Rightarrow> u32 \<Rightarrow> ('d, 'e) mach_scheme \<Rightarrow> ('d, 'e) mach_scheme" where
  "eriscv_mcu_clk_disable B msk m =
    (let (value, m) = eriscv_mcu_mmio_read32 B
                        (ERISCV_MCU_CLK_RST_BASE + ERISCV_MCU_CLKRST_CLK_EN) m
     in eriscv_mcu_mmio_write32 B (ERISCV_MCU_CLK_RST_BASE + ERISCV_MCU_CLKRST_CLK_EN)
          (value AND NOT (msk AND ERISCV_MCU_CLK_ALL)) m)"

definition eriscv_mcu_clk_status ::
    "'d bus \<Rightarrow> ('d, 'e) mach_scheme \<Rightarrow> u32 \<times> ('d, 'e) mach_scheme" where
  "eriscv_mcu_clk_status B m =
     eriscv_mcu_mmio_read32 B (ERISCV_MCU_CLK_RST_BASE + ERISCV_MCU_CLKRST_CLK_STATUS) m"

definition eriscv_mcu_peripheral_reset ::
    "'d bus \<Rightarrow> u32 \<Rightarrow> ('d, 'e) mach_scheme \<Rightarrow> ('d, 'e) mach_scheme" where
  "eriscv_mcu_peripheral_reset B msk m =
     eriscv_mcu_mmio_write32 B (ERISCV_MCU_CLK_RST_BASE + ERISCV_MCU_CLKRST_PERI_RST)
       (msk AND ERISCV_MCU_CLK_ALL) m"

definition eriscv_mcu_reset_cause ::
    "'d bus \<Rightarrow> ('d, 'e) mach_scheme \<Rightarrow> u32 \<times> ('d, 'e) mach_scheme" where
  "eriscv_mcu_reset_cause B m =
     eriscv_mcu_mmio_read32 B (ERISCV_MCU_CLK_RST_BASE + ERISCV_MCU_CLKRST_RST_CAUSE) m"

definition eriscv_mcu_wfi_sleep_enable ::
    "'d bus \<Rightarrow> int \<Rightarrow> ('d, 'e) mach_scheme \<Rightarrow> ('d, 'e) mach_scheme" where
  "eriscv_mcu_wfi_sleep_enable B enable m =
     eriscv_mcu_mmio_write32 B (ERISCV_MCU_CLK_RST_BASE + ERISCV_MCU_CLKRST_SLEEP_CTRL)
       (if enable \<noteq> 0 then ERISCV_MCU_WFI_SLEEP_EN else 0) m"

definition eriscv_mcu_enter_sleep ::
    "'d bus \<Rightarrow> ('d, 'e) mach_scheme \<Rightarrow> ('d, 'e) mach_scheme" where
  "eriscv_mcu_enter_sleep B m =
     wfi (fence (eriscv_mcu_mmio_write32 B
       (ERISCV_MCU_CLK_RST_BASE + ERISCV_MCU_CLKRST_SLEEP_CTRL) ERISCV_MCU_SLEEP_REQ m))"

definition eriscv_mcu_wake_enable ::
    "'d bus \<Rightarrow> u32 \<Rightarrow> ('d, 'e) mach_scheme \<Rightarrow> ('d, 'e) mach_scheme" where
  "eriscv_mcu_wake_enable B msk m =
    (let (value, m) = eriscv_mcu_mmio_read32 B
                        (ERISCV_MCU_CLK_RST_BASE + ERISCV_MCU_CLKRST_WAKE_EN) m
     in eriscv_mcu_mmio_write32 B (ERISCV_MCU_CLK_RST_BASE + ERISCV_MCU_CLKRST_WAKE_EN)
          (value OR (msk AND 0x7ff)) m)"

definition eriscv_mcu_wake_disable ::
    "'d bus \<Rightarrow> u32 \<Rightarrow> ('d, 'e) mach_scheme \<Rightarrow> ('d, 'e) mach_scheme" where
  "eriscv_mcu_wake_disable B msk m =
    (let (value, m) = eriscv_mcu_mmio_read32 B
                        (ERISCV_MCU_CLK_RST_BASE + ERISCV_MCU_CLKRST_WAKE_EN) m
     in eriscv_mcu_mmio_write32 B (ERISCV_MCU_CLK_RST_BASE + ERISCV_MCU_CLKRST_WAKE_EN)
          (value AND NOT (msk AND 0x7ff)) m)"

definition eriscv_mcu_wake_status ::
    "'d bus \<Rightarrow> ('d, 'e) mach_scheme \<Rightarrow> u32 \<times> ('d, 'e) mach_scheme" where
  "eriscv_mcu_wake_status B m =
     eriscv_mcu_mmio_read32 B (ERISCV_MCU_CLK_RST_BASE + ERISCV_MCU_CLKRST_WAKE_STATUS) m"

definition eriscv_mcu_wake_status_clear ::
    "'d bus \<Rightarrow> u32 \<Rightarrow> ('d, 'e) mach_scheme \<Rightarrow> ('d, 'e) mach_scheme" where
  "eriscv_mcu_wake_status_clear B msk m =
     eriscv_mcu_mmio_write32 B (ERISCV_MCU_CLK_RST_BASE + ERISCV_MCU_CLKRST_WAKE_STATUS)
       (msk AND 0x7ff) m"

definition eriscv_mcu_soft_reset ::
    "'d bus \<Rightarrow> ('d, 'e) mach_scheme \<Rightarrow> ('d, 'e) mach_scheme" where
  "eriscv_mcu_soft_reset B m =
     eriscv_mcu_mmio_write32 B (ERISCV_MCU_CLK_RST_BASE + ERISCV_MCU_CLKRST_SOFT_RST) 1 m"

section \<open>Watchdog\<close>

definition eriscv_mcu_wdt_set_timeout ::
    "'d bus \<Rightarrow> u32 \<Rightarrow> ('d, 'e) mach_scheme \<Rightarrow> ('d, 'e) mach_scheme" where
  "eriscv_mcu_wdt_set_timeout B cycles m =
     eriscv_mcu_mmio_write32 B (ERISCV_MCU_WDT0_BASE + ERISCV_MCU_WDT_TIMEOUT) cycles m"

definition eriscv_mcu_wdt_set_window ::
    "'d bus \<Rightarrow> u32 \<Rightarrow> ('d, 'e) mach_scheme \<Rightarrow> ('d, 'e) mach_scheme" where
  "eriscv_mcu_wdt_set_window B open_at_remaining_cycles m =
     eriscv_mcu_mmio_write32 B (ERISCV_MCU_WDT0_BASE + ERISCV_MCU_WDT_WINDOW)
       open_at_remaining_cycles m"

definition eriscv_mcu_wdt_set_pretimeout ::
    "'d bus \<Rightarrow> u32 \<Rightarrow> ('d, 'e) mach_scheme \<Rightarrow> ('d, 'e) mach_scheme" where
  "eriscv_mcu_wdt_set_pretimeout B remaining_cycles m =
     eriscv_mcu_mmio_write32 B (ERISCV_MCU_WDT0_BASE + ERISCV_MCU_WDT_PRETIMEOUT) remaining_cycles m"

definition eriscv_mcu_wdt_enable ::
    "'d bus \<Rightarrow> int \<Rightarrow> ('d, 'e) mach_scheme \<Rightarrow> ('d, 'e) mach_scheme" where
  "eriscv_mcu_wdt_enable B irq_en m =
    (let ctrl = ERISCV_MCU_WDT_CTRL_ENABLE;
         ctrl = (if irq_en \<noteq> 0 then ctrl OR ERISCV_MCU_WDT_CTRL_IRQ_EN else ctrl)
     in eriscv_mcu_mmio_write32 B (ERISCV_MCU_WDT0_BASE + ERISCV_MCU_WDT_CTRL) ctrl m)"

definition eriscv_mcu_wdt_feed ::
    "'d bus \<Rightarrow> ('d, 'e) mach_scheme \<Rightarrow> ('d, 'e) mach_scheme" where
  "eriscv_mcu_wdt_feed B m =
     eriscv_mcu_mmio_write32 B (ERISCV_MCU_WDT0_BASE + ERISCV_MCU_WDT_FEED)
       ERISCV_MCU_WDT_FEED_MAGIC m"

definition eriscv_mcu_wdt_lock ::
    "'d bus \<Rightarrow> ('d, 'e) mach_scheme \<Rightarrow> ('d, 'e) mach_scheme" where
  "eriscv_mcu_wdt_lock B m =
     eriscv_mcu_mmio_write32 B (ERISCV_MCU_WDT0_BASE + ERISCV_MCU_WDT_LOCK) 1 m"

definition eriscv_mcu_wdt_status ::
    "'d bus \<Rightarrow> ('d, 'e) mach_scheme \<Rightarrow> u32 \<times> ('d, 'e) mach_scheme" where
  "eriscv_mcu_wdt_status B m =
     eriscv_mcu_mmio_read32 B (ERISCV_MCU_WDT0_BASE + ERISCV_MCU_WDT_STATUS) m"

definition eriscv_mcu_wdt_clear_expired ::
    "'d bus \<Rightarrow> ('d, 'e) mach_scheme \<Rightarrow> ('d, 'e) mach_scheme" where
  "eriscv_mcu_wdt_clear_expired B m =
     eriscv_mcu_mmio_write32 B (ERISCV_MCU_WDT0_BASE + ERISCV_MCU_WDT_STATUS)
       ERISCV_MCU_WDT_STATUS_EXPIRED m"

definition eriscv_mcu_wdt_clear_pretimeout ::
    "'d bus \<Rightarrow> ('d, 'e) mach_scheme \<Rightarrow> ('d, 'e) mach_scheme" where
  "eriscv_mcu_wdt_clear_pretimeout B m =
     eriscv_mcu_mmio_write32 B (ERISCV_MCU_WDT0_BASE + ERISCV_MCU_WDT_STATUS)
       ERISCV_MCU_WDT_STATUS_PRETIMEOUT m"

lemmas bsp_defs =
  eriscv_mcu_clint_set_msip_def eriscv_mcu_clint_set_mtimecmp_def eriscv_mcu_plic_set_priority_def
  eriscv_mcu_plic_set_enabled_def eriscv_mcu_plic_set_threshold_def eriscv_mcu_plic_claim_def
  eriscv_mcu_plic_complete_def eriscv_mcu_timer_start_def eriscv_mcu_timer_expired_def

end
