(* ===== verification/Bsp_Uart.thy ===== *)
theory Bsp_Uart
  imports Mcu_Bsp "HOL-Library.Sublist"
begin

text \<open>
  The UART driver \<^verbatim>\<open>sw/lib/uart.c\<close>: the polling functions, and the interrupt-driven FIFOs, two rings of
  128 words whose indices step with \<open>uart_ring_next\<close>. The foreground functions run with machine
  interrupts masked, so each is one step between interrupts; \<open>eriscv_mcu_uart_irq_handler\<close> is the other
  kind of step.
\<close>

section \<open>State\<close>

abbreviation (input) ERISCV_MCU_UART_ASYNC_TX_BUFFER_SIZE :: u32 where
  "ERISCV_MCU_UART_ASYNC_TX_BUFFER_SIZE \<equiv> 128"
abbreviation (input) ERISCV_MCU_UART_ASYNC_RX_BUFFER_SIZE :: u32 where
  "ERISCV_MCU_UART_ASYNC_RX_BUFFER_SIZE \<equiv> 128"
abbreviation (input) ERISCV_MCU_UART_ASYNC_TX_WATERMARK :: u32 where
  "ERISCV_MCU_UART_ASYNC_TX_WATERMARK \<equiv> 8"
abbreviation (input) ERISCV_MCU_UART_ASYNC_RX_WATERMARK :: u32 where
  "ERISCV_MCU_UART_ASYNC_RX_WATERMARK \<equiv> 1"

record 'd uart = "'d mach" +
  tx_buffer :: "u32 list"
  rx_buffer :: "u32 list"
  tx_head :: u32
  tx_tail :: u32
  rx_head :: u32
  rx_tail :: u32
  rx_dropped :: u32

section \<open>Helpers\<close>

definition uart_irq_save :: "('d, 'e) mach_scheme \<Rightarrow> u32 \<times> ('d, 'e) mach_scheme" where
  "uart_irq_save m =
    (let (mstatus, m) = csr_read Mstatus m
     in (mstatus, csr_clear Mstatus ERISCV_MCU_MSTATUS_MIE m))"

definition uart_irq_restore :: "u32 \<Rightarrow> ('d, 'e) mach_scheme \<Rightarrow> ('d, 'e) mach_scheme" where
  "uart_irq_restore mstatus m =
    (if mstatus AND ERISCV_MCU_MSTATUS_MIE \<noteq> 0 then csr_set Mstatus ERISCV_MCU_MSTATUS_MIE m else m)"

definition uart_ring_next :: "u32 \<Rightarrow> u32 \<Rightarrow> u32" where
  "uart_ring_next index sz = (index + 1) AND (sz - 1)"

definition uart_load_byte :: "(u32 \<Rightarrow> u8) \<Rightarrow> u32 \<Rightarrow> u32 \<Rightarrow> u32" where
  "uart_load_byte r data index =
    (let address = data + index;
         w = load_word r (address AND NOT 3)
     in drop_bit (unat ((address AND 3) * 8)) w AND 0xff)"

section \<open>Interrupt service\<close>

partial_function (option) uart_tx_drain :: "'d bus \<Rightarrow> 'd uart \<Rightarrow> 'd uart option" where
  "uart_tx_drain B m =
    (if tx_tail m = tx_head m then Some m
     else
       let (status, m) = eriscv_mcu_mmio_read32 B
                           (ERISCV_MCU_UART0_BASE + ERISCV_MCU_UART_STATUS) m
       in if status AND ERISCV_MCU_UART_STATUS_TX_READY = 0 then Some m
          else
            let m = eriscv_mcu_mmio_write32 B (ERISCV_MCU_UART0_BASE + ERISCV_MCU_UART_TXDATA)
                      (tx_buffer m ! unat (tx_tail m)) m
            in uart_tx_drain B
                 (m\<lparr>tx_tail := uart_ring_next (tx_tail m) ERISCV_MCU_UART_ASYNC_TX_BUFFER_SIZE\<rparr>))"

definition uart_tx_irq_update :: "'d bus \<Rightarrow> 'd uart \<Rightarrow> 'd uart" where
  "uart_tx_irq_update B m =
    (let (ctrl, m) = eriscv_mcu_mmio_read32 B (ERISCV_MCU_UART0_BASE + ERISCV_MCU_UART_CTRL) m;
         ctrl = (if tx_tail m \<noteq> tx_head m then ctrl OR ERISCV_MCU_UART_CTRL_TX_IRQ_EN
                 else ctrl AND NOT ERISCV_MCU_UART_CTRL_TX_IRQ_EN)
     in eriscv_mcu_mmio_write32 B (ERISCV_MCU_UART0_BASE + ERISCV_MCU_UART_CTRL) ctrl m)"

definition uart_tx_service :: "'d bus \<Rightarrow> 'd uart \<Rightarrow> 'd uart option" where
  "uart_tx_service B m = map_option (uart_tx_irq_update B) (uart_tx_drain B m)"

partial_function (option) uart_rx_service :: "'d bus \<Rightarrow> 'd uart \<Rightarrow> 'd uart option" where
  "uart_rx_service B m =
    (let (status, m) = eriscv_mcu_mmio_read32 B (ERISCV_MCU_UART0_BASE + ERISCV_MCU_UART_STATUS) m
     in if status AND ERISCV_MCU_UART_STATUS_RX_VALID = 0 then Some m
        else
          let nx = uart_ring_next (rx_head m) ERISCV_MCU_UART_ASYNC_RX_BUFFER_SIZE;
              (v, m) = eriscv_mcu_mmio_read32 B (ERISCV_MCU_UART0_BASE + ERISCV_MCU_UART_RXDATA) m
          in uart_rx_service B
               (if nx = rx_tail m then m\<lparr>rx_dropped := rx_dropped m + 1\<rparr>
                else m\<lparr>rx_buffer := (rx_buffer m)[unat (rx_head m) := v AND 0xff], rx_head := nx\<rparr>))"

section \<open>Polling functions\<close>

definition eriscv_mcu_uart_init ::
    "'d bus \<Rightarrow> u32 \<Rightarrow> ('d, 'e) mach_scheme \<Rightarrow> ('d, 'e) mach_scheme" where
  "eriscv_mcu_uart_init B baud_divisor m =
    (let m = eriscv_mcu_mmio_write32 B (ERISCV_MCU_UART0_BASE + ERISCV_MCU_UART_BAUDDIV)
               baud_divisor m
     in eriscv_mcu_mmio_write32 B (ERISCV_MCU_UART0_BASE + ERISCV_MCU_UART_CTRL)
          (ERISCV_MCU_UART_CTRL_TX_ENABLE OR ERISCV_MCU_UART_CTRL_RX_ENABLE) m)"

text \<open>The busy-wait loop of the polling functions: until a bit of \<open>STATUS\<close> is set.\<close>

partial_function (option) uart_wait_status ::
    "'d bus \<Rightarrow> u32 \<Rightarrow> ('d, 'e) mach_scheme \<Rightarrow> ('d, 'e) mach_scheme option" where
  "uart_wait_status B bits m =
    (let (status, m) = eriscv_mcu_mmio_read32 B (ERISCV_MCU_UART0_BASE + ERISCV_MCU_UART_STATUS) m
     in if status AND bits = 0 then uart_wait_status B bits m else Some m)"

definition eriscv_mcu_uart_putc ::
    "'d bus \<Rightarrow> u8 \<Rightarrow> ('d, 'e) mach_scheme \<Rightarrow> ('d, 'e) mach_scheme option" where
  "eriscv_mcu_uart_putc B ch m =
    Option.bind (uart_wait_status B ERISCV_MCU_UART_STATUS_TX_READY m) (\<lambda>m.
      uart_wait_status B ERISCV_MCU_UART_STATUS_TX_BUSY
        (eriscv_mcu_mmio_write32 B (ERISCV_MCU_UART0_BASE + ERISCV_MCU_UART_TXDATA) (ucast ch) m))"

partial_function (option) eriscv_mcu_uart_puts ::
    "'d bus \<Rightarrow> u32 \<Rightarrow> ('d, 'e) mach_scheme \<Rightarrow> ('d, 'e) mach_scheme option" where
  "eriscv_mcu_uart_puts B text m =
    (if ram m text = 0 then Some m
     else Option.bind (if ram m text = 0x0a then eriscv_mcu_uart_putc B 0x0d m else Some m) (\<lambda>m.
          Option.bind (eriscv_mcu_uart_putc B (ram m text) m) (\<lambda>m.
          eriscv_mcu_uart_puts B (text + 1) m)))"

definition eriscv_mcu_uart_getc ::
    "'d bus \<Rightarrow> ('d, 'e) mach_scheme \<Rightarrow> (int \<times> ('d, 'e) mach_scheme) option" where
  "eriscv_mcu_uart_getc B m =
    map_option (\<lambda>m.
        let (v, m) = eriscv_mcu_mmio_read32 B (ERISCV_MCU_UART0_BASE + ERISCV_MCU_UART_RXDATA) m
        in (sint (v AND 0xff), m))
      (uart_wait_status B ERISCV_MCU_UART_STATUS_RX_VALID m)"

section \<open>Interrupt-driven functions\<close>

definition eriscv_mcu_uart_async_init :: "'d bus \<Rightarrow> u32 \<Rightarrow> 'd uart \<Rightarrow> 'd uart" where
  "eriscv_mcu_uart_async_init B baud_divisor m =
    (let (state, m) = uart_irq_save m;
         m = m\<lparr>tx_head := 0, tx_tail := 0, rx_head := 0, rx_tail := 0, rx_dropped := 0\<rparr>;
         m = eriscv_mcu_uart_init B baud_divisor m;
         m = eriscv_mcu_mmio_write32 B (ERISCV_MCU_UART0_BASE + ERISCV_MCU_UART_TX_WATERMARK)
               ERISCV_MCU_UART_ASYNC_TX_WATERMARK m;
         m = eriscv_mcu_mmio_write32 B (ERISCV_MCU_UART0_BASE + ERISCV_MCU_UART_RX_WATERMARK)
               ERISCV_MCU_UART_ASYNC_RX_WATERMARK m;
         m = eriscv_mcu_mmio_write32 B (ERISCV_MCU_UART0_BASE + ERISCV_MCU_UART_IRQ_STATUS)
               ERISCV_MCU_UART_IRQ_RX_OVERRUN m;
         m = eriscv_mcu_mmio_write32 B (ERISCV_MCU_UART0_BASE + ERISCV_MCU_UART_CTRL)
               (ERISCV_MCU_UART_CTRL_TX_ENABLE OR ERISCV_MCU_UART_CTRL_RX_ENABLE OR
                ERISCV_MCU_UART_CTRL_RX_IRQ_EN OR ERISCV_MCU_UART_CTRL_ERR_IRQ_EN) m;
         m = eriscv_mcu_plic_set_priority B ERISCV_MCU_UART0_PLIC_SOURCE 1 m;
         m = eriscv_mcu_plic_set_enabled B ERISCV_MCU_UART0_PLIC_SOURCE 1 m;
         m = eriscv_mcu_plic_set_threshold B 0 m;
         m = eriscv_mcu_enable_machine_irqs ERISCV_MCU_MIE_MEIE m
     in uart_irq_restore state m)"

definition eriscv_mcu_uart_async_putc :: "'d bus \<Rightarrow> u8 \<Rightarrow> 'd uart \<Rightarrow> (int \<times> 'd uart) option" where
  "eriscv_mcu_uart_async_putc B ch m =
    (let (state, m) = uart_irq_save m;
         nx = uart_ring_next (tx_head m) ERISCV_MCU_UART_ASYNC_TX_BUFFER_SIZE
     in if nx \<noteq> tx_tail m then
          let m = m\<lparr>tx_buffer := (tx_buffer m)[unat (tx_head m) := ucast ch], tx_head := nx\<rparr>
          in map_option (\<lambda>m. (1, uart_irq_restore state m)) (uart_tx_service B (fence m))
        else Some (0, uart_irq_restore state m))"

text \<open>The queueing loop of \<open>eriscv_mcu_uart_async_write\<close>.\<close>

function uart_async_fill :: "u32 \<Rightarrow> u32 \<Rightarrow> u32 \<Rightarrow> 'd uart \<Rightarrow> u32 \<times> 'd uart" where
  "uart_async_fill data len written m =
    (if written < len then
       let nx = uart_ring_next (tx_head m) ERISCV_MCU_UART_ASYNC_TX_BUFFER_SIZE
       in if nx = tx_tail m then (written, m)
          else uart_async_fill data len (written + 1)
            (m\<lparr>tx_buffer := (tx_buffer m)[unat (tx_head m) := uart_load_byte (ram m) data written],
               tx_head := nx\<rparr>)
     else (written, m))"
  by pat_completeness auto
termination
  by (relation "measure (\<lambda>(data, len, written, m). unat len - unat written)")
    (auto simp: unat_plus_one_less, simp add: word_less_nat_alt)

declare uart_async_fill.simps [simp del]

definition eriscv_mcu_uart_async_write ::
    "'d bus \<Rightarrow> u32 \<Rightarrow> u32 \<Rightarrow> 'd uart \<Rightarrow> (u32 \<times> 'd uart) option" where
  "eriscv_mcu_uart_async_write B data len m =
    (let (state, m) = uart_irq_save m;
         (written, m) = uart_async_fill data len 0 m
     in map_option (\<lambda>m. (written, uart_irq_restore state m)) (uart_tx_service B (fence m)))"

definition eriscv_mcu_uart_async_getc :: "'d uart \<Rightarrow> int \<times> 'd uart" where
  "eriscv_mcu_uart_async_getc m =
    (let (state, m) = uart_irq_save m;
         (v, m) = (if rx_tail m \<noteq> rx_head m
                   then (sint (rx_buffer m ! unat (rx_tail m)),
                         m\<lparr>rx_tail := uart_ring_next (rx_tail m)
                                        ERISCV_MCU_UART_ASYNC_RX_BUFFER_SIZE\<rparr>)
                   else (- 1, m))
     in (v, uart_irq_restore state m))"

definition eriscv_mcu_uart_async_tx_pending :: "'d bus \<Rightarrow> 'd uart \<Rightarrow> bool \<times> 'd uart" where
  "eriscv_mcu_uart_async_tx_pending B m =
    (let (state, m) = uart_irq_save m;
         (pending, m) =
           (if tx_tail m \<noteq> tx_head m then (True, m)
            else let (status, m) = eriscv_mcu_mmio_read32 B
                                     (ERISCV_MCU_UART0_BASE + ERISCV_MCU_UART_STATUS) m
                 in (status AND ERISCV_MCU_UART_STATUS_TX_BUSY \<noteq> 0, m))
     in (pending, uart_irq_restore state m))"

definition eriscv_mcu_uart_async_rx_dropped :: "'d uart \<Rightarrow> u32 \<times> 'd uart" where
  "eriscv_mcu_uart_async_rx_dropped m =
    (let (state, m) = uart_irq_save m;
         dropped = rx_dropped m
     in (dropped, uart_irq_restore state m))"

definition eriscv_mcu_uart_irq_handler :: "'d bus \<Rightarrow> 'd uart \<Rightarrow> 'd uart option" where
  "eriscv_mcu_uart_irq_handler B m =
    (let (irq_status, m) = eriscv_mcu_mmio_read32 B
                             (ERISCV_MCU_UART0_BASE + ERISCV_MCU_UART_IRQ_STATUS) m
     in Option.bind (if irq_status AND ERISCV_MCU_UART_IRQ_RX_WATERMARK \<noteq> 0
                     then uart_rx_service B m else Some m) (\<lambda>m.
        Option.bind (if irq_status AND ERISCV_MCU_UART_IRQ_TX_WATERMARK \<noteq> 0
                     then uart_tx_service B m else Some m) (\<lambda>m.
        Some (if irq_status AND ERISCV_MCU_UART_IRQ_RX_OVERRUN \<noteq> 0
              then eriscv_mcu_mmio_write32 B
                     (ERISCV_MCU_UART0_BASE + ERISCV_MCU_UART_IRQ_STATUS)
                     ERISCV_MCU_UART_IRQ_RX_OVERRUN m
              else m))))"

section \<open>Well-formed states and the queues they hold\<close>

definition uart_wf :: "'d uart \<Rightarrow> bool" where
  "uart_wf m \<longleftrightarrow> length (tx_buffer m) = 128 \<and> length (rx_buffer m) = 128 \<and>
     unat (tx_head m) < 128 \<and> unat (tx_tail m) < 128 \<and>
     unat (rx_head m) < 128 \<and> unat (rx_tail m) < 128"

definition txq :: "'d uart \<Rightarrow> u32 list" where
  "txq m = ring_contents 128 (tx_buffer m) (unat (tx_tail m)) (unat (tx_head m))"

definition rxq :: "'d uart \<Rightarrow> u32 list" where
  "rxq m = ring_contents 128 (rx_buffer m) (unat (rx_tail m)) (unat (rx_head m))"

text \<open>A store to \<open>TXDATA\<close> only right after a \<open>STATUS\<close> load that showed room in the FIFO.\<close>

fun tx_guarded :: "bool \<Rightarrow> access list \<Rightarrow> bool" where
  "tx_guarded g [] = True"
| "tx_guarded g (Rd a v # es) =
     tx_guarded (a = ERISCV_MCU_UART0_BASE + ERISCV_MCU_UART_STATUS \<and>
                 v AND ERISCV_MCU_UART_STATUS_TX_READY \<noteq> 0) es"
| "tx_guarded g (Wr a v # es) =
     ((a = ERISCV_MCU_UART0_BASE + ERISCV_MCU_UART_TXDATA \<longrightarrow> g) \<and> tx_guarded False es)"
| "tx_guarded g (_ # es) = tx_guarded False es"

interpretation uart_ring: ring "\<lambda>i. uart_ring_next i 128" 128
proof
  fix i :: u32
  have "unat (uart_ring_next i 128) = unat ((i + 1) AND mask 7)"
    by (simp add: uart_ring_next_def mask_eq_exp_minus_1)
  also have "\<dots> = Suc (unat i) mod 128"
    by (simp add: unat_and_mask unat_word_ariths mod_mod_cancel)
  finally show "unat (uart_ring_next i 128) = Suc (unat i) mod 128" .
qed simp

lemma txq_enq:
  assumes "uart_wf m" "uart_ring_next (tx_head m) 128 \<noteq> tx_tail m"
  shows "txq (m\<lparr>tx_buffer := (tx_buffer m)[unat (tx_head m) := x],
                tx_head := uart_ring_next (tx_head m) 128\<rparr>) = txq m @ [x]"
  using assms uart_ring.enq [of "tx_buffer m"] by (simp add: txq_def uart_wf_def)

lemma txq_deq:
  assumes "uart_wf m" "tx_tail m \<noteq> tx_head m"
  shows "txq m = tx_buffer m ! unat (tx_tail m)
           # txq (m\<lparr>tx_tail := uart_ring_next (tx_tail m) 128\<rparr>)"
  using assms uart_ring.deq [of "tx_tail m" "tx_head m" "tx_buffer m"]
  by (simp add: txq_def uart_wf_def)

lemma txq_Nil_iff: "uart_wf m \<Longrightarrow> txq m = [] \<longleftrightarrow> tx_tail m = tx_head m"
  by (simp add: txq_def uart_wf_def uart_ring.empty_iff)

lemma txq_full_iff:
  "uart_wf m \<Longrightarrow> uart_ring_next (tx_head m) 128 = tx_tail m \<longleftrightarrow> length (txq m) = 127"
  using uart_ring.full_iff by (simp add: txq_def uart_wf_def)

lemma length_txq_le: "uart_wf m \<Longrightarrow> length (txq m) \<le> 127"
  using uart_ring.dist_less [of "tx_tail m" "tx_head m"] by (simp add: txq_def)

lemma uart_wf_next [simp]: "unat (uart_ring_next i 128) < 128"
  by (rule uart_ring.nxt_less)

section \<open>The transmit side\<close>

text \<open>
  The drain loop returns; it stores a prefix of the queue to \<open>TXDATA\<close>, in order, and drops exactly
  that prefix from the queue.
\<close>

lemma uart_tx_drain_spec:
  "uart_wf m \<Longrightarrow>
   \<exists>d x es. uart_tx_drain B m = Some (m\<lparr>dev := d, trace := trace m @ es, tx_tail := x\<rparr>) \<and>
     unat x < 128 \<and> csr_free es \<and> tx_guarded False es \<and>
     reads_of (ERISCV_MCU_UART0_BASE + ERISCV_MCU_UART_RXDATA) es = [] \<and>
     writes_to (ERISCV_MCU_UART0_BASE + ERISCV_MCU_UART_CTRL) es = [] \<and>
     writes_to ERISCV_MCU_UART0_BASE es @ txq (m\<lparr>tx_tail := x\<rparr>) = txq m"
proof (induction "length (txq m)" arbitrary: m rule: less_induct)
  case less
  show ?case
  proof (cases "tx_tail m = tx_head m")
    case True
    have "uart_tx_drain B m = Some (m\<lparr>dev := dev m, trace := trace m @ [], tx_tail := tx_tail m\<rparr>)"
      using True by (subst uart_tx_drain.simps) simp
    with less.prems show ?thesis by (fastforce simp: uart_wf_def)
  next
    case False
    obtain st d1 where rd: "bus_rd B (ERISCV_MCU_UART0_BASE + ERISCV_MCU_UART_STATUS) (dev m) = (st, d1)"
      by fastforce
    show ?thesis
    proof (cases "st AND ERISCV_MCU_UART_STATUS_TX_READY = 0")
      case True
      have "uart_tx_drain B m =
        Some (m\<lparr>dev := d1, trace := trace m @ [Rd 0x40000008 st], tx_tail := tx_tail m\<rparr>)"
        using False True rd by (subst uart_tx_drain.simps) (simp add: mach_simps)
      with less.prems show ?thesis by (fastforce simp: uart_wf_def)
    next
      case ready: False
      let ?x = "tx_buffer m ! unat (tx_tail m)"
      let ?es = "[Rd 0x40000008 st, Wr 0x40000000 ?x]"
      let ?m = "m\<lparr>dev := bus_wr B 0x40000000 ?x d1, trace := trace m @ ?es,
                  tx_tail := uart_ring_next (tx_tail m) 128\<rparr>"
      have step: "uart_tx_drain B m = uart_tx_drain B ?m"
        using False ready rd by (subst uart_tx_drain.simps) (simp add: mach_simps)
      have wf: "uart_wf ?m" using less.prems by (simp add: uart_wf_def)
      have q: "txq m = ?x # txq (m\<lparr>tx_tail := uart_ring_next (tx_tail m) 128\<rparr>)"
        by (rule txq_deq [OF less.prems False])
      have "length (txq ?m) < length (txq m)" using q by (simp add: txq_def)
      from less.hyps [OF this wf] obtain d x es where
        ih: "uart_tx_drain B ?m = Some (?m\<lparr>dev := d, trace := trace ?m @ es, tx_tail := x\<rparr>)"
          "unat x < 128" "csr_free es" "tx_guarded False es"
          "reads_of (ERISCV_MCU_UART0_BASE + ERISCV_MCU_UART_RXDATA) es = []"
          "writes_to (ERISCV_MCU_UART0_BASE + ERISCV_MCU_UART_CTRL) es = []"
          "writes_to ERISCV_MCU_UART0_BASE es @ txq (?m\<lparr>tx_tail := x\<rparr>) = txq ?m" by blast
      have "uart_tx_drain B m = Some (m\<lparr>dev := d, trace := trace m @ (?es @ es), tx_tail := x\<rparr>)"
        using step ih(1) by simp
      moreover have "writes_to ERISCV_MCU_UART0_BASE (?es @ es) @ txq (m\<lparr>tx_tail := x\<rparr>) = txq m"
        using ih(7) q by (simp add: txq_def)
      moreover have "tx_guarded False (?es @ es)" using ih(4) ready by simp
      ultimately show ?thesis using ih(2,3,5,6) by (intro exI [of _ d] exI [of _ x] exI [of _ "?es @ es"]) simp
    qed
  qed
qed

lemma tx_guarded_Rd_append:
  "tx_guarded g (xs @ Rd a v # ys) \<longleftrightarrow> tx_guarded g xs \<and>
     tx_guarded (a = ERISCV_MCU_UART0_BASE + ERISCV_MCU_UART_STATUS \<and>
                 v AND ERISCV_MCU_UART_STATUS_TX_READY \<noteq> 0) ys"
  by (induction g xs rule: tx_guarded.induct) auto

lemma uart_tx_service_spec:
  assumes "uart_wf m"
  shows "\<exists>d x es. uart_tx_service B m = Some (m\<lparr>dev := d, trace := trace m @ es, tx_tail := x\<rparr>) \<and>
     unat x < 128 \<and> csr_free es \<and> tx_guarded False es \<and>
     reads_of (ERISCV_MCU_UART0_BASE + ERISCV_MCU_UART_RXDATA) es = [] \<and>
     writes_to ERISCV_MCU_UART0_BASE es @ txq (m\<lparr>tx_tail := x\<rparr>) = txq m \<and>
     (\<exists>c. writes_to (ERISCV_MCU_UART0_BASE + ERISCV_MCU_UART_CTRL) es = [c] \<and>
          (bit c 3 \<longleftrightarrow> x \<noteq> tx_head m))"
proof -
  from uart_tx_drain_spec [OF assms] obtain d x es where
    dr: "uart_tx_drain B m = Some (m\<lparr>dev := d, trace := trace m @ es, tx_tail := x\<rparr>)"
      "unat x < 128" "csr_free es" "tx_guarded False es"
      "reads_of (ERISCV_MCU_UART0_BASE + ERISCV_MCU_UART_RXDATA) es = []"
      "writes_to (ERISCV_MCU_UART0_BASE + ERISCV_MCU_UART_CTRL) es = []"
      "writes_to ERISCV_MCU_UART0_BASE es @ txq (m\<lparr>tx_tail := x\<rparr>) = txq m" by blast
  obtain c d1 where rd: "bus_rd B (ERISCV_MCU_UART0_BASE + ERISCV_MCU_UART_CTRL) d = (c, d1)"
    by fastforce
  define c' where "c' = (if x \<noteq> tx_head m then c OR 8 else c AND NOT 8)"
  define es' where "es' = es @ [Rd 0x40000010 c, Wr 0x40000010 c']"
  have "uart_tx_service B m =
      Some (m\<lparr>dev := bus_wr B 0x40000010 c' d1, trace := trace m @ es', tx_tail := x\<rparr>)"
    using dr(1) rd by (simp add: uart_tx_service_def uart_tx_irq_update_def mach_simps es'_def c'_def Let_def)
  moreover have "bit c' 3 \<longleftrightarrow> x \<noteq> tx_head m"
    by (simp add: c'_def bit_simps)
  ultimately show ?thesis using dr
    by (intro exI [of _ "bus_wr B 0x40000010 c' d1"] exI [of _ x] exI [of _ es'])
      (simp add: es'_def tx_guarded_Rd_append)
qed

lemma uart_async_fill_spec:
  assumes "uart_async_fill data len w m = (n, m')" "uart_wf m" "w \<le> len"
  shows "\<exists>buf h. m' = m\<lparr>tx_buffer := buf, tx_head := h\<rparr> \<and> uart_wf m' \<and> w \<le> n \<and> n \<le> len \<and>
     unat n - unat w = min (unat len - unat w) (127 - length (txq m)) \<and>
     txq m' = txq m @ map (\<lambda>i. uart_load_byte (ram m) data (of_nat i)) [unat w..<unat n]"
  using assms
proof (induction data len w m arbitrary: n m' rule: uart_async_fill.induct)
  case (1 data len w m)
  let ?nx = "uart_ring_next (tx_head m) 128"
  let ?m = "m\<lparr>tx_buffer := (tx_buffer m)[unat (tx_head m) := uart_load_byte (ram m) data w],
              tx_head := ?nx\<rparr>"
  note wf = \<open>uart_wf m\<close>
  show ?case
  proof (cases "w < len")
    case False
    with 1 have "n = w" "m' = m" "w = len" by (simp_all add: uart_async_fill.simps [of data len w m])
    with wf show ?thesis by (intro exI [of _ "tx_buffer m"] exI [of _ "tx_head m"]) simp
  next
    case less: True
    show ?thesis
    proof (cases "?nx = tx_tail m")
      case True
      with 1 less have "n = w" "m' = m" by (simp_all add: uart_async_fill.simps [of data len w m])
      moreover have "length (txq m) = 127" using True txq_full_iff [OF wf] by simp
      ultimately show ?thesis using wf less
        by (intro exI [of _ "tx_buffer m"] exI [of _ "tx_head m"]) simp
    next
      case room: False
      have S: "unat (w + 1) = Suc (unat w)" by (rule unat_plus_one_less [OF less])
      have wf': "uart_wf ?m" using wf by (simp add: uart_wf_def)
      have q: "txq ?m = txq m @ [uart_load_byte (ram m) data w]" by (rule txq_enq [OF wf room])
      have le: "w + 1 \<le> len" using less S by (simp add: word_le_nat_alt word_less_nat_alt)
      have "uart_async_fill data len (w + 1) ?m = (n, m')"
        using "1.prems"(1) less room by (simp add: uart_async_fill.simps [of data len w m])
      from "1.IH" [OF less refl room this wf' le] obtain buf h where ih:
        "m' = ?m\<lparr>tx_buffer := buf, tx_head := h\<rparr>" "uart_wf m'" "w + 1 \<le> n" "n \<le> len"
        "unat n - unat (w + 1) = min (unat len - unat (w + 1)) (127 - length (txq ?m))"
        "txq m' = txq ?m @ map (\<lambda>i. uart_load_byte (ram ?m) data (of_nat i)) [unat (w + 1)..<unat n]"
        by blast
      have lt: "unat w < unat n" using ih(3) S by (simp add: word_le_nat_alt)
      have "txq m' = txq m @ map (\<lambda>i. uart_load_byte (ram m) data (of_nat i)) [unat w..<unat n]"
        using ih(6) q S lt by (simp add: upt_conv_Cons)
      moreover have "length (txq m) < 127"
        using room txq_full_iff [OF wf] length_txq_le [OF wf] by linarith
      then have "unat n - unat w = min (unat len - unat w) (127 - length (txq m))"
        using ih(5) q S lt less by (simp add: word_less_nat_alt)
      ultimately show ?thesis using ih(1,2,4) lt
        by (intro exI [of _ buf] exI [of _ h]) (simp add: word_le_nat_alt)
    qed
  qed
qed

text \<open>Bus accesses change the device and the trace, nothing else.\<close>

lemma uart_fields_wr [simp]:
  "csrs (eriscv_mcu_mmio_write32 B a v m) = csrs m" "ram (eriscv_mcu_mmio_write32 B a v m) = ram m"
  "tx_head (eriscv_mcu_mmio_write32 B a v n) = tx_head n" "tx_tail (eriscv_mcu_mmio_write32 B a v n) = tx_tail n"
  "rx_head (eriscv_mcu_mmio_write32 B a v n) = rx_head n" "rx_tail (eriscv_mcu_mmio_write32 B a v n) = rx_tail n"
  "tx_buffer (eriscv_mcu_mmio_write32 B a v n) = tx_buffer n" "rx_buffer (eriscv_mcu_mmio_write32 B a v n) = rx_buffer n"
  "rx_dropped (eriscv_mcu_mmio_write32 B a v n) = rx_dropped n"
  by (simp_all add: eriscv_mcu_mmio_write32_def)

lemma uart_fields_rd [simp]:
  "csrs (snd (eriscv_mcu_mmio_read32 B a m)) = csrs m" "ram (snd (eriscv_mcu_mmio_read32 B a m)) = ram m"
  "tx_head (snd (eriscv_mcu_mmio_read32 B a n)) = tx_head n" "tx_tail (snd (eriscv_mcu_mmio_read32 B a n)) = tx_tail n"
  "rx_head (snd (eriscv_mcu_mmio_read32 B a n)) = rx_head n" "rx_tail (snd (eriscv_mcu_mmio_read32 B a n)) = rx_tail n"
  "tx_buffer (snd (eriscv_mcu_mmio_read32 B a n)) = tx_buffer n" "rx_buffer (snd (eriscv_mcu_mmio_read32 B a n)) = rx_buffer n"
  "rx_dropped (snd (eriscv_mcu_mmio_read32 B a n)) = rx_dropped n"
  by (simp_all add: mmio_read32_eq)

text \<open>What a foreground function appends to the trace: \<open>es\<close> between masking and restoring.\<close>

definition masked_section :: "u32 \<Rightarrow> access list \<Rightarrow> access list" where
  "masked_section ms es =
     [CsrRd Mstatus ms, CsrClr Mstatus ERISCV_MCU_MSTATUS_MIE] @ es @
     (if bit ms 3 then [CsrSet Mstatus ERISCV_MCU_MSTATUS_MIE] else [])"

definition irq_off :: "'d uart \<Rightarrow> 'd uart" where
  "irq_off m = snd (uart_irq_save m)"

lemma irq_save_eq: "uart_irq_save m = (csrs m Mstatus, irq_off m)"
  by (simp add: irq_off_def uart_irq_save_def mach_simps)

lemma irq_off_fields [simp]:
  "csrs (irq_off m) = (csrs m)(Mstatus := csrs m Mstatus AND NOT 8)"
  "trace (irq_off m) = trace m @ [CsrRd Mstatus (csrs m Mstatus), CsrClr Mstatus 8]"
  "dev (irq_off m) = dev m" "ram (irq_off m) = ram m"
  "tx_head (irq_off m) = tx_head m" "tx_tail (irq_off m) = tx_tail m"
  "tx_buffer (irq_off m) = tx_buffer m" "rx_buffer (irq_off m) = rx_buffer m"
  "rx_head (irq_off m) = rx_head m" "rx_tail (irq_off m) = rx_tail m"
  "rx_dropped (irq_off m) = rx_dropped m"
  by (simp_all add: irq_off_def uart_irq_save_def mach_simps)

lemma irq_restore_csrs:
  assumes "csrs m' = (csrs m)(Mstatus := csrs m Mstatus AND NOT 8)"
  shows "csrs (uart_irq_restore (csrs m Mstatus) m') = csrs m"
proof -
  have "bit x 3 \<Longrightarrow> x AND NOT 8 OR 8 = x" "\<not> bit x 3 \<Longrightarrow> x AND NOT 8 = x" for x :: u32
    using or_exp_restore [of x 3] and_not_exp_same [of x 3] by simp_all
  with assms show ?thesis by (auto simp: uart_irq_restore_def mach_simps)
qed

lemma irq_restore_fields [simp]:
  "tx_head (uart_irq_restore s m) = tx_head m" "tx_tail (uart_irq_restore s m) = tx_tail m"
  "tx_buffer (uart_irq_restore s m) = tx_buffer m" "rx_buffer (uart_irq_restore s m) = rx_buffer m"
  "rx_head (uart_irq_restore s m) = rx_head m" "rx_tail (uart_irq_restore s m) = rx_tail m"
  "rx_dropped (uart_irq_restore s m) = rx_dropped m" "dev (uart_irq_restore s m) = dev m" "ram (uart_irq_restore s m) = ram m"
  "trace (uart_irq_restore s m) = trace m @ (if bit s 3 then [CsrSet Mstatus 8] else [])"
  by (auto simp: uart_irq_restore_def mach_simps)

lemma tx_guarded_mono: "tx_guarded False es \<Longrightarrow> tx_guarded g es"
  by (induction g es rule: tx_guarded.induct) auto

lemma tx_guarded_append:
  "tx_guarded g xs \<Longrightarrow> tx_guarded False ys \<Longrightarrow> tx_guarded g (xs @ ys)"
  by (induction g xs rule: tx_guarded.induct) (auto intro: tx_guarded_mono)

lemma tx_guarded_masked: "tx_guarded False es \<Longrightarrow> tx_guarded False (masked_section ms es)"
  by (auto simp: masked_section_def intro!: tx_guarded_append)

lemma masked_section_writes [simp]: "writes_to a (masked_section ms es) = writes_to a es"
  "reads_of a (masked_section ms es) = reads_of a es"
  by (simp_all add: masked_section_def)

section \<open>The contract of each call\<close>

text \<open>
  \<open>uart_step m m' es\<close>: a foreground call took \<open>m\<close> to \<open>m'\<close>, ran with interrupts masked, left the CSRs
  and the memory as they were, kept the FIFOs well formed and stored to \<open>TXDATA\<close> only when the
  UART had room.
\<close>

definition uart_step :: "'d uart \<Rightarrow> 'd uart \<Rightarrow> access list \<Rightarrow> bool" where
  "uart_step m m' es \<longleftrightarrow> uart_wf m' \<and> csrs m' = csrs m \<and> ram m' = ram m \<and>
     trace m' = trace m @ masked_section (csrs m Mstatus) es \<and> csr_free es \<and> tx_guarded False es"

lemma uart_wf_cong:
  "tx_head m = tx_head m' \<Longrightarrow> tx_tail m = tx_tail m' \<Longrightarrow> tx_buffer m = tx_buffer m' \<Longrightarrow>
   rx_head m = rx_head m' \<Longrightarrow> rx_tail m = rx_tail m' \<Longrightarrow> rx_buffer m = rx_buffer m' \<Longrightarrow>
   uart_wf m = uart_wf m' \<and> txq m = txq m' \<and> rxq m = rxq m'"
  by (simp add: uart_wf_def txq_def rxq_def)

lemma service_section:
  assumes wf: "uart_wf m1"
    and m1: "m1 = (irq_off m)\<lparr>tx_buffer := buf, tx_head := h\<rparr>"
  shows "\<exists>m2 m' es. uart_tx_service B (fence m1) = Some m2 \<and>
     uart_irq_restore (csrs m Mstatus) m2 = m' \<and> uart_step m m' es \<and>
     writes_to ERISCV_MCU_UART0_BASE es @ txq m' = txq m1 \<and>
     rxq m' = rxq m \<and> rx_dropped m' = rx_dropped m \<and>
     reads_of (ERISCV_MCU_UART0_BASE + ERISCV_MCU_UART_RXDATA) es = [] \<and>
     (\<exists>c. writes_to (ERISCV_MCU_UART0_BASE + ERISCV_MCU_UART_CTRL) es = [c] \<and>
        (bit c 3 \<longleftrightarrow> txq m' \<noteq> []))"
proof -
  have wf1: "uart_wf (fence m1)" using wf by (simp add: fence_def uart_wf_def)
  from uart_tx_service_spec [OF this, of B] obtain d x es c where sv:
    "uart_tx_service B (fence m1) = Some ((fence m1)\<lparr>dev := d, trace := trace (fence m1) @ es, tx_tail := x\<rparr>)"
    "unat x < 128" "csr_free es" "tx_guarded False es"
    "reads_of (ERISCV_MCU_UART0_BASE + ERISCV_MCU_UART_RXDATA) es = []"
    "writes_to ERISCV_MCU_UART0_BASE es @ txq ((fence m1)\<lparr>tx_tail := x\<rparr>) = txq (fence m1)"
    "writes_to (ERISCV_MCU_UART0_BASE + ERISCV_MCU_UART_CTRL) es = [c]" "bit c 3 \<longleftrightarrow> x \<noteq> tx_head (fence m1)"
    by blast
  let ?m2 = "(fence m1)\<lparr>dev := d, trace := trace (fence m1) @ es, tx_tail := x\<rparr>"
  let ?m' = "uart_irq_restore (csrs m Mstatus) ?m2"
  let ?es = "Fence # es"
  have wf': "uart_wf ?m'" using wf sv(2) by (simp add: uart_wf_def fence_def m1)
  have q: "txq ?m' = txq ((fence m1)\<lparr>tx_tail := x\<rparr>)" by (simp add: txq_def)
  have "uart_step m ?m' ?es"
    using wf' sv(3,4)
    by (simp add: uart_step_def irq_restore_csrs fence_def m1 masked_section_def)
  moreover have "writes_to ERISCV_MCU_UART0_BASE ?es @ txq ?m' = txq m1"
    using sv(6) q by (simp add: fence_def txq_def)
  moreover have "rxq ?m' = rxq m" "rx_dropped ?m' = rx_dropped m"
    by (simp_all add: rxq_def fence_def m1)
  moreover have "bit c 3 \<longleftrightarrow> txq ?m' \<noteq> []"
    using sv(8) txq_Nil_iff [OF wf'] by (simp add: fence_def)
  ultimately show ?thesis using sv(1,5,7)
    by (intro exI [of _ ?m2] exI [of _ ?m'] exI [of _ ?es] conjI exI [of _ c]) simp_all
qed

lemma async_write_spec:
  assumes wf: "uart_wf m"
  shows "\<exists>n m' es. eriscv_mcu_uart_async_write B data len m = Some (n, m') \<and> uart_step m m' es \<and>
     unat n = min (unat len) (127 - length (txq m)) \<and>
     writes_to ERISCV_MCU_UART0_BASE es @ txq m'
       = txq m @ map (\<lambda>i. uart_load_byte (ram m) data (of_nat i)) [0..<unat n] \<and>
     rxq m' = rxq m \<and> rx_dropped m' = rx_dropped m \<and>
     reads_of (ERISCV_MCU_UART0_BASE + ERISCV_MCU_UART_RXDATA) es = [] \<and>
     (\<exists>c. writes_to (ERISCV_MCU_UART0_BASE + ERISCV_MCU_UART_CTRL) es = [c] \<and>
        (bit c 3 \<longleftrightarrow> txq m' \<noteq> []))"
proof -
  let ?m0 = "irq_off m"
  obtain n m1 where f: "uart_async_fill data len 0 ?m0 = (n, m1)" by fastforce
  have wf0: "uart_wf ?m0" and q0: "txq ?m0 = txq m"
    using wf by (simp_all add: uart_wf_def txq_def)
  from uart_async_fill_spec [OF f wf0] obtain buf h where fill:
    "m1 = ?m0\<lparr>tx_buffer := buf, tx_head := h\<rparr>" "uart_wf m1"
    "unat n = min (unat len) (127 - length (txq m))"
    "txq m1 = txq m @ map (\<lambda>i. uart_load_byte (ram m) data (of_nat i)) [0..<unat n]"
    unfolding q0 irq_off_fields by fastforce
  from service_section [OF fill(2,1), of B] obtain m2 m' es where
    sv: "uart_tx_service B (fence m1) = Some m2" "uart_irq_restore (csrs m Mstatus) m2 = m'"
      "uart_step m m' es" "writes_to ERISCV_MCU_UART0_BASE es @ txq m' = txq m1"
      "rxq m' = rxq m" "rx_dropped m' = rx_dropped m"
      "reads_of (ERISCV_MCU_UART0_BASE + ERISCV_MCU_UART_RXDATA) es = []"
      "\<exists>c. writes_to (ERISCV_MCU_UART0_BASE + ERISCV_MCU_UART_CTRL) es = [c] \<and> (bit c 3 \<longleftrightarrow> txq m' \<noteq> [])"
    by blast
  have "eriscv_mcu_uart_async_write B data len m = Some (n, m')"
    using sv(1,2) f by (simp add: eriscv_mcu_uart_async_write_def irq_save_eq Let_def)
  with fill(3,4) sv(3-) show ?thesis by (intro exI [of _ n] exI [of _ m'] exI [of _ es]) simp
qed

lemma async_putc_spec:
  assumes wf: "uart_wf m"
  shows "\<exists>r m' es. eriscv_mcu_uart_async_putc B ch m = Some (r, m') \<and> uart_step m m' es \<and>
     r = (if length (txq m) < 127 then 1 else 0) \<and>
     writes_to ERISCV_MCU_UART0_BASE es @ txq m'
       = (if length (txq m) < 127 then txq m @ [ucast ch] else txq m) \<and>
     rxq m' = rxq m \<and> rx_dropped m' = rx_dropped m \<and>
     reads_of (ERISCV_MCU_UART0_BASE + ERISCV_MCU_UART_RXDATA) es = []"
proof -
  let ?nx = "uart_ring_next (tx_head m) 128"
  let ?m0 = "irq_off m"
  have len: "length (txq m) < 127 \<longleftrightarrow> ?nx \<noteq> tx_tail m"
    using txq_full_iff [OF wf] length_txq_le [OF wf] by linarith
  show ?thesis
  proof (cases "?nx = tx_tail m")
    case True
    let ?m' = "uart_irq_restore (csrs m Mstatus) ?m0"
    have "eriscv_mcu_uart_async_putc B ch m = Some (0, ?m')"
      using True by (simp add: eriscv_mcu_uart_async_putc_def irq_save_eq)
    moreover have "uart_step m ?m' []"
      using wf by (simp add: uart_step_def irq_restore_csrs masked_section_def uart_wf_def)
    ultimately show ?thesis using len True
      by (intro exI [of _ 0] exI [of _ ?m'] exI [of _ "[]"]) (simp add: txq_def rxq_def)
  next
    case False
    let ?m1 = "?m0\<lparr>tx_buffer := (tx_buffer m)[unat (tx_head m) := ucast ch], tx_head := ?nx\<rparr>"
    have wf1: "uart_wf ?m1" using wf by (simp add: uart_wf_def)
    have q1: "txq ?m1 = txq m @ [ucast ch]"
      using txq_enq [OF wf False, of "ucast ch"] by (simp add: txq_def)
    from service_section [OF wf1 refl, of B] obtain m2 m' es where
      sv: "uart_tx_service B (fence ?m1) = Some m2" "uart_irq_restore (csrs m Mstatus) m2 = m'"
        "uart_step m m' es" "writes_to ERISCV_MCU_UART0_BASE es @ txq m' = txq ?m1"
        "rxq m' = rxq m" "rx_dropped m' = rx_dropped m"
        "reads_of (ERISCV_MCU_UART0_BASE + ERISCV_MCU_UART_RXDATA) es = []"
      by blast
    have "eriscv_mcu_uart_async_putc B ch m = Some (1, m')"
      using sv(1,2) False by (simp add: eriscv_mcu_uart_async_putc_def irq_save_eq)
    then show ?thesis using sv(3-) q1 len False
      by (intro exI [of _ 1] exI [of _ m'] exI [of _ es]) simp
  qed
qed

end
