(* ===== verification/Uart_Session.thy ===== *)
theory Uart_Session
  imports Bsp_Uart
begin

text \<open>
  The receive side of \<^verbatim>\<open>sw/lib/uart.c\<close>, and what any interleaving of the driver's calls and interrupts
  does to the two byte streams. Each foreground call masks interrupts from its first access to its last
  (\<open>masked_section\<close>), so an interleaving is a list of whole calls and whole interrupts.
\<close>

section \<open>The receive ring\<close>

lemma rxq_enq:
  assumes "uart_wf m" "uart_ring_next (rx_head m) 128 \<noteq> rx_tail m"
  shows "rxq (m\<lparr>rx_buffer := (rx_buffer m)[unat (rx_head m) := x],
                rx_head := uart_ring_next (rx_head m) 128\<rparr>) = rxq m @ [x]"
  using assms uart_ring.enq [of "rx_buffer m"] by (simp add: rxq_def uart_wf_def)

lemma rxq_deq:
  assumes "uart_wf m" "rx_tail m \<noteq> rx_head m"
  shows "rxq m = rx_buffer m ! unat (rx_tail m)
           # rxq (m\<lparr>rx_tail := uart_ring_next (rx_tail m) 128\<rparr>)"
  using assms uart_ring.deq [of "rx_tail m" "rx_head m" "rx_buffer m"]
  by (simp add: rxq_def uart_wf_def)

lemma rxq_Nil_iff: "uart_wf m \<Longrightarrow> rxq m = [] \<longleftrightarrow> rx_tail m = rx_head m"
  by (simp add: rxq_def uart_wf_def uart_ring.empty_iff)

lemma rxq_full_iff:
  "uart_wf m \<Longrightarrow> uart_ring_next (rx_head m) 128 = rx_tail m \<longleftrightarrow> length (rxq m) = 127"
  using uart_ring.full_iff by (simp add: rxq_def uart_wf_def)

lemma length_rxq_le: "uart_wf m \<Longrightarrow> length (rxq m) \<le> 127"
  using uart_ring.dist_less [of "rx_tail m" "rx_head m"] by (simp add: rxq_def)

text \<open>The received bytes: what the loads of \<open>RXDATA\<close> returned, low eight bits.\<close>

definition rx_bytes :: "access list \<Rightarrow> u32 list" where
  "rx_bytes es = map (\<lambda>v. v AND 0xff) (reads_of (ERISCV_MCU_UART0_BASE + ERISCV_MCU_UART_RXDATA) es)"

lemma rx_bytes_append [simp]: "rx_bytes (xs @ ys) = rx_bytes xs @ rx_bytes ys"
  by (simp add: rx_bytes_def)

text \<open>
  The loop keeps the first bytes it reads, as many as fit, counts the rest as dropped, and touches
  nothing of the transmit side.
\<close>

definition rx_step :: "'d uart \<Rightarrow> 'd uart \<Rightarrow> access list \<Rightarrow> bool" where
  "rx_step m m' es \<longleftrightarrow> uart_wf m' \<and> csrs m' = csrs m \<and> ram m' = ram m \<and>
     txq m' = txq m \<and> trace m' = trace m @ es \<and> csr_free es \<and> tx_guarded False es \<and>
     writes_to ERISCV_MCU_UART0_BASE es = [] \<and>
     rxq m' = rxq m @ take (127 - length (rxq m)) (rx_bytes es) \<and>
     rx_dropped m' = rx_dropped m + of_nat (length (rx_bytes es) - (127 - length (rxq m)))"

lemma rx_step_Nil: "uart_wf m \<Longrightarrow> csrs m' = csrs m \<Longrightarrow> ram m' = ram m \<Longrightarrow> uart_wf m' \<Longrightarrow>
    txq m' = txq m \<Longrightarrow> rxq m' = rxq m \<Longrightarrow> rx_dropped m' = rx_dropped m \<Longrightarrow> trace m' = trace m @ es \<Longrightarrow>
    csr_free es \<Longrightarrow> tx_guarded False es \<Longrightarrow> writes_to ERISCV_MCU_UART0_BASE es = [] \<Longrightarrow>
    rx_bytes es = [] \<Longrightarrow> rx_step m m' es"
  by (simp add: rx_step_def)

lemma rx_step_trans:
  assumes wf: "uart_wf m" and 1: "rx_step m m1 es1" and 2: "rx_step m1 m2 es2"
  shows "rx_step m m2 (es1 @ es2)"
proof -
  have L: "length (rxq m) \<le> 127" by (rule length_rxq_le [OF wf])
  have "length (rxq m1) = length (rxq m) + min (length (rx_bytes es1)) (127 - length (rxq m))"
    using 1 by (simp add: rx_step_def min.commute)
  then have "127 - length (rxq m1) = 127 - length (rxq m) - length (rx_bytes es1)"
    and "length (rx_bytes es1) - (127 - length (rxq m)) + (length (rx_bytes es2) - (127 - length (rxq m1)))
      = length (rx_bytes es1) + length (rx_bytes es2) - (127 - length (rxq m))"
    using L by linarith+
  then show ?thesis
    using 1 2 by (simp add: rx_step_def tx_guarded_append flip: of_nat_add)
qed

lemma uart_rx_service_spec:
  "uart_rx_service B m = Some m' \<Longrightarrow> uart_wf m \<Longrightarrow> \<exists>es. rx_step m m' es"
proof (induction B m m' rule: uart_rx_service.raw_induct [rotated, consumes 1])
  case (1 f B m m')
  obtain st d1 where rs: "bus_rd B 0x40000008 (dev m) = (st, d1)" by fastforce
  obtain v d2 where rv: "bus_rd B 0x40000004 d1 = (v, d2)" by fastforce
  note wf = \<open>uart_wf m\<close>
  show ?case
  proof (cases "bit st 1")
    case False
    with 1 rs have "m' = m\<lparr>dev := d1, trace := trace m @ [Rd 0x40000008 st]\<rparr>"
      by (simp add: mach_simps)
    with wf show ?thesis
      by (intro exI [of _ "[Rd 0x40000008 st]"] rx_step_Nil)
        (simp_all add: uart_wf_def txq_def rxq_def rx_bytes_def)
  next
    case valid: True
    let ?es = "[Rd 0x40000008 st, Rd 0x40000004 v]"
    let ?nx = "uart_ring_next (rx_head m) 128"
    let ?m1 = "m\<lparr>dev := d2, trace := trace m @ ?es\<rparr>"
    define m2 where "m2 = (if ?nx = rx_tail m then ?m1\<lparr>rx_dropped := rx_dropped m + 1\<rparr>
      else ?m1\<lparr>rx_buffer := (rx_buffer m)[unat (rx_head m) := v AND 0xff], rx_head := ?nx\<rparr>)"
    have rec: "f B m2 = Some m'"
      using 1 rs rv valid by (cases "?nx = rx_tail m") (simp_all add: mach_simps m2_def Let_def)
    have wf2: "uart_wf m2" using wf by (simp add: m2_def uart_wf_def)
    obtain es where st2: "rx_step m2 m' es" using "1.IH" [OF rec wf2] by blast
    have "rx_step m m2 ?es"
    proof (cases "?nx = rx_tail m")
      case True
      then show ?thesis using wf2 rxq_full_iff [OF wf]
        by (simp add: rx_step_def m2_def rx_bytes_def txq_def rxq_def)
    next
      case False
      have "length (rxq m) < 127" using False rxq_full_iff [OF wf] length_rxq_le [OF wf] by linarith
      then show ?thesis using False wf2 rxq_enq [OF wf False, of "v AND 0xff"]
        by (simp add: rx_step_def m2_def rx_bytes_def txq_def) (simp add: rxq_def)
    qed
    from rx_step_trans [OF wf this st2] have "rx_step m m' (?es @ es)" .
    then show ?thesis by blast
  qed
qed


text \<open>The loop returns when the device delivers finitely many bytes in a row.\<close>

lemma uart_rx_service_returns:
  assumes "\<And>d. bit (fst (bus_rd B (ERISCV_MCU_UART0_BASE + ERISCV_MCU_UART_STATUS) d)) 1 \<Longrightarrow>
      (backlog (snd (bus_rd B (ERISCV_MCU_UART0_BASE + ERISCV_MCU_UART_RXDATA)
        (snd (bus_rd B (ERISCV_MCU_UART0_BASE + ERISCV_MCU_UART_STATUS) d)))) :: nat) < backlog d"
  shows "\<exists>m'. uart_rx_service B m = Some m'"
proof (induction "backlog (dev m)" arbitrary: m rule: less_induct)
  case less
  obtain st d1 where rs: "bus_rd B 0x40000008 (dev m) = (st, d1)" by fastforce
  obtain v d2 where rv: "bus_rd B 0x40000004 d1 = (v, d2)" by fastforce
  show ?case
  proof (cases "bit st 1")
    case True
    then have "backlog d2 < backlog (dev m)" using assms [of "dev m"] rs rv by simp
    then have *: "dev m' = d2 \<Longrightarrow> \<exists>m''. uart_rx_service B m' = Some m''" for m'
      using less.hyps by simp
    show ?thesis
      by (subst uart_rx_service.simps) (simp add: mach_simps rs rv True * Let_def)
  next
    case False
    then show ?thesis by (subst uart_rx_service.simps) (simp add: mach_simps rs)
  qed
qed

section \<open>The other calls\<close>

lemma async_getc_spec:
  assumes wf: "uart_wf m"
  shows "\<exists>v m'. eriscv_mcu_uart_async_getc m = (v, m') \<and> uart_step m m' [] \<and>
     txq m' = txq m \<and> rx_dropped m' = rx_dropped m \<and>
     (case rxq m of [] \<Rightarrow> v = - 1 \<and> rxq m' = [] | x # xs \<Rightarrow> v = sint x \<and> rxq m' = xs)"
proof (cases "rx_tail m = rx_head m")
  case True
  let ?m' = "uart_irq_restore (csrs m Mstatus) (irq_off m)"
  have "eriscv_mcu_uart_async_getc m = (- 1, ?m')"
    using True by (simp add: eriscv_mcu_uart_async_getc_def irq_save_eq)
  moreover have "rxq m = []" using True by (simp add: rxq_def)
  moreover have "uart_step m ?m' []"
    using wf by (simp add: uart_step_def irq_restore_csrs masked_section_def uart_wf_def)
  ultimately show ?thesis by (intro exI [of _ "- 1"] exI [of _ ?m']) (simp add: txq_def rxq_def)
next
  case False
  let ?m1 = "(irq_off m)\<lparr>rx_tail := uart_ring_next (rx_tail m) 128\<rparr>"
  let ?m' = "uart_irq_restore (csrs m Mstatus) ?m1"
  let ?v = "sint (rx_buffer m ! unat (rx_tail m))"
  have "eriscv_mcu_uart_async_getc m = (?v, ?m')"
    using False by (simp add: eriscv_mcu_uart_async_getc_def irq_save_eq)
  moreover have "rxq m = rx_buffer m ! unat (rx_tail m) # rxq ?m'"
    using rxq_deq [OF wf False] by (simp add: rxq_def)
  moreover have "uart_step m ?m' []"
    using wf by (simp add: uart_step_def irq_restore_csrs masked_section_def uart_wf_def)
  ultimately show ?thesis by (intro exI [of _ ?v] exI [of _ ?m']) (simp add: txq_def)
qed

lemma uart_step_quiet:
  assumes "uart_wf m" "csrs m1 = csrs (irq_off m)" "ram m1 = ram m" "trace m1 = trace (irq_off m) @ es"
    "tx_head m1 = tx_head m" "tx_tail m1 = tx_tail m" "tx_buffer m1 = tx_buffer m"
    "rx_head m1 = rx_head m" "rx_tail m1 = rx_tail m" "rx_buffer m1 = rx_buffer m"
    "csr_free es" "tx_guarded False es" "m' = uart_irq_restore (csrs m Mstatus) m1"
  shows "uart_step m m' es \<and> txq m' = txq m \<and> rxq m' = rxq m"
  using assms
  by (simp add: uart_step_def irq_restore_csrs masked_section_def uart_wf_def txq_def rxq_def)

lemma async_tx_pending_spec:
  assumes wf: "uart_wf m"
  shows "\<exists>p m' es. eriscv_mcu_uart_async_tx_pending B m = (p, m') \<and>
     uart_step m m' es \<and> txq m' = txq m \<and> rxq m' = rxq m \<and> rx_dropped m' = rx_dropped m \<and>
     writes_to ERISCV_MCU_UART0_BASE es = [] \<and> rx_bytes es = [] \<and> (txq m \<noteq> [] \<longrightarrow> p)"
proof (cases "tx_tail m = tx_head m")
  case True
  obtain st d1 where rs: "bus_rd B 0x40000008 (dev m) = (st, d1)" by fastforce
  let ?m1 = "(irq_off m)\<lparr>dev := d1, trace := trace (irq_off m) @ [Rd 0x40000008 st]\<rparr>"
  have "eriscv_mcu_uart_async_tx_pending B m = (bit st 2, uart_irq_restore (csrs m Mstatus) ?m1)"
    using True rs
    by (simp add: eriscv_mcu_uart_async_tx_pending_def irq_save_eq mach_simps)
  moreover have "txq m = []" using True by (simp add: txq_def)
  moreover note uart_step_quiet [OF wf, of ?m1 "[Rd 0x40000008 st]", OF _ _ _ _ _ _ _ _ _ _ _ refl]
  ultimately show ?thesis
    by (intro exI [of _ "bit st 2"] exI [of _ "uart_irq_restore (csrs m Mstatus) ?m1"]
        exI [of _ "[Rd 0x40000008 st]"]) (simp add: rx_bytes_def)
next
  case False
  have "eriscv_mcu_uart_async_tx_pending B m = (True, uart_irq_restore (csrs m Mstatus) (irq_off m))"
    using False by (simp add: eriscv_mcu_uart_async_tx_pending_def irq_save_eq)
  moreover note uart_step_quiet [OF wf, of "irq_off m" "[]", OF _ _ _ _ _ _ _ _ _ _ _ refl]
  ultimately show ?thesis
    by (intro exI [of _ True] exI [of _ "uart_irq_restore (csrs m Mstatus) (irq_off m)"]
        exI [of _ "[]"]) (simp add: rx_bytes_def)
qed

lemma async_rx_dropped_spec:
  assumes wf: "uart_wf m"
  shows "\<exists>m'. eriscv_mcu_uart_async_rx_dropped m = (rx_dropped m, m') \<and>
     uart_step m m' [] \<and> txq m' = txq m \<and> rxq m' = rxq m \<and> rx_dropped m' = rx_dropped m"
  using uart_step_quiet [OF wf, of "irq_off m" "[]", OF _ _ _ _ _ _ _ _ _ _ _ refl]
  by (simp add: eriscv_mcu_uart_async_rx_dropped_def irq_save_eq)

section \<open>Any interleaving of calls and interrupts\<close>

text \<open>
  One step of a session, with the bytes the caller handed over and got: \<open>Irq\<close> is an interrupt,
  the others are the foreground functions.
\<close>

datatype uart_call = Putc u8 | Write u32 u32 | Getc | Tx_pending | Rx_dropped | Irq

fun uart_do :: "'d bus \<Rightarrow> uart_call \<Rightarrow> 'd uart \<Rightarrow> (u32 list \<times> u32 list \<times> 'd uart) option" where
  "uart_do B (Putc ch) m =
     map_option (\<lambda>(r, m'). (if r \<noteq> 0 then [ucast ch] else [], [], m'))
       (eriscv_mcu_uart_async_putc B ch m)"
| "uart_do B (Write data len) m =
     map_option (\<lambda>(n, m'). (map (\<lambda>i. uart_load_byte (ram m) data (of_nat i)) [0..<unat n], [], m'))
       (eriscv_mcu_uart_async_write B data len m)"
| "uart_do B Getc m =
     (let (v, m') = eriscv_mcu_uart_async_getc m
      in Some ([], if v < 0 then [] else [word_of_int v], m'))"
| "uart_do B Tx_pending m = Some ([], [], snd (eriscv_mcu_uart_async_tx_pending B m))"
| "uart_do B Rx_dropped m = Some ([], [], snd (eriscv_mcu_uart_async_rx_dropped m))"
| "uart_do B Irq m = map_option (\<lambda>m'. ([], [], m')) (eriscv_mcu_uart_irq_handler B m)"

fun uart_run :: "'d bus \<Rightarrow> uart_call list \<Rightarrow> 'd uart \<Rightarrow> (u32 list \<times> u32 list \<times> 'd uart) option" where
  "uart_run B [] m = Some ([], [], m)"
| "uart_run B (c # cs) m =
     Option.bind (uart_do B c m) (\<lambda>(a, d, m1).
     Option.bind (uart_run B cs m1) (\<lambda>(as, ds, m2). Some (a @ as, d @ ds, m2)))"

definition uart_ok :: "'d uart \<Rightarrow> bool" where
  "uart_ok m \<longleftrightarrow> uart_wf m \<and> (\<forall>x \<in> set (rxq m). x < 256)"

text \<open>
  The contract every step meets, and that composes: what was queued and what was accepted goes out
  in order or is still queued; what was queued and what came in is delivered in order, is still
  queued, or is counted as dropped.
\<close>

definition uart_io :: "'d uart \<Rightarrow> 'd uart \<Rightarrow> access list \<Rightarrow> u32 list \<Rightarrow> u32 list \<Rightarrow> bool" where
  "uart_io m m' es acc del \<longleftrightarrow> uart_ok m' \<and> csrs m' = csrs m \<and> ram m' = ram m \<and>
     trace m' = trace m @ es \<and> tx_guarded False es \<and>
     writes_to ERISCV_MCU_UART0_BASE es @ txq m' = txq m @ acc \<and>
     subseq (del @ rxq m') (rxq m @ rx_bytes es) \<and>
     rx_dropped m' + of_nat (length del + length (rxq m'))
       = rx_dropped m + of_nat (length (rxq m) + length (rx_bytes es))"

lemma add_exchange:
  fixes a :: "'a::comm_monoid_add"
  assumes "a + (b + c) = e + (f + i)" "a + (d + b) = g + (h + j)"
  shows "e + (d + (f + i)) = g + (h + (j + c))"
proof -
  have "e + (d + (f + i)) = (a + (b + c)) + d" unfolding assms(1) by (simp only: ac_simps)
  also have "\<dots> = (a + (d + b)) + c" by (simp only: ac_simps)
  finally show ?thesis unfolding assms(2) by (simp only: ac_simps)
qed

lemma uart_io_trans:
  assumes "uart_io m m1 es1 a1 d1" "uart_io m1 m2 es2 a2 d2"
  shows "uart_io m m2 (es1 @ es2) (a1 @ a2) (d1 @ d2)"
proof -
  let ?U = "ERISCV_MCU_UART0_BASE"
  have "writes_to ?U (es1 @ es2) @ txq m2 = writes_to ?U es1 @ txq m1 @ a2"
    using assms(2) by (simp add: uart_io_def)
  also have "\<dots> = txq m @ a1 @ a2" using assms(1) by (simp add: uart_io_def flip: append_assoc)
  finally have tx: "writes_to ?U (es1 @ es2) @ txq m2 = txq m @ a1 @ a2" .
  have "subseq (d1 @ d2 @ rxq m2) (d1 @ rxq m1 @ rx_bytes es2)"
    using assms(2) unfolding subseq_append' by (simp add: uart_io_def)
  also have "subseq \<dots> ((rxq m @ rx_bytes es1) @ rx_bytes es2)"
    using assms(1) unfolding append_assoc [symmetric] subseq_append by (simp only: uart_io_def)
  finally have rx: "subseq (d1 @ d2 @ rxq m2) (rxq m @ rx_bytes (es1 @ es2))" by simp
  have "rx_dropped m1 + of_nat (length (rxq m1) + length (rx_bytes es2)) =
      rx_dropped m2 + of_nat (length d2 + length (rxq m2))"
    "rx_dropped m1 + of_nat (length d1 + length (rxq m1)) =
      rx_dropped m + of_nat (length (rxq m) + length (rx_bytes es1))"
    using assms by (simp_all add: uart_io_def)
  then have "rx_dropped m2 + of_nat (length (d1 @ d2) + length (rxq m2))
      = rx_dropped m + of_nat (length (rxq m) + length (rx_bytes (es1 @ es2)))"
    using add_exchange by (simp add: add.assoc)
  with tx rx assms show ?thesis by (simp add: uart_io_def tx_guarded_append)
qed

lemma rx_bytes_byte: "x \<in> set (rx_bytes es) \<Longrightarrow> x < 256"
proof -
  have "v AND 0xff < 256" for v :: u32
    using word_and_mask_le [of v "0xff"] by (simp add: word_le_nat_alt word_less_nat_alt)
  then show "x \<in> set (rx_bytes es) \<Longrightarrow> x < 256" by (auto simp: rx_bytes_def)
qed

lemma rx_step_io:
  assumes ok: "uart_ok m" and st: "rx_step m m' es"
  shows "uart_io m m' es [] []"
proof -
  have "length (rxq m) \<le> 127" using ok by (simp add: uart_ok_def length_rxq_le)
  then have "length (rx_bytes es) - (127 - length (rxq m)) + length (rxq m') =
      length (rxq m) + length (rx_bytes es)"
    using st by (simp add: rx_step_def)
  note eq = arg_cong [OF this, of "of_nat :: nat \<Rightarrow> u32"]
  have "rx_dropped m' = rx_dropped m + of_nat (length (rx_bytes es) - (127 - length (rxq m)))"
    using st by (simp add: rx_step_def)
  then have "rx_dropped m' + of_nat (length (rxq m')) =
      rx_dropped m + of_nat (length (rxq m) + length (rx_bytes es))"
    by (simp only: add.assoc eq flip: of_nat_add)
  moreover have "uart_ok m'" using ok st
    by (auto simp: uart_ok_def rx_step_def dest!: in_set_takeD rx_bytes_byte)
  ultimately show ?thesis using st
    by (simp add: rx_step_def uart_io_def list_emb_append_mono prefix_imp_subseq take_is_prefix)
qed

lemma uart_io_call:
  assumes "uart_ok m" "uart_step m m' es" "writes_to ERISCV_MCU_UART0_BASE es @ txq m' = txq m @ acc"
    "rxq m = del @ rxq m'" "rx_dropped m' = rx_dropped m" "rx_bytes es = []"
  shows "uart_io m m' (masked_section (csrs m Mstatus) es) acc del"
  using assms by (auto simp: uart_io_def uart_step_def uart_ok_def tx_guarded_masked rx_bytes_def)

lemma uart_irq_io:
  assumes ok: "uart_ok m" and run: "eriscv_mcu_uart_irq_handler B m = Some m'"
  shows "\<exists>es. uart_io m m' es [] []"
proof -
  obtain st d1 where rs: "bus_rd B 0x4000001c (dev m) = (st, d1)" by fastforce
  let ?m1 = "m\<lparr>dev := d1, trace := trace m @ [Rd 0x4000001c st]\<rparr>"
  have 1: "uart_io m ?m1 [Rd 0x4000001c st] [] []"
    using ok by (simp add: uart_io_def uart_ok_def uart_wf_def txq_def rxq_def rx_bytes_def)
  then have ok1: "uart_ok ?m1" by (simp add: uart_io_def)
  obtain m2 where m2: "(if bit st 0 then uart_rx_service B ?m1 else Some ?m1) = Some m2"
    using run rs by (auto simp: eriscv_mcu_uart_irq_handler_def mach_simps split: Option.bind_splits if_splits)
  obtain m3 where m3: "(if bit st 1 then uart_tx_service B m2 else Some m2) = Some m3"
    and m': "m' = (if bit st 2 then eriscv_mcu_mmio_write32 B 0x4000001c 4 m3 else m3)"
    using run rs m2 by (auto simp: eriscv_mcu_uart_irq_handler_def mach_simps split: Option.bind_splits if_splits)
  have "\<exists>es. uart_io ?m1 m2 es [] []"
  proof (cases "bit st 0")
    case True
    then show ?thesis using m2 uart_rx_service_spec rx_step_io [OF ok1] ok1
      by (fastforce simp: uart_ok_def)
  next
    case False
    then show ?thesis using m2 ok1 by (intro exI [of _ "[]"]) (simp add: uart_io_def rx_bytes_def)
  qed
  then obtain es2 where 2: "uart_io ?m1 m2 es2 [] []" ..
  then have ok2: "uart_ok m2" by (simp add: uart_io_def)
  have "\<exists>es. uart_io m2 m3 es [] []"
  proof (cases "bit st 1")
    case True
    from uart_tx_service_spec [of m2 B] ok2 True m3 obtain d x es where
      "m3 = m2\<lparr>dev := d, trace := trace m2 @ es, tx_tail := x\<rparr>" "unat x < 128" "tx_guarded False es"
      "reads_of (ERISCV_MCU_UART0_BASE + ERISCV_MCU_UART_RXDATA) es = []"
      "writes_to ERISCV_MCU_UART0_BASE es @ txq (m2\<lparr>tx_tail := x\<rparr>) = txq m2"
      by (auto simp: uart_ok_def)
    then show ?thesis using ok2
      by (intro exI [of _ es]) (simp add: uart_io_def uart_ok_def uart_wf_def txq_def rxq_def rx_bytes_def)
  next
    case False
    then show ?thesis using m3 ok2 by (intro exI [of _ "[]"]) (simp add: uart_io_def rx_bytes_def)
  qed
  then obtain es3 where 3: "uart_io m2 m3 es3 [] []" ..
  have "\<exists>es. uart_io m3 m' es [] []"
    using 3 m' by (auto simp: uart_io_def uart_ok_def uart_wf_def txq_def rxq_def rx_bytes_def mach_simps
        intro: exI [of _ "[]"] exI [of _ "[Wr 0x4000001c 4]"])
  then show ?thesis using uart_io_trans [OF uart_io_trans [OF 1 2] 3]
    by (metis append_Nil uart_io_trans)
qed

lemma uart_do_io:
  assumes ok: "uart_ok m" and run: "uart_do B c m = Some (acc, del, m')"
  shows "\<exists>es. uart_io m m' es acc del"
proof (cases c)
  case (Putc ch)
  then show ?thesis using async_putc_spec [of m B ch] run ok uart_io_call [OF ok]
    by (fastforce simp: uart_ok_def rx_bytes_def split: if_splits)
next
  case (Write data len)
  then show ?thesis using async_write_spec [of m B data len] run ok uart_io_call [OF ok]
    by (fastforce simp: uart_ok_def rx_bytes_def)
next
  case Getc
  obtain v where v: "eriscv_mcu_uart_async_getc m = (v, m')" "acc = []"
    "del = (if v < 0 then [] else [word_of_int v])" "uart_step m m' []" "txq m' = txq m"
    "rx_dropped m' = rx_dropped m"
    "case rxq m of [] \<Rightarrow> v = - 1 \<and> rxq m' = [] | x # xs \<Rightarrow> v = sint x \<and> rxq m' = xs"
    using Getc run ok async_getc_spec [of m] by (auto simp: uart_ok_def)
  have "0 \<le> sint x" if "x < 256" for x :: u32
    using that sint_small [of x] by (simp add: word_less_nat_alt)
  with v ok have "rxq m = del @ rxq m'"
    by (auto simp: uart_ok_def not_less [symmetric] split: list.splits)
  then have "uart_io m m' (masked_section (csrs m Mstatus) []) acc del"
    using v by (intro uart_io_call [OF ok v(4)]) (simp_all add: rx_bytes_def)
  then show ?thesis by blast
next
  case Tx_pending
  then show ?thesis using async_tx_pending_spec [of m B] run ok uart_io_call [OF ok]
    by (fastforce simp: uart_ok_def)
next
  case Rx_dropped
  then show ?thesis using async_rx_dropped_spec [of m] run ok uart_io_call [OF ok]
    by (fastforce simp: uart_ok_def rx_bytes_def)
next
  case Irq
  then show ?thesis using run ok uart_irq_io by auto
qed

lemma uart_run_io:
  "uart_ok m \<Longrightarrow> uart_run B cs m = Some (acc, del, m') \<Longrightarrow> \<exists>es. uart_io m m' es acc del"
proof (induction cs arbitrary: m acc del)
  case Nil
  then show ?case by (intro exI [of _ "[]"]) (simp add: uart_io_def rx_bytes_def)
next
  case (Cons c cs)
  then obtain a d m1 as ds where 1: "uart_do B c m = Some (a, d, m1)"
    and 2: "uart_run B cs m1 = Some (as, ds, m')" and [simp]: "acc = a @ as" "del = d @ ds"
    by (auto split: Option.bind_splits)
  obtain es1 where es1: "uart_io m m1 es1 a d" using uart_do_io [OF Cons.prems(1) 1] ..
  then have "uart_ok m1" by (simp add: uart_io_def)
  from Cons.IH [OF this 2] uart_io_trans [OF es1] show ?case by fastforce
qed

section \<open>What the driver needs of the UART\<close>

text \<open>
  \<open>line d\<close> is every byte the transmitter has accepted so far, \<open>backlog d\<close> bounds the bytes that can
  still be read back to back, \<open>enabled d\<close> says that transmission is switched on. A store to \<open>TXDATA\<close>
  is only promised to be accepted straight after a \<open>STATUS\<close> load that showed room.
\<close>

locale uart_device =
  fixes B :: "'d bus" and line :: "'d \<Rightarrow> u8 list" and backlog :: "'d \<Rightarrow> nat" and enabled :: "'d \<Rightarrow> bool"
  assumes rd_keeps: "enabled d \<Longrightarrow> line (snd (bus_rd B a d)) = line d"
      "enabled d \<Longrightarrow> enabled (snd (bus_rd B a d))"
    and tx_accept: "enabled d \<Longrightarrow> bit (fst (bus_rd B (ERISCV_MCU_UART0_BASE + ERISCV_MCU_UART_STATUS) d)) 0 \<Longrightarrow>
      line (bus_wr B ERISCV_MCU_UART0_BASE v
        (snd (bus_rd B (ERISCV_MCU_UART0_BASE + ERISCV_MCU_UART_STATUS) d))) = line d @ [ucast v]"
    and tx_enabled: "enabled (bus_wr B ERISCV_MCU_UART0_BASE v d) = enabled d"
    and ctrl_rd: "bit (fst (bus_rd B (ERISCV_MCU_UART0_BASE + ERISCV_MCU_UART_CTRL) d)) 0 = enabled d"
    and ctrl_wr: "enabled d \<Longrightarrow> bit v 0 \<Longrightarrow>
      line (bus_wr B (ERISCV_MCU_UART0_BASE + ERISCV_MCU_UART_CTRL) v d) = line d \<and>
      enabled (bus_wr B (ERISCV_MCU_UART0_BASE + ERISCV_MCU_UART_CTRL) v d)"
    and irq_wr: "enabled d \<Longrightarrow>
      line (bus_wr B (ERISCV_MCU_UART0_BASE + ERISCV_MCU_UART_IRQ_STATUS) v d) = line d"
      "enabled (bus_wr B (ERISCV_MCU_UART0_BASE + ERISCV_MCU_UART_IRQ_STATUS) v d) = enabled d"
    and rx_progress: "bit (fst (bus_rd B (ERISCV_MCU_UART0_BASE + ERISCV_MCU_UART_STATUS) d)) 1 \<Longrightarrow>
      backlog (snd (bus_rd B (ERISCV_MCU_UART0_BASE + ERISCV_MCU_UART_RXDATA)
        (snd (bus_rd B (ERISCV_MCU_UART0_BASE + ERISCV_MCU_UART_STATUS) d)))) < backlog d"
begin

lemma rx_returns: "\<exists>m'. uart_rx_service B m = Some m'"
  by (rule uart_rx_service_returns [where backlog = backlog]) (rule rx_progress)

lemma drain_line:
  "uart_tx_drain B m = Some m' \<Longrightarrow> uart_wf m \<Longrightarrow> enabled (dev m) \<Longrightarrow>
   enabled (dev m') \<and> uart_wf m' \<and>
   line (dev m') @ map ucast (txq m') = line (dev m) @ map ucast (txq m)"
proof (induction "length (txq m)" arbitrary: m rule: less_induct)
  case less
  obtain st d1 where rd: "bus_rd B 0x40000008 (dev m) = (st, d1)" by fastforce
  have d1: "line d1 = line (dev m)" "enabled d1"
    using rd_keeps [of "dev m" "0x40000008"] rd less.prems(3) by simp_all
  show ?case
  proof (cases "tx_tail m \<noteq> tx_head m \<and> bit st 0")
    case False
    then have "m' = m \<or> m' = m\<lparr>dev := d1, trace := trace m @ [Rd 0x40000008 st]\<rparr>"
      using less.prems(1) rd by (cases "tx_tail m = tx_head m"; subst (asm) uart_tx_drain.simps)
        (auto simp: mach_simps)
    then show ?thesis using d1 less.prems(2,3) by (auto simp: txq_def uart_wf_def)
  next
    case True
    let ?x = "tx_buffer m ! unat (tx_tail m)"
    let ?m = "m\<lparr>dev := bus_wr B 0x40000000 ?x d1, trace := trace m @ [Rd 0x40000008 st, Wr 0x40000000 ?x],
                tx_tail := uart_ring_next (tx_tail m) 128\<rparr>"
    have step: "uart_tx_drain B ?m = Some m'"
      using True less.prems(1) rd by (subst (asm) uart_tx_drain.simps) (simp add: mach_simps)
    have q: "txq m = ?x # txq ?m" using txq_deq [OF less.prems(2)] True by (simp add: txq_def)
    have "uart_wf ?m" using less.prems(2) by (simp add: uart_wf_def)
    moreover have "line (dev ?m) = line (dev m) @ [ucast ?x]" "enabled (dev ?m)"
      using tx_accept [of "dev m"] tx_enabled rd True less.prems(3) d1 by simp_all
    ultimately show ?thesis using less.hyps [OF _ step] q by simp
  qed
qed

lemma service_line:
  assumes run: "uart_tx_service B m = Some m'" and wf: "uart_wf m" and en: "enabled (dev m)"
  shows "enabled (dev m') \<and> uart_wf m' \<and>
     line (dev m') @ map ucast (txq m') = line (dev m) @ map ucast (txq m)"
proof -
  obtain m1 where dr: "uart_tx_drain B m = Some m1" and m': "m' = uart_tx_irq_update B m1"
    using run by (auto simp: uart_tx_service_def)
  note m1 = drain_line [OF dr wf en]
  obtain c d where rd: "bus_rd B 0x40000010 (dev m1) = (c, d)" by fastforce
  have "line d = line (dev m1)" "enabled d" "bit c 0"
    using m1 rd_keeps [of "dev m1" "0x40000010"] ctrl_rd [of "dev m1"] rd by simp_all
  then show ?thesis using m1 m' rd ctrl_wr [of d "c OR 8"] ctrl_wr [of d "c AND NOT 8"]
    by (auto simp: uart_tx_irq_update_def mach_simps Let_def txq_def uart_wf_def bit_simps)
qed

lemma rx_line:
  "uart_rx_service B m = Some m' \<Longrightarrow> enabled (dev m) \<Longrightarrow>
   enabled (dev m') \<and> line (dev m') = line (dev m)"
proof (induction "backlog (dev m)" arbitrary: m rule: less_induct)
  case less
  obtain st d1 where rs: "bus_rd B 0x40000008 (dev m) = (st, d1)" by fastforce
  obtain v d2 where rv: "bus_rd B 0x40000004 d1 = (v, d2)" by fastforce
  have d: "line d1 = line (dev m)" "enabled d1" "line d2 = line (dev m)" "enabled d2"
    using rd_keeps [of "dev m" "0x40000008"] rd_keeps [of d1 "0x40000004"] rs rv less.prems(2) by simp_all
  show ?case
  proof (cases "bit st 1")
    case True
    have "backlog d2 < backlog (dev m)" using rx_progress [of "dev m"] rs rv True by simp
    then have *: "dev m2 = d2 \<Longrightarrow> uart_rx_service B m2 = Some m' \<Longrightarrow>
        enabled (dev m') \<and> line (dev m') = line (dev m)" for m2
      using less.hyps [of m2] d by simp
    have "\<exists>m2. uart_rx_service B m = uart_rx_service B m2 \<and> dev m2 = d2"
      using True by (subst uart_rx_service.simps)
        (auto simp: mach_simps Let_def rs rv intro: exI [of "\<lambda>m2. _ = uart_rx_service B m2 \<and> _" , OF conjI [OF refl]])
    then show ?thesis using less.prems(1) * by auto
  next
    case False
    then have "m' = m\<lparr>dev := d1, trace := trace m @ [Rd 0x40000008 st]\<rparr>"
      using less.prems(1) rs by (subst (asm) uart_rx_service.simps) (simp add: mach_simps)
    then show ?thesis using d by simp
  qed
qed

lemma putc_line:
  assumes run: "eriscv_mcu_uart_async_putc B ch m = Some (r, m')" and wf: "uart_wf m"
    and en: "enabled (dev m)"
  shows "enabled (dev m') \<and> line (dev m') @ map ucast (txq m') =
    line (dev m) @ map ucast (txq m @ (if r \<noteq> 0 then [ucast ch] else []))"
proof (cases "uart_ring_next (tx_head m) 128 = tx_tail m")
  case True
  then have "r = 0" "m' = uart_irq_restore (csrs m Mstatus) (irq_off m)"
    using run by (simp_all add: eriscv_mcu_uart_async_putc_def irq_save_eq)
  then show ?thesis using en by (simp add: txq_def)
next
  case False
  let ?m1 = "(irq_off m)\<lparr>tx_buffer := (tx_buffer m)[unat (tx_head m) := ucast ch],
                         tx_head := uart_ring_next (tx_head m) 128\<rparr>"
  obtain m2 where "r = 1" "m' = uart_irq_restore (csrs m Mstatus) m2"
      and sv: "uart_tx_service B (fence ?m1) = Some m2"
    using run False by (auto simp: eriscv_mcu_uart_async_putc_def irq_save_eq)
  moreover have "uart_wf (fence ?m1)" using wf by (simp add: uart_wf_def fence_def)
  moreover have "txq (fence ?m1) = txq m @ [ucast ch]"
    using txq_enq [OF wf False, of "ucast ch"] by (simp add: txq_def fence_def)
  ultimately show ?thesis using service_line [OF sv] en by (simp add: txq_def fence_def)
qed

lemma write_line:
  assumes run: "eriscv_mcu_uart_async_write B data len m = Some (n, m')" and wf: "uart_wf m"
    and en: "enabled (dev m)"
  shows "enabled (dev m') \<and> line (dev m') @ map ucast (txq m') = line (dev m) @
    map ucast (txq m @ map (\<lambda>i. uart_load_byte (ram m) data (of_nat i)) [0..<unat n])"
proof -
  obtain m1 where f: "uart_async_fill data len 0 (irq_off m) = (n, m1)"
    and run': "\<exists>m2. uart_tx_service B (fence m1) = Some m2 \<and> m' = uart_irq_restore (csrs m Mstatus) m2"
    using run by (auto simp: eriscv_mcu_uart_async_write_def irq_save_eq Let_def split: prod.splits)
  then obtain m2 where sv: "uart_tx_service B (fence m1) = Some m2"
    and m': "m' = uart_irq_restore (csrs m Mstatus) m2" by blast
  have wf0: "uart_wf (irq_off m)" and q0: "txq (irq_off m) = txq m"
    using wf by (simp_all add: uart_wf_def txq_def)
  from uart_async_fill_spec [OF f wf0] obtain buf h where
    m1: "m1 = (irq_off m)\<lparr>tx_buffer := buf, tx_head := h\<rparr>" "uart_wf m1"
    "txq m1 = txq m @ map (\<lambda>i. uart_load_byte (ram m) data (of_nat i)) [0..<unat n]"
    unfolding q0 irq_off_fields by fastforce
  have "uart_wf (fence m1)" using m1(2) by (simp add: uart_wf_def fence_def)
  then show ?thesis using service_line [OF sv] en m1(1,3) m' by (simp add: txq_def fence_def)
qed

lemma irq_line:
  assumes run: "eriscv_mcu_uart_irq_handler B m = Some m'" and ok: "uart_ok m"
    and en: "enabled (dev m)"
  shows "enabled (dev m') \<and> line (dev m') @ map ucast (txq m') = line (dev m) @ map ucast (txq m)"
proof -
  obtain st d1 where rs: "bus_rd B 0x4000001c (dev m) = (st, d1)" by fastforce
  let ?m1 = "m\<lparr>dev := d1, trace := trace m @ [Rd 0x4000001c st]\<rparr>"
  obtain m2 where m2: "(if bit st 0 then uart_rx_service B ?m1 else Some ?m1) = Some m2"
    using run rs by (auto simp: eriscv_mcu_uart_irq_handler_def mach_simps split: Option.bind_splits if_splits)
  obtain m3 where m3: "(if bit st 1 then uart_tx_service B m2 else Some m2) = Some m3"
    and m': "m' = (if bit st 2 then eriscv_mcu_mmio_write32 B 0x4000001c 4 m3 else m3)"
    using run rs m2 by (auto simp: eriscv_mcu_uart_irq_handler_def mach_simps split: Option.bind_splits if_splits)
  have 1: "uart_wf ?m1" "txq ?m1 = txq m" using ok by (simp_all add: uart_ok_def uart_wf_def txq_def)
  have d1: "line d1 = line (dev m)" "enabled d1" using rd_keeps [OF en, of "0x4000001c"] rs by simp_all
  have 2: "uart_wf m2 \<and> txq m2 = txq m \<and> enabled (dev m2) \<and> line (dev m2) = line (dev m)"
  proof (cases "bit st 0")
    case True
    then have run2: "uart_rx_service B ?m1 = Some m2" using m2 by simp
    from uart_rx_service_spec [OF run2 1(1)] rx_line [OF run2] show ?thesis
      using d1 1 by (auto simp: rx_step_def)
  next
    case False
    then have "m2 = ?m1" using m2 by simp
    then show ?thesis using 1 d1 en by simp
  qed
  then have "enabled (dev m3) \<and> line (dev m3) @ map ucast (txq m3) = line (dev m2) @ map ucast (txq m2)"
    using service_line [of m2 m3] m3 by (auto split: if_splits)
  then show ?thesis using m' irq_wr 2 by (auto simp: mach_simps txq_def)
qed

lemma call_line:
  assumes run: "uart_do B c m = Some (acc, del, m')" and ok: "uart_ok m" and en: "enabled (dev m)"
  shows "enabled (dev m') \<and>
    line (dev m') @ map ucast (txq m') = line (dev m) @ map ucast (txq m @ acc)"
proof (cases c)
  case (Putc ch)
  then obtain r where "eriscv_mcu_uart_async_putc B ch m = Some (r, m')"
    "acc = (if r \<noteq> 0 then [ucast ch] else [])" using run by auto
  then show ?thesis using putc_line ok en by (simp add: uart_ok_def)
next
  case (Write data len)
  then obtain n where "eriscv_mcu_uart_async_write B data len m = Some (n, m')"
    "acc = map (\<lambda>i. uart_load_byte (ram m) data (of_nat i)) [0..<unat n]" using run by auto
  then show ?thesis using write_line ok en by (simp add: uart_ok_def)
next
  case Getc
  then show ?thesis using run en
    by (auto simp: eriscv_mcu_uart_async_getc_def irq_save_eq txq_def split: if_splits)
next
  case Tx_pending
  then show ?thesis using run en rd_keeps [OF en]
    by (auto simp: eriscv_mcu_uart_async_tx_pending_def irq_save_eq txq_def mach_simps)
next
  case Rx_dropped
  then show ?thesis using run en
    by (auto simp: eriscv_mcu_uart_async_rx_dropped_def irq_save_eq txq_def)
next
  case Irq
  then show ?thesis using run irq_line ok en by auto
qed

lemma run_line:
  "uart_ok m \<Longrightarrow> enabled (dev m) \<Longrightarrow> uart_run B cs m = Some (acc, del, m') \<Longrightarrow>
   enabled (dev m') \<and> line (dev m') @ map ucast (txq m') = line (dev m) @ map ucast (txq m @ acc)"
proof (induction cs arbitrary: m acc del)
  case (Cons c cs)
  then obtain a d m1 as ds where 1: "uart_do B c m = Some (a, d, m1)"
    and 2: "uart_run B cs m1 = Some (as, ds, m')" and [simp]: "acc = a @ as"
    by (auto split: Option.bind_splits)
  have "uart_ok m1" using uart_do_io [OF Cons.prems(1) 1] by (auto simp: uart_io_def)
  moreover note call_line [OF 1 Cons.prems(1,2)]
  ultimately show ?case using Cons.IH [OF _ _ 2] by simp
qed simp

lemma irq_returns: "uart_wf m \<Longrightarrow> \<exists>m'. eriscv_mcu_uart_irq_handler B m = Some m'"
proof -
  assume wf: "uart_wf m"
  obtain st d1 where rs: "bus_rd B 0x4000001c (dev m) = (st, d1)" by fastforce
  let ?m1 = "m\<lparr>dev := d1, trace := trace m @ [Rd 0x4000001c st]\<rparr>"
  have 1: "uart_wf ?m1" using wf by (simp add: uart_wf_def)
  obtain m2 where m2: "(if bit st 0 then uart_rx_service B ?m1 else Some ?m1) = Some m2"
    using rx_returns by fastforce
  then have "uart_wf m2" using uart_rx_service_spec [OF _ 1] 1 by (fastforce simp: rx_step_def split: if_splits)
  from uart_tx_service_spec [OF this, of B]
  obtain m3 where m3: "(if bit st 1 then uart_tx_service B m2 else Some m2) = Some m3"
    by (cases "bit st 1") auto
  show ?thesis using rs m2 m3
    by (auto simp: eriscv_mcu_uart_irq_handler_def mach_simps split: if_splits)
qed

lemma run_returns:
  "uart_ok m \<Longrightarrow> \<exists>acc del m'. uart_run B cs m = Some (acc, del, m')"
proof (induction cs arbitrary: m)
  case (Cons c cs)
  then have wf: "uart_wf m" by (simp add: uart_ok_def)
  have "\<exists>a d m1. uart_do B c m = Some (a, d, m1)"
    using async_putc_spec [OF wf, of B] async_write_spec [OF wf, of B] irq_returns [OF wf]
    by (cases c) (force simp: Let_def split: prod.splits)+
  then obtain a d m1 where 1: "uart_do B c m = Some (a, d, m1)" by blast
  have "uart_ok m1" using uart_do_io [OF Cons.prems 1] by (auto simp: uart_io_def)
  then show ?case using Cons.IH 1 by fastforce
qed simp

end

end
