(* ===== verification/Rtl_Uart.thy ===== *)
theory Rtl_Uart
  imports Uart_Session
begin

text \<open>
  The UART of the SoC, \<^verbatim>\<open>rtl/soc/peripherals/uart/uart_apb.sv\<close>, as the register interface the driver sees:
  one step per bus access. What the serial lines do before an access (a frame ends, a byte arrives) is a
  list of events, one list per access, so every timing of the lines is some script. Bit timing inside a
  frame is left out; the FIFO push and pop of one clock edge are taken at the event that causes them. The port by
  which the DMA engine pushes bytes into the transmit FIFO is left out: in the runs no DMA transfer to the UART goes on
  beside the driver's calls.
\<close>

section \<open>The device\<close>

datatype uart_event = Shift_done | Byte_in u8

record uart_apb =
  tx_fifo :: "u8 list"
  tx_engine :: "u8 option"    \<comment> \<open>the byte in the shifter\<close>
  tx_wire :: "u8 list"        \<comment> \<open>bytes sent\<close>
  rx_fifo :: "u8 list"
  rx_overrun :: bool
  baud_div :: u32
  ctrl :: u32
  tx_watermark :: u32
  rx_watermark :: u32
  script :: "uart_event list list"

abbreviation (input) TX_FIFO_DEPTH :: nat where "TX_FIFO_DEPTH \<equiv> 32"
abbreviation (input) RX_FIFO_DEPTH :: nat where "RX_FIFO_DEPTH \<equiv> 64"

fun uart_event_step :: "uart_event \<Rightarrow> uart_apb \<Rightarrow> uart_apb" where
  "uart_event_step Shift_done u =
    (case tx_engine u of
       None \<Rightarrow> u
     | Some b \<Rightarrow>
        (let u = u\<lparr>tx_wire := tx_wire u @ [b]\<rparr>
         in case tx_fifo u of
              [] \<Rightarrow> u\<lparr>tx_engine := None\<rparr>
            | x # xs \<Rightarrow> u\<lparr>tx_engine := Some x, tx_fifo := xs\<rparr>))"
| "uart_event_step (Byte_in b) u =
    (if \<not> bit (ctrl u) 1 then u
     else if length (rx_fifo u) < RX_FIFO_DEPTH then u\<lparr>rx_fifo := rx_fifo u @ [b]\<rparr>
     else u\<lparr>rx_overrun := True\<rparr>)"

definition uart_events :: "uart_apb \<Rightarrow> uart_apb" where
  "uart_events u =
    (case script u of [] \<Rightarrow> u | es # ess \<Rightarrow> fold uart_event_step es (u\<lparr>script := ess\<rparr>))"

definition uart_bit :: "bool \<Rightarrow> nat \<Rightarrow> u32" where
  "uart_bit b n = (if b then push_bit n 1 else 0)"

definition uart_status_value :: "uart_apb \<Rightarrow> u32" where
  "uart_status_value u =
     uart_bit (bit (ctrl u) 0 \<and> length (tx_fifo u) < TX_FIFO_DEPTH) 0 OR
     uart_bit (rx_fifo u \<noteq> []) 1 OR
     uart_bit (tx_engine u \<noteq> None \<or> tx_fifo u \<noteq> []) 2 OR
     uart_bit (rx_overrun u) 3"

definition uart_irq_status_value :: "uart_apb \<Rightarrow> u32" where
  "uart_irq_status_value u =
     uart_bit (rx_fifo u \<noteq> [] \<and>
       (rx_watermark u = 0 \<or> unat (rx_watermark u) \<le> length (rx_fifo u))) 0 OR
     uart_bit (length (tx_fifo u) \<le> unat (tx_watermark u)) 1 OR
     uart_bit (rx_overrun u) 2"

definition uart_apb_rd :: "u32 \<Rightarrow> uart_apb \<Rightarrow> u32 \<times> uart_apb" where
  "uart_apb_rd a u =
    (let u = uart_events u; reg = a AND 0xff
     in if reg = 0x04 then
          (case rx_fifo u of [] \<Rightarrow> (0, u) | b # bs \<Rightarrow> (ucast b, u\<lparr>rx_fifo := bs\<rparr>))
        else if reg = 0x08 then (uart_status_value u, u)
        else if reg = 0x0c then (baud_div u, u)
        else if reg = 0x10 then (ctrl u, u)
        else if reg = 0x14 then (tx_watermark u, u)
        else if reg = 0x18 then (rx_watermark u, u)
        else if reg = 0x1c then (uart_irq_status_value u, u)
        else (0, u))"

definition uart_apb_wr :: "u32 \<Rightarrow> u32 \<Rightarrow> uart_apb \<Rightarrow> uart_apb" where
  "uart_apb_wr a v u =
    (let u = uart_events u; reg = a AND 0xff
     in if reg = 0x00 then
          if \<not> bit (ctrl u) 0 \<or> \<not> length (tx_fifo u) < TX_FIFO_DEPTH then u
          else if tx_fifo u = [] \<and> tx_engine u = None then u\<lparr>tx_engine := Some (ucast v)\<rparr>
          else u\<lparr>tx_fifo := tx_fifo u @ [ucast v]\<rparr>
        else if reg = 0x0c then u\<lparr>baud_div := v\<rparr>
        else if reg = 0x10 then
          if bit v 0 then u\<lparr>ctrl := v\<rparr> else u\<lparr>ctrl := v, tx_fifo := [], tx_engine := None\<rparr>
        else if reg = 0x14 then u\<lparr>tx_watermark := (if 32 \<le> v then 32 else v)\<rparr>
        else if reg = 0x18 then u\<lparr>rx_watermark := (if 64 \<le> v then 64 else v)\<rparr>
        else if reg = 0x1c then (if bit v 2 then u\<lparr>rx_overrun := False\<rparr> else u)
        else u)"

definition uart_apb_bus :: "uart_apb bus" where
  "uart_apb_bus = \<lparr>bus_rd = uart_apb_rd, bus_wr = uart_apb_wr\<rparr>"

section \<open>It provides what the driver needs\<close>

definition uart_line :: "uart_apb \<Rightarrow> u8 list" where
  "uart_line u = tx_wire u @ (case tx_engine u of None \<Rightarrow> [] | Some b \<Rightarrow> [b]) @ tx_fifo u"

definition uart_backlog :: "uart_apb \<Rightarrow> nat" where
  "uart_backlog u = length (rx_fifo u) + length (concat (script u))"

lemma event_keeps:
  "uart_line (uart_event_step e u) = uart_line u"
  "ctrl (uart_event_step e u) = ctrl u"
  "script (uart_event_step e u) = script u"
  "length (tx_fifo (uart_event_step e u)) \<le> length (tx_fifo u)"
  "length (rx_fifo (uart_event_step e u)) \<le> Suc (length (rx_fifo u))"
  "rx_fifo u \<noteq> [] \<Longrightarrow> rx_fifo (uart_event_step e u) \<noteq> []"
  by (cases "(e, u)" rule: uart_event_step.cases;
      simp add: uart_line_def Let_def split: option.split list.split)+

lemma fold_events_keep:
  "uart_line (fold uart_event_step es u) = uart_line u \<and>
   ctrl (fold uart_event_step es u) = ctrl u \<and>
   script (fold uart_event_step es u) = script u \<and>
   length (tx_fifo (fold uart_event_step es u)) \<le> length (tx_fifo u) \<and>
   length (rx_fifo (fold uart_event_step es u)) \<le> length es + length (rx_fifo u) \<and>
   (rx_fifo u \<noteq> [] \<longrightarrow> rx_fifo (fold uart_event_step es u) \<noteq> [])"
proof (induction es arbitrary: u)
  case (Cons e es)
  from Cons.IH [of "uart_event_step e u"] show ?case
    using event_keeps [where e = e and u = u] by (auto intro: order.trans)
qed simp

lemma uart_events_keep:
  "uart_line (uart_events u) = uart_line u" "ctrl (uart_events u) = ctrl u"
  "length (tx_fifo (uart_events u)) \<le> length (tx_fifo u)"
  "uart_backlog (uart_events u) \<le> uart_backlog u"
  "rx_fifo u \<noteq> [] \<Longrightarrow> rx_fifo (uart_events u) \<noteq> []"
  using fold_events_keep [of "hd (script u)" "u\<lparr>script := tl (script u)\<rparr>"]
  by (auto simp: uart_events_def uart_line_def uart_backlog_def split: list.split)

lemma bit_uart_bit: "bit (uart_bit b n) i \<longleftrightarrow> b \<and> i = n \<and> n < 32"
  by (auto simp: uart_bit_def bit_simps)

lemma status_bits:
  "bit (uart_status_value u) 0 \<longleftrightarrow> bit (ctrl u) 0 \<and> length (tx_fifo u) < 32"
  "bit (uart_status_value u) (Suc 0) \<longleftrightarrow> rx_fifo u \<noteq> []"
  "bit (uart_status_value u) 2 \<longleftrightarrow> tx_engine u \<noteq> None \<or> tx_fifo u \<noteq> []"
  by (simp_all add: uart_status_value_def bit_or_iff bit_uart_bit)

lemma uart_apb_rd_keeps:
  "uart_line (snd (uart_apb_rd a u)) = uart_line u" "ctrl (snd (uart_apb_rd a u)) = ctrl u"
  using uart_events_keep(1,2) [of u]
  by (simp_all add: uart_apb_rd_def Let_def uart_line_def split: list.split)

interpretation apb_uart: uart_device uart_apb_bus uart_line uart_backlog "\<lambda>u. bit (ctrl u) 0"
proof
  fix d :: uart_apb and a v :: u32
  show "uart_line (snd (bus_rd uart_apb_bus a d)) = uart_line d"
    by (simp add: uart_apb_bus_def uart_apb_rd_keeps)
  show "bit (ctrl d) 0 \<Longrightarrow> bit (ctrl (snd (bus_rd uart_apb_bus a d))) 0"
    by (simp add: uart_apb_bus_def uart_apb_rd_keeps)
  show "bit (ctrl (bus_wr uart_apb_bus ERISCV_MCU_UART0_BASE v d)) 0 = bit (ctrl d) 0"
    by (simp add: uart_apb_bus_def uart_apb_wr_def Let_def uart_events_keep)
  show "bit (fst (bus_rd uart_apb_bus (ERISCV_MCU_UART0_BASE + ERISCV_MCU_UART_CTRL) d)) 0 = bit (ctrl d) 0"
    by (simp add: uart_apb_bus_def uart_apb_rd_def Let_def uart_events_keep)
  show "uart_line (bus_wr uart_apb_bus (ERISCV_MCU_UART0_BASE + ERISCV_MCU_UART_CTRL) v d) = uart_line d \<and>
      bit (ctrl (bus_wr uart_apb_bus (ERISCV_MCU_UART0_BASE + ERISCV_MCU_UART_CTRL) v d)) 0"
    if "bit v 0"
    using that uart_events_keep(1) [of d] by (simp add: uart_apb_bus_def uart_apb_wr_def Let_def uart_line_def)
  show "uart_line (bus_wr uart_apb_bus (ERISCV_MCU_UART0_BASE + ERISCV_MCU_UART_IRQ_STATUS) v d) = uart_line d"
    "bit (ctrl (bus_wr uart_apb_bus (ERISCV_MCU_UART0_BASE + ERISCV_MCU_UART_IRQ_STATUS) v d)) 0 = bit (ctrl d) 0"
    using uart_events_keep(1,2) [of d]
    by (simp_all add: uart_apb_bus_def uart_apb_wr_def Let_def uart_line_def)
  show "uart_line (bus_wr uart_apb_bus ERISCV_MCU_UART0_BASE v
      (snd (bus_rd uart_apb_bus (ERISCV_MCU_UART0_BASE + ERISCV_MCU_UART_STATUS) d))) = uart_line d @ [ucast v]"
    if "bit (fst (bus_rd uart_apb_bus (ERISCV_MCU_UART0_BASE + ERISCV_MCU_UART_STATUS) d)) 0"
  proof -
    let ?u = "uart_events (uart_events d)"
    have "bit (ctrl d) 0" and "length (tx_fifo (uart_events d)) < 32"
      using that by (simp_all add: uart_apb_bus_def uart_apb_rd_def Let_def status_bits uart_events_keep)
    then have "bit (ctrl d) 0" "length (tx_fifo ?u) < 32"
      using uart_events_keep(3) [of "uart_events d"] by linarith+
    moreover have "uart_line ?u = uart_line d" "ctrl ?u = ctrl d" by (simp_all add: uart_events_keep)
    ultimately show ?thesis
      by (simp add: uart_apb_bus_def uart_apb_rd_def uart_apb_wr_def Let_def)
        (auto simp: uart_line_def split: option.splits)
  qed
  show "uart_backlog (snd (bus_rd uart_apb_bus (ERISCV_MCU_UART0_BASE + ERISCV_MCU_UART_RXDATA)
      (snd (bus_rd uart_apb_bus (ERISCV_MCU_UART0_BASE + ERISCV_MCU_UART_STATUS) d)))) < uart_backlog d"
    if "bit (fst (bus_rd uart_apb_bus (ERISCV_MCU_UART0_BASE + ERISCV_MCU_UART_STATUS) d)) 1"
  proof -
    let ?u = "uart_events (uart_events d)"
    have "rx_fifo ?u \<noteq> []"
      using that uart_events_keep(5) [of "uart_events d"]
      by (simp add: uart_apb_bus_def uart_apb_rd_def Let_def status_bits)
    moreover have "uart_backlog ?u \<le> uart_backlog d"
      using uart_events_keep(4) order.trans by blast
    ultimately show ?thesis
      by (cases "rx_fifo ?u")
        (simp_all add: uart_apb_bus_def uart_apb_rd_def Let_def uart_backlog_def)
  qed
qed

section \<open>The driver on this device\<close>

definition uart_apb_reset :: "uart_event list list \<Rightarrow> uart_apb" where
  "uart_apb_reset es = \<lparr>tx_fifo = [], tx_engine = None, tx_wire = [], rx_fifo = [], rx_overrun = False,
     baud_div = 8, ctrl = 3, tx_watermark = 8, rx_watermark = 1, script = es\<rparr>"

text \<open>A driver state with both FIFOs empty.\<close>

definition uart_boot :: "'d \<Rightarrow> 'd uart" where
  "uart_boot d = \<lparr>dev = d, csrs = (\<lambda>_. 0), ram = (\<lambda>_. 0), trace = [],
     tx_buffer = replicate 128 0, rx_buffer = replicate 128 0, tx_head = 0, tx_tail = 0,
     rx_head = 0, rx_tail = 0, rx_dropped = 0\<rparr>"

lemma uart_boot_ok: "uart_ok (uart_boot d)" "txq (uart_boot d) = []" "rxq (uart_boot d) = []"
  by (simp_all add: uart_ok_def uart_wf_def txq_def rxq_def uart_boot_def)

lemma uart_boot_fields [simp]: "dev (uart_boot d) = d" "trace (uart_boot d) = []"
  "rx_dropped (uart_boot d) = 0" "csrs (uart_boot d) = (\<lambda>_. 0)"
  by (simp_all add: uart_boot_def)

lemma uart_apb_reset_fields [simp]: "ctrl (uart_apb_reset es) = 3" "script (uart_apb_reset es) = es"
  "tx_engine (uart_apb_reset es) = None" "tx_fifo (uart_apb_reset es) = []" "uart_line (uart_apb_reset es) = []"
  by (simp_all add: uart_apb_reset_def uart_line_def)

text \<open>
  C1. End to end, on the SoC's UART with its transmitter enabled: any interleaving of the
  interrupt-driven calls and interrupts, under any timing of the serial lines, returns, and every byte the
  driver accepted is, in order and exactly once, on the wire, in the UART or still in the driver's queue:
  the driver never overruns the 32-byte hardware FIFO.
\<close>

theorem uart_end_to_end:
  assumes "uart_ok m" "bit (ctrl (dev m)) 0"
  shows "\<exists>acc del m'. uart_run uart_apb_bus cs m = Some (acc, del, m') \<and> uart_ok m' \<and>
    uart_line (dev m') @ map ucast (txq m') = uart_line (dev m) @ map ucast (txq m @ acc)"
proof -
  obtain acc del m' where run: "uart_run uart_apb_bus cs m = Some (acc, del, m')"
    using apb_uart.run_returns [OF assms(1)] by blast
  moreover have "uart_ok m'" using uart_run_io [OF assms(1) run] by (auto simp: uart_io_def)
  ultimately show ?thesis using apb_uart.run_line [OF assms run] by blast
qed

theorem uart_end_to_end_witness:
  "\<exists>acc del m'. uart_run uart_apb_bus [Putc 0x41, Irq, Write 0 200, Irq, Getc]
       (uart_boot (uart_apb_reset [[], [Byte_in 0x42], [Shift_done]])) = Some (acc, del, m') \<and>
     uart_line (dev m') @ map ucast (txq m') = map ucast acc"
  using uart_end_to_end [OF uart_boot_ok(1), of "uart_apb_reset [[], [Byte_in 0x42], [Shift_done]]"
      "[Putc 0x41, Irq, Write 0 200, Irq, Getc]"]
  by (auto simp: uart_boot_ok)

text \<open>
  C7. On any device: the bytes queued and accepted are what is stored to \<open>TXDATA\<close>, in order, followed by
  what is still queued; what the caller got and what is still queued for it is, in order, part of what
  \<open>RXDATA\<close> returned, and the drop counter tells, modulo \<open>2 ^ 32\<close>, how much is missing. Every
  \<open>TXDATA\<close> store directly follows a \<open>STATUS\<close> load that showed room, and the CSRs end as they began.
\<close>

theorem uart_streams_conserved:
  assumes "uart_ok m" "uart_run B cs m = Some (acc, del, m')"
  shows "\<exists>es. trace m' = trace m @ es \<and> uart_ok m' \<and> csrs m' = csrs m \<and> tx_guarded False es \<and>
    writes_to (ERISCV_MCU_UART0_BASE + ERISCV_MCU_UART_TXDATA) es @ txq m' = txq m @ acc \<and>
    subseq (del @ rxq m') (rxq m @ rx_bytes es) \<and>
    rx_dropped m' + of_nat (length del + length (rxq m'))
      = rx_dropped m + of_nat (length (rxq m) + length (rx_bytes es))"
  using uart_run_io [OF assms] by (auto simp: uart_io_def)

theorem uart_streams_conserved_witness:
  "\<exists>acc del m'. uart_run uart_apb_bus [Irq, Getc, Putc 0x41]
       (uart_boot (uart_apb_reset [[Byte_in 0x42]])) = Some (acc, del, m') \<and>
     writes_to ERISCV_MCU_UART0_BASE (trace m') @ txq m' = acc \<and>
     subseq (del @ rxq m') (rx_bytes (trace m'))"
proof -
  let ?m = "uart_boot (uart_apb_reset [[Byte_in 0x42]])"
  obtain acc del m' where run: "uart_run uart_apb_bus [Irq, Getc, Putc 0x41] ?m = Some (acc, del, m')"
    using apb_uart.run_returns [OF uart_boot_ok(1)] by blast
  from uart_streams_conserved [OF uart_boot_ok(1) run] run show ?thesis
    by (auto simp: uart_boot_ok)
qed

text \<open>
  C19. \<open>async_write\<close> returns, takes exactly as many bytes as the queue has room for, appends them in
  order, and leaves \<open>TX_IRQ_EN\<close> set just when something is still queued; all of it with interrupts masked.
\<close>

theorem uart_async_write_correct:
  assumes "uart_wf m"
  shows "\<exists>n m' es. eriscv_mcu_uart_async_write B data len m = Some (n, m') \<and>
    unat n = min (unat len) (127 - length (txq m)) \<and>
    trace m' = trace m @ masked_section (csrs m Mstatus) es \<and> csr_free es \<and> csrs m' = csrs m \<and>
    writes_to (ERISCV_MCU_UART0_BASE + ERISCV_MCU_UART_TXDATA) es @ txq m'
      = txq m @ map (\<lambda>i. uart_load_byte (ram m) data (of_nat i)) [0..<unat n] \<and>
    (\<exists>c. writes_to (ERISCV_MCU_UART0_BASE + ERISCV_MCU_UART_CTRL) es = [c] \<and>
         (bit c 3 \<longleftrightarrow> txq m' \<noteq> []))"
  using async_write_spec [OF assms, of B data len] by (auto simp: uart_step_def)

theorem uart_async_write_correct_witness:
  "\<exists>n m'. eriscv_mcu_uart_async_write uart_apb_bus 0x10000000 200 (uart_boot (uart_apb_reset [])) = Some (n, m') \<and>
    unat n = 127"
  using uart_async_write_correct [of "uart_boot (uart_apb_reset [])" uart_apb_bus "0x10000000" 200]
    uart_boot_ok [of "uart_apb_reset []"]
  by (auto simp: uart_ok_def)

lemma uart_apb_bus_sel: "bus_rd uart_apb_bus = uart_apb_rd" "bus_wr uart_apb_bus = uart_apb_wr"
  by (simp_all add: uart_apb_bus_def)

lemma events_idle:
  "tx_engine u = None \<Longrightarrow> tx_fifo u = [] \<Longrightarrow>
   tx_engine (fold uart_event_step es u) = None \<and> tx_fifo (fold uart_event_step es u) = []"
proof (induction es arbitrary: u)
  case (Cons e es)
  then show ?case by (cases e) simp_all
qed simp

lemma events_busy:
  "tx_engine u = Some ch \<Longrightarrow> tx_fifo u = [] \<Longrightarrow>
   tx_engine (fold uart_event_step es u) = (if Shift_done \<in> set es then None else Some ch) \<and>
   tx_fifo (fold uart_event_step es u) = []"
proof (induction es arbitrary: u)
  case (Cons e es)
  then show ?case by (cases e) (simp_all add: events_idle)
qed simp

lemma wait_status_busy_never:
  "uart_wait_status B bits m = Some m' \<Longrightarrow> B = uart_apb_bus \<Longrightarrow> bits = 4 \<Longrightarrow>
   tx_engine (dev m) = None \<Longrightarrow> tx_fifo (dev m) = [] \<Longrightarrow> False"
proof (induction B bits m m' rule: uart_wait_status.raw_induct [rotated, consumes 1])
  case (1 f B bits m m')
  let ?u = "uart_events (dev m)"
  have "tx_engine ?u = None" "tx_fifo ?u = []"
    using "1.prems" events_idle by (auto simp: uart_events_def split: list.split)
  moreover from this have "f uart_apb_bus 4 (m\<lparr>dev := ?u,
      trace := trace m @ [Rd 0x40000008 (uart_status_value ?u)]\<rparr>) = Some m'"
    using 1(2-4) by (simp add: mach_simps uart_apb_bus_sel uart_apb_rd_def Let_def status_bits)
  from 1(1) [OF this refl refl] calculation show ?case by simp
qed

lemma wait_busy_iff:
  assumes "tx_engine (dev m) = Some ch" "tx_fifo (dev m) = []" "script (dev m) = ev # rest"
  shows "(\<exists>m'. uart_wait_status uart_apb_bus 4 m = Some m') \<longleftrightarrow> Shift_done \<notin> set ev"
proof -
  let ?c = "uart_events (dev m)"
  let ?m = "m\<lparr>dev := ?c, trace := trace m @ [Rd 0x40000008 (uart_status_value ?c)]\<rparr>"
  have c: "tx_engine ?c = (if Shift_done \<in> set ev then None else Some ch)" "tx_fifo ?c = []"
    using assms events_busy by (simp_all add: uart_events_def)
  show ?thesis
  proof (cases "Shift_done \<in> set ev")
    case True
    then have "uart_wait_status uart_apb_bus 4 m = uart_wait_status uart_apb_bus 4 ?m"
      using c by (subst uart_wait_status.simps)
        (simp add: mach_simps uart_apb_bus_sel uart_apb_rd_def Let_def status_bits)
    then show ?thesis using True c wait_status_busy_never [of uart_apb_bus 4 ?m]
      by (cases "uart_wait_status uart_apb_bus 4 ?m") auto
  next
    case False
    then have "uart_wait_status uart_apb_bus 4 m = Some ?m"
      using c by (subst uart_wait_status.simps)
        (simp add: mach_simps uart_apb_bus_sel uart_apb_rd_def Let_def status_bits)
    then show ?thesis using False by simp
  qed
qed

text \<open>
  C20. The polling \<open>putc\<close> waits for \<open>TX_BUSY\<close> to be set: on an idle UART it returns when its first poll
  still sees the byte going out, and never when the byte has left by then (an interrupt between the store
  and the poll is enough).
\<close>

theorem uart_putc_returns_iff:
  assumes "bit (ctrl (dev m)) 0" "tx_engine (dev m) = None" "tx_fifo (dev m) = []"
    "script (dev m) = ev0 # ev1 # ev2 # rest"
  shows "(\<exists>m'. eriscv_mcu_uart_putc uart_apb_bus ch m = Some m') \<longleftrightarrow> Shift_done \<notin> set ev2"
proof -
  let ?a = "uart_events (dev m)"
  let ?b = "uart_events ?a"
  let ?m = "m\<lparr>dev := ?b\<lparr>tx_engine := Some ch\<rparr>,
    trace := trace m @ [Rd 0x40000008 (uart_status_value ?a), Wr 0x40000000 (ucast ch)]\<rparr>"
  have a: "tx_engine ?a = None" "tx_fifo ?a = []" "script ?a = ev1 # ev2 # rest" "ctrl ?a = ctrl (dev m)"
    using assms events_idle fold_events_keep by (simp_all add: uart_events_def)
  then have b: "tx_engine ?b = None" "tx_fifo ?b = []" "script ?b = ev2 # rest" "ctrl ?b = ctrl (dev m)"
    using events_idle fold_events_keep by (simp_all add: uart_events_def [of ?a])
  have "eriscv_mcu_uart_putc uart_apb_bus ch m = uart_wait_status uart_apb_bus 4 ?m"
    using assms(1) a b unfolding eriscv_mcu_uart_putc_def
    by (subst uart_wait_status.simps)
      (simp add: mach_simps uart_apb_bus_sel uart_apb_rd_def uart_apb_wr_def Let_def status_bits)
  then show ?thesis using wait_busy_iff [of ?m] b by simp
qed

theorem uart_putc_returns_iff_witness:
  "\<not> (\<exists>m'. eriscv_mcu_uart_putc uart_apb_bus 0x41
       (uart_boot (uart_apb_reset [[], [], [Shift_done]])) = Some m')"
  using uart_putc_returns_iff [of "uart_boot (uart_apb_reset [[], [], [Shift_done]])" "[]" "[]" "[Shift_done]" "[]" "0x41"]
  by simp

text \<open>
  C29. \<open>async_init\<close> makes the driver state well formed with empty FIFOs from any content of the \<open>.noinit\<close>
  statics, and leaves machine external interrupts and the global enable on, also when the caller had
  interrupts masked.
\<close>

theorem uart_async_init_establishes:
  assumes "length (tx_buffer m) = 128" "length (rx_buffer m) = 128"
    "m' = eriscv_mcu_uart_async_init B divisor m"
  shows "uart_ok m' \<and> txq m' = [] \<and> rxq m' = [] \<and> rx_dropped m' = 0 \<and>
    csrs m' = (csrs m)(Mie := csrs m Mie OR ERISCV_MCU_MIE_MEIE,
                       Mstatus := csrs m Mstatus OR ERISCV_MCU_MSTATUS_MIE)"
proof -
  have or8: "x AND NOT 8 OR 8 = x OR (8 :: u32)" "x OR 8 OR 8 = x OR (8 :: u32)" for x
    by (rule bit_word_eqI; auto simp: bit_simps)+
  let ?m0 = "(irq_off m)\<lparr>tx_head := 0, tx_tail := 0, rx_head := 0, rx_tail := 0, rx_dropped := 0\<rparr>"
  have "\<exists>m1. eriscv_mcu_uart_async_init B divisor m =
      uart_irq_restore (csrs m Mstatus) (eriscv_mcu_enable_machine_irqs ERISCV_MCU_MIE_MEIE m1) \<and>
      csrs m1 = csrs ?m0 \<and> tx_head m1 = 0 \<and> tx_tail m1 = 0 \<and> rx_head m1 = 0 \<and> rx_tail m1 = 0 \<and>
      rx_dropped m1 = 0 \<and> tx_buffer m1 = tx_buffer m \<and> rx_buffer m1 = rx_buffer m"
    unfolding eriscv_mcu_uart_async_init_def irq_save_eq Let_def prod.case
    by (rule exI, rule conjI, rule refl) (simp add: eriscv_mcu_uart_init_def bsp_defs Let_def case_prod_beta)
  then obtain m1 where m': "m' = uart_irq_restore (csrs m Mstatus) (eriscv_mcu_enable_machine_irqs ERISCV_MCU_MIE_MEIE m1)"
    and m1: "csrs m1 = csrs ?m0" "tx_head m1 = 0" "tx_tail m1 = 0" "rx_head m1 = 0" "rx_tail m1 = 0"
      "rx_dropped m1 = 0" "tx_buffer m1 = tx_buffer m" "rx_buffer m1 = rx_buffer m"
    using assms(3) by blast
  have "csrs m' = (csrs m)(Mie := csrs m Mie OR ERISCV_MCU_MIE_MEIE,
                       Mstatus := csrs m Mstatus OR ERISCV_MCU_MSTATUS_MIE)"
    unfolding m' using or8 m1(1)
    by (auto simp: uart_irq_restore_def eriscv_mcu_enable_machine_irqs_def csr_set_def)
  then show ?thesis using m1 assms(1,2) unfolding m'
    by (simp add: uart_ok_def uart_wf_def txq_def rxq_def eriscv_mcu_enable_machine_irqs_def csr_set_def)
qed

theorem uart_async_init_establishes_witness:
  "uart_ok (eriscv_mcu_uart_async_init uart_apb_bus 8
     ((uart_boot (uart_apb_reset []))\<lparr>tx_head := 0xffffffff, rx_tail := 200\<rparr>))"
  using uart_async_init_establishes [of "(uart_boot (uart_apb_reset []))\<lparr>tx_head := 0xffffffff, rx_tail := 200\<rparr>"
      _ uart_apb_bus 8]
  by (simp add: uart_boot_def)

end
