(* ===== verification/Bsp_Dma.thy ===== *)
theory Bsp_Dma
  imports Rtl_Uart
begin

text \<open>
  The DMA driver \<^verbatim>\<open>sw/lib/dma.c\<close> and the machine trap dispatch \<^verbatim>\<open>sw/lib/trap.c\<close>. The DMA engine is not part of
  the repository, so it is whatever the bus makes of the register accesses; the weak functions an
  application may replace are the fields of \<open>hooks\<close>, with the defaults of the sources in \<open>weak_hooks\<close>.
\<close>

section \<open>The descriptor\<close>

record eriscv_mcu_dma_descriptor_t =
  d_next :: u32
  d_source :: u32
  d_destination :: u32
  d_length :: u32
  d_control :: u32
  d_status :: u32
  d_bytes_transferred :: u32
  d_reserved :: u32

section \<open>Operations\<close>

definition dma_range_valid :: "u32 \<Rightarrow> u32 \<Rightarrow> bool" where
  "dma_range_valid address len =
    (if len = 0 \<or> len > ERISCV_MCU_SYSTEM_SRAM_SIZE then False
     else if address < ERISCV_MCU_SYSTEM_SRAM_BASE then False
     else address - ERISCV_MCU_SYSTEM_SRAM_BASE \<le> ERISCV_MCU_SYSTEM_SRAM_SIZE - len)"

definition eriscv_mcu_dma_status :: "'d bus \<Rightarrow> ('d, 'e) mach_scheme \<Rightarrow> u32 \<times> ('d, 'e) mach_scheme" where
  "eriscv_mcu_dma_status B m =
     eriscv_mcu_mmio_read32 B (ERISCV_MCU_DMA_BASE + ERISCV_MCU_DMA_STATUS) m"

definition eriscv_mcu_dma_clear_status :: "'d bus \<Rightarrow> ('d, 'e) mach_scheme \<Rightarrow> ('d, 'e) mach_scheme" where
  "eriscv_mcu_dma_clear_status B m =
     eriscv_mcu_mmio_write32 B (ERISCV_MCU_DMA_BASE + ERISCV_MCU_DMA_STATUS)
       (ERISCV_MCU_DMA_STATUS_DONE OR ERISCV_MCU_DMA_STATUS_ERROR OR ERISCV_MCU_DMA_STATUS_DESC_IRQ) m"

definition eriscv_mcu_dma_start ::
    "'d bus \<Rightarrow> u32 \<Rightarrow> u32 \<Rightarrow> u32 \<Rightarrow> int \<Rightarrow> ('d, 'e) mach_scheme \<Rightarrow> int \<times> ('d, 'e) mach_scheme" where
  "eriscv_mcu_dma_start B source destination len irq_enable m =
    (let control = ERISCV_MCU_DMA_CTRL_START
     in if (source OR destination OR len) AND 3 \<noteq> 0 \<or>
           \<not> dma_range_valid source len \<or> \<not> dma_range_valid destination len
        then (ERISCV_MCU_DMA_EINVAL, m)
        else
          let (status, m) = eriscv_mcu_dma_status B m
          in if status AND ERISCV_MCU_DMA_STATUS_BUSY \<noteq> 0 then (ERISCV_MCU_DMA_EBUSY, m)
             else
               let m = eriscv_mcu_dma_clear_status B m;
                   m = eriscv_mcu_mmio_write32 B (ERISCV_MCU_DMA_BASE + ERISCV_MCU_DMA_SRC) source m;
                   m = eriscv_mcu_mmio_write32 B (ERISCV_MCU_DMA_BASE + ERISCV_MCU_DMA_DST) destination m;
                   m = eriscv_mcu_mmio_write32 B (ERISCV_MCU_DMA_BASE + ERISCV_MCU_DMA_LEN) len m;
                   control = (if irq_enable \<noteq> 0 then control OR ERISCV_MCU_DMA_CTRL_IRQ_EN else control)
               in (ERISCV_MCU_DMA_OK,
                   eriscv_mcu_mmio_write32 B (ERISCV_MCU_DMA_BASE + ERISCV_MCU_DMA_CTRL) control m))"

definition eriscv_mcu_dma_uart_tx_start ::
    "'d bus \<Rightarrow> u32 \<Rightarrow> u32 \<Rightarrow> int \<Rightarrow> ('d, 'e) mach_scheme \<Rightarrow> int \<times> ('d, 'e) mach_scheme" where
  "eriscv_mcu_dma_uart_tx_start B source len irq_enable m =
    (let control = ERISCV_MCU_DMA_CTRL_START OR ERISCV_MCU_DMA_CTRL_UART_TX
     in if source AND 3 \<noteq> 0 \<or> \<not> dma_range_valid source len
        then (ERISCV_MCU_DMA_EINVAL, m)
        else
          let (status, m) = eriscv_mcu_dma_status B m
          in if status AND ERISCV_MCU_DMA_STATUS_BUSY \<noteq> 0 then (ERISCV_MCU_DMA_EBUSY, m)
             else
               let m = eriscv_mcu_dma_clear_status B m;
                   m = eriscv_mcu_mmio_write32 B (ERISCV_MCU_DMA_BASE + ERISCV_MCU_DMA_SRC) source m;
                   m = eriscv_mcu_mmio_write32 B (ERISCV_MCU_DMA_BASE + ERISCV_MCU_DMA_DST)
                         ERISCV_MCU_UART0_BASE m;
                   m = eriscv_mcu_mmio_write32 B (ERISCV_MCU_DMA_BASE + ERISCV_MCU_DMA_LEN) len m;
                   control = (if irq_enable \<noteq> 0 then control OR ERISCV_MCU_DMA_CTRL_IRQ_EN else control)
               in (ERISCV_MCU_DMA_OK,
                   eriscv_mcu_mmio_write32 B (ERISCV_MCU_DMA_BASE + ERISCV_MCU_DMA_CTRL) control m))"

definition eriscv_mcu_dma_start_descriptor ::
    "'d bus \<Rightarrow> u32 \<Rightarrow> int \<Rightarrow> ('d, 'e) mach_scheme \<Rightarrow> int \<times> ('d, 'e) mach_scheme" where
  "eriscv_mcu_dma_start_descriptor B address irq_enable m =
    (let control = ERISCV_MCU_DMA_CTRL_DESC_START
     in if address AND (ERISCV_MCU_DMA_DESCRIPTOR_ALIGN - 1) \<noteq> 0 \<or>
           \<not> dma_range_valid address ERISCV_MCU_DMA_DESCRIPTOR_SIZE
        then (ERISCV_MCU_DMA_EINVAL, m)
        else
          let (status, m) = eriscv_mcu_dma_status B m
          in if status AND ERISCV_MCU_DMA_STATUS_BUSY \<noteq> 0 then (ERISCV_MCU_DMA_EBUSY, m)
             else
               let m = eriscv_mcu_dma_clear_status B m;
                   m = fence m;
                   m = eriscv_mcu_mmio_write32 B (ERISCV_MCU_DMA_BASE + ERISCV_MCU_DMA_DESC_HEAD)
                         address m;
                   control = (if irq_enable \<noteq> 0 then control OR ERISCV_MCU_DMA_CTRL_IRQ_EN else control)
               in (ERISCV_MCU_DMA_OK,
                   eriscv_mcu_mmio_write32 B (ERISCV_MCU_DMA_BASE + ERISCV_MCU_DMA_CTRL) control m))"

function eriscv_mcu_dma_wait :: "'d bus \<Rightarrow> u32 \<Rightarrow> ('d, 'e) mach_scheme \<Rightarrow> int \<times> ('d, 'e) mach_scheme" where
  "eriscv_mcu_dma_wait B timeout_polls m =
    (let (status, m) = eriscv_mcu_dma_status B m
     in if status AND ERISCV_MCU_DMA_STATUS_BUSY = 0 then
          (if status AND ERISCV_MCU_DMA_STATUS_ERROR \<noteq> 0 then ERISCV_MCU_DMA_EIO else ERISCV_MCU_DMA_OK, m)
        else if timeout_polls \<noteq> 0 then eriscv_mcu_dma_wait B (timeout_polls - 1) m
        else (ERISCV_MCU_DMA_ETIMEOUT, m))"
  by pat_completeness auto
termination
  by (relation "measure (\<lambda>(B, t, m). unat t)") (simp_all add: unat_minus_one unat_gt_0)

declare eriscv_mcu_dma_wait.simps [simp del]

definition eriscv_mcu_dma_irq_enable ::
    "'d bus \<Rightarrow> u32 \<Rightarrow> ('d, 'e) mach_scheme \<Rightarrow> ('d, 'e) mach_scheme" where
  "eriscv_mcu_dma_irq_enable B priority m =
     eriscv_mcu_plic_set_threshold B 0
       (eriscv_mcu_plic_set_enabled B ERISCV_MCU_DMA_PLIC_SOURCE 1
         (eriscv_mcu_plic_set_priority B ERISCV_MCU_DMA_PLIC_SOURCE priority m))"

definition eriscv_mcu_dma_irq_disable :: "'d bus \<Rightarrow> ('d, 'e) mach_scheme \<Rightarrow> ('d, 'e) mach_scheme" where
  "eriscv_mcu_dma_irq_disable B m = eriscv_mcu_plic_set_enabled B ERISCV_MCU_DMA_PLIC_SOURCE 0 m"

section \<open>Interrupts and traps\<close>

record 'd hooks =
  dma_complete :: "u32 \<Rightarrow> 'd uart \<Rightarrow> 'd uart"
  timer_irq :: "'d uart \<Rightarrow> 'd uart"
  software_irq :: "'d uart \<Rightarrow> 'd uart"

definition eriscv_mcu_dma_complete_handler :: "u32 \<Rightarrow> 'd uart \<Rightarrow> 'd uart" where
  "eriscv_mcu_dma_complete_handler status m = m"

definition eriscv_mcu_timer_irq_handler :: "'d uart \<Rightarrow> 'd uart" where
  "eriscv_mcu_timer_irq_handler m = m"

definition eriscv_mcu_software_irq_handler :: "'d bus \<Rightarrow> 'd uart \<Rightarrow> 'd uart" where
  "eriscv_mcu_software_irq_handler B m = eriscv_mcu_clint_set_msip B 0 m"

definition weak_hooks :: "'d bus \<Rightarrow> 'd hooks" where
  "weak_hooks B = \<lparr>dma_complete = eriscv_mcu_dma_complete_handler, timer_irq = eriscv_mcu_timer_irq_handler,
     software_irq = eriscv_mcu_software_irq_handler B\<rparr>"

definition eriscv_mcu_dma_irq_handler :: "'d bus \<Rightarrow> 'd hooks \<Rightarrow> 'd uart \<Rightarrow> 'd uart" where
  "eriscv_mcu_dma_irq_handler B H m =
    (let (status, m) = eriscv_mcu_dma_status B m;
         m = eriscv_mcu_dma_clear_status B m
     in dma_complete H status m)"

definition eriscv_mcu_machine_external_irq_handler ::
    "'d bus \<Rightarrow> 'd hooks \<Rightarrow> 'd uart \<Rightarrow> 'd uart option" where
  "eriscv_mcu_machine_external_irq_handler B H m =
    (let (source_id, m) = eriscv_mcu_plic_claim B m
     in map_option (\<lambda>m. if source_id \<noteq> 0 then eriscv_mcu_plic_complete B source_id m else m)
          (if source_id = ERISCV_MCU_UART0_PLIC_SOURCE then eriscv_mcu_uart_irq_handler B m
           else if source_id = ERISCV_MCU_DMA_PLIC_SOURCE then Some (eriscv_mcu_dma_irq_handler B H m)
           else Some m))"

text \<open>\<open>None\<close>: the handler never returns to the interrupted code.\<close>

definition eriscv_mcu_trap_handler ::
    "'d bus \<Rightarrow> 'd hooks \<Rightarrow> u32 \<Rightarrow> u32 \<Rightarrow> u32 \<Rightarrow> 'd uart \<Rightarrow> (u32 \<times> 'd uart) option" where
  "eriscv_mcu_trap_handler B H mcause mepc mtval m =
    (if mcause AND ERISCV_MCU_MCAUSE_INTERRUPT \<noteq> 0 then
       let code = mcause AND ERISCV_MCU_MCAUSE_CODE_MASK
       in if code = ERISCV_MCU_MCAUSE_MEI then
            map_option (\<lambda>m. (mepc, m)) (eriscv_mcu_machine_external_irq_handler B H m)
          else if code = ERISCV_MCU_MCAUSE_MTI then Some (mepc, timer_irq H m)
          else if code = ERISCV_MCU_MCAUSE_MSI then Some (mepc, software_irq H m)
          else None
     else None)"

section \<open>What the operations do\<close>

text \<open>A non-empty byte range inside the system SRAM, on unbounded numbers.\<close>

definition sram_range :: "u32 \<Rightarrow> u32 \<Rightarrow> bool" where
  "sram_range a n \<longleftrightarrow> 0 < unat n \<and> unat ERISCV_MCU_SYSTEM_SRAM_BASE \<le> unat a \<and>
     unat a + unat n \<le> unat ERISCV_MCU_SYSTEM_SRAM_BASE + unat ERISCV_MCU_SYSTEM_SRAM_SIZE"

lemma dma_range_valid_iff: "dma_range_valid a n \<longleftrightarrow> sram_range a n"
proof (cases "0x80000000 \<le> a \<and> n \<le> 0x80000")
  case True
  then have "unat (a - 0x80000000) = unat a - 0x80000000" "unat (0x80000 - n) = 0x80000 - unat n"
    by (simp_all add: unat_sub)
  then show ?thesis using True
    by (auto simp: dma_range_valid_def sram_range_def word_le_nat_alt word_less_nat_alt unat_gt_0)
next
  case False
  then show ?thesis
    using unsigned_less [of n] by (auto simp: dma_range_valid_def sram_range_def word_le_nat_alt word_less_nat_alt)
qed

definition dma_args_ok :: "u32 \<Rightarrow> u32 \<Rightarrow> u32 \<Rightarrow> bool" where
  "dma_args_ok source destination len \<longleftrightarrow> 4 dvd unat source \<and> 4 dvd unat destination \<and> 4 dvd unat len \<and>
     sram_range source len \<and> sram_range destination len"

text \<open>
  C12. \<open>dma_start\<close> refuses, without touching the engine, exactly the transfers that are misaligned, empty or
  not inside the system SRAM (computed without wrap-around); otherwise it looks at \<open>STATUS\<close> once, gives
  up on a busy engine, and else clears the sticky bits, programs the three registers and starts last.
\<close>

theorem dma_start_correct:
  "eriscv_mcu_dma_start B s d n irq m =
    (if \<not> dma_args_ok s d n then (ERISCV_MCU_DMA_EINVAL, m)
     else
       let (st, dv) = bus_rd B (ERISCV_MCU_DMA_BASE + ERISCV_MCU_DMA_STATUS) (dev m);
           cmds = [(ERISCV_MCU_DMA_STATUS, 0xe), (ERISCV_MCU_DMA_SRC, s), (ERISCV_MCU_DMA_DST, d),
                   (ERISCV_MCU_DMA_LEN, n), (ERISCV_MCU_DMA_CTRL, if irq \<noteq> 0 then 3 else 1)];
           m1 = m\<lparr>dev := dv, trace := trace m @ [Rd (ERISCV_MCU_DMA_BASE + ERISCV_MCU_DMA_STATUS) st]\<rparr>
       in if bit st 0 then (ERISCV_MCU_DMA_EBUSY, m1)
          else (ERISCV_MCU_DMA_OK,
            m1\<lparr>dev := fold (\<lambda>(r, v). bus_wr B (ERISCV_MCU_DMA_BASE + r) v) cmds dv,
               trace := trace m1 @ map (\<lambda>(r, v). Wr (ERISCV_MCU_DMA_BASE + r) v) cmds\<rparr>))"
proof -
  have args: "dma_args_ok s d n \<longleftrightarrow>
      \<not> ((s OR d OR n) AND 3 \<noteq> 0 \<or> \<not> dma_range_valid s n \<or> \<not> dma_range_valid d n)"
    unfolding dma_args_ok_def dma_range_valid_iff and_3_eq_0_iff [symmetric] or_and_eq_0_iff by blast
  show ?thesis
    unfolding args
    by (simp add: eriscv_mcu_dma_start_def eriscv_mcu_dma_status_def eriscv_mcu_dma_clear_status_def
        mach_simps Let_def split: prod.split)
qed

text \<open>The state of the engine after some polls, and what the next one returns.\<close>

definition dma_polled :: "'d bus \<Rightarrow> nat \<Rightarrow> 'd \<Rightarrow> 'd" where
  "dma_polled B k d = ((\<lambda>d. snd (bus_rd B (ERISCV_MCU_DMA_BASE + ERISCV_MCU_DMA_STATUS) d)) ^^ k) d"

definition dma_poll :: "'d bus \<Rightarrow> 'd \<Rightarrow> nat \<Rightarrow> u32" where
  "dma_poll B d k = fst (bus_rd B (ERISCV_MCU_DMA_BASE + ERISCV_MCU_DMA_STATUS) (dma_polled B k d))"

lemma dma_polled_Suc:
  "dma_polled B (Suc k) d = dma_polled B k (snd (bus_rd B (ERISCV_MCU_DMA_BASE + ERISCV_MCU_DMA_STATUS) d))"
  "dma_poll B d (Suc k) = dma_poll B (snd (bus_rd B (ERISCV_MCU_DMA_BASE + ERISCV_MCU_DMA_STATUS) d)) k"
  by (simp_all add: dma_poll_def dma_polled_def funpow_Suc_right del: funpow.simps)

lemma dma_wait_step:
  "eriscv_mcu_dma_wait B t m =
    (let st = dma_poll B (dev m) 0; d = snd (bus_rd B 0x50000004 (dev m));
         m1 = m\<lparr>dev := d, trace := trace m @ [Rd 0x50000004 st]\<rparr>
     in if \<not> bit st 0 then (if bit st 2 then ERISCV_MCU_DMA_EIO else ERISCV_MCU_DMA_OK, m1)
        else if t \<noteq> 0 then eriscv_mcu_dma_wait B (t - 1) m1 else (ERISCV_MCU_DMA_ETIMEOUT, m1))"
  by (subst eriscv_mcu_dma_wait.simps)
    (simp add: eriscv_mcu_dma_status_def mach_simps Let_def dma_poll_def dma_polled_def)

text \<open>The result the last poll gives.\<close>

definition dma_verdict :: "u32 \<Rightarrow> int" where
  "dma_verdict st = (if bit st 0 then ERISCV_MCU_DMA_ETIMEOUT
     else if bit st 2 then ERISCV_MCU_DMA_EIO else ERISCV_MCU_DMA_OK)"

lemma dma_wait_polls:
  "\<exists>k. k \<le> unat t \<and> (\<forall>i<k. bit (dma_poll B (dev m) i) 0) \<and>
    (bit (dma_poll B (dev m) k) 0 \<longrightarrow> k = unat t) \<and>
    eriscv_mcu_dma_wait B t m =
      (dma_verdict (dma_poll B (dev m) k),
       m\<lparr>dev := dma_polled B (Suc k) (dev m),
         trace := trace m @ map (\<lambda>i. Rd 0x50000004 (dma_poll B (dev m) i)) [0..<Suc k]\<rparr>)"
proof (induction "unat t" arbitrary: t m)
  case 0
  then have "t = 0" by (simp add: unat_eq_zero)
  then show ?case by (intro exI [of _ 0]) (auto simp: dma_verdict_def dma_wait_step [of B 0 m] Let_def dma_polled_def)
next
  case (Suc n)
  then have t0: "t \<noteq> 0" by auto
  then have t: "t \<noteq> 0" "n = unat (t - 1)" using Suc.hyps(2) unat_minus_one [OF t0] by simp_all
  let ?d = "snd (bus_rd B 0x50000004 (dev m))"
  let ?m = "m\<lparr>dev := ?d, trace := trace m @ [Rd 0x50000004 (dma_poll B (dev m) 0)]\<rparr>"
  show ?case
  proof (cases "bit (dma_poll B (dev m) 0) 0")
    case True
    then have eq: "eriscv_mcu_dma_wait B t m = eriscv_mcu_dma_wait B (t - 1) ?m"
      using t by (simp add: dma_wait_step [of B t m] Let_def)
    have d: "dev ?m = ?d" by simp
    from Suc.hyps(1) [OF t(2), of ?m, unfolded d t(2) [symmetric]] obtain k where k: "k \<le> n"
      "\<forall>i<k. bit (dma_poll B ?d i) 0" "bit (dma_poll B ?d k) 0 \<longrightarrow> k = n"
      "eriscv_mcu_dma_wait B (t - 1) ?m = (dma_verdict (dma_poll B ?d k),
         ?m\<lparr>dev := dma_polled B (Suc k) ?d,
           trace := trace ?m @ map (\<lambda>i. Rd 0x50000004 (dma_poll B ?d i)) [0..<Suc k]\<rparr>)"
      by blast
    have "\<forall>i<Suc k. bit (dma_poll B (dev m) i) 0"
    proof (intro allI impI)
      fix i assume "i < Suc k"
      then show "bit (dma_poll B (dev m) i) 0" using k(2) True by (cases i) (simp_all add: dma_polled_Suc)
    qed
    moreover have "map (\<lambda>i. Rd 0x50000004 (dma_poll B (dev m) i)) [0..<Suc (Suc k)] =
        Rd 0x50000004 (dma_poll B (dev m) 0) # map (\<lambda>i. Rd 0x50000004 (dma_poll B ?d i)) [0..<Suc k]"
      unfolding upt_0_Suc [of "Suc k"] by (simp add: dma_polled_Suc comp_def del: upt_Suc)
    moreover have "unat t = Suc n" using Suc.hyps(2) by simp
    ultimately show ?thesis using k(1,3) unfolding eq k(4)
      by (intro exI [of _ "Suc k"] conjI) (simp_all add: dma_polled_Suc del: upt_Suc)
  next
    case False
    then show ?thesis by (intro exI [of _ 0]) (auto simp: dma_verdict_def dma_wait_step [of B t m] Let_def dma_polled_def)
  qed
qed

text \<open>
  C30. \<open>dma_wait\<close> returns after at most \<open>timeout_polls + 1\<close> loads of \<open>STATUS\<close>, all but the last of them
  busy: \<open>ETIMEOUT\<close> exactly when that many polls were all busy, else \<open>EIO\<close> or \<open>OK\<close> by the error bit of
  the poll that was not.
\<close>

theorem dma_wait_bounded:
  "\<exists>k. k \<le> unat t \<and> (\<forall>i<k. bit (dma_poll B (dev m) i) 0) \<and>
    (bit (dma_poll B (dev m) k) 0 \<longrightarrow> k = unat t) \<and>
    fst (eriscv_mcu_dma_wait B t m) =
      dma_verdict (dma_poll B (dev m) k) \<and>
    trace (snd (eriscv_mcu_dma_wait B t m)) = trace m @
      map (\<lambda>i. Rd (ERISCV_MCU_DMA_BASE + ERISCV_MCU_DMA_STATUS) (dma_poll B (dev m) i)) [0..<Suc k]"
  using dma_wait_polls [of t B m] by auto

text \<open>An engine that finishes with an error after three polls.\<close>

definition dma_demo :: "nat bus" where
  "dma_demo = \<lparr>bus_rd = (\<lambda>a n. (if n < 3 then 1 else 6, Suc n)), bus_wr = (\<lambda>a v n. n)\<rparr>"

theorem dma_wait_bounded_witness:
  "\<exists>k. k \<le> 5 \<and> (\<forall>i<k. bit (dma_poll dma_demo 0 i) 0) \<and> (bit (dma_poll dma_demo 0 k) 0 \<longrightarrow> k = 5) \<and>
    fst (eriscv_mcu_dma_wait dma_demo 5 (uart_boot 0)) =
      dma_verdict (dma_poll dma_demo 0 k)"
  using dma_wait_bounded [of 5 dma_demo "uart_boot 0"] by auto

section \<open>Claim and complete\<close>

text \<open>Accesses that stay inside the UART's registers.\<close>

fun uart_access :: "access \<Rightarrow> bool" where
  "uart_access (Rd a _) = (a AND NOT 0xff = ERISCV_MCU_UART0_BASE)"
| "uart_access (Wr a _) = (a AND NOT 0xff = ERISCV_MCU_UART0_BASE)"
| "uart_access _ = False"

lemma uart_access_elsewhere:
  assumes "list_all uart_access es" "a AND NOT 0xff \<noteq> ERISCV_MCU_UART0_BASE"
  shows "writes_to a es = []" "reads_of a es = []"
proof -
  have "writes_to a es = [] \<and> reads_of a es = []" using assms
  proof (induction es)
    case (Cons e es)
    then show ?case by (cases e) auto
  qed simp
  then show "writes_to a es = []" "reads_of a es = []" by simp_all
qed

lemma uart_drain_local:
  "uart_tx_drain B m = Some m' \<Longrightarrow> \<exists>es. trace m' = trace m @ es \<and> list_all uart_access es"
proof (induction B m m' rule: uart_tx_drain.raw_induct [rotated, consumes 1])
  case (1 f B m m')
  obtain st d1 where rs: "bus_rd B 0x40000008 (dev m) = (st, d1)" by fastforce
  show ?case
  proof (cases "tx_tail m \<noteq> tx_head m \<and> bit st 0")
    case True
    let ?x = "tx_buffer m ! unat (tx_tail m)"
    have "f B (m\<lparr>dev := bus_wr B 0x40000000 ?x d1, trace := trace m @ [Rd 0x40000008 st, Wr 0x40000000 ?x],
        tx_tail := uart_ring_next (tx_tail m) 128\<rparr>) = Some m'"
      using 1(2) True rs by (simp add: mach_simps)
    from 1(1) [OF this] show ?thesis by auto
  next
    case False
    then have "trace m' = trace m \<or> trace m' = trace m @ [Rd 0x40000008 st]"
      using 1(2) rs by (cases "tx_tail m = tx_head m") (auto simp: mach_simps)
    then show ?thesis by (auto intro: exI [of _ "[]"] exI [of _ "[Rd 0x40000008 st]"])
  qed
qed

lemma uart_rx_local:
  "uart_rx_service B m = Some m' \<Longrightarrow> \<exists>es. trace m' = trace m @ es \<and> list_all uart_access es"
proof (induction B m m' rule: uart_rx_service.raw_induct [rotated, consumes 1])
  case (1 f B m m')
  obtain st d1 where rs: "bus_rd B 0x40000008 (dev m) = (st, d1)" by fastforce
  obtain v d2 where rv: "bus_rd B 0x40000004 d1 = (v, d2)" by fastforce
  show ?case
  proof (cases "bit st 1")
    case True
    obtain m2 where "f B m2 = Some m'" "trace m2 = trace m @ [Rd 0x40000008 st, Rd 0x40000004 v]"
      using 1(2) True rs rv
      by (cases "uart_ring_next (rx_head m) 128 = rx_tail m") (fastforce simp: mach_simps Let_def)+
    with 1(1) [of B m2 m'] show ?thesis by fastforce
  next
    case False
    then show ?thesis using 1(2) rs by (auto simp: mach_simps)
  qed
qed

lemma uart_irq_local:
  assumes "eriscv_mcu_uart_irq_handler B m = Some m'"
  shows "\<exists>es. trace m' = trace m @ es \<and> list_all uart_access es"
proof -
  obtain st d1 where rs: "bus_rd B 0x4000001c (dev m) = (st, d1)" by fastforce
  let ?m1 = "m\<lparr>dev := d1, trace := trace m @ [Rd 0x4000001c st]\<rparr>"
  obtain m2 where m2: "(if bit st 0 then uart_rx_service B ?m1 else Some ?m1) = Some m2"
    using assms rs by (auto simp: eriscv_mcu_uart_irq_handler_def mach_simps split: Option.bind_splits if_splits)
  obtain m3 where m3: "(if bit st 1 then uart_tx_service B m2 else Some m2) = Some m3"
    and m': "m' = (if bit st 2 then eriscv_mcu_mmio_write32 B 0x4000001c 4 m3 else m3)"
    using assms rs m2 by (auto simp: eriscv_mcu_uart_irq_handler_def mach_simps split: Option.bind_splits if_splits)
  have "\<exists>es. trace m2 = trace m @ es \<and> list_all uart_access es"
    using m2 uart_rx_local [of B ?m1 m2] by (fastforce split: if_splits)
  moreover have "\<exists>es. trace m3 = trace m2 @ es \<and> list_all uart_access es"
  proof (cases "bit st 1")
    case True
    then obtain m4 where "uart_tx_drain B m2 = Some m4" "m3 = uart_tx_irq_update B m4"
      using m3 by (auto simp: uart_tx_service_def)
    then show ?thesis using uart_drain_local [of B m2 m4]
      by (auto simp: uart_tx_irq_update_def mach_simps Let_def)
  qed (use m3 in auto)
  moreover have "\<exists>es. trace m' = trace m3 @ es \<and> list_all uart_access es"
    using m' by (auto simp: mach_simps intro: exI [of _ "[]"])
  ultimately show ?thesis by (metis append_assoc list_all_append)
qed

text \<open>
  What the dispatcher needs of the application's DMA hook: it may access any device, but leaves the
  PLIC's claim register alone.
\<close>

locale irq_hooks =
  fixes H :: "'d hooks"
  assumes dma_hook: "\<exists>es. trace (dma_complete H st m) = trace m @ es \<and>
      writes_to (ERISCV_MCU_PLIC_BASE + ERISCV_MCU_PLIC_CLAIM) es = [] \<and>
      reads_of (ERISCV_MCU_PLIC_BASE + ERISCV_MCU_PLIC_CLAIM) es = []"
begin

lemma external_irq:
  assumes "eriscv_mcu_machine_external_irq_handler B H m = Some m'"
    "s = fst (bus_rd B (ERISCV_MCU_PLIC_BASE + ERISCV_MCU_PLIC_CLAIM) (dev m))"
  shows "\<exists>es. trace m' = trace m @ Rd (ERISCV_MCU_PLIC_BASE + ERISCV_MCU_PLIC_CLAIM) s # es @
      (if s = 0 then [] else [Wr (ERISCV_MCU_PLIC_BASE + ERISCV_MCU_PLIC_CLAIM) s]) \<and>
    writes_to (ERISCV_MCU_PLIC_BASE + ERISCV_MCU_PLIC_CLAIM) es = [] \<and>
    reads_of (ERISCV_MCU_PLIC_BASE + ERISCV_MCU_PLIC_CLAIM) es = []"
proof -
  let ?m1 = "snd (eriscv_mcu_plic_claim B m)"
  have s: "fst (eriscv_mcu_plic_claim B m) = s" "trace ?m1 = trace m @ [Rd 0xc200004 s]"
    using assms(2) by (simp_all add: eriscv_mcu_plic_claim_def mach_simps)
  obtain m2 where m2: "(if s = ERISCV_MCU_UART0_PLIC_SOURCE then eriscv_mcu_uart_irq_handler B ?m1
        else if s = ERISCV_MCU_DMA_PLIC_SOURCE then Some (eriscv_mcu_dma_irq_handler B H ?m1)
        else Some ?m1) = Some m2"
    and m': "m' = (if s \<noteq> 0 then eriscv_mcu_plic_complete B s m2 else m2)"
    using assms(1) s(1) unfolding eriscv_mcu_machine_external_irq_handler_def
    by (auto simp: case_prod_beta Let_def split: if_splits)
  have "\<exists>es. trace m2 = trace ?m1 @ es \<and> writes_to 0xc200004 es = [] \<and> reads_of 0xc200004 es = []"
  proof (cases "s = ERISCV_MCU_UART0_PLIC_SOURCE")
    case True
    then show ?thesis
      using m2 uart_irq_local [of B ?m1 m2] uart_access_elsewhere [of _ "0xc200004"] by fastforce
  next
    case nu: False
    show ?thesis
    proof (cases "s = ERISCV_MCU_DMA_PLIC_SOURCE")
      case True
      let ?m3 = "eriscv_mcu_dma_clear_status B (snd (eriscv_mcu_dma_status B ?m1))"
      let ?st = "fst (eriscv_mcu_dma_status B ?m1)"
      have "m2 = dma_complete H ?st ?m3"
        using m2 True by (simp add: eriscv_mcu_dma_irq_handler_def case_prod_beta Let_def)
      moreover have "trace ?m3 = trace ?m1 @ [Rd 0x50000004 ?st, Wr 0x50000004 0xe]"
        by (simp add: eriscv_mcu_dma_clear_status_def eriscv_mcu_dma_status_def mach_simps)
      moreover obtain es where "trace (dma_complete H ?st ?m3) = trace ?m3 @ es"
          "writes_to 0xc200004 es = []" "reads_of 0xc200004 es = []"
        using dma_hook [of ?st ?m3] by auto
      ultimately show ?thesis
        by (intro exI [of _ "[Rd 0x50000004 ?st, Wr 0x50000004 0xe] @ es"]) simp
    qed (use m2 nu in \<open>auto\<close>)
  qed
  then show ?thesis using s m' by (auto simp: eriscv_mcu_plic_complete_def mach_simps)
qed

end

interpretation weak: irq_hooks "weak_hooks B"
  by unfold_locales (simp add: weak_hooks_def eriscv_mcu_dma_complete_handler_def)

text \<open>
  C25. The external interrupt handler claims once; a claimed source is completed once, with the claimed id
  and as the last access, after its handler has run; a claim of 0 completes nothing.
\<close>

theorem external_irq_claim_complete:
  assumes "eriscv_mcu_machine_external_irq_handler B (weak_hooks B) m = Some m'"
    "s = fst (bus_rd B (ERISCV_MCU_PLIC_BASE + ERISCV_MCU_PLIC_CLAIM) (dev m))"
  shows "\<exists>es. trace m' = trace m @ Rd (ERISCV_MCU_PLIC_BASE + ERISCV_MCU_PLIC_CLAIM) s # es @
      (if s = 0 then [] else [Wr (ERISCV_MCU_PLIC_BASE + ERISCV_MCU_PLIC_CLAIM) s]) \<and>
    writes_to (ERISCV_MCU_PLIC_BASE + ERISCV_MCU_PLIC_CLAIM) es = [] \<and>
    reads_of (ERISCV_MCU_PLIC_BASE + ERISCV_MCU_PLIC_CLAIM) es = []"
  by (rule weak.external_irq [OF assms])

text \<open>A PLIC with source 5 pending, beside an idle DMA engine.\<close>

definition plic_demo :: "u32 bus" where
  "plic_demo = \<lparr>bus_rd = (\<lambda>a d. (if a = 0xc200004 then d else 2, d)), bus_wr = (\<lambda>a v d. d)\<rparr>"

theorem external_irq_claim_complete_witness:
  "\<exists>m' es. eriscv_mcu_machine_external_irq_handler plic_demo (weak_hooks plic_demo) (uart_boot 5) = Some m' \<and>
     trace m' = Rd 0xc200004 5 # es @ [Wr 0xc200004 5]"
proof -
  let ?m = "uart_boot (5 :: u32)"
  obtain m' where run: "eriscv_mcu_machine_external_irq_handler plic_demo (weak_hooks plic_demo) ?m = Some m'"
    by (simp add: eriscv_mcu_machine_external_irq_handler_def eriscv_mcu_plic_claim_def mach_simps plic_demo_def)
  from external_irq_claim_complete [OF run refl] run show ?thesis
    by (auto simp: plic_demo_def)
qed

end
