(* ===== verification/Rtl_Time.thy ===== *)
theory Rtl_Time
  imports Bsp_Dma
begin

text \<open>
  Time: the CLINT (\<^verbatim>\<open>rtl/soc/peripherals/clint.sv\<close>) and the APB timer
  (\<^verbatim>\<open>rtl/soc/peripherals/timer/timer_apb.sv\<close>), cycle by cycle, and the inline functions of
  \<^verbatim>\<open>sw/include/eriscv_mcu.h\<close> on them. A device state carries the cycles that pass before each later bus
  access, so a statement for all device states covers every timing of the code; for the CLINT, every timing in which
  fewer than 65536 cycles pass before an access (\<open>c_gaps\<close>).
\<close>

section \<open>CLINT\<close>

record clint =
  msip :: bool
  mtime :: u64
  mtimecmp :: u64
  mtip_seen :: bool        \<comment> \<open>\<open>mtip_o\<close> has been high in some cycle\<close>
  c_gaps :: "16 word list" \<comment> \<open>idle cycles before each access\<close>

definition clint_tick :: "clint \<Rightarrow> clint" where
  "clint_tick c = c\<lparr>mtip_seen := mtip_seen c \<or> mtimecmp c \<le> mtime c, mtime := mtime c + 1\<rparr>"

lemma clint_tick_sel [simp]:
  "mtime (clint_tick c) = mtime c + 1" "mtimecmp (clint_tick c) = mtimecmp c"
  "mtip_seen (clint_tick c) \<longleftrightarrow> mtip_seen c \<or> mtimecmp c \<le> mtime c"
  "c_gaps (clint_tick c) = c_gaps c"
  by (simp_all add: clint_tick_def)

definition clint_idle :: "clint \<Rightarrow> clint" where
  "clint_idle c =
    (case c_gaps c of [] \<Rightarrow> c | g # gs \<Rightarrow> (clint_tick ^^ unat g) (c\<lparr>c_gaps := gs\<rparr>))"

definition hi_word :: "u64 \<Rightarrow> u32" where "hi_word x = ucast (drop_bit 32 x)"
definition lo_word :: "u64 \<Rightarrow> u32" where "lo_word x = ucast x"
definition join_words :: "u32 \<Rightarrow> u32 \<Rightarrow> u64" where "join_words hi lo = push_bit 32 (ucast hi) OR ucast lo"

definition clint_rd :: "u32 \<Rightarrow> clint \<Rightarrow> u32 \<times> clint" where
  "clint_rd a c =
    (let c = clint_idle c
     in (if a = 0x2000000 then (if msip c then 1 else 0)
         else if a = 0x2004000 then lo_word (mtimecmp c)
         else if a = 0x2004004 then hi_word (mtimecmp c)
         else if a = 0x200bff8 then lo_word (mtime c)
         else if a = 0x200bffc then hi_word (mtime c)
         else 0, clint_tick c))"

definition clint_wr :: "u32 \<Rightarrow> u32 \<Rightarrow> clint \<Rightarrow> clint" where
  "clint_wr a v c =
    (let c = clint_idle c; c' = clint_tick c
     in if a = 0x2000000 then c'\<lparr>msip := (v \<noteq> 0)\<rparr>
        else if a = 0x2004000 then c'\<lparr>mtimecmp := join_words (hi_word (mtimecmp c)) v\<rparr>
        else if a = 0x2004004 then c'\<lparr>mtimecmp := join_words v (lo_word (mtimecmp c))\<rparr>
        else if a = 0x200bff8 then c'\<lparr>mtime := join_words (hi_word (mtime c')) v\<rparr>
        else if a = 0x200bffc then c'\<lparr>mtime := join_words v (lo_word (mtime c'))\<rparr>
        else c')"

definition clint_bus :: "clint bus" where
  "clint_bus = \<lparr>bus_rd = clint_rd, bus_wr = clint_wr\<rparr>"

lemma hi_word_unat: "unat (hi_word x) = unat x div 2 ^ 32"
proof -
  have "unat x div 2 ^ 32 < 2 ^ 32" using unsigned_less [of x] by (simp add: div_less_iff_less_mult)
  moreover have "unat (drop_bit 32 x) = unat x div 2 ^ 32" 
    unfolding unat_drop_bit_eq by (simp add: drop_bit_eq_div)
  ultimately show ?thesis unfolding hi_word_def unsigned_ucast_eq by (simp add: take_bit_nat_eq_self)
qed

lemma lo_word_unat: "unat (lo_word x) = unat x mod 2 ^ 32"
  by (simp add: lo_word_def unsigned_ucast_eq take_bit_eq_mod)

lemma join_words_unat: "unat (join_words h l) = unat h * 2 ^ 32 + unat l"
proof -
  have h: "unat h < 2 ^ 32" and l: "unat l < 2 ^ 32" using unsigned_less [of h] unsigned_less [of l] by simp_all
  have "push_bit 32 (ucast h :: u64) AND ucast l = 0"
    by (rule bit_word_eqI) (auto simp: bit_simps dest: bit_imp_le_length)
  then have "join_words h l = push_bit 32 (ucast h) + ucast l"
    by (simp add: join_words_def disjunctive_add_eq_or)
  moreover have "unat (ucast h :: u64) = unat h" "unat (ucast l :: u64) = unat l"
    using h l by (simp_all add: unsigned_ucast_eq take_bit_nat_eq_self)
  ultimately show ?thesis using h l
    by (simp add: push_bit_eq_mult unat_word_ariths)
qed

lemma join_hi_lo [simp]: "join_words (hi_word x) (lo_word x) = x"
  by (simp add: word_unat_eq_iff join_words_unat hi_word_unat lo_word_unat)

lemma hi_lo_join [simp]: "hi_word (join_words h l) = h" "lo_word (join_words h l) = l"
  using unsigned_less [of l, where 'a = nat] by (simp_all add: word_unat_eq_iff join_words_unat hi_word_unat lo_word_unat)

section \<open>Reading a 64-bit counter with 32-bit loads\<close>

text \<open>
  What \<open>eriscv_mcu_clint_read_mtime\<close> needs of the counter: each load of one of its halves shows it at
  some moment of the access, the counter counts up, and an access takes a bounded time \<open>D\<close>.
\<close>

locale mtime_clock =
  fixes B :: "'d bus" and now :: "'d \<Rightarrow> u64" and D :: nat
  assumes rd_hi: "\<exists>k k'. fst (bus_rd B (ERISCV_MCU_CLINT_BASE + ERISCV_MCU_CLINT_MTIME + 4) d)
        = hi_word (now d + of_nat k) \<and>
      now (snd (bus_rd B (ERISCV_MCU_CLINT_BASE + ERISCV_MCU_CLINT_MTIME + 4) d)) = now d + of_nat k' \<and>
      k \<le> k' \<and> k' \<le> D"
    and rd_lo: "\<exists>k k'. fst (bus_rd B (ERISCV_MCU_CLINT_BASE + ERISCV_MCU_CLINT_MTIME) d)
        = lo_word (now d + of_nat k) \<and>
      now (snd (bus_rd B (ERISCV_MCU_CLINT_BASE + ERISCV_MCU_CLINT_MTIME) d)) = now d + of_nat k' \<and>
      k \<le> k' \<and> k' \<le> D"
    and short: "6 * D < 2 ^ 32"
begin

text \<open>One round of three loads: the moments of the loads, and what the round does next.\<close>

lemma round:
  "\<exists>k1 k2 k3 K m'. k1 \<le> k2 \<and> k2 \<le> k3 \<and> k3 \<le> K \<and> K \<le> 3 * D \<and>
    now (dev m') = now (dev m) + of_nat K \<and>
    eriscv_mcu_clint_read_mtime B m =
      (if hi_word (now (dev m) + of_nat k1) \<noteq> hi_word (now (dev m) + of_nat k3)
       then eriscv_mcu_clint_read_mtime B m'
       else Some (join_words (hi_word (now (dev m) + of_nat k1)) (lo_word (now (dev m) + of_nat k2)), m'))"
proof -
  let ?T = "now (dev m)"
  obtain h d1 where 1: "bus_rd B 0x200bffc (dev m) = (h, d1)" by fastforce
  obtain l d2 where 2: "bus_rd B 0x200bff8 d1 = (l, d2)" by fastforce
  obtain h2 d3 where 3: "bus_rd B 0x200bffc d2 = (h2, d3)" by fastforce
  obtain a a' where a: "h = hi_word (?T + of_nat a)" "now d1 = ?T + of_nat a'" "a \<le> a'" "a' \<le> D"
    using rd_hi [of "dev m"] 1 by auto
  obtain b b' where b: "l = lo_word (now d1 + of_nat b)" "now d2 = now d1 + of_nat b'" "b \<le> b'" "b' \<le> D"
    using rd_lo [of d1] 2 by auto
  obtain c c' where c: "h2 = hi_word (now d2 + of_nat c)" "now d3 = now d2 + of_nat c'" "c \<le> c'" "c' \<le> D"
    using rd_hi [of d2] 3 by auto
  let ?m' = "m\<lparr>dev := d3, trace := trace m @ [Rd 0x200bffc h, Rd 0x200bff8 l, Rd 0x200bffc h2]\<rparr>"
  have "eriscv_mcu_clint_read_mtime B m =
      (if h \<noteq> h2 then eriscv_mcu_clint_read_mtime B ?m' else Some (join_words h l, ?m'))"
    by (subst eriscv_mcu_clint_read_mtime.simps)
      (simp add: mach_simps 1 2 3 join_words_def)
  moreover have "l = lo_word (?T + of_nat (a' + b))" "h2 = hi_word (?T + of_nat (a' + b' + c))"
    "now d3 = ?T + of_nat (a' + b' + c')"
    using a b c by (simp_all add: add.assoc)
  ultimately show ?thesis using a b c
    by (intro exI [of _ a] exI [of _ "a' + b"] exI [of _ "a' + b' + c"] exI [of _ "a' + b' + c'"]
        exI [of _ ?m']) simp
qed

text \<open>The high half as the number of times the low half has rolled over.\<close>

lemma hi_offset: "unat (hi_word (T + of_nat k)) = ((unat T + k) div 2 ^ 32) mod 2 ^ 32"
proof -
  have "unat (T + of_nat k) = (unat T + k) mod (2 ^ 32 * 2 ^ 32)"
    by (simp add: unat_word_ariths unat_of_nat mod_simps)
  then show ?thesis unfolding hi_word_unat mod_mult2_eq by simp
qed

lemma lo_offset: "unat (lo_word (T + of_nat k)) = (unat T + k) mod 2 ^ 32"
proof -
  have "unat (T + of_nat k) = (unat T + k) mod 2 ^ 64"
    by (simp add: unat_word_ariths unat_of_nat mod_simps)
  then show ?thesis by (simp add: lo_word_unat mod_mod_cancel)
qed

lemma div_close: "(a::nat) \<le> b \<Longrightarrow> b - a < n \<Longrightarrow> b div n = a div n \<or> b div n = Suc (a div n)"
proof -
  assume *: "a \<le> b" "b - a < n"
  then have "0 < n" by simp
  have "a div n \<le> b div n" using * by (simp add: div_le_mono)
  moreover have "b div n \<le> (a + n) div n" using * by (intro div_le_mono) simp
  moreover have "(a + n) div n = Suc (a div n)" using div_add_self2 [of n a] \<open>0 < n\<close> by simp
  ultimately show ?thesis by linarith
qed

lemma same_hi:
  assumes "k1 \<le> k2" "k2 \<le> k3" "k3 \<le> 6 * D"
    and "hi_word (T + of_nat k1) = hi_word (T + of_nat k3)"
  shows "(unat T + k3) div 2 ^ 32 = (unat T + k1) div 2 ^ 32"
    and "join_words (hi_word (T + of_nat k1)) (lo_word (T + of_nat k2)) = T + of_nat k2"
proof -
  have "(unat T + k3) div 2 ^ 32 = (unat T + k1) div 2 ^ 32 \<or>
      (unat T + k3) div 2 ^ 32 = Suc ((unat T + k1) div 2 ^ 32)"
    using assms(1-3) short by (intro div_close) simp_all
  moreover have "((unat T + k3) div 2 ^ 32) mod 2 ^ 32 = ((unat T + k1) div 2 ^ 32) mod 2 ^ 32"
    using assms(4) hi_offset [of T k1] hi_offset [of T k3] by simp
  ultimately show eq: "(unat T + k3) div 2 ^ 32 = (unat T + k1) div 2 ^ 32"
    by (auto simp: mod_Suc split: if_splits)
  have "(unat T + k1) div 2 ^ 32 \<le> (unat T + k2) div 2 ^ 32"
    "(unat T + k2) div 2 ^ 32 \<le> (unat T + k3) div 2 ^ 32"
    using assms(1,2) by (simp_all add: div_le_mono)
  then have "hi_word (T + of_nat k1) = hi_word (T + of_nat k2)"
    using eq hi_offset [of T k1] hi_offset [of T k2] by (simp add: word_unat_eq_iff)
  then show "join_words (hi_word (T + of_nat k1)) (lo_word (T + of_nat k2)) = T + of_nat k2" by simp
qed

lemma diff_hi:
  assumes "k1 \<le> k3" "k3 \<le> 3 * D" "hi_word (T + of_nat k1) \<noteq> hi_word (T + of_nat k3)"
    and "k3 \<le> j" "j \<le> 6 * D"
  shows "hi_word (T + of_nat j) = hi_word (T + of_nat k3)"
proof -
  have "(unat T + k3) div 2 ^ 32 \<noteq> (unat T + k1) div 2 ^ 32"
    using assms(3) hi_offset [of T k1] hi_offset [of T k3] by (auto simp: word_unat_eq_iff)
  moreover have "(unat T + k3) div 2 ^ 32 = (unat T + k1) div 2 ^ 32 \<or>
      (unat T + k3) div 2 ^ 32 = Suc ((unat T + k1) div 2 ^ 32)"
    using assms(1,2) short by (intro div_close) simp_all
  moreover have "(unat T + j) div 2 ^ 32 = (unat T + k1) div 2 ^ 32 \<or>
      (unat T + j) div 2 ^ 32 = Suc ((unat T + k1) div 2 ^ 32)"
    using assms(1,4,5) short by (intro div_close) simp_all
  moreover have "(unat T + k3) div 2 ^ 32 \<le> (unat T + j) div 2 ^ 32"
    using assms(4) by (simp add: div_le_mono)
  ultimately have "(unat T + j) div 2 ^ 32 = (unat T + k3) div 2 ^ 32" by linarith
  then show ?thesis using hi_offset [of T j] hi_offset [of T k3] by (simp add: word_unat_eq_iff)
qed

lemma read_mtime:
  "\<exists>k K m'. eriscv_mcu_clint_read_mtime B m = Some (now (dev m) + of_nat k, m') \<and>
    now (dev m') = now (dev m) + of_nat K \<and> k \<le> K \<and> K \<le> 6 * D"
proof -
  let ?T = "now (dev m)"
  obtain k1 k2 k3 K m1 where r: "k1 \<le> k2" "k2 \<le> k3" "k3 \<le> K" "K \<le> 3 * D" "now (dev m1) = ?T + of_nat K"
    and run: "eriscv_mcu_clint_read_mtime B m =
      (if hi_word (?T + of_nat k1) \<noteq> hi_word (?T + of_nat k3)
       then eriscv_mcu_clint_read_mtime B m1
       else Some (join_words (hi_word (?T + of_nat k1)) (lo_word (?T + of_nat k2)), m1))"
    using round [of m] by blast
  show ?thesis
  proof (cases "hi_word (?T + of_nat k1) = hi_word (?T + of_nat k3)")
    case True
    then show ?thesis using run r same_hi(2) [OF r(1,2) _ True]
      by (intro exI [of _ k2] exI [of _ K] exI [of _ m1]) simp
  next
    case False
    obtain j1 j2 j3 J m2 where s: "j1 \<le> j2" "j2 \<le> j3" "j3 \<le> J" "J \<le> 3 * D"
      "now (dev m2) = now (dev m1) + of_nat J"
      and run2: "eriscv_mcu_clint_read_mtime B m1 =
      (if hi_word (now (dev m1) + of_nat j1) \<noteq> hi_word (now (dev m1) + of_nat j3)
       then eriscv_mcu_clint_read_mtime B m2
       else Some (join_words (hi_word (now (dev m1) + of_nat j1)) (lo_word (now (dev m1) + of_nat j2)), m2))"
      using round [of m1] by blast
    have off: "now (dev m1) + of_nat j = ?T + of_nat (K + j)" for j by (simp add: r(5) add.assoc)
    have "k1 \<le> k3" "k3 \<le> 3 * D" using r by auto
    note stay = diff_hi [OF this False]
    have hi: "hi_word (?T + of_nat (K + j1)) = hi_word (?T + of_nat (K + j3))"
      using stay [of "K + j1"] stay [of "K + j3"] r(3,4) s(1-4) by simp
    have "join_words (hi_word (?T + of_nat (K + j1))) (lo_word (?T + of_nat (K + j2))) = ?T + of_nat (K + j2)"
      using hi r(4) s(1-4) by (intro same_hi(2) [where ?k3.0 = "K + j3"]) simp_all
    then have "eriscv_mcu_clint_read_mtime B m = Some (?T + of_nat (K + j2), m2)"
      using run run2 False hi unfolding off by simp
    moreover have "now (dev m2) = ?T + of_nat (K + J)" using s(5) by (simp add: off)
    ultimately show ?thesis using r(4) s(2-4)
      by (intro exI [of _ "K + j2"] exI [of _ "K + J"] exI [of _ m2]) simp
  qed
qed

end

section \<open>The CLINT keeps those promises\<close>

lemma clint_ticks:
  "mtime ((clint_tick ^^ n) c) = mtime c + of_nat n" "mtimecmp ((clint_tick ^^ n) c) = mtimecmp c"
  "c_gaps ((clint_tick ^^ n) c) = c_gaps c"
  by (induction n) (simp_all add: ac_simps)

lemma clint_idle_mtime: "\<exists>g. g < 65536 \<and> mtime (clint_idle c) = mtime c + of_nat g \<and>
    mtimecmp (clint_idle c) = mtimecmp c"
proof (cases "c_gaps c")
  case Nil
  then show ?thesis by (intro exI [of _ 0]) (simp add: clint_idle_def)
next
  case (Cons g gs)
  have "unat g < 65536" using unsigned_less [of g] by simp
  then show ?thesis using Cons
    by (intro exI [of _ "unat g"]) (simp add: clint_idle_def clint_ticks)
qed

lemma clint_rd_mtime:
  "\<exists>k k'. mtime (clint_idle c) = mtime c + of_nat k \<and> mtime (clint_tick (clint_idle c)) = mtime c + of_nat k' \<and>
    k \<le> k' \<and> k' \<le> 65536"
proof -
  obtain g where "g < 65536" "mtime (clint_idle c) = mtime c + of_nat g" using clint_idle_mtime by blast
  then show ?thesis
    by (intro exI [of _ g] exI [of _ "Suc g"]) simp
qed

interpretation clint_clock: mtime_clock clint_bus mtime 65536
proof
  fix d :: clint
  from clint_rd_mtime [of d] show
    "\<exists>k k'. fst (bus_rd clint_bus (ERISCV_MCU_CLINT_BASE + ERISCV_MCU_CLINT_MTIME + 4) d)
        = hi_word (mtime d + of_nat k) \<and>
      mtime (snd (bus_rd clint_bus (ERISCV_MCU_CLINT_BASE + ERISCV_MCU_CLINT_MTIME + 4) d)) = mtime d + of_nat k' \<and>
      k \<le> k' \<and> k' \<le> 65536"
    by (auto simp: clint_bus_def clint_rd_def Let_def)
  from clint_rd_mtime [of d] show
    "\<exists>k k'. fst (bus_rd clint_bus (ERISCV_MCU_CLINT_BASE + ERISCV_MCU_CLINT_MTIME) d)
        = lo_word (mtime d + of_nat k) \<and>
      mtime (snd (bus_rd clint_bus (ERISCV_MCU_CLINT_BASE + ERISCV_MCU_CLINT_MTIME) d)) = mtime d + of_nat k' \<and>
      k \<le> k' \<and> k' \<le> 65536"
    by (auto simp: clint_bus_def clint_rd_def Let_def)
qed simp

text \<open>
  C13. \<open>clint_read_mtime\<close> returns within two rounds, and what it returns is a value the 64-bit counter
  really had during the call, although it is read in halves while counting and rolling over. Fewer than 65536 cycles
  pass between two accesses.
\<close>

theorem clint_read_mtime_linearizable:
  "\<exists>k K m'. eriscv_mcu_clint_read_mtime clint_bus m = Some (mtime (dev m) + of_nat k, m') \<and>
    mtime (dev m') = mtime (dev m) + of_nat K \<and> k \<le> K \<and> K \<le> 6 * 65536"
  by (rule clint_clock.read_mtime)

lemma clint_ticks_quiet:
  "\<not> mtip_seen c \<Longrightarrow> unat (mtime c) + n \<le> unat (mtimecmp c) \<Longrightarrow>
   \<not> mtip_seen ((clint_tick ^^ n) c) \<and> unat (mtime ((clint_tick ^^ n) c)) = unat (mtime c) + n"
proof (induction n)
  case (Suc n)
  then have IH: "\<not> mtip_seen ((clint_tick ^^ n) c)" "unat (mtime ((clint_tick ^^ n) c)) = unat (mtime c) + n"
    by simp_all
  have "mtime ((clint_tick ^^ n) c) < mtimecmp c"
    using IH(2) Suc.prems(2) by (simp add: word_less_nat_alt)
  then show ?case using IH unat_plus_one_less [of "mtime ((clint_tick ^^ n) c)" "mtimecmp c"]
    by (simp add: clint_ticks(2) not_le)
qed simp

lemma clint_wr_quiet:
  assumes "\<not> mtip_seen c" "unat (mtime c) + 65536 \<le> unat (mtimecmp c)"
    "a = 0x2004000 \<or> a = 0x2004004"
  shows "\<not> mtip_seen (clint_wr a v c) \<and> unat (mtime (clint_wr a v c)) \<le> unat (mtime c) + 65536 \<and>
    mtimecmp (clint_wr a v c) = (if a = 0x2004000 then join_words (hi_word (mtimecmp c)) v
                                 else join_words v (lo_word (mtimecmp c)))"
proof -
  obtain n where n: "n < 65536" "clint_tick (clint_idle c) =
      (clint_tick ^^ Suc n) (c\<lparr>c_gaps := tl (c_gaps c)\<rparr>)" "mtimecmp (clint_idle c) = mtimecmp c"
  proof (cases "c_gaps c")
    case Nil
    then have "clint_tick (c\<lparr>c_gaps := []\<rparr>) = clint_tick c" by (cases c) simp
    then show ?thesis using that [of 0] Nil by (simp add: clint_idle_def)
  next
    case (Cons g gs)
    then show ?thesis using that [of "unat g"] unsigned_less [of g] by (simp add: clint_idle_def clint_ticks)
  qed
  let ?c = "c\<lparr>c_gaps := tl (c_gaps c)\<rparr>"
  have "\<not> mtip_seen ?c" "unat (mtime ?c) + Suc n \<le> unat (mtimecmp ?c)" using assms n(1) by simp_all
  note q = clint_ticks_quiet [OF this]
  show ?thesis
    using assms(3) q n(1) clint_ticks(2) [of "Suc n" ?c]
    by (auto simp: clint_wr_def Let_def n(2,3) simp del: funpow.simps)
qed

lemma join_words_mono: "l \<le> x \<Longrightarrow> join_words h l \<le> join_words h x"
  and join_words_max: "join_words h l \<le> join_words 0xffffffff l"
  using unat_u32_less [of h]
  by (simp_all add: word_le_nat_alt join_words_unat)

text \<open>
  C26. \<open>clint_set_mtimecmp\<close>, three 32-bit stores, installs the 64-bit deadline and raises no timer
  interrupt on the way, whatever the old deadline and the new one, as long as neither is due within the
  three stores: no intermediate deadline is below both. Fewer than 65536 cycles pass between two stores.
\<close>

theorem clint_set_mtimecmp_no_spurious:
  assumes "\<not> mtip_seen (dev m)"
    "unat (mtime (dev m)) + 3 * 65536 \<le> unat (mtimecmp (dev m))" "unat (mtime (dev m)) + 3 * 65536 \<le> unat v"
  shows "mtimecmp (dev (eriscv_mcu_clint_set_mtimecmp clint_bus v m)) = v \<and>
    \<not> mtip_seen (dev (eriscv_mcu_clint_set_mtimecmp clint_bus v m))"
proof -
  let ?c1 = "clint_wr 0x2004004 0xffffffff (dev m)"
  let ?c2 = "clint_wr 0x2004000 (lo_word v) ?c1"
  let ?c3 = "clint_wr 0x2004004 (hi_word v) ?c2"
  have res: "dev (eriscv_mcu_clint_set_mtimecmp clint_bus v m) = ?c3"
    by (simp add: eriscv_mcu_clint_set_mtimecmp_def mach_simps clint_bus_def Let_def hi_word_def lo_word_def)
  have 1: "\<not> mtip_seen ?c1" "unat (mtime ?c1) \<le> unat (mtime (dev m)) + 65536"
    "mtimecmp ?c1 = join_words 0xffffffff (lo_word (mtimecmp (dev m)))"
    using clint_wr_quiet [of "dev m" "0x2004004" "0xffffffff"] assms(1,2) by simp_all
  have "mtimecmp (dev m) \<le> mtimecmp ?c1"
    using join_words_max [of "hi_word (mtimecmp (dev m))" "lo_word (mtimecmp (dev m))"] 1(3) by simp
  then have 2: "\<not> mtip_seen ?c2" "unat (mtime ?c2) \<le> unat (mtime (dev m)) + 2 * 65536"
    "mtimecmp ?c2 = join_words 0xffffffff (lo_word v)"
    using clint_wr_quiet [of ?c1 "0x2004000" "lo_word v"] 1 assms(2) by (simp_all add: word_le_nat_alt)
  have "v \<le> mtimecmp ?c2" using join_words_max [of "hi_word v" "lo_word v"] 2(3) by simp
  then show ?thesis
    using clint_wr_quiet [of ?c2 "0x2004004" "hi_word v"] 2 assms(3) by (simp add: word_le_nat_alt res)
qed

theorem clint_set_mtimecmp_no_spurious_witness:
  "mtimecmp (dev (eriscv_mcu_clint_set_mtimecmp clint_bus 0x100000000 (uart_boot
     \<lparr>msip = False, mtime = 5, mtimecmp = 0xffffffff, mtip_seen = False, c_gaps = [3, 65535, 9]\<rparr>))) = 0x100000000"
  using clint_set_mtimecmp_no_spurious [of "uart_boot \<lparr>msip = False, mtime = 5, mtimecmp = 0xffffffff,
      mtip_seen = False, c_gaps = [3, 65535, 9]\<rparr>" "0x100000000"]
  by simp

section \<open>The APB timer\<close>

record timer_apb =
  t_ctrl :: u32
  t_count :: u32
  t_compare :: u32
  t_expired :: bool
  t_gaps :: "nat list"   \<comment> \<open>idle cycles before each access\<close>

definition timer_tick :: "timer_apb \<Rightarrow> timer_apb" where
  "timer_tick t =
    (if bit (t_ctrl t) 0
     then t\<lparr>t_count := t_count t + 1,
            t_expired := t_expired t \<or> (t_compare t \<noteq> 0 \<and> t_compare t \<le> t_count t)\<rparr>
     else t)"

definition timer_idle :: "timer_apb \<Rightarrow> timer_apb" where
  "timer_idle t = (case t_gaps t of [] \<Rightarrow> t | g # gs \<Rightarrow> (timer_tick ^^ g) (t\<lparr>t_gaps := gs\<rparr>))"

definition timer_rd :: "u32 \<Rightarrow> timer_apb \<Rightarrow> u32 \<times> timer_apb" where
  "timer_rd a t =
    (let t = timer_idle t; reg = a AND 0xff
     in (if reg = 0x00 then t_ctrl t
         else if reg = 0x04 then t_count t
         else if reg = 0x08 then t_compare t
         else if reg = 0x0c then (if t_expired t then 1 else 0)
         else 0, timer_tick t))"

definition timer_wr :: "u32 \<Rightarrow> u32 \<Rightarrow> timer_apb \<Rightarrow> timer_apb" where
  "timer_wr a v t =
    (let t = timer_tick (timer_idle t); reg = a AND 0xff
     in if reg = 0x00 then t\<lparr>t_ctrl := v\<rparr>
        else if reg = 0x04 then t\<lparr>t_count := v\<rparr>
        else if reg = 0x08 then t\<lparr>t_compare := v\<rparr>
        else if reg = 0x0c then (if bit v 0 then t\<lparr>t_expired := False\<rparr> else t)
        else t)"

definition timer_bus :: "timer_apb bus" where
  "timer_bus = \<lparr>bus_rd = timer_rd, bus_wr = timer_wr\<rparr>"

lemma timer_bus_sel: "bus_rd timer_bus = timer_rd" "bus_wr timer_bus = timer_wr"
  by (simp_all add: timer_bus_def)

lemma timer_stopped: "\<not> bit (t_ctrl t) 0 \<Longrightarrow> (timer_tick ^^ n) t = t"
  by (induction n) (simp_all add: timer_tick_def)

lemma timer_ticks_expired: "t_expired t \<Longrightarrow> t_expired ((timer_tick ^^ n) t)"
  by (induction n) (simp_all add: timer_tick_def)

lemma timer_ticks:
  assumes "bit (t_ctrl t) 0" "t_count t = 0" "\<not> t_expired t"
  shows "t_ctrl ((timer_tick ^^ n) t) = t_ctrl t \<and> t_compare ((timer_tick ^^ n) t) = t_compare t \<and>
    t_gaps ((timer_tick ^^ n) t) = t_gaps t \<and> t_count ((timer_tick ^^ n) t) = of_nat n \<and>
    (t_expired ((timer_tick ^^ n) t) \<longleftrightarrow> t_compare t \<noteq> 0 \<and> unat (t_compare t) < n)"
proof (induction n)
  case (Suc n)
  have "t_compare t \<le> of_nat n \<longleftrightarrow> unat (t_compare t) \<le> n" if "n \<le> unat (t_compare t)"
  proof -
    have "n < 2 ^ 32" using that unat_u32_less [of "t_compare t"] by simp
    then have "unat (of_nat n :: u32) = n" by (simp add: unat_of_nat)
    then show ?thesis by (simp add: word_le_nat_alt)
  qed
  with Suc show ?case using assms(1)
    by (cases "unat (t_compare t) < n") (auto simp: timer_tick_def)
qed (use assms in simp)

lemma timer_start_dev:
  assumes "\<not> bit (t_ctrl (dev m)) 0" "t_gaps (dev m) = g1 # g2 # g3 # n # rest"
  shows "dev (eriscv_mcu_timer_start timer_bus compare irq m) = (dev m)\<lparr>t_compare := compare, t_count := 0,
    t_ctrl := (if irq \<noteq> 0 then 3 else 1), t_gaps := n # rest\<rparr>"
  using assms
  by (simp add: eriscv_mcu_timer_start_def mach_simps timer_bus_sel timer_wr_def Let_def timer_idle_def
      timer_stopped timer_tick_def)

text \<open>
  C27. One shot on the APB timer: started on a stopped timer whose expired flag is clear, \<open>timer_expired\<close>
  answers yes exactly when more than \<open>compare\<close> cycles have passed since the start, for every \<open>compare\<close>
  but 0, with which it never expires.
\<close>

theorem timer_one_shot_exact:
  assumes "\<not> bit (t_ctrl (dev m)) 0" "\<not> t_expired (dev m)" "t_gaps (dev m) = g1 # g2 # g3 # n # rest"
  shows "fst (eriscv_mcu_timer_expired timer_bus (eriscv_mcu_timer_start timer_bus compare irq m))
    \<longleftrightarrow> compare \<noteq> 0 \<and> unat compare < n"
proof -
  let ?t = "(dev m)\<lparr>t_compare := compare, t_count := 0, t_ctrl := (if irq \<noteq> 0 then 3 else 1), t_gaps := rest\<rparr>"
  have "bit (t_ctrl ?t) 0" by (simp add: bit_numeral_rec)
  from timer_ticks [OF this, of n] assms(2) show ?thesis
    by (simp add: eriscv_mcu_timer_expired_def mach_simps timer_start_dev [OF assms(1,3)] timer_bus_sel
        timer_rd_def Let_def timer_idle_def)
qed

theorem timer_one_shot_exact_witness:
  "\<not> fst (eriscv_mcu_timer_expired timer_bus (eriscv_mcu_timer_start timer_bus 50000 0
      (uart_boot \<lparr>t_ctrl = 0, t_count = 7, t_compare = 0, t_expired = False, t_gaps = [1, 2, 3, 50000]\<rparr>)))"
  using timer_one_shot_exact [of "uart_boot \<lparr>t_ctrl = 0, t_count = 7, t_compare = 0, t_expired = False,
      t_gaps = [1, 2, 3, 50000]\<rparr>" 1 2 3 50000 "[]" 50000 0] by simp

text \<open>
  C31. But the expired flag is sticky and \<open>timer_start\<close> does not clear it: once an interval has expired, a
  timer started again reports expiry at once, whatever the new interval.
\<close>

theorem timer_restart_expires_at_once:
  assumes "t_expired (dev m)"
  shows "fst (eriscv_mcu_timer_expired timer_bus (eriscv_mcu_timer_start timer_bus compare irq m))"
proof -
  have idle: "t_expired (timer_idle t)" if "t_expired t" for t
    using that by (auto simp: timer_idle_def timer_ticks_expired split: list.split)
  have wr: "t_expired (timer_wr a v t)" if "t_expired t" "a AND 0xff \<noteq> 0x0c" for a v t
    using that idle [OF that(1)] by (simp add: timer_wr_def Let_def timer_tick_def)
  show ?thesis
    using assms idle wr
    by (simp add: eriscv_mcu_timer_expired_def eriscv_mcu_timer_start_def mach_simps timer_bus_sel timer_rd_def Let_def)
qed

theorem timer_restart_expires_at_once_witness:
  "fst (eriscv_mcu_timer_expired timer_bus (eriscv_mcu_timer_start timer_bus 200000 0
      (uart_boot \<lparr>t_ctrl = 1, t_count = 50001, t_compare = 50000, t_expired = True, t_gaps = []\<rparr>)))"
  using timer_restart_expires_at_once [of "uart_boot \<lparr>t_ctrl = 1, t_count = 50001, t_compare = 50000,
      t_expired = True, t_gaps = []\<rparr>"] by simp

end
