(* ===== verification/Freertos_Drivers.thy ===== *)
theory Freertos_Drivers
  imports Rtl_Time
begin

text \<open>
  The FreeRTOS device drivers \<^verbatim>\<open>sw/rtos/freertos/drivers/{timer,gpio,plic,clk_rst,wdt}.c\<close>: each function is
  the access sequence of its C body. (\<^verbatim>\<open>drivers/uart.c\<close> is the same file as \<^verbatim>\<open>sw/lib/uart.c\<close>, modelled in
  \<open>Bsp_Uart\<close>.)
\<close>

section \<open>Timer\<close>

abbreviation (input) TIMER_CTRL :: u32 where "TIMER_CTRL \<equiv> 0x00"
abbreviation (input) TIMER_COUNT :: u32 where "TIMER_COUNT \<equiv> 0x04"
abbreviation (input) TIMER_COMPARE :: u32 where "TIMER_COMPARE \<equiv> 0x08"
abbreviation (input) TIMER_STATUS :: u32 where "TIMER_STATUS \<equiv> 0x0c"
abbreviation (input) TIMER_ENABLE :: u32 where "TIMER_ENABLE \<equiv> 1"
abbreviation (input) TIMER_IRQ_EN :: u32 where "TIMER_IRQ_EN \<equiv> 2"

definition freertos_timer_start ::
    "'d bus \<Rightarrow> u32 \<Rightarrow> int \<Rightarrow> ('d, 'e) mach_scheme \<Rightarrow> ('d, 'e) mach_scheme" where
  "freertos_timer_start B compare irq_enable m =
    (let ctrl = TIMER_ENABLE;
         ctrl = (if irq_enable \<noteq> 0 then ctrl OR TIMER_IRQ_EN else ctrl);
         m = eriscv_mcu_mmio_write32 B (ERISCV_MCU_TIMER0_BASE + TIMER_COMPARE) compare m;
         m = eriscv_mcu_mmio_write32 B (ERISCV_MCU_TIMER0_BASE + TIMER_COUNT) 0 m
     in eriscv_mcu_mmio_write32 B (ERISCV_MCU_TIMER0_BASE + TIMER_CTRL) ctrl m)"

definition freertos_timer_stop ::
    "'d bus \<Rightarrow> ('d, 'e) mach_scheme \<Rightarrow> ('d, 'e) mach_scheme" where
  "freertos_timer_stop B m =
    (let m = eriscv_mcu_mmio_write32 B (ERISCV_MCU_TIMER0_BASE + TIMER_CTRL) 0 m
     in eriscv_mcu_mmio_write32 B (ERISCV_MCU_TIMER0_BASE + TIMER_STATUS) 1 m)"

definition freertos_timer_expired ::
    "'d bus \<Rightarrow> ('d, 'e) mach_scheme \<Rightarrow> bool \<times> ('d, 'e) mach_scheme" where
  "freertos_timer_expired B m =
    (let (v, m) = eriscv_mcu_mmio_read32 B (ERISCV_MCU_TIMER0_BASE + TIMER_STATUS) m
     in (v AND 1 \<noteq> 0, m))"

definition freertos_timer_count ::
    "'d bus \<Rightarrow> ('d, 'e) mach_scheme \<Rightarrow> u32 \<times> ('d, 'e) mach_scheme" where
  "freertos_timer_count B m =
     eriscv_mcu_mmio_read32 B (ERISCV_MCU_TIMER0_BASE + TIMER_COUNT) m"

section \<open>GPIO\<close>

abbreviation (input) GPIO_OUT :: u32 where "GPIO_OUT \<equiv> 0x00"
abbreviation (input) GPIO_IN :: u32 where "GPIO_IN \<equiv> 0x04"
abbreviation (input) GPIO_DIR :: u32 where "GPIO_DIR \<equiv> 0x08"

definition freertos_gpio_configure_output ::
    "'d bus \<Rightarrow> u32 \<Rightarrow> ('d, 'e) mach_scheme \<Rightarrow> ('d, 'e) mach_scheme" where
  "freertos_gpio_configure_output B output_enable m =
     eriscv_mcu_mmio_write32 B (ERISCV_MCU_GPIO0_BASE + GPIO_DIR) output_enable m"

definition freertos_gpio_write ::
    "'d bus \<Rightarrow> u32 \<Rightarrow> ('d, 'e) mach_scheme \<Rightarrow> ('d, 'e) mach_scheme" where
  "freertos_gpio_write B v m =
     eriscv_mcu_mmio_write32 B (ERISCV_MCU_GPIO0_BASE + GPIO_OUT) v m"

definition freertos_gpio_read ::
    "'d bus \<Rightarrow> ('d, 'e) mach_scheme \<Rightarrow> u32 \<times> ('d, 'e) mach_scheme" where
  "freertos_gpio_read B m =
     eriscv_mcu_mmio_read32 B (ERISCV_MCU_GPIO0_BASE + GPIO_IN) m"

definition freertos_gpio_update ::
    "'d bus \<Rightarrow> u32 \<Rightarrow> u32 \<Rightarrow> ('d, 'e) mach_scheme \<Rightarrow> ('d, 'e) mach_scheme" where
  "freertos_gpio_update B msk v m =
    (let (out, m) = eriscv_mcu_mmio_read32 B (ERISCV_MCU_GPIO0_BASE + GPIO_OUT) m
     in freertos_gpio_write B ((out AND NOT msk) OR (v AND msk)) m)"

definition freertos_gpio_toggle ::
    "'d bus \<Rightarrow> u32 \<Rightarrow> ('d, 'e) mach_scheme \<Rightarrow> ('d, 'e) mach_scheme" where
  "freertos_gpio_toggle B msk m =
    (let (out, m) = eriscv_mcu_mmio_read32 B (ERISCV_MCU_GPIO0_BASE + GPIO_OUT) m
     in freertos_gpio_write B (out XOR msk) m)"

section \<open>PLIC\<close>

definition freertos_plic_init_source ::
    "'d bus \<Rightarrow> u32 \<Rightarrow> u32 \<Rightarrow> ('d, 'e) mach_scheme \<Rightarrow> ('d, 'e) mach_scheme" where
  "freertos_plic_init_source B src priority m =
    (if src = 0 \<or> src > ERISCV_MCU_PLIC_SOURCES then m
     else
       let m = eriscv_mcu_mmio_write32 B (ERISCV_MCU_PLIC_BASE + ERISCV_MCU_PLIC_PRIORITY src) (priority AND 7) m;
           address = ERISCV_MCU_PLIC_BASE + ERISCV_MCU_PLIC_ENABLE + 4 * drop_bit 5 src;
           (v, m) = eriscv_mcu_mmio_read32 B address m;
           v = v OR push_bit (unat (src AND 31)) 1;
           m = eriscv_mcu_mmio_write32 B address v m
       in eriscv_mcu_mmio_write32 B (ERISCV_MCU_PLIC_BASE + ERISCV_MCU_PLIC_THRESHOLD) 0 m)"

definition freertos_plic_claim ::
    "'d bus \<Rightarrow> ('d, 'e) mach_scheme \<Rightarrow> u32 \<times> ('d, 'e) mach_scheme" where
  "freertos_plic_claim B m =
     eriscv_mcu_mmio_read32 B (ERISCV_MCU_PLIC_BASE + ERISCV_MCU_PLIC_CLAIM) m"

definition freertos_plic_complete ::
    "'d bus \<Rightarrow> u32 \<Rightarrow> ('d, 'e) mach_scheme \<Rightarrow> ('d, 'e) mach_scheme" where
  "freertos_plic_complete B src m =
     eriscv_mcu_mmio_write32 B (ERISCV_MCU_PLIC_BASE + ERISCV_MCU_PLIC_CLAIM) src m"

section \<open>Clock and reset controller\<close>

abbreviation (input) CLK_EN :: u32 where "CLK_EN \<equiv> 0x00"
abbreviation (input) CLK_STATUS :: u32 where "CLK_STATUS \<equiv> 0x04"
abbreviation (input) PERI_RESET :: u32 where "PERI_RESET \<equiv> 0x08"
abbreviation (input) SLEEP_CTRL :: u32 where "SLEEP_CTRL \<equiv> 0x10"
abbreviation (input) WAKE_ENABLE :: u32 where "WAKE_ENABLE \<equiv> 0x14"
abbreviation (input) WAKE_STATUS :: u32 where "WAKE_STATUS \<equiv> 0x18"
abbreviation (input) SOFT_RESET :: u32 where "SOFT_RESET \<equiv> 0x1c"
abbreviation (input) CLK_MASK :: u32 where "CLK_MASK \<equiv> 0x1f"
abbreviation (input) WAKE_MASK :: u32 where "WAKE_MASK \<equiv> 0x7ff"
abbreviation (input) SLEEP_REQ :: u32 where "SLEEP_REQ \<equiv> 1"
abbreviation (input) WFI_SLEEP_EN :: u32 where "WFI_SLEEP_EN \<equiv> 4"

definition freertos_clk_enable ::
    "'d bus \<Rightarrow> u32 \<Rightarrow> ('d, 'e) mach_scheme \<Rightarrow> ('d, 'e) mach_scheme" where
  "freertos_clk_enable B msk m =
    (let (v, m) = eriscv_mcu_mmio_read32 B (ERISCV_MCU_CLK_RST_BASE + CLK_EN) m
     in eriscv_mcu_mmio_write32 B (ERISCV_MCU_CLK_RST_BASE + CLK_EN) (v OR (msk AND CLK_MASK)) m)"

definition freertos_clk_disable ::
    "'d bus \<Rightarrow> u32 \<Rightarrow> ('d, 'e) mach_scheme \<Rightarrow> ('d, 'e) mach_scheme" where
  "freertos_clk_disable B msk m =
    (let (v, m) = eriscv_mcu_mmio_read32 B (ERISCV_MCU_CLK_RST_BASE + CLK_EN) m
     in eriscv_mcu_mmio_write32 B (ERISCV_MCU_CLK_RST_BASE + CLK_EN) (v AND NOT (msk AND CLK_MASK)) m)"

definition freertos_clk_status ::
    "'d bus \<Rightarrow> ('d, 'e) mach_scheme \<Rightarrow> u32 \<times> ('d, 'e) mach_scheme" where
  "freertos_clk_status B m =
     eriscv_mcu_mmio_read32 B (ERISCV_MCU_CLK_RST_BASE + CLK_STATUS) m"

definition freertos_peripheral_reset ::
    "'d bus \<Rightarrow> u32 \<Rightarrow> ('d, 'e) mach_scheme \<Rightarrow> ('d, 'e) mach_scheme" where
  "freertos_peripheral_reset B msk m =
     eriscv_mcu_mmio_write32 B (ERISCV_MCU_CLK_RST_BASE + PERI_RESET) (msk AND CLK_MASK) m"

definition freertos_wfi_sleep_enable ::
    "'d bus \<Rightarrow> int \<Rightarrow> ('d, 'e) mach_scheme \<Rightarrow> ('d, 'e) mach_scheme" where
  "freertos_wfi_sleep_enable B enable m =
     eriscv_mcu_mmio_write32 B (ERISCV_MCU_CLK_RST_BASE + SLEEP_CTRL) (if enable \<noteq> 0 then WFI_SLEEP_EN else 0) m"

definition freertos_enter_sleep ::
    "'d bus \<Rightarrow> ('d, 'e) mach_scheme \<Rightarrow> ('d, 'e) mach_scheme" where
  "freertos_enter_sleep B m =
     wfi (fence (eriscv_mcu_mmio_write32 B (ERISCV_MCU_CLK_RST_BASE + SLEEP_CTRL) SLEEP_REQ m))"

definition freertos_wake_enable ::
    "'d bus \<Rightarrow> u32 \<Rightarrow> ('d, 'e) mach_scheme \<Rightarrow> ('d, 'e) mach_scheme" where
  "freertos_wake_enable B msk m =
    (let (v, m) = eriscv_mcu_mmio_read32 B (ERISCV_MCU_CLK_RST_BASE + WAKE_ENABLE) m
     in eriscv_mcu_mmio_write32 B (ERISCV_MCU_CLK_RST_BASE + WAKE_ENABLE) (v OR (msk AND WAKE_MASK)) m)"

definition freertos_wake_disable ::
    "'d bus \<Rightarrow> u32 \<Rightarrow> ('d, 'e) mach_scheme \<Rightarrow> ('d, 'e) mach_scheme" where
  "freertos_wake_disable B msk m =
    (let (v, m) = eriscv_mcu_mmio_read32 B (ERISCV_MCU_CLK_RST_BASE + WAKE_ENABLE) m
     in eriscv_mcu_mmio_write32 B (ERISCV_MCU_CLK_RST_BASE + WAKE_ENABLE) (v AND NOT (msk AND WAKE_MASK)) m)"

definition freertos_wake_status ::
    "'d bus \<Rightarrow> ('d, 'e) mach_scheme \<Rightarrow> u32 \<times> ('d, 'e) mach_scheme" where
  "freertos_wake_status B m =
     eriscv_mcu_mmio_read32 B (ERISCV_MCU_CLK_RST_BASE + WAKE_STATUS) m"

definition freertos_wake_status_clear ::
    "'d bus \<Rightarrow> u32 \<Rightarrow> ('d, 'e) mach_scheme \<Rightarrow> ('d, 'e) mach_scheme" where
  "freertos_wake_status_clear B msk m =
     eriscv_mcu_mmio_write32 B (ERISCV_MCU_CLK_RST_BASE + WAKE_STATUS) (msk AND WAKE_MASK) m"

definition freertos_soft_reset ::
    "'d bus \<Rightarrow> ('d, 'e) mach_scheme \<Rightarrow> ('d, 'e) mach_scheme" where
  "freertos_soft_reset B m =
     eriscv_mcu_mmio_write32 B (ERISCV_MCU_CLK_RST_BASE + SOFT_RESET) 1 m"

section \<open>Watchdog\<close>

abbreviation (input) WDT_CTRL :: u32 where "WDT_CTRL \<equiv> 0x00"
abbreviation (input) WDT_TIMEOUT :: u32 where "WDT_TIMEOUT \<equiv> 0x04"
abbreviation (input) WDT_WINDOW :: u32 where "WDT_WINDOW \<equiv> 0x08"
abbreviation (input) WDT_FEED :: u32 where "WDT_FEED \<equiv> 0x0c"
abbreviation (input) WDT_STATUS :: u32 where "WDT_STATUS \<equiv> 0x10"
abbreviation (input) WDT_PRETIMEOUT :: u32 where "WDT_PRETIMEOUT \<equiv> 0x18"
abbreviation (input) WDT_FEED_MAGIC :: u32 where "WDT_FEED_MAGIC \<equiv> 0xACCE55ED"
abbreviation (input) WDT_ENABLE :: u32 where "WDT_ENABLE \<equiv> 1"
abbreviation (input) WDT_IRQ_EN :: u32 where "WDT_IRQ_EN \<equiv> 4"

definition freertos_wdt_config ::
    "'d bus \<Rightarrow> u32 \<Rightarrow> u32 \<Rightarrow> u32 \<Rightarrow> ('d, 'e) mach_scheme \<Rightarrow> ('d, 'e) mach_scheme" where
  "freertos_wdt_config B timeout window pretimeout m =
    (let m = eriscv_mcu_mmio_write32 B (ERISCV_MCU_WDT0_BASE + WDT_TIMEOUT) timeout m;
         m = eriscv_mcu_mmio_write32 B (ERISCV_MCU_WDT0_BASE + WDT_WINDOW) window m
     in eriscv_mcu_mmio_write32 B (ERISCV_MCU_WDT0_BASE + WDT_PRETIMEOUT) pretimeout m)"

definition freertos_wdt_enable ::
    "'d bus \<Rightarrow> int \<Rightarrow> ('d, 'e) mach_scheme \<Rightarrow> ('d, 'e) mach_scheme" where
  "freertos_wdt_enable B irq_enable m =
    (let ctrl = WDT_ENABLE;
         ctrl = (if irq_enable \<noteq> 0 then ctrl OR WDT_IRQ_EN else ctrl)
     in eriscv_mcu_mmio_write32 B (ERISCV_MCU_WDT0_BASE + WDT_CTRL) ctrl m)"

definition freertos_wdt_disable ::
    "'d bus \<Rightarrow> ('d, 'e) mach_scheme \<Rightarrow> ('d, 'e) mach_scheme" where
  "freertos_wdt_disable B m =
     eriscv_mcu_mmio_write32 B (ERISCV_MCU_WDT0_BASE + WDT_CTRL) 0 m"

definition freertos_wdt_feed ::
    "'d bus \<Rightarrow> ('d, 'e) mach_scheme \<Rightarrow> ('d, 'e) mach_scheme" where
  "freertos_wdt_feed B m =
     eriscv_mcu_mmio_write32 B (ERISCV_MCU_WDT0_BASE + WDT_FEED) WDT_FEED_MAGIC m"

definition freertos_wdt_status ::
    "'d bus \<Rightarrow> ('d, 'e) mach_scheme \<Rightarrow> u32 \<times> ('d, 'e) mach_scheme" where
  "freertos_wdt_status B m =
     eriscv_mcu_mmio_read32 B (ERISCV_MCU_WDT0_BASE + WDT_STATUS) m"

lemmas freertos_defs =
  freertos_timer_start_def
  freertos_timer_stop_def
  freertos_timer_expired_def
  freertos_timer_count_def
  freertos_gpio_configure_output_def
  freertos_gpio_write_def
  freertos_gpio_read_def
  freertos_gpio_update_def
  freertos_gpio_toggle_def
  freertos_plic_init_source_def
  freertos_plic_claim_def
  freertos_plic_complete_def
  freertos_clk_enable_def
  freertos_clk_disable_def
  freertos_clk_status_def
  freertos_peripheral_reset_def
  freertos_wfi_sleep_enable_def
  freertos_enter_sleep_def
  freertos_wake_enable_def
  freertos_wake_disable_def
  freertos_wake_status_def
  freertos_wake_status_clear_def
  freertos_soft_reset_def
  freertos_wdt_config_def
  freertos_wdt_enable_def
  freertos_wdt_disable_def
  freertos_wdt_feed_def
  freertos_wdt_status_def

end
