(* ===== verification/Rtl_Sys.thy ===== *)
theory Rtl_Sys
  imports Freertos_Drivers
begin

text \<open>
  The system peripherals and the code on them: GPIO (\<^verbatim>\<open>gpio_apb.sv\<close>), the register file of the clock and
  reset controller (\<^verbatim>\<open>clk_rst_ctrl.sv\<close>), the enable words of the PLIC (\<^verbatim>\<open>plic.sv\<close>) and the watchdog
  (\<^verbatim>\<open>watchdog_apb.sv\<close>), cycle by cycle. Read-modify-write code relies on one law, the interface
  \<open>rw_register\<close>: the register reads back what was last written to its implemented bits.
\<close>

section \<open>A register that reads back\<close>

locale rw_register =
  fixes B :: "'d bus" and addr :: u32 and val :: "'d \<Rightarrow> u32" and impl :: u32
  assumes rd_val: "fst (bus_rd B addr d) = val d" "val (snd (bus_rd B addr d)) = val d"
    and wr_val: "val (bus_wr B addr v d) = v AND impl"
begin

lemma reg_write: "val (dev (eriscv_mcu_mmio_write32 B addr v m)) = v AND impl"
  by (simp add: mach_simps wr_val)

lemma reg_modify:
  "val (dev (case eriscv_mcu_mmio_read32 B addr m of (v, m) \<Rightarrow> eriscv_mcu_mmio_write32 B addr (f v) m))
    = f (val (dev m)) AND impl"
  by (simp add: mach_simps wr_val rd_val)

end

section \<open>GPIO\<close>

record gpio_apb =
  g_out :: u32
  g_dir :: u32
  g_in :: "u32 list"   \<comment> \<open>the pins as the later reads sample them\<close>

definition gpio_rd :: "u32 \<Rightarrow> gpio_apb \<Rightarrow> u32 \<times> gpio_apb" where
  "gpio_rd a g =
    (let reg = a AND 0xff
     in if reg = 0x00 then (g_out g, g)
        else if reg = 0x04 then (case g_in g of [] \<Rightarrow> (0, g) | v # vs \<Rightarrow> (v, g\<lparr>g_in := vs\<rparr>))
        else if reg = 0x08 then (g_dir g, g)
        else (0, g))"

definition gpio_wr :: "u32 \<Rightarrow> u32 \<Rightarrow> gpio_apb \<Rightarrow> gpio_apb" where
  "gpio_wr a v g =
    (let reg = a AND 0xff
     in if reg = 0x00 then g\<lparr>g_out := v\<rparr> else if reg = 0x08 then g\<lparr>g_dir := v\<rparr> else g)"

definition gpio_bus :: "gpio_apb bus" where
  "gpio_bus = \<lparr>bus_rd = gpio_rd, bus_wr = gpio_wr\<rparr>"

interpretation gpio_out: rw_register gpio_bus "ERISCV_MCU_GPIO0_BASE + GPIO_OUT" g_out "- 1"
  by unfold_locales (simp_all add: gpio_bus_def gpio_rd_def gpio_wr_def Let_def)

text \<open>The FreeRTOS GPIO calls, and what each is meant to do to the output latch.\<close>

datatype gpio_call = Gpio_write u32 | Gpio_update u32 u32 | Gpio_toggle u32

fun gpio_do :: "'d bus \<Rightarrow> gpio_call \<Rightarrow> ('d, 'e) mach_scheme \<Rightarrow> ('d, 'e) mach_scheme" where
  "gpio_do B (Gpio_write v) m = freertos_gpio_write B v m"
| "gpio_do B (Gpio_update msk v) m = freertos_gpio_update B msk v m"
| "gpio_do B (Gpio_toggle msk) m = freertos_gpio_toggle B msk m"

definition pin_after :: "gpio_call \<Rightarrow> nat \<Rightarrow> bool \<Rightarrow> bool" where
  "pin_after c i b =
    (case c of
       Gpio_write v \<Rightarrow> bit v i
     | Gpio_update msk v \<Rightarrow> if bit msk i then bit v i else b
     | Gpio_toggle msk \<Rightarrow> if bit msk i then \<not> b else b)"

lemma gpio_do_out: "bit (g_out (dev (gpio_do gpio_bus c m))) i \<longleftrightarrow> i < 32 \<and> pin_after c i (bit (g_out (dev m)) i)"
  using gpio_out.reg_write [of _ m] gpio_out.reg_modify [of _ m]
  by (cases c)
    (auto simp: freertos_gpio_write_def freertos_gpio_update_def freertos_gpio_toggle_def pin_after_def
      bit_simps mach_simps gpio_bus_def gpio_rd_def gpio_wr_def dest: bit_imp_le_length)

text \<open>
  C32. Any sequence of GPIO writes, masked updates and toggles drives each of the 32 pins exactly as the
  same sequence of assignments to that pin alone: no call disturbs a pin outside its mask.
\<close>

theorem gpio_calls_pinwise:
  "bit (g_out (dev (fold (gpio_do gpio_bus) cs m))) i
    \<longleftrightarrow> i < 32 \<and> fold (\<lambda>c. pin_after c i) cs (bit (g_out (dev m)) i)"
proof (induction cs arbitrary: m)
  case Nil
  then show ?case by (auto dest: bit_imp_le_length)
next
  case (Cons c cs)
  have "i < 32 \<Longrightarrow> bit (g_out (dev (gpio_do gpio_bus c m))) i = pin_after c i (bit (g_out (dev m)) i)"
    by (simp add: gpio_do_out)
  then show ?case using Cons.IH [of "gpio_do gpio_bus c m"] by auto
qed

section \<open>Clock and reset controller\<close>

text \<open>
  The software-visible registers; \<open>cr_env\<close> gives, before each access, the busy peripherals and the wake
  sources that hit while asleep. The reset and sleep sequencing is left out.
\<close>

record clk_rst =
  cr_clk_en :: u32
  cr_wake_en :: u32
  cr_wake_status :: u32
  cr_wfi_sleep_en :: bool
  cr_reset_cause :: u32
  cr_busy :: u32
  cr_env :: "(u32 \<times> u32) list"

definition clk_rst_env :: "clk_rst \<Rightarrow> clk_rst" where
  "clk_rst_env c =
    (case cr_env c of
       [] \<Rightarrow> c
     | (busy, wake) # es \<Rightarrow>
         c\<lparr>cr_busy := busy AND 0x1f, cr_wake_status := cr_wake_status c OR (wake AND cr_wake_en c),
           cr_env := es\<rparr>)"

definition clk_rst_rd :: "u32 \<Rightarrow> clk_rst \<Rightarrow> u32 \<times> clk_rst" where
  "clk_rst_rd a c =
    (let c = clk_rst_env c; reg = a AND 0xff
     in (if reg = 0x00 then cr_clk_en c
         else if reg = 0x04 then cr_clk_en c OR cr_busy c OR (cr_wake_en c AND 1)
         else if reg = 0x0c then cr_reset_cause c
         else if reg = 0x10 then (if cr_wfi_sleep_en c then 4 else 0)
         else if reg = 0x14 then cr_wake_en c
         else if reg = 0x18 then cr_wake_status c
         else 0, c))"

definition clk_rst_wr :: "u32 \<Rightarrow> u32 \<Rightarrow> clk_rst \<Rightarrow> clk_rst" where
  "clk_rst_wr a v c =
    (let c = clk_rst_env c; reg = a AND 0xff
     in if reg = 0x00 then c\<lparr>cr_clk_en := v AND 0x1f\<rparr>
        else if reg = 0x10 then c\<lparr>cr_wfi_sleep_en := bit v 2\<rparr>
        else if reg = 0x14 then c\<lparr>cr_wake_en := v AND 0x7ff\<rparr>
        else if reg = 0x18 then c\<lparr>cr_wake_status := cr_wake_status c AND NOT (v AND 0x7ff)\<rparr>
        else c)"

definition clk_rst_bus :: "clk_rst bus" where
  "clk_rst_bus = \<lparr>bus_rd = clk_rst_rd, bus_wr = clk_rst_wr\<rparr>"

lemma clk_rst_env_keeps [simp]: "cr_clk_en (clk_rst_env c) = cr_clk_en c" "cr_wake_en (clk_rst_env c) = cr_wake_en c"
  by (auto simp: clk_rst_env_def split: list.split)

interpretation clk_en: rw_register clk_rst_bus "ERISCV_MCU_CLK_RST_BASE + CLK_EN" cr_clk_en "0x1f"
  by unfold_locales (simp_all add: clk_rst_bus_def clk_rst_rd_def clk_rst_wr_def Let_def)

interpretation wake_en: rw_register clk_rst_bus "ERISCV_MCU_CLK_RST_BASE + WAKE_ENABLE" cr_wake_en "0x7ff"
  by unfold_locales (simp_all add: clk_rst_bus_def clk_rst_rd_def clk_rst_wr_def Let_def)

lemma and_below: "x AND b = x \<Longrightarrow> (x OR (y AND b)) AND b = x OR (y AND (b :: u32))"
  "x AND b = x \<Longrightarrow> (x AND NOT (y AND b)) AND b = x AND NOT y"
proof -
  assume x: "x AND b = x"
  have *: "bit x n \<Longrightarrow> bit b n" for n by (metis bit_and_iff x)
  show "(x OR (y AND b)) AND b = x OR (y AND b)" "(x AND NOT (y AND b)) AND b = x AND NOT y"
    by (rule bit_word_eqI; auto simp: bit_simps dest: *)+
qed

text \<open>
  The clock and wake enables, from the header and from the FreeRTOS driver alike, change exactly the
  bits of their mask that exist (5 clocks, 11 wake sources) and nothing of the other register.
\<close>

theorem clk_wake_enable_exact:
  assumes "cr_clk_en (dev m) AND 0x1f = cr_clk_en (dev m)" "cr_wake_en (dev m) AND 0x7ff = cr_wake_en (dev m)"
  shows "cr_clk_en (dev (eriscv_mcu_clk_enable clk_rst_bus msk m)) = cr_clk_en (dev m) OR (msk AND 0x1f) \<and>
    cr_clk_en (dev (eriscv_mcu_clk_disable clk_rst_bus msk m)) = cr_clk_en (dev m) AND NOT msk \<and>
    cr_wake_en (dev (eriscv_mcu_wake_enable clk_rst_bus msk m)) = cr_wake_en (dev m) OR (msk AND 0x7ff) \<and>
    cr_wake_en (dev (eriscv_mcu_wake_disable clk_rst_bus msk m)) = cr_wake_en (dev m) AND NOT msk \<and>
    freertos_clk_enable clk_rst_bus msk m = eriscv_mcu_clk_enable clk_rst_bus msk m \<and>
    freertos_clk_disable clk_rst_bus msk m = eriscv_mcu_clk_disable clk_rst_bus msk m \<and>
    freertos_wake_enable clk_rst_bus msk m = eriscv_mcu_wake_enable clk_rst_bus msk m \<and>
    freertos_wake_disable clk_rst_bus msk m = eriscv_mcu_wake_disable clk_rst_bus msk m"
  using clk_en.reg_modify [of "\<lambda>v. v OR (msk AND 0x1f)" m] clk_en.reg_modify [of "\<lambda>v. v AND NOT (msk AND 0x1f)" m]
    wake_en.reg_modify [of "\<lambda>v. v OR (msk AND 0x7ff)" m] wake_en.reg_modify [of "\<lambda>v. v AND NOT (msk AND 0x7ff)" m]
    and_below [OF assms(1), of msk] and_below [OF assms(2), of msk]
  by (simp add: eriscv_mcu_clk_enable_def eriscv_mcu_clk_disable_def eriscv_mcu_wake_enable_def
      eriscv_mcu_wake_disable_def freertos_clk_enable_def freertos_clk_disable_def
      freertos_wake_enable_def freertos_wake_disable_def)

theorem clk_wake_enable_exact_witness:
  "cr_clk_en (dev (eriscv_mcu_clk_disable clk_rst_bus 0xffffff02 (uart_boot
     \<lparr>cr_clk_en = 0x1f, cr_wake_en = 0x401, cr_wake_status = 0, cr_wfi_sleep_en = False, cr_reset_cause = 1,
      cr_busy = 0, cr_env = []\<rparr>))) = 0x1d"
  using clk_wake_enable_exact [of "uart_boot \<lparr>cr_clk_en = 0x1f, cr_wake_en = 0x401, cr_wake_status = 0,
     cr_wfi_sleep_en = False, cr_reset_cause = 1, cr_busy = 0, cr_env = []\<rparr>" "0xffffff02"]
  by simp

section \<open>PLIC enables\<close>

text \<open>The enable words of hart context 0: bit \<open>i mod 32\<close> of word \<open>i div 32\<close> enables source \<open>i\<close>, 1 to 32.\<close>

record plic =
  p_priority :: "u32 \<Rightarrow> u32"
  p_enable :: "nat set"
  p_threshold :: u32

definition source_word :: "nat set \<Rightarrow> nat \<Rightarrow> u32" where
  "source_word E w = fold (\<lambda>i v. if i div 32 = w \<and> i \<in> E then v OR push_bit (i mod 32) 1 else v) [1..<33] 0"

definition plic_rd :: "u32 \<Rightarrow> plic \<Rightarrow> u32 \<times> plic" where
  "plic_rd a p =
    (let loc = a - ERISCV_MCU_PLIC_BASE
     in (if loc \<le> 128 \<and> loc AND 3 = 0 then p_priority p (drop_bit 2 loc)
         else if loc = 0x2000 then source_word (p_enable p) 0
         else if loc = 0x2004 then source_word (p_enable p) 1
         else if loc = 0x200000 then p_threshold p
         else 0, p))"

definition plic_wr :: "u32 \<Rightarrow> u32 \<Rightarrow> plic \<Rightarrow> plic" where
  "plic_wr a v p =
    (let loc = a - ERISCV_MCU_PLIC_BASE
     in if loc \<le> 128 \<and> loc AND 3 = 0 then p\<lparr>p_priority := (p_priority p)(drop_bit 2 loc := v AND 7)\<rparr>
        else if loc = 0x2000 then
          p\<lparr>p_enable := {i \<in> p_enable p. i div 32 \<noteq> 0} \<union> {i \<in> {1..31}. bit v i}\<rparr>
        else if loc = 0x2004 then
          p\<lparr>p_enable := {i \<in> p_enable p. i div 32 \<noteq> 1} \<union> {i \<in> {32}. bit v (i - 32)}\<rparr>
        else if loc = 0x200000 then p\<lparr>p_threshold := v AND 7\<rparr>
        else p)"

definition plic_bus :: "plic bus" where
  "plic_bus = \<lparr>bus_rd = plic_rd, bus_wr = plic_wr\<rparr>"

lemma bit_source_word:
  "bit (source_word E w) i \<longleftrightarrow> i < 32 \<and> (32 * w + i \<in> E \<and> 1 \<le> 32 * w + i \<and> 32 * w + i \<le> 32)"
proof -
  have "bit (fold (\<lambda>i v. if i div 32 = w \<and> i \<in> E then v OR push_bit (i mod 32) 1 else v) xs (v :: u32)) i \<longleftrightarrow>
      bit v i \<or> (\<exists>j \<in> set xs. j div 32 = w \<and> j \<in> E \<and> j mod 32 = i)" for xs v
    by (induction xs arbitrary: v) (auto simp: bit_or_iff bit_exp_u32)
  then have "bit (source_word E w) i \<longleftrightarrow> (\<exists>j \<in> {1..<33}. j div 32 = w \<and> j \<in> E \<and> j mod 32 = i)"
    by (simp add: source_word_def)
  also have "\<dots> \<longleftrightarrow> i < 32 \<and> (32 * w + i \<in> E \<and> 1 \<le> 32 * w + i \<and> 32 * w + i \<le> 32)"
    by (auto simp: mod_div_decomp intro!: bexI [of _ "32 * w + i"])
  finally show ?thesis .
qed

lemma source_place:
  assumes "0 < unat (s :: u32)" "unat s \<le> 32"
  shows "4 * drop_bit 5 s = (if s = 32 then 4 else 0)" "unat (s AND 31) = (if s = 32 then 0 else unat s)"
proof -
  have "unat (drop_bit 5 s) = unat s div 32" unfolding unat_drop_bit_eq by (simp add: drop_bit_eq_div)
  then have "drop_bit 5 s = (if s = 32 then 1 else 0)"
    using assms by (auto simp: word_unat_eq_iff)
  then show "4 * drop_bit 5 s = (if s = 32 then 4 else 0)" by simp
  have "unat (s AND 31) = unat s mod 32" using unat_and_mask [of s 5] by (simp add: mask_eq_exp_minus_1)
  then show "unat (s AND 31) = (if s = 32 then 0 else unat s)" using assms by (auto simp: word_unat_eq_iff)
qed

text \<open>
  \<open>plic_set_enabled\<close> enables or disables exactly its source, in the right word for each of the 32
  sources, and does nothing for ids that are not sources.
\<close>

theorem plic_set_enabled_exact:
  assumes "p_enable (dev m) \<subseteq> {1..32}"
  shows "p_enable (dev (eriscv_mcu_plic_set_enabled plic_bus s en m)) =
    (if 1 \<le> unat s \<and> unat s \<le> 32
     then (if en \<noteq> 0 then insert (unat s) (p_enable (dev m)) else p_enable (dev m) - {unat s})
     else p_enable (dev m))"
proof (cases "1 \<le> unat s \<and> unat s \<le> 32")
  case False
  then have "s = 0 \<or> s > 32" by (auto simp: word_less_nat_alt unat_eq_zero not_le)
  then show ?thesis using False by (auto simp: eriscv_mcu_plic_set_enabled_def)
next
  case True
  then have s: "0 < unat s" "unat s \<le> 32" "\<not> (s = 0 \<or> s > 32)" by (auto simp: word_less_nat_alt)
  let ?E = "p_enable (dev m)"
  show ?thesis
  proof (cases "s = 32")
    case t: True
    have "i = 32" if "i \<in> ?E" "i div 32 = 1" for i
    proof -
      have "i \<le> 32" using that(1) assms by auto
      with that(2) show ?thesis by presburger
    qed
    then show ?thesis
      by (auto simp: eriscv_mcu_plic_set_enabled_def t mach_simps plic_bus_def plic_rd_def plic_wr_def
          Let_def bit_or_iff bit_and_iff bit_not_iff bit_source_word)
  next
    case f: False
    have lt: "unat s < 32" using s(2) f by (cases "unat s = 32") (auto simp: word_unat_eq_iff)
    have mem: "i \<in> ?E \<Longrightarrow> i div 32 = 0 \<Longrightarrow> 1 \<le> i \<and> i \<le> 31" for i using assms by auto
    have bits: "i \<le> 31 \<Longrightarrow> bit (push_bit (unat s) 1 :: u32) i \<longleftrightarrow> i = unat s" for i
      using lt by (auto simp: bit_exp_u32)
    show ?thesis
      using s lt mem bits source_place [OF s(1,2)] f
      by (auto simp: eriscv_mcu_plic_set_enabled_def mach_simps plic_bus_def plic_rd_def plic_wr_def Let_def
          bit_or_iff bit_and_iff bit_not_iff bit_source_word)
  qed
qed

theorem plic_set_enabled_exact_witness:
  "p_enable (dev (eriscv_mcu_plic_set_enabled plic_bus 32 1
     (uart_boot \<lparr>p_priority = (\<lambda>_. 0), p_enable = {5}, p_threshold = 0\<rparr>))) = {5, 32}"
  using plic_set_enabled_exact [of "uart_boot \<lparr>p_priority = (\<lambda>_. 0), p_enable = {5}, p_threshold = 0\<rparr>" 32 1]
  by (auto split: if_splits)

section \<open>Watchdog\<close>

record wdt_apb =
  w_ctrl :: u32
  w_timeout :: u32
  w_window :: u32
  w_count :: u32
  w_pretimeout :: u32
  w_expired :: bool
  w_reset_cause :: bool
  w_locked :: bool
  w_pre_pending :: bool
  w_reset_seen :: bool    \<comment> \<open>\<open>wdt_rst_n_o\<close> has been low in some cycle\<close>
  w_gaps :: "nat list"    \<comment> \<open>idle cycles before each access\<close>

definition wdt_window_ok :: "wdt_apb \<Rightarrow> bool" where
  "wdt_window_ok w \<longleftrightarrow> \<not> bit (w_ctrl w) 1 \<or> w_window w = 0 \<or> w_count w \<le> w_window w"

text \<open>One clock edge, with the register store of that cycle if there is one; the core is not halted.\<close>

definition wdt_cycle :: "(u32 \<times> u32) option \<Rightarrow> wdt_apb \<Rightarrow> wdt_apb" where
  "wdt_cycle acc w =
    (let en = bit (w_ctrl w) 0;
         reg = (case acc of None \<Rightarrow> 0xff | Some (r, v) \<Rightarrow> r);
         v = (case acc of None \<Rightarrow> 0 | Some (r, v) \<Rightarrow> v);
         fed = (reg = 0x0c \<and> v = 0xACCE55ED \<and> wdt_window_ok w);
         expired = (en \<and> w_count w = 0);
         pre_hit = (en \<and> bit (w_ctrl w) 2 \<and> w_pretimeout w \<noteq> 0 \<and> w_pretimeout w < w_timeout w \<and>
                    0 < w_count w \<and> w_count w - 1 = w_pretimeout w);
         open = (\<not> w_locked w);
         w1 = w\<lparr>w_count := (if \<not> en then w_count w
                            else if fed then w_timeout w
                            else if 0 < w_count w then w_count w - 1 else w_count w),
                w_expired := w_expired w \<or> expired, w_reset_cause := w_reset_cause w \<or> expired,
                w_pre_pending := w_pre_pending w \<or> pre_hit, w_reset_seen := w_reset_seen w \<or> expired\<rparr>;
         w2 = (if open \<and> reg = 0x00 then
                 w1\<lparr>w_ctrl := v, w_count := (if \<not> en \<and> bit v 0 then w_timeout w else w_count w1)\<rparr>
               else if open \<and> reg = 0x04 then w1\<lparr>w_timeout := v\<rparr>
               else if open \<and> reg = 0x08 then w1\<lparr>w_window := v\<rparr>
               else if open \<and> reg = 0x10 then
                 w1\<lparr>w_expired := (if bit v 0 \<and> \<not> expired then False else w_expired w1),
                    w_pre_pending := (if bit v 3 \<and> \<not> pre_hit then False else w_pre_pending w1)\<rparr>
               else if open \<and> reg = 0x18 then w1\<lparr>w_pretimeout := v\<rparr>
               else w1);
         w3 = (if fed \<or> open \<and> reg = 0x00 \<and> \<not> bit v 0 then w2\<lparr>w_pre_pending := False\<rparr> else w2)
     in if reg = 0x14 \<and> open \<and> bit v 0 then w3\<lparr>w_locked := True\<rparr> else w3)"

definition wdt_idle :: "wdt_apb \<Rightarrow> wdt_apb" where
  "wdt_idle w = (case w_gaps w of [] \<Rightarrow> w | g # gs \<Rightarrow> (wdt_cycle None ^^ g) (w\<lparr>w_gaps := gs\<rparr>))"

definition wdt_rd :: "u32 \<Rightarrow> wdt_apb \<Rightarrow> u32 \<times> wdt_apb" where
  "wdt_rd a w =
    (let w = wdt_idle w; reg = a AND 0xff
     in (if reg = 0x00 then w_ctrl w
         else if reg = 0x04 then w_timeout w
         else if reg = 0x08 then w_window w
         else if reg = 0x10 then uart_bit (w_pre_pending w) 3 OR uart_bit (w_locked w) 2 OR
                                 uart_bit (w_reset_cause w) 1 OR uart_bit (w_expired w) 0
         else if reg = 0x14 then uart_bit (w_locked w) 0
         else if reg = 0x18 then w_pretimeout w
         else 0, wdt_cycle None w))"

definition wdt_wr :: "u32 \<Rightarrow> u32 \<Rightarrow> wdt_apb \<Rightarrow> wdt_apb" where
  "wdt_wr a v w = wdt_cycle (Some (a AND 0xff, v)) (wdt_idle w)"

definition wdt_bus :: "wdt_apb bus" where
  "wdt_bus = \<lparr>bus_rd = wdt_rd, bus_wr = wdt_wr\<rparr>"

lemma wdt_bus_sel: "bus_rd wdt_bus = wdt_rd" "bus_wr wdt_bus = wdt_wr"
  by (simp_all add: wdt_bus_def)

text \<open>What one store does to the configuration, with no idle cycles before it.\<close>

lemma wdt_store:
  assumes "\<not> w_locked w" "w_gaps w = []" "a AND 0xff \<noteq> 0x14"
  shows "w_ctrl (wdt_wr a v w) = (if a AND 0xff = 0x00 then v else w_ctrl w)"
    "w_timeout (wdt_wr a v w) = (if a AND 0xff = 0x04 then v else w_timeout w)"
    "w_window (wdt_wr a v w) = (if a AND 0xff = 0x08 then v else w_window w)"
    "\<not> w_locked (wdt_wr a v w)" "w_gaps (wdt_wr a v w) = []"
  using assms by (simp_all add: wdt_wr_def wdt_idle_def wdt_cycle_def Let_def)

text \<open>The watchdog counting down, unfed.\<close>

lemma wdt_idle_cycle:
  "bit (w_ctrl w) 0 \<Longrightarrow> 0 < w_count w \<Longrightarrow>
   w_count (wdt_cycle None w) = w_count w - 1 \<and> w_ctrl (wdt_cycle None w) = w_ctrl w \<and>
   w_timeout (wdt_cycle None w) = w_timeout w \<and> w_window (wdt_cycle None w) = w_window w \<and>
   w_reset_seen (wdt_cycle None w) = w_reset_seen w \<and> w_gaps (wdt_cycle None w) = w_gaps w \<and>
   w_locked (wdt_cycle None w) = w_locked w"
  by (auto simp: wdt_cycle_def Let_def)

lemma wdt_countdown:
  "bit (w_ctrl w) 0 \<Longrightarrow> n \<le> unat (w_count w) \<Longrightarrow>
   unat (w_count ((wdt_cycle None ^^ n) w)) = unat (w_count w) - n \<and>
   w_ctrl ((wdt_cycle None ^^ n) w) = w_ctrl w \<and> w_timeout ((wdt_cycle None ^^ n) w) = w_timeout w \<and>
   w_window ((wdt_cycle None ^^ n) w) = w_window w \<and> w_gaps ((wdt_cycle None ^^ n) w) = w_gaps w \<and>
   w_reset_seen ((wdt_cycle None ^^ n) w) = w_reset_seen w \<and> w_locked ((wdt_cycle None ^^ n) w) = w_locked w"
proof (induction n)
  case (Suc n)
  then have IH: "unat (w_count ((wdt_cycle None ^^ n) w)) = unat (w_count w) - n"
    "w_ctrl ((wdt_cycle None ^^ n) w) = w_ctrl w" "w_timeout ((wdt_cycle None ^^ n) w) = w_timeout w"
    "w_window ((wdt_cycle None ^^ n) w) = w_window w" "w_gaps ((wdt_cycle None ^^ n) w) = w_gaps w"
    "w_reset_seen ((wdt_cycle None ^^ n) w) = w_reset_seen w" "w_locked ((wdt_cycle None ^^ n) w) = w_locked w"
    by simp_all
  have pos: "w_count ((wdt_cycle None ^^ n) w) \<noteq> 0" using IH(1) Suc.prems(2) by auto
  then show ?case
    using wdt_idle_cycle [of "(wdt_cycle None ^^ n) w"] IH Suc.prems unat_minus_one [OF pos]
    by (simp add: word_greater_zero_iff)
qed simp

text \<open>The cycles a watchdog lets pass before the next access.\<close>

definition next_gap :: "wdt_apb \<Rightarrow> nat" where
  "next_gap w = (case w_gaps w of [] \<Rightarrow> 0 | g # _ \<Rightarrow> g)"

lemma wdt_idle_gap: "wdt_idle w = (wdt_cycle None ^^ next_gap w) (w\<lparr>w_gaps := tl (w_gaps w)\<rparr>)"
  by (cases "w_gaps w") (simp_all add: wdt_idle_def next_gap_def)

text \<open>A watchdog that is off does not move, and takes its configuration at any pace.\<close>

lemma wdt_off_idle: "\<not> bit (w_ctrl w) 0 \<Longrightarrow> wdt_idle w = w\<lparr>w_gaps := tl (w_gaps w)\<rparr>"
proof -
  assume off: "\<not> bit (w_ctrl w) 0"
  have "wdt_cycle None v = v" if "\<not> bit (w_ctrl v) 0" for v
    using that by (simp add: wdt_cycle_def Let_def)
  then have "(wdt_cycle None ^^ n) v = v" if "\<not> bit (w_ctrl v) 0" for n v
    using that by (induction n) simp_all
  then show ?thesis using off by (simp add: wdt_idle_gap)
qed

lemma wdt_off_store:
  assumes "\<not> w_locked w" "\<not> bit (w_ctrl w) 0" "a AND 0xff \<notin> {0x00, 0x14}"
  shows "w_ctrl (wdt_wr a v w) = w_ctrl w" "w_timeout (wdt_wr a v w) = (if a AND 0xff = 0x04 then v else w_timeout w)"
    "w_window (wdt_wr a v w) = (if a AND 0xff = 0x08 then v else w_window w)"
    "\<not> w_locked (wdt_wr a v w)" "w_gaps (wdt_wr a v w) = tl (w_gaps w)" "w_reset_seen (wdt_wr a v w) = w_reset_seen w"
  using assms by (simp_all add: wdt_wr_def wdt_off_idle wdt_cycle_def Let_def)

lemma wdt_off_enable:
  assumes "\<not> w_locked w" "\<not> bit (w_ctrl w) 0" "a AND 0xff = 0x00" "bit v 0"
  shows "w_ctrl (wdt_wr a v w) = v" "w_timeout (wdt_wr a v w) = w_timeout w" "w_window (wdt_wr a v w) = w_window w"
    "w_count (wdt_wr a v w) = w_timeout w" "\<not> w_locked (wdt_wr a v w)" "w_gaps (wdt_wr a v w) = tl (w_gaps w)"
    "w_reset_seen (wdt_wr a v w) = w_reset_seen w"
  using assms by (simp_all add: wdt_wr_def wdt_off_idle wdt_cycle_def Let_def)

text \<open>A feed that comes before the counter reaches 0, with the window not in force.\<close>

lemma wdt_feed_in_time:
  assumes "bit (w_ctrl w) 0" "\<not> bit (w_ctrl w) 1" "next_gap w < unat (w_count w)"
  defines "w' \<equiv> wdt_wr (ERISCV_MCU_WDT0_BASE + WDT_FEED) WDT_FEED_MAGIC w"
  shows "w_count w' = w_timeout w" "w_ctrl w' = w_ctrl w" "w_timeout w' = w_timeout w" "w_window w' = w_window w"
    "w_gaps w' = tl (w_gaps w)" "w_reset_seen w' = w_reset_seen w"
proof -
  let ?w = "(wdt_cycle None ^^ next_gap w) (w\<lparr>w_gaps := tl (w_gaps w)\<rparr>)"
  have c: "unat (w_count ?w) = unat (w_count w) - next_gap w" "w_ctrl ?w = w_ctrl w" "w_timeout ?w = w_timeout w"
    "w_window ?w = w_window w" "w_gaps ?w = tl (w_gaps w)" "w_reset_seen ?w = w_reset_seen w"
    using wdt_countdown [of "w\<lparr>w_gaps := tl (w_gaps w)\<rparr>" "next_gap w"] assms(1-3) by simp_all
  then have "w_count ?w \<noteq> 0" using assms(3) by auto
  then show "w_count w' = w_timeout w" "w_ctrl w' = w_ctrl w" "w_timeout w' = w_timeout w" "w_window w' = w_window w"
    "w_gaps w' = tl (w_gaps w)" "w_reset_seen w' = w_reset_seen w" using c assms(1,2)
    by (simp_all add: w'_def wdt_wr_def wdt_idle_gap wdt_cycle_def Let_def wdt_window_ok_def)
qed

text \<open>The two drivers: the FreeRTOS functions, and those of the header in the same order.\<close>

datatype wdt_driver = Freertos_wdt | Header_wdt

fun wdt_arm :: "wdt_driver \<Rightarrow> u32 \<Rightarrow> u32 \<Rightarrow> u32 \<Rightarrow> int \<Rightarrow> (wdt_apb, 'e) mach_scheme \<Rightarrow> (wdt_apb, 'e) mach_scheme" where
  "wdt_arm Freertos_wdt timeout window pre irq m =
     freertos_wdt_enable wdt_bus irq (freertos_wdt_config wdt_bus timeout window pre m)"
| "wdt_arm Header_wdt timeout window pre irq m =
     eriscv_mcu_wdt_enable wdt_bus irq (eriscv_mcu_wdt_set_pretimeout wdt_bus pre
       (eriscv_mcu_wdt_set_window wdt_bus window (eriscv_mcu_wdt_set_timeout wdt_bus timeout m)))"

fun wdt_feed :: "wdt_driver \<Rightarrow> (wdt_apb, 'e) mach_scheme \<Rightarrow> (wdt_apb, 'e) mach_scheme" where
  "wdt_feed Freertos_wdt m = freertos_wdt_feed wdt_bus m"
| "wdt_feed Header_wdt m = eriscv_mcu_wdt_feed wdt_bus m"

text \<open>A watchdog that one of the drivers has armed, and that has just been loaded.\<close>

definition wdt_loaded :: "u32 \<Rightarrow> u32 \<Rightarrow> wdt_apb \<Rightarrow> bool" where
  "wdt_loaded timeout window w \<longleftrightarrow> bit (w_ctrl w) 0 \<and> \<not> bit (w_ctrl w) 1 \<and> w_timeout w = timeout \<and> w_window w = window \<and>
     w_count w = timeout \<and> \<not> w_reset_seen w"

lemma wdt_arm_loads:
  assumes "\<not> w_locked (dev m)" "\<not> bit (w_ctrl (dev m)) 0" "\<not> w_reset_seen (dev m)"
  shows "wdt_loaded timeout window (dev (wdt_arm b timeout window pre irq m)) \<and>
    w_gaps (dev (wdt_arm b timeout window pre irq m)) = drop 4 (w_gaps (dev m))"
proof -
  let ?w1 = "wdt_wr 0x40040004 timeout (dev m)"
  let ?w2 = "wdt_wr 0x40040008 window ?w1"
  let ?w3 = "wdt_wr 0x40040018 pre ?w2"
  let ?w4 = "wdt_wr 0x40040000 (if irq \<noteq> 0 then 5 else 1) ?w3"
  have dev: "dev (wdt_arm b timeout window pre irq m) = ?w4"
    by (cases b) (simp_all add: freertos_wdt_enable_def freertos_wdt_config_def eriscv_mcu_wdt_enable_def
      eriscv_mcu_wdt_set_pretimeout_def eriscv_mcu_wdt_set_window_def eriscv_mcu_wdt_set_timeout_def mach_simps wdt_bus_sel Let_def)
  have d: "tl (tl xs) = drop 2 xs" "tl (drop 2 xs) = drop 3 xs" "tl (drop 3 xs) = drop 4 xs" for xs :: "nat list"
    by (simp_all add: tl_drop drop_Suc eval_nat_numeral)
  have 1: "\<not> w_locked ?w1" "\<not> bit (w_ctrl ?w1) 0" "w_timeout ?w1 = timeout" "w_gaps ?w1 = tl (w_gaps (dev m))" "\<not> w_reset_seen ?w1"
    using assms by (simp_all add: wdt_off_store)
  have 2: "\<not> w_locked ?w2" "\<not> bit (w_ctrl ?w2) 0" "w_timeout ?w2 = timeout" "w_window ?w2 = window" "w_gaps ?w2 = drop 2 (w_gaps (dev m))"
    "\<not> w_reset_seen ?w2" using wdt_off_store [OF 1(1,2), of "0x40040008" window] 1(2-5) d by simp_all
  have 3: "\<not> w_locked ?w3" "\<not> bit (w_ctrl ?w3) 0" "w_timeout ?w3 = timeout" "w_window ?w3 = window" "w_gaps ?w3 = drop 3 (w_gaps (dev m))"
    "\<not> w_reset_seen ?w3" using wdt_off_store [OF 2(1,2), of "0x40040018" pre] 2(2-6) d by simp_all
  have "bit (if irq \<noteq> 0 then 5 else 1 :: u32) 0" "\<not> bit (if irq \<noteq> 0 then 5 else 1 :: u32) 1" by (simp_all add: bit_numeral_rec)
  then show ?thesis unfolding dev using 3 d wdt_off_enable [OF 3(1,2), of "0x40040000" "if irq \<noteq> 0 then 5 else 1"] by (simp add: wdt_loaded_def)
qed

lemma wdt_feed_loads:
  assumes "wdt_loaded timeout window (dev m)" "next_gap (dev m) < unat timeout"
  shows "wdt_loaded timeout window (dev (wdt_feed b m)) \<and> w_gaps (dev (wdt_feed b m)) = tl (w_gaps (dev m))"
proof -
  have "dev (wdt_feed b m) = wdt_wr (ERISCV_MCU_WDT0_BASE + WDT_FEED) WDT_FEED_MAGIC (dev m)"
    by (cases b) (simp_all add: freertos_wdt_feed_def eriscv_mcu_wdt_feed_def mach_simps wdt_bus_sel)
  then show ?thesis using assms wdt_feed_in_time [of "dev m"] by (simp add: wdt_loaded_def)
qed

lemma wdt_feeds_load:
  "wdt_loaded timeout window (dev m) \<Longrightarrow> 0 < timeout \<Longrightarrow> \<forall>g\<in>set (w_gaps (dev m)). g < unat timeout \<Longrightarrow>
    wdt_loaded timeout window (dev (fold wdt_feed bs m))"
proof (induction bs arbitrary: m)
  case (Cons b bs)
  have "next_gap (dev m) < unat timeout"
    using Cons.prems(2,3) by (cases "w_gaps (dev m)") (auto simp: next_gap_def word_less_nat_alt)
  note f = wdt_feed_loads [OF Cons.prems(1) this, of b]
  have "set (tl (w_gaps (dev m))) \<subseteq> set (w_gaps (dev m))" by (cases "w_gaps (dev m)") auto
  then show ?case using Cons.IH [of "wdt_feed b m"] f Cons.prems by auto
qed simp

text \<open>
  C28. A watchdog that was off, armed with timeout \<open>T\<close> by the FreeRTOS driver or the functions of the header, with
  whatever time between the four stores, and then fed by the feed function of either, each time within fewer than
  \<open>T\<close> cycles of the last feed, never resets the system; each feed reloads the full interval.
\<close>

theorem wdt_fed_never_resets:
  assumes "\<not> w_locked (dev m)" "\<not> bit (w_ctrl (dev m)) 0" "\<not> w_reset_seen (dev m)"
    "0 < timeout" "\<forall>g \<in> set (drop 4 (w_gaps (dev m))). g < unat timeout"
  shows "\<not> w_reset_seen (dev (fold wdt_feed bs (wdt_arm b timeout window pre irq m))) \<and>
    w_count (dev (fold wdt_feed bs (wdt_arm b timeout window pre irq m))) = timeout"
  using wdt_feeds_load [of timeout window "wdt_arm b timeout window pre irq m" bs] wdt_arm_loads [OF assms(1-3)] assms(4,5)
  by (simp add: wdt_loaded_def)

text \<open>A watchdog after reset.\<close>

definition wdt_reset :: "nat list \<Rightarrow> wdt_apb" where
  "wdt_reset gs = \<lparr>w_ctrl = 0, w_timeout = 0xffffffff, w_window = 0, w_count = 0xffffffff, w_pretimeout = 0,
     w_expired = False, w_reset_cause = False, w_locked = False, w_pre_pending = False, w_reset_seen = False,
     w_gaps = gs\<rparr>"

theorem wdt_fed_never_resets_witness:
  "\<not> w_reset_seen (dev (fold wdt_feed [Freertos_wdt, Header_wdt, Freertos_wdt]
     (wdt_arm Freertos_wdt 500000 0 50000 1 (uart_boot (wdt_reset [1000000, 3, 0, 2, 499999, 10, 77])))))"
  using wdt_fed_never_resets [of "uart_boot (wdt_reset [1000000, 3, 0, 2, 499999, 10, 77])" 500000
     "[Freertos_wdt, Header_wdt, Freertos_wdt]" Freertos_wdt 0 50000 1]
  by (simp add: wdt_reset_def)

text \<open>
  The feed window does not take effect: armed by the FreeRTOS driver or by the functions of the header, the
  watchdog holds the window, but neither \<open>wdt_enable\<close> sets the window bit of \<open>CTRL\<close>, and a feed with any number of
  cycles \<open>g\<close> below the timeout after the last is accepted, also when more than the window remains on the counter;
  with the bit set, the same feed with as much on the counter is refused.
\<close>

theorem wdt_window_never_in_force:
  assumes "\<not> w_locked (dev m)" "\<not> bit (w_ctrl (dev m)) 0" "\<not> w_reset_seen (dev m)"
    "0 < timeout" "\<forall>g \<in> set (drop 4 (w_gaps (dev m))). g < unat timeout"
    "m' = fold wdt_feed bs (wdt_arm b timeout window pre irq m)"
  shows "w_window (dev m') = window \<and> \<not> bit (w_ctrl (dev m')) 1 \<and> w_count (dev (wdt_feed fb m')) = timeout \<and>
    (window \<noteq> 0 \<longrightarrow> window < timeout \<longrightarrow>
       \<not> wdt_window_ok ((dev m')\<lparr>w_ctrl := w_ctrl (dev m') OR 2\<rparr>) \<and> wdt_window_ok (dev m'))"
proof -
  let ?m = "wdt_arm b timeout window pre irq m"
  have l: "wdt_loaded timeout window (dev m')" "wdt_loaded timeout window (dev (wdt_feed fb m'))"
    using wdt_feeds_load [of timeout window ?m bs] wdt_feeds_load [of timeout window ?m "bs @ [fb]"] wdt_arm_loads [OF assms(1-3)] assms(4,5)
    by (simp_all add: assms(6))
  have "bit (w_ctrl (dev m') OR 2) 1" by (simp add: bit_simps bit_numeral_rec)
  then show ?thesis using l by (simp add: assms(6) [symmetric] wdt_loaded_def wdt_window_ok_def not_le)
qed

theorem wdt_window_never_in_force_witness:
  "w_count (dev (wdt_feed Freertos_wdt (wdt_arm Freertos_wdt 500000 1000 50000 1 (uart_boot (wdt_reset [9, 9, 9, 9, 7]))))) = 500000 \<and>
   w_count (dev (wdt_feed Header_wdt (wdt_arm Header_wdt 500000 1000 50000 1 (uart_boot (wdt_reset [9, 9, 9, 9, 7]))))) = 500000"
proof -
  let ?m = "uart_boot (wdt_reset [9, 9, 9, 9, 7])"
  have m: "\<not> w_locked (dev ?m)" "\<not> bit (w_ctrl (dev ?m)) 0" "\<not> w_reset_seen (dev ?m)"
    "\<forall>g \<in> set (drop 4 (w_gaps (dev ?m))). g < unat (500000 :: u32)" by (simp_all add: wdt_reset_def)
  have "(0 :: u32) < 500000" by simp
  note t = wdt_window_never_in_force [OF m(1-3) this m(4) refl]
  show ?thesis using t [where fb = Freertos_wdt and bs = "[]" and b = Freertos_wdt and window = 1000 and pre = 50000 and irq = 1]
      t [where fb = Header_wdt and bs = "[]" and b = Header_wdt and window = 1000 and pre = 50000 and irq = 1]
    by (simp del: wdt_arm.simps wdt_feed.simps)
qed

end
