(* ===== verification/Zephyr_Drivers.thy ===== *)
theory Zephyr_Drivers
  imports Rtl_Sys
begin

text \<open>
  The Zephyr drivers for GPIO, timer and watchdog,
  \<^verbatim>\<open>sw/rtos/zephyr/soc/riscv/eriscv_mcu/drivers/{gpio,timer,wdt}.c\<close>. The kernel's own functions (\<open>irq_lock\<close>,
  the PLIC and IRQ set-up) and the values of its API flags are not in the repository: they are the fields
  of \<open>zephyr\<close>, \<open>gpio_flags\<close> and of the configuration records. A callback is a value of an
  arbitrary type \<open>'cb\<close>, and \<open>call\<close> is what calling it does. A driver function that returns 0 or a
  negative error code returns \<open>Inr ()\<close> or \<open>Inl\<close> the error.
\<close>

section \<open>The kernel\<close>

datatype errno = EINVAL | ENOTSUP | EBUSY | EFAULT | ETIMEDOUT | ENODEV | EIO

record 'm zephyr =
  irq_lock :: "'m \<Rightarrow> u32 \<times> 'm"
  irq_unlock :: "u32 \<Rightarrow> 'm \<Rightarrow> 'm"
  irq_connect :: "'m \<Rightarrow> 'm"
  riscv_plic_set_priority :: "'m \<Rightarrow> 'm"
  irq_enable :: "'m \<Rightarrow> 'm"

text \<open>
  What the drivers rely on: locking and unlocking leave the devices alone and touch neither the bus nor
  the memory; unlocking with the key of the lock gives the CSRs back.
\<close>

locale zephyr_irq =
  fixes K :: "('d, 'e) mach_scheme zephyr"
  assumes lock_dev: "dev (snd (irq_lock K m)) = dev m"
    and unlock_dev: "dev (irq_unlock K k m) = dev m"
begin

lemma locked_dev:
  "dev (case irq_lock K m of (key, m) \<Rightarrow> irq_unlock K key (f m)) = dev (f (snd (irq_lock K m)))"
  by (simp add: unlock_dev case_prod_beta)

end

text \<open>The kernel's \<open>irq_lock\<close> on this core is the pair of CSR accesses the UART library uses.\<close>

definition riscv_kernel :: "('d, 'e) mach_scheme zephyr" where
  "riscv_kernel = \<lparr>irq_lock = uart_irq_save, irq_unlock = uart_irq_restore, irq_connect = (\<lambda>m. m),
     riscv_plic_set_priority = (\<lambda>m. m), irq_enable = (\<lambda>m. m)\<rparr>"

interpretation riscv_irq: zephyr_irq riscv_kernel
  by unfold_locales
    (simp_all add: riscv_kernel_def uart_irq_save_def uart_irq_restore_def mach_simps)

section \<open>GPIO\<close>

abbreviation (input) ERISCV_GPIO_OUT :: u32 where "ERISCV_GPIO_OUT \<equiv> 0x00"
abbreviation (input) ERISCV_GPIO_IN :: u32 where "ERISCV_GPIO_IN \<equiv> 0x04"
abbreviation (input) ERISCV_GPIO_DIR :: u32 where "ERISCV_GPIO_DIR \<equiv> 0x08"

record eriscv_gpio_config =
  port_pin_mask :: u32
  gpio_base :: u32

record gpio_flags =
  GPIO_SINGLE_ENDED :: u32
  GPIO_PULL_UP :: u32
  GPIO_PULL_DOWN :: u32
  GPIO_OUTPUT :: u32
  GPIO_OUTPUT_INIT_HIGH :: u32
  GPIO_OUTPUT_INIT_LOW :: u32

text \<open>\<open>BIT(n)\<close>, an unsigned long of 32 bits: 0 for pins that do not exist.\<close>

definition BIT :: "u8 \<Rightarrow> u32" where "BIT n = push_bit (unat n) 1"

definition eriscv_gpio_pin_configure ::
    "'d bus \<Rightarrow> gpio_flags \<Rightarrow> eriscv_gpio_config \<Rightarrow> u8 \<Rightarrow> u32 \<Rightarrow> ('d, 'e) mach_scheme \<Rightarrow>
     (errno + unit) \<times> ('d, 'e) mach_scheme" where
  "eriscv_gpio_pin_configure B F config pin flags m =
    (if BIT pin AND port_pin_mask config = 0 then (Inl EINVAL, m)
     else if flags AND (GPIO_SINGLE_ENDED F OR GPIO_PULL_UP F OR GPIO_PULL_DOWN F) \<noteq> 0 then (Inl ENOTSUP, m)
     else
       let b = BIT pin;
           m = (if flags AND GPIO_OUTPUT_INIT_HIGH F \<noteq> 0 then
                  let (v, m) = eriscv_mcu_mmio_read32 B (gpio_base config + ERISCV_GPIO_OUT) m
                  in eriscv_mcu_mmio_write32 B (gpio_base config + ERISCV_GPIO_OUT) (v OR b) m
                else if flags AND GPIO_OUTPUT_INIT_LOW F \<noteq> 0 then
                  let (v, m) = eriscv_mcu_mmio_read32 B (gpio_base config + ERISCV_GPIO_OUT) m
                  in eriscv_mcu_mmio_write32 B (gpio_base config + ERISCV_GPIO_OUT) (v AND NOT b) m
                else m);
           (v, m) = eriscv_mcu_mmio_read32 B (gpio_base config + ERISCV_GPIO_DIR) m;
           v = (if flags AND GPIO_OUTPUT F \<noteq> 0 then v OR b else v AND NOT b)
       in (Inr (), eriscv_mcu_mmio_write32 B (gpio_base config + ERISCV_GPIO_DIR) v m))"

definition eriscv_gpio_port_get_raw ::
    "'d bus \<Rightarrow> eriscv_gpio_config \<Rightarrow> ('d, 'e) mach_scheme \<Rightarrow> u32 \<times> ('d, 'e) mach_scheme" where
  "eriscv_gpio_port_get_raw B config m = eriscv_mcu_mmio_read32 B (gpio_base config + ERISCV_GPIO_IN) m"

definition eriscv_gpio_port_set_masked_raw ::
    "'d bus \<Rightarrow> ('d, 'e) mach_scheme zephyr \<Rightarrow> eriscv_gpio_config \<Rightarrow> u32 \<Rightarrow> u32 \<Rightarrow>
     ('d, 'e) mach_scheme \<Rightarrow> ('d, 'e) mach_scheme" where
  "eriscv_gpio_port_set_masked_raw B K config msk v m =
    (let msk = msk AND port_pin_mask config;
         (key, m) = irq_lock K m;
         (output, m) = eriscv_mcu_mmio_read32 B (gpio_base config + ERISCV_GPIO_OUT) m;
         output = (output AND NOT msk) OR (v AND msk);
         m = eriscv_mcu_mmio_write32 B (gpio_base config + ERISCV_GPIO_OUT) output m
     in irq_unlock K key m)"

definition eriscv_gpio_port_set_bits_raw ::
    "'d bus \<Rightarrow> ('d, 'e) mach_scheme zephyr \<Rightarrow> eriscv_gpio_config \<Rightarrow> u32 \<Rightarrow>
     ('d, 'e) mach_scheme \<Rightarrow> ('d, 'e) mach_scheme" where
  "eriscv_gpio_port_set_bits_raw B K config msk m = eriscv_gpio_port_set_masked_raw B K config msk msk m"

definition eriscv_gpio_port_clear_bits_raw ::
    "'d bus \<Rightarrow> ('d, 'e) mach_scheme zephyr \<Rightarrow> eriscv_gpio_config \<Rightarrow> u32 \<Rightarrow>
     ('d, 'e) mach_scheme \<Rightarrow> ('d, 'e) mach_scheme" where
  "eriscv_gpio_port_clear_bits_raw B K config msk m = eriscv_gpio_port_set_masked_raw B K config msk 0 m"

definition eriscv_gpio_port_toggle_bits ::
    "'d bus \<Rightarrow> ('d, 'e) mach_scheme zephyr \<Rightarrow> eriscv_gpio_config \<Rightarrow> u32 \<Rightarrow>
     ('d, 'e) mach_scheme \<Rightarrow> ('d, 'e) mach_scheme" where
  "eriscv_gpio_port_toggle_bits B K config msk m =
    (let msk = msk AND port_pin_mask config;
         (key, m) = irq_lock K m;
         (output, m) = eriscv_mcu_mmio_read32 B (gpio_base config + ERISCV_GPIO_OUT) m;
         m = eriscv_mcu_mmio_write32 B (gpio_base config + ERISCV_GPIO_OUT) (output XOR msk) m
     in irq_unlock K key m)"

definition eriscv_gpio_pin_interrupt_configure :: "u8 \<Rightarrow> errno + unit" where
  "eriscv_gpio_pin_interrupt_configure pin = Inl ENOTSUP"

definition eriscv_gpio_init :: "('d, 'e) mach_scheme \<Rightarrow> (errno + unit) \<times> ('d, 'e) mach_scheme" where
  "eriscv_gpio_init m = (Inr (), m)"

section \<open>Timer\<close>

abbreviation (input) ERISCV_TIMER_CTRL :: u32 where "ERISCV_TIMER_CTRL \<equiv> 0x00"
abbreviation (input) ERISCV_TIMER_COUNT :: u32 where "ERISCV_TIMER_COUNT \<equiv> 0x04"
abbreviation (input) ERISCV_TIMER_COMPARE :: u32 where "ERISCV_TIMER_COMPARE \<equiv> 0x08"
abbreviation (input) ERISCV_TIMER_STATUS :: u32 where "ERISCV_TIMER_STATUS \<equiv> 0x0c"
abbreviation (input) ERISCV_TIMER_ENABLE :: u32 where "ERISCV_TIMER_ENABLE \<equiv> 1"
abbreviation (input) ERISCV_TIMER_IRQ_ENABLE :: u32 where "ERISCV_TIMER_IRQ_ENABLE \<equiv> 2"

record ('d, 'cb) eriscv_timer = "'d mach" +
  timer_base :: u32
  timer_callback :: "'cb option"
  timer_user_data :: u32

record 'cb counter_top_cfg =
  top_ticks :: u32
  top_callback :: "'cb option"
  top_user_data :: u32
  top_dont_reset :: bool   \<comment> \<open>\<open>COUNTER_TOP_CFG_DONT_RESET\<close> in \<open>flags\<close>\<close>

definition eriscv_timer_start :: "'d bus \<Rightarrow> ('d, 'cb, 'e) eriscv_timer_scheme \<Rightarrow> ('d, 'cb, 'e) eriscv_timer_scheme" where
  "eriscv_timer_start B m =
    (let (v, m) = eriscv_mcu_mmio_read32 B (timer_base m + ERISCV_TIMER_CTRL) m
     in eriscv_mcu_mmio_write32 B (timer_base m + ERISCV_TIMER_CTRL) (v OR ERISCV_TIMER_ENABLE) m)"

definition eriscv_timer_stop :: "'d bus \<Rightarrow> ('d, 'cb, 'e) eriscv_timer_scheme \<Rightarrow> ('d, 'cb, 'e) eriscv_timer_scheme" where
  "eriscv_timer_stop B m = eriscv_mcu_mmio_write32 B (timer_base m + ERISCV_TIMER_CTRL) 0 m"

definition eriscv_timer_get_value :: "'d bus \<Rightarrow> ('d, 'cb, 'e) eriscv_timer_scheme \<Rightarrow> u32 \<times> ('d, 'cb, 'e) eriscv_timer_scheme" where
  "eriscv_timer_get_value B m = eriscv_mcu_mmio_read32 B (timer_base m + ERISCV_TIMER_COUNT) m"

definition eriscv_timer_set_top_value ::
    "'d bus \<Rightarrow> 'cb counter_top_cfg \<Rightarrow> ('d, 'cb, 'e) eriscv_timer_scheme \<Rightarrow> (errno + unit) \<times> ('d, 'cb, 'e) eriscv_timer_scheme" where
  "eriscv_timer_set_top_value B cfg m =
    (if top_ticks cfg = 0 \<or> top_dont_reset cfg then (Inl ENOTSUP, m)
     else
       let m = m\<lparr>timer_callback := top_callback cfg, timer_user_data := top_user_data cfg\<rparr>;
           m = eriscv_mcu_mmio_write32 B (timer_base m + ERISCV_TIMER_COMPARE) (top_ticks cfg) m;
           m = eriscv_mcu_mmio_write32 B (timer_base m + ERISCV_TIMER_COUNT) 0 m
       in (Inr (), eriscv_mcu_mmio_write32 B (timer_base m + ERISCV_TIMER_CTRL)
             (ERISCV_TIMER_ENABLE OR (if top_callback cfg \<noteq> None then ERISCV_TIMER_IRQ_ENABLE else 0)) m))"

definition eriscv_timer_get_pending_int :: "'d bus \<Rightarrow> ('d, 'cb, 'e) eriscv_timer_scheme \<Rightarrow> u32 \<times> ('d, 'cb, 'e) eriscv_timer_scheme" where
  "eriscv_timer_get_pending_int B m =
    (let (v, m) = eriscv_mcu_mmio_read32 B (timer_base m + ERISCV_TIMER_STATUS) m in (v AND 1, m))"

definition eriscv_timer_get_top_value :: "'d bus \<Rightarrow> ('d, 'cb, 'e) eriscv_timer_scheme \<Rightarrow> u32 \<times> ('d, 'cb, 'e) eriscv_timer_scheme" where
  "eriscv_timer_get_top_value B m = eriscv_mcu_mmio_read32 B (timer_base m + ERISCV_TIMER_COMPARE) m"

definition eriscv_timer_isr ::
    "'d bus \<Rightarrow> ('cb \<Rightarrow> u32 \<Rightarrow> ('d, 'cb, 'e) eriscv_timer_scheme \<Rightarrow> ('d, 'cb, 'e) eriscv_timer_scheme) \<Rightarrow>
     ('d, 'cb, 'e) eriscv_timer_scheme \<Rightarrow> ('d, 'cb, 'e) eriscv_timer_scheme" where
  "eriscv_timer_isr B call m =
    (let m = eriscv_mcu_mmio_write32 B (timer_base m + ERISCV_TIMER_STATUS) 1 m;
         m = eriscv_mcu_mmio_write32 B (timer_base m + ERISCV_TIMER_COUNT) 0 m
     in case timer_callback m of None \<Rightarrow> m | Some cb \<Rightarrow> call cb (timer_user_data m) m)"

definition eriscv_timer_init ::
    "'d bus \<Rightarrow> ('d, 'cb, 'e) eriscv_timer_scheme zephyr \<Rightarrow> ('d, 'cb, 'e) eriscv_timer_scheme \<Rightarrow> (errno + unit) \<times> ('d, 'cb, 'e) eriscv_timer_scheme" where
  "eriscv_timer_init B K m =
    (let m = irq_enable K (riscv_plic_set_priority K (irq_connect K m));
         m = eriscv_mcu_mmio_write32 B (timer_base m + ERISCV_TIMER_CTRL) 0 m
     in (Inr (), eriscv_mcu_mmio_write32 B (timer_base m + ERISCV_TIMER_STATUS) 1 m))"

section \<open>Watchdog\<close>

abbreviation (input) WDT_CTRL_z :: u32 where "WDT_CTRL_z \<equiv> 0x00"
abbreviation (input) WDT_TIMEOUT_z :: u32 where "WDT_TIMEOUT_z \<equiv> 0x04"
abbreviation (input) WDT_FEED_z :: u32 where "WDT_FEED_z \<equiv> 0x0c"
abbreviation (input) WDT_STATUS_z :: u32 where "WDT_STATUS_z \<equiv> 0x10"
abbreviation (input) WDT_PRETIMEOUT_z :: u32 where "WDT_PRETIMEOUT_z \<equiv> 0x18"
abbreviation (input) WDT_FEED_MAGIC_z :: u32 where "WDT_FEED_MAGIC_z \<equiv> 0xacce55ed"

record ('d, 'cb) eriscv_wdt = "'d mach" +
  wdt_base :: u32
  wdt_callback :: "'cb option"
  wdt_installed :: bool
  wdt_running :: bool

record 'cb wdt_timeout_cfg =
  window_min :: u32
  window_max :: u32
  cfg_callback :: "'cb option"

text \<open>\<open>ms * (CONFIG_SYS_CLOCK_HW_CYCLES_PER_SEC / 1000u)\<close>, wrapping.\<close>

definition wdt_cycles :: "u32 \<Rightarrow> u32 \<Rightarrow> u32" where
  "wdt_cycles cycles_per_sec ms = ms * (cycles_per_sec div 1000)"

lemma mod_self_iff_less: "0 < n \<Longrightarrow> a mod n = a \<longleftrightarrow> a < n" for a n :: nat
  by (metis mod_less mod_less_divisor)

lemma wdt_cycles_unat: "unat (wdt_cycles hz ms) = (unat ms * (unat hz div 1000)) mod 2 ^ 32"
  by (simp add: wdt_cycles_def unat_word_ariths unat_div mod_simps)

definition eriscv_wdt_install ::
    "'d bus \<Rightarrow> u32 \<Rightarrow> 'cb wdt_timeout_cfg \<Rightarrow> ('d, 'cb, 'e) eriscv_wdt_scheme \<Rightarrow> (errno + unit) \<times> ('d, 'cb, 'e) eriscv_wdt_scheme" where
  "eriscv_wdt_install B hz cfg m =
    (if wdt_running m \<or> wdt_installed m \<or> window_max cfg = 0 \<or> window_min cfg \<noteq> 0 then (Inl EINVAL, m)
     else
       let m = m\<lparr>wdt_callback := cfg_callback cfg, wdt_installed := True\<rparr>;
           m = eriscv_mcu_mmio_write32 B (wdt_base m + WDT_TIMEOUT_z) (wdt_cycles hz (window_max cfg)) m
       in (Inr (), eriscv_mcu_mmio_write32 B (wdt_base m + WDT_PRETIMEOUT_z)
             (if cfg_callback cfg \<noteq> None then wdt_cycles hz (window_max cfg div 2) else 0) m))"

definition eriscv_wdt_setup ::
    "'d bus \<Rightarrow> u8 \<Rightarrow> u8 \<Rightarrow> ('d, 'cb, 'e) eriscv_wdt_scheme \<Rightarrow> (errno + unit) \<times> ('d, 'cb, 'e) eriscv_wdt_scheme" where
  "eriscv_wdt_setup B WDT_OPT_PAUSE_HALTED_BY_DBG options m =
    (if \<not> wdt_installed m \<or> wdt_running m \<or> options AND NOT WDT_OPT_PAUSE_HALTED_BY_DBG \<noteq> 0
     then (Inl EINVAL, m)
     else
       let m = eriscv_mcu_mmio_write32 B (wdt_base m + WDT_CTRL_z)
                 (1 OR (if wdt_callback m \<noteq> None then 4 else 0)) m
       in (Inr (), m\<lparr>wdt_running := True\<rparr>))"

definition eriscv_wdt_disable ::
    "'d bus \<Rightarrow> ('d, 'cb, 'e) eriscv_wdt_scheme \<Rightarrow> (errno + unit) \<times> ('d, 'cb, 'e) eriscv_wdt_scheme" where
  "eriscv_wdt_disable B m =
    (if \<not> wdt_running m then (Inl EFAULT, m)
     else
       let m = eriscv_mcu_mmio_write32 B (wdt_base m + WDT_CTRL_z) 0 m
       in (Inr (), m\<lparr>wdt_running := False, wdt_installed := False\<rparr>))"

definition eriscv_wdt_feed ::
    "'d bus \<Rightarrow> int \<Rightarrow> ('d, 'cb, 'e) eriscv_wdt_scheme \<Rightarrow> (errno + unit) \<times> ('d, 'cb, 'e) eriscv_wdt_scheme" where
  "eriscv_wdt_feed B channel_id m =
    (if \<not> wdt_running m \<or> channel_id \<noteq> 0 then (Inl EINVAL, m)
     else (Inr (), eriscv_mcu_mmio_write32 B (wdt_base m + WDT_FEED_z) WDT_FEED_MAGIC_z m))"

definition eriscv_wdt_isr ::
    "'d bus \<Rightarrow> ('cb \<Rightarrow> int \<Rightarrow> ('d, 'cb, 'e) eriscv_wdt_scheme \<Rightarrow> ('d, 'cb, 'e) eriscv_wdt_scheme) \<Rightarrow>
     ('d, 'cb, 'e) eriscv_wdt_scheme \<Rightarrow> ('d, 'cb, 'e) eriscv_wdt_scheme" where
  "eriscv_wdt_isr B call m =
    (let m = eriscv_mcu_mmio_write32 B (wdt_base m + WDT_STATUS_z) 8 m
     in case wdt_callback m of None \<Rightarrow> m | Some cb \<Rightarrow> call cb 0 m)"

definition eriscv_wdt_init ::
    "('d, 'cb, 'e) eriscv_wdt_scheme zephyr \<Rightarrow> ('d, 'cb, 'e) eriscv_wdt_scheme \<Rightarrow> (errno + unit) \<times> ('d, 'cb, 'e) eriscv_wdt_scheme" where
  "eriscv_wdt_init K m = (Inr (), irq_enable K (riscv_plic_set_priority K (irq_connect K m)))"

section \<open>What the drivers do\<close>

text \<open>
  The port operations of the Zephyr GPIO driver, on the GPIO of the SoC: each pin of both the mask and
  the port takes its new value, every other pin keeps its own.
\<close>

theorem zephyr_gpio_pinwise:
  assumes "gpio_base config = ERISCV_MCU_GPIO0_BASE"
  shows "(bit (g_out (dev (eriscv_gpio_port_set_masked_raw gpio_bus riscv_kernel config msk v m))) i
      \<longleftrightarrow> (if bit (msk AND port_pin_mask config) i then bit v i else bit (g_out (dev m)) i)) \<and>
    (bit (g_out (dev (eriscv_gpio_port_set_bits_raw gpio_bus riscv_kernel config msk m))) i
      \<longleftrightarrow> bit (msk AND port_pin_mask config) i \<or> bit (g_out (dev m)) i) \<and>
    (bit (g_out (dev (eriscv_gpio_port_clear_bits_raw gpio_bus riscv_kernel config msk m))) i
      \<longleftrightarrow> \<not> bit (msk AND port_pin_mask config) i \<and> bit (g_out (dev m)) i) \<and>
    (bit (g_out (dev (eriscv_gpio_port_toggle_bits gpio_bus riscv_kernel config msk m))) i
      \<longleftrightarrow> bit (msk AND port_pin_mask config) i \<noteq> bit (g_out (dev m)) i)"
  using assms
  by (auto simp: eriscv_gpio_port_set_masked_raw_def eriscv_gpio_port_set_bits_raw_def
      eriscv_gpio_port_clear_bits_raw_def eriscv_gpio_port_toggle_bits_def Let_def case_prod_beta
      riscv_irq.unlock_dev riscv_irq.lock_dev mach_simps gpio_bus_def gpio_rd_def gpio_wr_def bit_simps
      dest: bit_imp_le_length)

theorem zephyr_gpio_pinwise_witness:
  "let g = g_out (dev (eriscv_gpio_port_set_masked_raw gpio_bus riscv_kernel
      \<lparr>port_pin_mask = 0xff, gpio_base = 0x40010000\<rparr> 0x1ff 0x155 (uart_boot \<lparr>g_out = 0xf0f, g_dir = 0, g_in = []\<rparr>)))
   in bit g 6 \<and> \<not> bit g 1 \<and> bit g 8 \<and> bit g 9"
  using zephyr_gpio_pinwise [of "\<lparr>port_pin_mask = 0xff, gpio_base = 0x40010000\<rparr>" "0x1ff" "0x155"
      "uart_boot \<lparr>g_out = 0xf0f, g_dir = 0, g_in = []\<rparr>"]
  by (simp add: bit_numeral_rec)

text \<open>The interrupt line of the timer, and what the two stores of its handler do to a running timer.\<close>

definition timer_irq :: "timer_apb \<Rightarrow> bool" where
  "timer_irq t \<longleftrightarrow> t_expired t \<and> bit (t_ctrl t) 1"

definition timer_acked :: "timer_apb \<Rightarrow> timer_apb" where
  "timer_acked t = timer_wr 0x40020004 0 (timer_wr 0x4002000c 1 t)"

lemma timer_run:
  "bit (t_ctrl t) 0 \<Longrightarrow> t_ctrl ((timer_tick ^^ n) t) = t_ctrl t \<and> t_compare ((timer_tick ^^ n) t) = t_compare t \<and>
    t_gaps ((timer_tick ^^ n) t) = t_gaps t \<and> t_count ((timer_tick ^^ n) t) = of_nat n + t_count t"
  by (induction n) (simp_all add: timer_tick_def)

lemma timer_acked_parts:
  assumes "bit (t_ctrl t) 0" "t_gaps t = g1 # g2 # gs"
  obtains t1 where "t_ctrl t1 = t_ctrl t" "t_compare t1 = t_compare t" "t_gaps t1 = gs"
    "t_count t1 = of_nat (Suc g1) + t_count t" "\<not> t_expired t1"
    "timer_acked t = (timer_tick ((timer_tick ^^ g2) t1))\<lparr>t_count := 0\<rparr>"
proof -
  let ?t0 = "(timer_tick ^^ Suc g1) (t\<lparr>t_gaps := g2 # gs\<rparr>)"
  let ?t1 = "?t0\<lparr>t_expired := False\<rparr>"
  have 0: "t_ctrl ?t0 = t_ctrl t" "t_compare ?t0 = t_compare t" "t_gaps ?t0 = g2 # gs" "t_count ?t0 = of_nat (Suc g1) + t_count t"
    using timer_run [of "t\<lparr>t_gaps := g2 # gs\<rparr>" "Suc g1"] assms(1) by (simp_all del: funpow.simps)
  have "timer_idle t = (timer_tick ^^ g1) (t\<lparr>t_gaps := g2 # gs\<rparr>)" by (simp add: timer_idle_def assms(2))
  then have "timer_wr 0x4002000c 1 t = ?t1" by (simp add: timer_wr_def)
  moreover have "timer_idle ?t1 = (timer_tick ^^ g2) (?t1\<lparr>t_gaps := gs\<rparr>)" using 0(3) unfolding timer_idle_def by simp
  ultimately have "timer_acked t = (timer_tick ((timer_tick ^^ g2) (?t1\<lparr>t_gaps := gs\<rparr>)))\<lparr>t_count := 0\<rparr>"
    unfolding timer_acked_def by (simp add: timer_wr_def [of "0x40020004"] Let_def)
  then show ?thesis using that [of "?t1\<lparr>t_gaps := gs\<rparr>"] 0 by (simp del: funpow.simps)
qed

text \<open>With the counter past the compare value the flag comes back before the counter is reset.\<close>

lemma timer_acked_late:
  assumes "bit (t_ctrl t) 0" "t_compare t \<noteq> 0" "t_compare t \<le> t_count t" "t_gaps t = g1 # g2 # gs"
    "unat (t_count t) + g1 + g2 + 1 < 2 ^ 32"
  shows "t_expired (timer_acked t)" "t_count (timer_acked t) = 0" "t_ctrl (timer_acked t) = t_ctrl t"
    "t_compare (timer_acked t) = t_compare t" "t_gaps (timer_acked t) = gs"
proof -
  obtain t1 where t1: "t_ctrl t1 = t_ctrl t" "t_compare t1 = t_compare t" "t_gaps t1 = gs"
    "t_count t1 = of_nat (Suc g1) + t_count t" "timer_acked t = (timer_tick ((timer_tick ^^ g2) t1))\<lparr>t_count := 0\<rparr>"
    using timer_acked_parts [OF assms(1,4)] by metis
  let ?t2 = "(timer_tick ^^ g2) t1"
  have 2: "t_ctrl ?t2 = t_ctrl t" "t_compare ?t2 = t_compare t" "t_gaps ?t2 = gs"
    "t_count ?t2 = of_nat (Suc g1 + g2) + t_count t"
    using timer_run [of t1 g2] t1 assms(1) by simp_all
  have "unat (t_count ?t2) = unat (t_count t) + (Suc g1 + g2)"
    using assms(5) unfolding 2(4) by (simp add: unat_word_ariths unat_of_nat mod_simps del: of_nat_add of_nat_Suc)
  then have "t_compare ?t2 \<le> t_count ?t2" using assms(3) 2(2) by (simp add: word_le_nat_alt)
  then show "t_expired (timer_acked t)" "t_count (timer_acked t) = 0" "t_ctrl (timer_acked t) = t_ctrl t"
    "t_compare (timer_acked t) = t_compare t" "t_gaps (timer_acked t) = gs"
    using 2 assms(1,2) by (simp_all add: t1(5) timer_tick_def)
qed

text \<open>With the counter just reset it does not.\<close>

lemma timer_acked_early:
  assumes "bit (t_ctrl t) 0" "t_count t = 0" "t_gaps t = g1 # g2 # gs" "Suc g1 + g2 < unat (t_compare t)"
  shows "\<not> t_expired (timer_acked t)"
proof -
  obtain t1 where t1: "t_ctrl t1 = t_ctrl t" "t_compare t1 = t_compare t" "t_count t1 = of_nat (Suc g1) + t_count t"
    "\<not> t_expired t1" "timer_acked t = (timer_tick ((timer_tick ^^ g2) t1))\<lparr>t_count := 0\<rparr>"
    using timer_acked_parts [OF assms(1,3)] by metis
  have lt: "unat (t_compare t) < 2 ^ 32" using unat_u32_less [of "t_compare t"] by simp
  have "\<not> t_expired ((timer_tick ^^ n) t1)" if "n \<le> Suc g2" for n
    using that
  proof (induction n)
    case (Suc n)
    have "t_count ((timer_tick ^^ n) t1) = of_nat (n + Suc g1)" "t_ctrl ((timer_tick ^^ n) t1) = t_ctrl t"
      "t_compare ((timer_tick ^^ n) t1) = t_compare t"
      using timer_run [of t1 n] t1 assms(1,2) by simp_all
    moreover have "unat (of_nat (n + Suc g1) :: u32) = n + Suc g1"
      using Suc.prems assms(4) lt by (subst unat_of_nat) (simp add: mod_less)
    moreover have "n + Suc g1 < unat (t_compare t)" using Suc.prems assms(4) by simp
    ultimately show ?case using Suc assms(1)
      by (simp add: timer_tick_def [of "(timer_tick ^^ n) t1"] word_le_nat_alt)
  qed (simp add: t1(4))
  from this [of "Suc g2"] show ?thesis by (simp add: t1(5))
qed

text \<open>
  C34. The Zephyr timer interrupt handler clears the expired flag before it resets the counter: with the timer and
  its interrupt on and the counter at or past the compare value, the flag is set again in between, so the handler
  returns with the interrupt line still high. It is entered a second time and calls the callback again, for the
  same expiry; this time the line goes low, if the stores come before the next interval is over. The callback
  leaves the timer and the driver's data alone, and the counter does not wrap meanwhile.
\<close>

theorem zephyr_timer_isr_still_pending:
  assumes "timer_base m = ERISCV_MCU_TIMER0_BASE" "t_ctrl (dev m) = ERISCV_TIMER_ENABLE OR ERISCV_TIMER_IRQ_ENABLE"
    "t_compare (dev m) \<noteq> 0" "t_compare (dev m) \<le> t_count (dev m)" "t_gaps (dev m) = g1 # g2 # g3 # g4 # gs"
    "unat (t_count (dev m)) + g1 + g2 + 1 < 2 ^ 32" "timer_callback m = Some cb"
    "\<forall>m. dev (call cb (timer_user_data m) m) = dev m \<and> timer_base (call cb (timer_user_data m) m) = timer_base m \<and>
       timer_callback (call cb (timer_user_data m) m) = timer_callback m"
    "m1 = eriscv_timer_isr timer_bus call m" "m2 = eriscv_timer_isr timer_bus call m1"
  shows "(\<exists>a. m1 = call cb (timer_user_data a) a) \<and> timer_irq (dev m1) \<and> (\<exists>a. m2 = call cb (timer_user_data a) a) \<and>
    (Suc g3 + g4 < unat (t_compare (dev m)) \<longrightarrow> \<not> timer_irq (dev m2))"
proof -
  have isr: "\<exists>a. eriscv_timer_isr timer_bus call n = call cb (timer_user_data a) a \<and>
      dev (eriscv_timer_isr timer_bus call n) = timer_acked (dev n) \<and>
      timer_base (eriscv_timer_isr timer_bus call n) = timer_base n \<and> timer_callback (eriscv_timer_isr timer_bus call n) = Some cb"
    if "timer_base n = ERISCV_MCU_TIMER0_BASE" "timer_callback n = Some cb" for n
  proof -
    let ?a = "eriscv_mcu_mmio_write32 timer_bus 0x40020004 0 (eriscv_mcu_mmio_write32 timer_bus 0x4002000c 1 n)"
    have a: "timer_callback ?a = Some cb" "dev ?a = timer_acked (dev n)" "timer_base ?a = timer_base n"
      using that by (simp_all add: mach_simps timer_bus_sel timer_acked_def)
    then have "eriscv_timer_isr timer_bus call n = call cb (timer_user_data ?a) ?a"
      using that by (simp add: eriscv_timer_isr_def mach_simps Let_def)
    then show ?thesis using a assms(8) by metis
  qed
  have c: "bit (t_ctrl (dev m)) 0" "bit (t_ctrl (dev m)) 1" by (simp_all add: assms(2) bit_numeral_rec)
  have m1: "\<exists>a. m1 = call cb (timer_user_data a) a" "dev m1 = timer_acked (dev m)" "timer_base m1 = ERISCV_MCU_TIMER0_BASE"
    "timer_callback m1 = Some cb"
    using isr [OF assms(1,7)] by (auto simp: assms(1,9))
  have m2: "\<exists>a. m2 = call cb (timer_user_data a) a" "dev m2 = timer_acked (dev m1)"
    using isr [OF m1(3,4)] by (auto simp: assms(10))
  note l = timer_acked_late [OF c(1) assms(3-6), folded m1(2)]
  have "\<not> t_expired (dev m2)" if "Suc g3 + g4 < unat (t_compare (dev m))"
    unfolding m2(2) by (rule timer_acked_early [OF _ l(2,5)]) (use l c that in simp_all)
  then show ?thesis using m1(1) m2(1) l c by (auto simp: timer_irq_def)
qed

definition timer_boot :: "timer_apb \<Rightarrow> (timer_apb, unit) eriscv_timer" where
  "timer_boot t = \<lparr>dev = t, csrs = (\<lambda>_. 0), ram = (\<lambda>_. 0), trace = [], timer_base = 0x40020000,
     timer_callback = Some (), timer_user_data = 0\<rparr>"

theorem zephyr_timer_isr_still_pending_witness:
  "let m = timer_boot \<lparr>t_ctrl = 3, t_count = 1001, t_compare = 1000, t_expired = True, t_gaps = [5, 3, 7, 2]\<rparr>;
       isr = eriscv_timer_isr timer_bus (\<lambda>_ _ m. m)
   in timer_irq (dev m) \<and> timer_irq (dev (isr m)) \<and> \<not> timer_irq (dev (isr (isr m)))"
proof -
  let ?m = "timer_boot \<lparr>t_ctrl = 3, t_count = 1001, t_compare = 1000, t_expired = True, t_gaps = [5, 3, 7, 2]\<rparr>"
  have m: "timer_base ?m = ERISCV_MCU_TIMER0_BASE" "t_ctrl (dev ?m) = ERISCV_TIMER_ENABLE OR ERISCV_TIMER_IRQ_ENABLE"
    "t_compare (dev ?m) \<noteq> 0" "t_compare (dev ?m) \<le> t_count (dev ?m)" "t_gaps (dev ?m) = 5 # 3 # 7 # 2 # []"
    "unat (t_count (dev ?m)) + 5 + 3 + 1 < 2 ^ 32" "timer_callback ?m = Some ()" by (simp_all add: timer_boot_def)
  from zephyr_timer_isr_still_pending [OF m, of "\<lambda>_ _ m. m", OF _ refl refl] show ?thesis
    by (simp add: Let_def timer_boot_def timer_irq_def bit_numeral_rec)
qed

text \<open>The state machine of the watchdog driver: running implies installed.\<close>

definition wdt_ok :: "('d, 'cb, 'e) eriscv_wdt_scheme \<Rightarrow> bool" where
  "wdt_ok m \<longleftrightarrow> (wdt_running m \<longrightarrow> wdt_installed m)"

datatype 'cb wdt_call = Install "'cb wdt_timeout_cfg" | Setup u8 | Disable | Feed int

fun wdt_do :: "'d bus \<Rightarrow> u32 \<Rightarrow> u8 \<Rightarrow> 'cb wdt_call \<Rightarrow> ('d, 'cb, 'e) eriscv_wdt_scheme \<Rightarrow> (errno + unit) \<times> ('d, 'cb, 'e) eriscv_wdt_scheme" where
  "wdt_do B hz dbg (Install cfg) m = eriscv_wdt_install B hz cfg m"
| "wdt_do B hz dbg (Setup opt) m = eriscv_wdt_setup B dbg opt m"
| "wdt_do B hz dbg Disable m = eriscv_wdt_disable B m"
| "wdt_do B hz dbg (Feed ch) m = eriscv_wdt_feed B ch m"

text \<open>
  C35. The watchdog driver's state machine: each call is accepted in exactly the states it should be (install
  when neither installed nor running, set-up when installed and stopped, disable and feed when running), a
  refused call touches nothing, and the two flags follow the accepted calls.
\<close>

theorem zephyr_wdt_protocol:
  assumes "wdt_do B hz dbg c m = (r, m')" "wdt_ok m"
  shows "wdt_ok m' \<and> (isl r \<longrightarrow> m' = m) \<and>
    (\<not> isl r \<longleftrightarrow> (case c of
       Install cfg \<Rightarrow> \<not> wdt_installed m \<and> window_max cfg \<noteq> 0 \<and> window_min cfg = 0
     | Setup opt \<Rightarrow> wdt_installed m \<and> \<not> wdt_running m \<and> opt AND NOT dbg = 0
     | Disable \<Rightarrow> wdt_running m
     | Feed ch \<Rightarrow> wdt_running m \<and> ch = 0)) \<and>
    (\<not> isl r \<longrightarrow> (case c of
       Install cfg \<Rightarrow> wdt_installed m' \<and> \<not> wdt_running m' \<and> wdt_callback m' = cfg_callback cfg
     | Setup opt \<Rightarrow> wdt_installed m' \<and> wdt_running m'
     | Disable \<Rightarrow> \<not> wdt_installed m' \<and> \<not> wdt_running m'
     | Feed ch \<Rightarrow> wdt_installed m' \<and> wdt_running m'))"
  using assms
  by (cases c)
    (auto simp: wdt_ok_def eriscv_wdt_install_def eriscv_wdt_setup_def eriscv_wdt_disable_def
      eriscv_wdt_feed_def mach_simps Let_def split: if_splits)

definition wdt_boot :: "wdt_apb \<Rightarrow> (wdt_apb, unit) eriscv_wdt" where
  "wdt_boot w = \<lparr>dev = w, csrs = (\<lambda>_. 0), ram = (\<lambda>_. 0), trace = [], wdt_base = 0x40040000,
     wdt_callback = None, wdt_installed = False, wdt_running = False\<rparr>"

theorem zephyr_wdt_protocol_witness:
  "\<exists>m'. wdt_do wdt_bus 100000000 2 (Feed 0) (wdt_boot (wdt_reset [])) = (Inl EINVAL, m') \<and>
     m' = wdt_boot (wdt_reset [])"
proof -
  obtain r m' where run: "wdt_do wdt_bus 100000000 2 (Feed 0) (wdt_boot (wdt_reset [])) = (r, m')" by fastforce
  from zephyr_wdt_protocol [OF run] run show ?thesis
    by (auto simp: wdt_ok_def wdt_boot_def eriscv_wdt_feed_def)
qed

text \<open>
  C36. An accepted install programs the timeout \<open>max * (hz / 1000)\<close> modulo \<open>2 ^ 32\<close>: the requested time
  exactly when that product fits in 32 bits, and less time than requested otherwise.
\<close>

theorem zephyr_wdt_timeout_wraps:
  assumes "eriscv_wdt_install wdt_bus hz cfg m = (Inr (), m')" "wdt_base m = ERISCV_MCU_WDT0_BASE"
    "\<not> w_locked (dev m)" "w_gaps (dev m) = []"
  shows "unat (w_timeout (dev m')) = (unat (window_max cfg) * (unat hz div 1000)) mod 2 ^ 32 \<and>
    (unat (w_timeout (dev m')) = unat (window_max cfg) * (unat hz div 1000)
      \<longleftrightarrow> unat (window_max cfg) * (unat hz div 1000) < 2 ^ 32)"
proof -
  let ?w = "wdt_wr 0x40040004 (wdt_cycles hz (window_max cfg)) (dev m)"
  have "dev m' = wdt_wr 0x40040018 (if cfg_callback cfg \<noteq> None then wdt_cycles hz (window_max cfg div 2) else 0) ?w"
    using assms(1,2) by (auto simp: eriscv_wdt_install_def mach_simps wdt_bus_sel Let_def split: if_splits)
  moreover have "\<not> w_locked ?w" "w_gaps ?w = []" "w_timeout ?w = wdt_cycles hz (window_max cfg)"
    by (simp_all add: wdt_store assms(3,4))
  ultimately have "w_timeout (dev m') = wdt_cycles hz (window_max cfg)" by (simp add: wdt_store)
  then show ?thesis using mod_self_iff_less [of "2 ^ 32"] by (simp only: wdt_cycles_unat) simp
qed

theorem zephyr_wdt_timeout_wraps_witness:
  "\<exists>m'. eriscv_wdt_install wdt_bus 100000000 \<lparr>window_min = 0, window_max = 42950, cfg_callback = None\<rparr>
      (wdt_boot (wdt_reset [])) = (Inr (), m') \<and> unat (w_timeout (dev m')) = 32704"
proof -
  let ?cfg = "\<lparr>window_min = 0, window_max = 42950, cfg_callback = None :: unit option\<rparr>"
  obtain m' where run: "eriscv_wdt_install wdt_bus 100000000 ?cfg (wdt_boot (wdt_reset [])) = (Inr (), m')"
    by (simp add: eriscv_wdt_install_def wdt_boot_def Let_def)
  from zephyr_wdt_timeout_wraps [OF this] run show ?thesis by (simp add: wdt_boot_def wdt_reset_def)
qed

end
