(* ===== verification/Spi_Port.thy ===== *)
theory Spi_Port
  imports Zephyr_Drivers
begin

text \<open>
  The SPI master of the SoC, \<^verbatim>\<open>rtl/soc/peripherals/spi/spi_apb.sv\<close>, byte by byte: what its registers show
  a driver. A store to \<open>TXDATA\<close> starts a byte; how many bus accesses pass before it is finished and which
  byte the slave answers are a list, so a statement for all lists covers every divisor and every slave.
  The eight clock edges inside a byte are left out. The locale \<open>spi_port\<close> is what the two SPI drivers
  need of the device.
\<close>

section \<open>The interface\<close>

record spi_view =
  v_ss :: u32
  v_ctrl :: u32
  v_rx :: u8
  v_done :: bool
  v_busy :: "(nat \<times> u8) option"     \<comment> \<open>polls the byte in progress still takes, and its answer\<close>
  v_sent :: "(u32 \<times> u8) list"       \<comment> \<open>chip selects and byte, of every byte sent\<close>
  v_script :: "(nat \<times> u8) list"     \<comment> \<open>the same for the bytes to come\<close>

fun next_byte :: "(nat \<times> u8) list \<Rightarrow> nat \<times> u8" where
  "next_byte [] = (0, 0xff)"
| "next_byte (x # xs) = x"

definition spi_start :: "u8 \<Rightarrow> spi_view \<Rightarrow> spi_view" where
  "spi_start b v = v\<lparr>v_busy := Some (next_byte (v_script v)), v_done := False,
     v_sent := v_sent v @ [(v_ss v, b)], v_script := tl (v_script v)\<rparr>"

definition spi_poll :: "spi_view \<Rightarrow> spi_view" where
  "spi_poll v =
    (case v_busy v of
       None \<Rightarrow> v
     | Some (0, b) \<Rightarrow> v\<lparr>v_busy := None, v_rx := b, v_done := True\<rparr>
     | Some (Suc n, b) \<Rightarrow> v\<lparr>v_busy := Some (n, b)\<rparr>)"

lemma spi_poll_idle [simp]: "v_busy v = None \<Longrightarrow> spi_poll v = v"
  by (simp add: spi_poll_def)

lemma spi_poll_sel [simp]: "v_ss (spi_poll v) = v_ss v" "v_ctrl (spi_poll v) = v_ctrl v"
  "v_sent (spi_poll v) = v_sent v" "v_script (spi_poll v) = v_script v"
  by (simp_all add: spi_poll_def split: option.split prod.split nat.split)

text \<open>A whole byte.\<close>

definition spi_byte :: "u8 \<Rightarrow> spi_view \<Rightarrow> spi_view" where
  "spi_byte b v = v\<lparr>v_busy := None, v_done := True, v_rx := snd (next_byte (v_script v)),
     v_sent := v_sent v @ [(v_ss v, b)], v_script := tl (v_script v)\<rparr>"

locale spi_port =
  fixes B :: "'d bus" and view :: "'d \<Rightarrow> spi_view"
  assumes tx: "v_busy (view d) = None \<Longrightarrow> bit (v_ctrl (view d)) 0 \<Longrightarrow>
      view (bus_wr B (ERISCV_MCU_SPI0_BASE + 0x00) x d) = spi_start (ucast x) (view d)"
    and rx: "v_busy (view d) = None \<Longrightarrow>
      ucast (fst (bus_rd B (ERISCV_MCU_SPI0_BASE + 0x04) d)) = v_rx (view d) \<and>
      view (snd (bus_rd B (ERISCV_MCU_SPI0_BASE + 0x04) d)) = view d"
    and status: "view (snd (bus_rd B (ERISCV_MCU_SPI0_BASE + 0x08) d)) = spi_poll (view d) \<and>
      (bit (fst (bus_rd B (ERISCV_MCU_SPI0_BASE + 0x08) d)) 1 \<longleftrightarrow> v_busy (spi_poll (view d)) \<noteq> None) \<and>
      (bit (fst (bus_rd B (ERISCV_MCU_SPI0_BASE + 0x08) d)) 3 \<longleftrightarrow> v_done (spi_poll (view d)))"
    and clkdiv: "v_busy (view d) = None \<Longrightarrow> view (bus_wr B (ERISCV_MCU_SPI0_BASE + 0x0c) x d) = view d"
    and ctrl: "v_busy (view d) = None \<Longrightarrow> view (bus_wr B (ERISCV_MCU_SPI0_BASE + 0x10) x d) =
      (view d)\<lparr>v_ctrl := x, v_done := v_done (view d) \<and> \<not> bit x 4\<rparr>"
    and ss: "view (bus_wr B (ERISCV_MCU_SPI0_BASE + 0x14) x d) = (spi_poll (view d))\<lparr>v_ss := x AND 0xf\<rparr>"
begin

text \<open>The laws with the addresses as the simplifier writes them.\<close>

lemma at_tx: "v_busy (view d) = None \<Longrightarrow> bit (v_ctrl (view d)) 0 \<Longrightarrow>
    view (bus_wr B 0x40030000 x d) = spi_start (ucast x) (view d)"
  using tx by simp

lemma at_rx: "v_busy (view d) = None \<Longrightarrow> ucast (fst (bus_rd B 0x40030004 d)) = v_rx (view d)"
  "v_busy (view d) = None \<Longrightarrow> view (snd (bus_rd B 0x40030004 d)) = view d"
  using rx by simp_all

lemma at_status: "view (snd (bus_rd B 0x40030008 d)) = spi_poll (view d)"
  "bit (fst (bus_rd B 0x40030008 d)) (Suc 0) \<longleftrightarrow> v_busy (spi_poll (view d)) \<noteq> None"
  "bit (fst (bus_rd B 0x40030008 d)) 3 \<longleftrightarrow> v_done (spi_poll (view d))"
  using status [of d] by simp_all

lemma at_regs: "v_busy (view d) = None \<Longrightarrow> view (bus_wr B 0x4003000c x d) = view d"
  "v_busy (view d) = None \<Longrightarrow> view (bus_wr B 0x40030010 x d) =
    (view d)\<lparr>v_ctrl := x, v_done := v_done (view d) \<and> \<not> bit x 4\<rparr>"
  "view (bus_wr B 0x40030014 x d) = (spi_poll (view d))\<lparr>v_ss := x AND 0xf\<rparr>"
  using clkdiv ctrl ss by simp_all

text \<open>What \<open>n\<close> polls of the status register leave, and how often they see the port busy.\<close>

definition polled :: "nat \<Rightarrow> 'd \<Rightarrow> 'd" where
  "polled n d = ((\<lambda>d. snd (bus_rd B 0x40030008 d)) ^^ n) d"

lemma polled_Suc: "polled (Suc n) d = polled n (snd (bus_rd B 0x40030008 d))"
  by (simp add: polled_def funpow_Suc_right del: funpow.simps)

lemma polled_view:
  "v_busy (view d) = Some (k, b) \<Longrightarrow> n \<le> k \<Longrightarrow> view (polled n d) = (view d)\<lparr>v_busy := Some (k - n, b)\<rparr>"
proof (induction n arbitrary: d k)
  case (Suc n)
  then obtain k' where k: "k = Suc k'" by (cases k) auto
  have "view (snd (bus_rd B 0x40030008 d)) = (view d)\<lparr>v_busy := Some (k', b)\<rparr>"
    using at_status(1) [of d] Suc.prems(1) k by (simp add: spi_poll_def)
  then show ?case using Suc.IH [of "snd (bus_rd B 0x40030008 d)" k'] Suc.prems(2) k by (simp add: polled_Suc)
qed (simp add: polled_def)

lemma polled_done:
  assumes "v_busy (view d) = Some (k, b)"
  shows "view (polled (Suc k) d) = (view d)\<lparr>v_busy := None, v_rx := b, v_done := True\<rparr>"
proof -
  have "polled (Suc k) d = snd (bus_rd B 0x40030008 (polled k d))" by (simp add: polled_def)
  then show ?thesis using at_status(1) [of "polled k d"] polled_view [OF assms, of k] by (simp add: spi_poll_def)
qed

lemma poll_busy:
  assumes "v_busy (view d) = Some (k, b)"
  shows "bit (fst (bus_rd B 0x40030008 d)) (Suc 0) \<longleftrightarrow> k \<noteq> 0"
    "bit (fst (bus_rd B 0x40030008 d)) 3 \<longleftrightarrow> k = 0 \<or> v_done (view d)"
  using assms by (cases k; simp add: at_status spi_poll_def)+

text \<open>A started byte, once it has been polled to its end, is a whole byte.\<close>

lemma started:
  assumes "v_busy (view d) = None" "bit (v_ctrl (view d)) 0"
  shows "v_busy (view (bus_wr B 0x40030000 x d)) = Some (next_byte (v_script (view d)))"
    "view (polled (Suc (fst (next_byte (v_script (view d))))) (bus_wr B 0x40030000 x d)) = spi_byte (ucast x) (view d)"
proof -
  let ?d = "bus_wr B 0x40030000 x d"
  have v: "view ?d = spi_start (ucast x) (view d)" using at_tx assms by simp
  then show b: "v_busy (view ?d) = Some (next_byte (v_script (view d)))" by (simp add: spi_start_def)
  then have "v_busy (view ?d) = Some (fst (next_byte (v_script (view d))), snd (next_byte (v_script (view d))))" by simp
  from polled_done [OF this] v
  show "view (polled (Suc (fst (next_byte (v_script (view d))))) ?d) = spi_byte (ucast x) (view d)"
    by (simp add: spi_start_def spi_byte_def)
qed

end

section \<open>A transfer driven by interrupts\<close>

text \<open>
  A handler \<open>h\<close> that does nothing while the byte is on its way and starts byte \<open>i + 1\<close> when byte \<open>i\<close> is
  finished: how many interrupts bring it from byte \<open>i\<close> to the end of the last one. \<open>At i k\<close> holds with \<open>k\<close>
  interrupts to go before byte \<open>i\<close> is finished.
\<close>

definition byte_irqs :: "(nat \<Rightarrow> nat) \<Rightarrow> nat \<Rightarrow> nat \<Rightarrow> nat" where
  "byte_irqs delay i n = (\<Sum>j \<leftarrow> [i..<n]. Suc (delay j))"

lemma byte_irqs_step: "i < n \<Longrightarrow> byte_irqs delay i n = Suc (delay i) + byte_irqs delay (Suc i) n"
  by (simp add: byte_irqs_def upt_conv_Cons del: upt_Suc)

lemma byte_irqs_self [simp]: "byte_irqs delay n n = 0"
  by (simp add: byte_irqs_def)

lemma byte_wait:
  assumes "\<And>i k s. At i (Suc k) s \<Longrightarrow> At i k (h s)" "At i k s" "j \<le> k"
  shows "At i (k - j) ((h ^^ j) s)"
  using assms(3)
proof (induction j)
  case (Suc j)
  then have "At i (Suc (k - Suc j)) ((h ^^ j) s)" by (simp add: Suc_diff_Suc)
  then show ?case using assms(1) by simp
qed (use assms(2) in simp)

lemma byte_interrupts:
  assumes wait: "\<And>i k s. At i (Suc k) s \<Longrightarrow> At i k (h s)"
    and next_byte: "\<And>i s. At i 0 s \<Longrightarrow> Suc i < n \<Longrightarrow> At (Suc i) (delay (Suc i)) (h s)"
  shows "i < n \<Longrightarrow> At i (delay i) s \<Longrightarrow>
    (\<exists>s'. (h ^^ byte_irqs delay i n) s = h s' \<and> At (n - 1) 0 s') \<and>
    (\<forall>j < byte_irqs delay i n. \<exists>i k. At i k ((h ^^ j) s))"
proof (induction "n - i" arbitrary: i s)
  case (Suc x)
  define s0 where "s0 = (h ^^ delay i) s"
  have at0: "At i 0 s0" using byte_wait [of At h i "delay i" s "delay i", OF wait] Suc.prems by (simp add: s0_def)
  have shift: "(h ^^ (Suc (delay i) + N)) s = (h ^^ N) (h s0)" for N
    by (simp add: s0_def funpow_add funpow_swap1 add.commute [of "delay i"])
  have first: "\<exists>i k. At i k ((h ^^ j) s)" if "j \<le> delay i" for j
    using byte_wait [of At h i "delay i" s j, OF wait] Suc.prems that by blast
  show ?case
  proof (cases "Suc i = n")
    case True
    then have n: "byte_irqs delay i n = Suc (delay i)" using byte_irqs_step [OF Suc.prems(1), of delay] by simp
    show ?thesis unfolding n using at0 True shift [of 0] first by (auto simp: less_Suc_eq_le)
  next
    case False
    then have lt: "Suc i < n" using Suc.prems(1) by simp
    have x: "x = n - Suc i" using Suc.hyps(2) by simp
    note IH = Suc.hyps(1) [OF x lt next_byte [OF at0 lt]]
    have "\<exists>i k. At i k ((h ^^ j) s)" if j: "j < Suc (delay i) + byte_irqs delay (Suc i) n" for j
    proof (cases "j \<le> delay i")
      case False
      then obtain N where "j = Suc (delay i) + N" by (metis less_eq_Suc_le less_iff_Suc_add not_le add_Suc)
      then show ?thesis using IH j shift [of N] by simp
    qed (rule first)
    then show ?thesis unfolding byte_irqs_step [OF Suc.prems(1)] shift using IH by blast
  qed
qed simp

lemma first_failure:
  fixes n :: nat
  obtains "\<forall>j<n. P j" | k where "k < n" "\<forall>j<k. P j" "\<not> P k"
  using that by (induction n) (auto simp: less_Suc_eq)

section \<open>The device\<close>

record spi_apb =
  s_ctrl :: u32
  s_clk_div :: u32
  s_ss :: u32
  s_rx_data :: u8
  s_busy :: bool
  s_done :: bool
  s_left :: nat                  \<comment> \<open>accesses before the byte in progress is finished\<close>
  s_answer :: u8
  s_sent :: "(u32 \<times> u8) list"
  s_script :: "(nat \<times> u8) list"

text \<open>Time passes before an access: the byte in progress ends, or comes one access nearer to its end.\<close>

definition spi_progress :: "spi_apb \<Rightarrow> spi_apb" where
  "spi_progress s =
    (if \<not> s_busy s then s
     else if s_left s = 0 then s\<lparr>s_busy := False, s_done := True, s_rx_data := s_answer s\<rparr>
     else s\<lparr>s_left := s_left s - 1\<rparr>)"

definition spi_status_value :: "spi_apb \<Rightarrow> u32" where
  "spi_status_value s = (if s_done s then 0xc else 0) OR (if s_busy s then 2 else 1)"

definition spi_rd :: "u32 \<Rightarrow> spi_apb \<Rightarrow> u32 \<times> spi_apb" where
  "spi_rd a s =
    (let s = spi_progress s
     in (if a = 0x40030004 then ucast (s_rx_data s)
         else if a = 0x40030008 then spi_status_value s
         else if a = 0x4003000c then s_clk_div s
         else if a = 0x40030010 then s_ctrl s
         else if a = 0x40030014 then s_ss s
         else 0, s))"

definition spi_wr :: "u32 \<Rightarrow> u32 \<Rightarrow> spi_apb \<Rightarrow> spi_apb" where
  "spi_wr a x s =
    (let s = spi_progress s
     in if a = 0x40030000 then
          (if bit (s_ctrl s) 0 \<and> \<not> s_busy s then
             s\<lparr>s_busy := True, s_done := False, s_left := fst (next_byte (s_script s)),
               s_answer := snd (next_byte (s_script s)), s_script := tl (s_script s),
               s_sent := s_sent s @ [(s_ss s, ucast x)]\<rparr>
           else s)
        else if a = 0x4003000c then s\<lparr>s_clk_div := (if x = 0 then 1 else x)\<rparr>
        else if a = 0x40030010 then s\<lparr>s_ctrl := x, s_done := s_done s \<and> \<not> bit x 4\<rparr>
        else if a = 0x40030014 then s\<lparr>s_ss := x AND 0xf\<rparr>
        else s)"

definition spi_bus :: "spi_apb bus" where
  "spi_bus = \<lparr>bus_rd = spi_rd, bus_wr = spi_wr\<rparr>"

definition spi_irq :: "spi_apb \<Rightarrow> bool" where
  "spi_irq s \<longleftrightarrow> s_done s \<and> bit (s_ctrl s) 1"

definition spi_reset :: "(nat \<times> u8) list \<Rightarrow> spi_apb" where
  "spi_reset sc = \<lparr>s_ctrl = 1, s_clk_div = 2, s_ss = 0xf, s_rx_data = 0, s_busy = False, s_done = False,
     s_left = 0, s_answer = 0, s_sent = [], s_script = sc\<rparr>"

lemma spi_bus_sel: "bus_rd spi_bus = spi_rd" "bus_wr spi_bus = spi_wr"
  by (simp_all add: spi_bus_def)

definition spi_look :: "spi_apb \<Rightarrow> spi_view" where
  "spi_look s = \<lparr>v_ss = s_ss s, v_ctrl = s_ctrl s, v_rx = s_rx_data s, v_done = s_done s,
     v_busy = (if s_busy s then Some (s_left s, s_answer s) else None),
     v_sent = s_sent s, v_script = s_script s\<rparr>"

lemma spi_look_idle: "v_busy (spi_look s) = None \<longleftrightarrow> \<not> s_busy s"
  by (simp add: spi_look_def)

lemma spi_status_bits:
  "bit (spi_status_value s) (Suc 0) \<longleftrightarrow> s_busy s" "bit (spi_status_value s) 3 \<longleftrightarrow> s_done s"
  by (simp_all add: spi_status_value_def bit_simps bit_numeral_rec)

lemma spi_look_poll: "spi_look (spi_progress s) = spi_poll (spi_look s)"
  by (cases "s_left s") (auto simp: spi_look_def spi_progress_def spi_poll_def)

lemma spi_progress_idle [simp]: "\<not> s_busy s \<Longrightarrow> spi_progress s = s"
  by (simp add: spi_progress_def)

interpretation apb_spi: spi_port spi_bus spi_look
proof unfold_locales
  fix d :: spi_apb and x :: u32
  show "v_busy (spi_look d) = None \<Longrightarrow> bit (v_ctrl (spi_look d)) 0 \<Longrightarrow>
      spi_look (bus_wr spi_bus (ERISCV_MCU_SPI0_BASE + 0x00) x d) = spi_start (ucast x) (spi_look d)"
    by (simp add: spi_look_idle spi_bus_sel spi_wr_def) (simp add: spi_look_def spi_start_def)
  show "v_busy (spi_look d) = None \<Longrightarrow>
      ucast (fst (bus_rd spi_bus (ERISCV_MCU_SPI0_BASE + 0x04) d)) = v_rx (spi_look d) \<and>
      spi_look (snd (bus_rd spi_bus (ERISCV_MCU_SPI0_BASE + 0x04) d)) = spi_look d"
    by (simp add: spi_look_idle spi_bus_sel spi_rd_def) (simp add: spi_look_def)
  show "spi_look (snd (bus_rd spi_bus (ERISCV_MCU_SPI0_BASE + 0x08) d)) = spi_poll (spi_look d) \<and>
      (bit (fst (bus_rd spi_bus (ERISCV_MCU_SPI0_BASE + 0x08) d)) 1 \<longleftrightarrow> v_busy (spi_poll (spi_look d)) \<noteq> None) \<and>
      (bit (fst (bus_rd spi_bus (ERISCV_MCU_SPI0_BASE + 0x08) d)) 3 \<longleftrightarrow> v_done (spi_poll (spi_look d)))"
    unfolding spi_look_poll [symmetric] spi_look_idle
    by (simp add: spi_bus_sel spi_rd_def Let_def spi_status_bits) (simp add: spi_look_def)
  show "v_busy (spi_look d) = None \<Longrightarrow>
      spi_look (bus_wr spi_bus (ERISCV_MCU_SPI0_BASE + 0x0c) x d) = spi_look d"
    by (simp add: spi_look_idle spi_bus_sel spi_wr_def) (simp add: spi_look_def)
  show "v_busy (spi_look d) = None \<Longrightarrow> spi_look (bus_wr spi_bus (ERISCV_MCU_SPI0_BASE + 0x10) x d) =
      (spi_look d)\<lparr>v_ctrl := x, v_done := v_done (spi_look d) \<and> \<not> bit x 4\<rparr>"
    by (simp add: spi_look_idle spi_bus_sel spi_wr_def) (simp add: spi_look_def)
  show "spi_look (bus_wr spi_bus (ERISCV_MCU_SPI0_BASE + 0x14) x d) = (spi_poll (spi_look d))\<lparr>v_ss := x AND 0xf\<rparr>"
    unfolding spi_look_poll [symmetric] by (simp add: spi_bus_sel spi_wr_def Let_def) (simp add: spi_look_def)
qed

end
