(* ===== verification/Freertos_Spi.thy ===== *)
theory Freertos_Spi
  imports Spi_Port
begin

text \<open>
  The SPI driver of the FreeRTOS port, \<^verbatim>\<open>sw/rtos/freertos/drivers/spi.c\<close>: the polled transfer and the
  interrupt-driven one. Buffers are addresses in the program's memory, 0 the null pointer, so the two
  buffers of a transfer may overlap. A callback is a value of an arbitrary type, and \<open>call\<close> is what
  calling it does.
\<close>

section \<open>State and registers\<close>

abbreviation (input) SPI_TXDATA :: u32 where "SPI_TXDATA \<equiv> 0x00"
abbreviation (input) SPI_RXDATA :: u32 where "SPI_RXDATA \<equiv> 0x04"
abbreviation (input) SPI_STATUS :: u32 where "SPI_STATUS \<equiv> 0x08"
abbreviation (input) SPI_CLKDIV :: u32 where "SPI_CLKDIV \<equiv> 0x0c"
abbreviation (input) SPI_CTRL :: u32 where "SPI_CTRL \<equiv> 0x10"
abbreviation (input) SPI_SS :: u32 where "SPI_SS \<equiv> 0x14"
abbreviation (input) SPI_CTRL_ENABLE :: u32 where "SPI_CTRL_ENABLE \<equiv> 1"
abbreviation (input) SPI_CTRL_IRQ :: u32 where "SPI_CTRL_IRQ \<equiv> 2"
abbreviation (input) SPI_CTRL_DONE :: u32 where "SPI_CTRL_DONE \<equiv> 0x10"
abbreviation (input) SPI_STATUS_BUSY :: u32 where "SPI_STATUS_BUSY \<equiv> 2"
abbreviation (input) SPI_STATUS_DONE :: u32 where "SPI_STATUS_DONE \<equiv> 8"
abbreviation (input) FREERTOS_SPI_CTRL_CPOL :: u32 where "FREERTOS_SPI_CTRL_CPOL \<equiv> 4"
abbreviation (input) FREERTOS_SPI_CTRL_CPHA :: u32 where "FREERTOS_SPI_CTRL_CPHA \<equiv> 8"
abbreviation (input) FREERTOS_SPI_CTRL_LSB :: u32 where "FREERTOS_SPI_CTRL_LSB \<equiv> 0x20"
abbreviation (input) SPI_MODE_MASK :: u32 where
  "SPI_MODE_MASK \<equiv> FREERTOS_SPI_CTRL_CPOL OR FREERTOS_SPI_CTRL_CPHA OR FREERTOS_SPI_CTRL_LSB"
abbreviation (input) SPI_OK :: int where "SPI_OK \<equiv> 0"
abbreviation (input) SPI_EINVAL :: int where "SPI_EINVAL \<equiv> - 1"
abbreviation (input) SPI_EBUSY :: int where "SPI_EBUSY \<equiv> - 2"
abbreviation (input) SPI_ETIMEOUT :: int where "SPI_ETIMEOUT \<equiv> - 3"

record ('d, 'cb) freertos_spi = "'d mach" +
  spi_control :: u32
  spi_async_active :: bool
  spi_async_tx :: u32
  spi_async_rx :: u32
  spi_async_length :: u32
  spi_async_index :: u32
  spi_async_callback :: "'cb option"
  spi_async_context :: u32

section \<open>The driver\<close>

definition spi_write_control :: "'d bus \<Rightarrow> bool \<Rightarrow> bool \<Rightarrow> ('d, 'cb, 'e) freertos_spi_scheme \<Rightarrow> ('d, 'cb, 'e) freertos_spi_scheme" where
  "spi_write_control B irq clear_done m =
    (let control = spi_control m OR SPI_CTRL_ENABLE;
         control = (if irq then control OR SPI_CTRL_IRQ else control);
         control = (if clear_done then control OR SPI_CTRL_DONE else control)
     in eriscv_mcu_mmio_write32 B (ERISCV_MCU_SPI0_BASE + SPI_CTRL) control m)"

fun spi_wait_idle :: "'d bus \<Rightarrow> nat \<Rightarrow> ('d, 'cb, 'e) freertos_spi_scheme \<Rightarrow> int \<times> ('d, 'cb, 'e) freertos_spi_scheme" where
  "spi_wait_idle B timeout_cycles m =
    (let (status, m) = eriscv_mcu_mmio_read32 B (ERISCV_MCU_SPI0_BASE + SPI_STATUS) m
     in if status AND SPI_STATUS_BUSY = 0 then (SPI_OK, m)
        else case timeout_cycles of 0 \<Rightarrow> (SPI_ETIMEOUT, m) | Suc t \<Rightarrow> spi_wait_idle B t m)"

declare spi_wait_idle.simps [simp del]

definition spi_clear_done :: "'d bus \<Rightarrow> bool \<Rightarrow> ('d, 'cb, 'e) freertos_spi_scheme \<Rightarrow> ('d, 'cb, 'e) freertos_spi_scheme" where
  "spi_clear_done B irq m = spi_write_control B irq True m"

definition freertos_spi_init ::
    "'d bus \<Rightarrow> u32 \<Rightarrow> u32 \<Rightarrow> ('d, 'cb, 'e) freertos_spi_scheme \<Rightarrow> int \<times> ('d, 'cb, 'e) freertos_spi_scheme" where
  "freertos_spi_init B clock_divisor control m =
    (if control AND NOT SPI_MODE_MASK \<noteq> 0 then (SPI_EINVAL, m)
     else
       let clock_divisor = (if clock_divisor = 0 then 1 else clock_divisor);
           m = m\<lparr>spi_control := control AND SPI_MODE_MASK, spi_async_active := False,
                 spi_async_callback := None\<rparr>;
           m = eriscv_mcu_mmio_write32 B (ERISCV_MCU_SPI0_BASE + SPI_CLKDIV) clock_divisor m;
           m = spi_write_control B False True m;
           m = eriscv_mcu_mmio_write32 B (ERISCV_MCU_SPI0_BASE + SPI_SS) 0xf m
       in (SPI_OK, freertos_plic_init_source B ERISCV_MCU_SPI0_PLIC_SOURCE 1 m))"

definition freertos_spi_select ::
    "'d bus \<Rightarrow> u32 \<Rightarrow> ('d, 'cb, 'e) freertos_spi_scheme \<Rightarrow> int \<times> ('d, 'cb, 'e) freertos_spi_scheme" where
  "freertos_spi_select B slave m =
    (if slave \<ge> 4 then (SPI_EINVAL, m)
     else (SPI_OK, eriscv_mcu_mmio_write32 B (ERISCV_MCU_SPI0_BASE + SPI_SS)
                     (NOT (push_bit (unat slave) 1) AND 0xf) m))"

text \<open>\<open>tx != NULL ? tx[index] : 0xff\<close>.\<close>

definition spi_tx_byte :: "u32 \<Rightarrow> nat \<Rightarrow> (u32 \<Rightarrow> u8) \<Rightarrow> u8" where
  "spi_tx_byte tx index r = (if tx \<noteq> 0 then r (tx + of_nat index) else 0xff)"

text \<open>\<open>if (rx != NULL) rx[index] = value\<close>.\<close>

definition spi_rx_store :: "u32 \<Rightarrow> nat \<Rightarrow> u8 \<Rightarrow> ('d, 'cb, 'e) freertos_spi_scheme \<Rightarrow> ('d, 'cb, 'e) freertos_spi_scheme" where
  "spi_rx_store rx index v m = (if rx \<noteq> 0 then m\<lparr>ram := (ram m)(rx + of_nat index := v)\<rparr> else m)"

text \<open>The body of the transfer loop, and the loop from \<open>index\<close> for \<open>k\<close> more bytes.\<close>

definition spi_transfer_byte ::
    "'d bus \<Rightarrow> u32 \<Rightarrow> u32 \<Rightarrow> u32 \<Rightarrow> nat \<Rightarrow> ('d, 'cb, 'e) freertos_spi_scheme \<Rightarrow> int \<times> ('d, 'cb, 'e) freertos_spi_scheme" where
  "spi_transfer_byte B tx rx timeout_cycles index m =
    (let m = eriscv_mcu_mmio_write32 B (ERISCV_MCU_SPI0_BASE + SPI_TXDATA)
               (ucast (spi_tx_byte tx index (ram m))) m;
         (result, m) = spi_wait_idle B (unat timeout_cycles) m
     in if result \<noteq> SPI_OK then
          (result, eriscv_mcu_mmio_write32 B (ERISCV_MCU_SPI0_BASE + SPI_SS) 0xf m)
        else
          let m = (if rx \<noteq> 0 then
                     let (v, m) = eriscv_mcu_mmio_read32 B (ERISCV_MCU_SPI0_BASE + SPI_RXDATA) m
                     in spi_rx_store rx index (ucast v) m
                   else m)
          in (SPI_OK, spi_clear_done B False m))"

fun spi_transfer_loop ::
    "'d bus \<Rightarrow> u32 \<Rightarrow> u32 \<Rightarrow> u32 \<Rightarrow> nat \<Rightarrow> nat \<Rightarrow> ('d, 'cb, 'e) freertos_spi_scheme \<Rightarrow> int \<times> ('d, 'cb, 'e) freertos_spi_scheme" where
  "spi_transfer_loop B tx rx t index 0 m = (SPI_OK, m)"
| "spi_transfer_loop B tx rx t index (Suc k) m =
    (let (result, m) = spi_transfer_byte B tx rx t index m
     in if result \<noteq> SPI_OK then (result, m) else spi_transfer_loop B tx rx t (Suc index) k m)"

definition freertos_spi_transfer_buf ::
    "'d bus \<Rightarrow> u32 \<Rightarrow> u32 \<Rightarrow> u32 \<Rightarrow> u32 \<Rightarrow> u32 \<Rightarrow> ('d, 'cb, 'e) freertos_spi_scheme \<Rightarrow> int \<times> ('d, 'cb, 'e) freertos_spi_scheme" where
  "freertos_spi_transfer_buf B slave tx rx len timeout_cycles m =
    (if len = 0 \<or> spi_async_active m then (if len = 0 then SPI_EINVAL else SPI_EBUSY, m)
     else
       let (result, m) = freertos_spi_select B slave m
       in if result \<noteq> SPI_OK then (result, m)
          else
            let (result, m) = spi_transfer_loop B tx rx timeout_cycles 0 (unat len) m
            in if result \<noteq> SPI_OK then (result, m)
               else (SPI_OK, eriscv_mcu_mmio_write32 B (ERISCV_MCU_SPI0_BASE + SPI_SS) 0xf m))"

text \<open>\<open>freertos_spi_transfer\<close> sends its argument from a stack slot, at \<open>slot\<close>.\<close>

definition freertos_spi_transfer ::
    "'d bus \<Rightarrow> u32 \<Rightarrow> u8 \<Rightarrow> u32 \<Rightarrow> u32 \<Rightarrow> ('d, 'cb, 'e) freertos_spi_scheme \<Rightarrow> int \<times> ('d, 'cb, 'e) freertos_spi_scheme" where
  "freertos_spi_transfer B slot tx rx timeout_cycles m =
     freertos_spi_transfer_buf B 0 slot rx 1 timeout_cycles (m\<lparr>ram := (ram m)(slot := tx)\<rparr>)"

definition freertos_spi_start_async ::
    "'d bus \<Rightarrow> u32 \<Rightarrow> u32 \<Rightarrow> u32 \<Rightarrow> u32 \<Rightarrow> 'cb option \<Rightarrow> u32 \<Rightarrow> ('d, 'cb, 'e) freertos_spi_scheme \<Rightarrow>
     int \<times> ('d, 'cb, 'e) freertos_spi_scheme" where
  "freertos_spi_start_async B slave tx rx len callback ctx m =
    (if len = 0 \<or> callback = None then (SPI_EINVAL, m)
     else if spi_async_active m then (SPI_EBUSY, m)
     else
       let (result, m) = freertos_spi_select B slave m
       in if result \<noteq> SPI_OK then (SPI_EINVAL, m)
          else
            let m = m\<lparr>spi_async_tx := tx, spi_async_rx := rx, spi_async_length := len, spi_async_index := 0,
                      spi_async_callback := callback, spi_async_context := ctx, spi_async_active := True\<rparr>;
                m = spi_write_control B True True m
            in (SPI_OK, eriscv_mcu_mmio_write32 B (ERISCV_MCU_SPI0_BASE + SPI_TXDATA)
                  (ucast (spi_tx_byte tx 0 (ram m))) m))"

text \<open>The second half of the interrupt handler: the next byte, or the end of the transfer.\<close>

definition spi_async_advance ::
    "'d bus \<Rightarrow> ('cb \<Rightarrow> int \<Rightarrow> u32 \<Rightarrow> ('d, 'cb, 'e) freertos_spi_scheme \<Rightarrow> ('d, 'cb, 'e) freertos_spi_scheme) \<Rightarrow>
     ('d, 'cb, 'e) freertos_spi_scheme \<Rightarrow> ('d, 'cb, 'e) freertos_spi_scheme" where
  "spi_async_advance B call m =
    (if spi_async_index m < spi_async_length m then
       eriscv_mcu_mmio_write32 B (ERISCV_MCU_SPI0_BASE + SPI_TXDATA)
         (ucast (spi_tx_byte (spi_async_tx m) (unat (spi_async_index m)) (ram m))) m
     else
       let m = m\<lparr>spi_async_active := False\<rparr>;
           m = eriscv_mcu_mmio_write32 B (ERISCV_MCU_SPI0_BASE + SPI_SS) 0xf m;
           m = spi_write_control B False False m;
           callback = spi_async_callback m;
           ctx = spi_async_context m;
           m = m\<lparr>spi_async_callback := None, spi_async_context := 0\<rparr>
       in case callback of None \<Rightarrow> m | Some cb \<Rightarrow> call cb SPI_OK ctx m)"

definition freertos_spi_irq_handler ::
    "'d bus \<Rightarrow> ('cb \<Rightarrow> int \<Rightarrow> u32 \<Rightarrow> ('d, 'cb, 'e) freertos_spi_scheme \<Rightarrow> ('d, 'cb, 'e) freertos_spi_scheme) \<Rightarrow>
     ('d, 'cb, 'e) freertos_spi_scheme \<Rightarrow> ('d, 'cb, 'e) freertos_spi_scheme" where
  "freertos_spi_irq_handler B call m =
    (let (status, m) = eriscv_mcu_mmio_read32 B (ERISCV_MCU_SPI0_BASE + SPI_STATUS) m
     in if status AND SPI_STATUS_DONE = 0 then m
        else if \<not> spi_async_active m then spi_clear_done B False m
        else
          let (v, m) = eriscv_mcu_mmio_read32 B (ERISCV_MCU_SPI0_BASE + SPI_RXDATA) m;
              m = spi_rx_store (spi_async_rx m) (unat (spi_async_index m)) (ucast v) m;
              m = spi_clear_done B True m;
              m = m\<lparr>spi_async_index := spi_async_index m + 1\<rparr>
          in spi_async_advance B call m)"

definition freertos_spi_irq_pending ::
    "'d bus \<Rightarrow> ('d, 'cb, 'e) freertos_spi_scheme \<Rightarrow> bool \<times> ('d, 'cb, 'e) freertos_spi_scheme" where
  "freertos_spi_irq_pending B m =
    (let (status, m) = eriscv_mcu_mmio_read32 B (ERISCV_MCU_SPI0_BASE + SPI_STATUS) m
     in (status AND SPI_STATUS_DONE \<noteq> 0, m))"

section \<open>Bytes and buffers\<close>

text \<open>The chip selects while slave \<open>n\<close> is addressed: active low, that one only.\<close>

definition spi_select_word :: "u32 \<Rightarrow> u32" where
  "spi_select_word slave = NOT (push_bit (unat slave) 1) AND 0xf"

lemma spi_select_word_mask [simp]: "spi_select_word slave AND 0xf = spi_select_word slave"
  by (simp add: spi_select_word_def and.assoc)

text \<open>The \<open>i\<close>-th byte to come: how many polls it takes, and what the slave answers.\<close>

definition spi_delay :: "(nat \<times> u8) list \<Rightarrow> nat \<Rightarrow> nat" where
  "spi_delay sc i = fst (next_byte (drop i sc))"

definition spi_answer :: "(nat \<times> u8) list \<Rightarrow> nat \<Rightarrow> u8" where
  "spi_answer sc i = snd (next_byte (drop i sc))"

lemma spi_tl [simp]: "spi_delay (tl sc) i = spi_delay sc (Suc i)" "spi_answer (tl sc) i = spi_answer sc (Suc i)"
  by (simp_all add: spi_delay_def spi_answer_def drop_Suc)

text \<open>Memory once the answers to bytes \<open>i\<close>, \<open>i + 1\<close>, ... have been stored in the receive buffer.\<close>

fun spi_received :: "u32 \<Rightarrow> nat \<Rightarrow> u8 list \<Rightarrow> (u32 \<Rightarrow> u8) \<Rightarrow> (u32 \<Rightarrow> u8)" where
  "spi_received rx i [] r = r"
| "spi_received rx i (b # bs) r =
     spi_received rx (Suc i) bs (if rx \<noteq> 0 then r(rx + of_nat i := b) else r)"

lemma spi_received_append:
  "spi_received rx i (bs @ cs) r = spi_received rx (i + length bs) cs (spi_received rx i bs r)"
  by (induction bs arbitrary: i r) simp_all

text \<open>No store of an answer changes a byte that is still to be sent.\<close>

definition spi_buffers_ok :: "u32 \<Rightarrow> u32 \<Rightarrow> nat \<Rightarrow> bool" where
  "spi_buffers_ok tx rx n \<longleftrightarrow>
     tx = 0 \<or> rx = 0 \<or> (\<forall>j<n. \<forall>i<j. rx + of_nat i \<noteq> tx + of_nat j)"

lemma spi_buffers_mono: "spi_buffers_ok tx rx n \<Longrightarrow> k \<le> n \<Longrightarrow> spi_buffers_ok tx rx k"
  unfolding spi_buffers_ok_def by (meson order_less_le_trans)

lemma spi_buffers_same: "n < 2 ^ 32 \<Longrightarrow> spi_buffers_ok tx tx n"
proof -
  assume n: "n < 2 ^ 32"
  have "(of_nat i :: u32) \<noteq> of_nat j" if "i < j" "j < n" for i j
    using that n by (auto simp: word_unat_eq_iff unat_of_nat)
  then show ?thesis by (simp add: spi_buffers_ok_def)
qed

lemma spi_tx_byte_received:
  assumes "spi_buffers_ok tx rx n" "j < n" "i + length bs \<le> j"
  shows "spi_tx_byte tx j (spi_received rx i bs r) = spi_tx_byte tx j r"
  using assms(3)
proof (induction bs arbitrary: i r)
  case (Cons b bs)
  have "tx = 0 \<or> rx = 0 \<or> rx + of_nat i \<noteq> tx + of_nat j"
    using assms(1,2) Cons.prems by (auto simp: spi_buffers_ok_def)
  then have "spi_tx_byte tx j (if rx \<noteq> 0 then r(rx + of_nat i := b) else r) = spi_tx_byte tx j r"
    by (auto simp: spi_tx_byte_def)
  with Cons.IH [of "Suc i"] Cons.prems show ?case by simp
qed simp

lemma ram_then_dev: "m\<lparr>ram := r, dev := d\<rparr> = m\<lparr>dev := d, ram := r\<rparr>"
  by (cases m) simp

text \<open>What \<open>spi_write_control\<close> stores.\<close>

definition spi_control_word :: "u32 \<Rightarrow> bool \<Rightarrow> bool \<Rightarrow> u32" where
  "spi_control_word c irq clear = c OR 1 OR (if irq then 2 else 0) OR (if clear then 0x10 else 0)"

lemma spi_control_word_bits:
  "bit (spi_control_word c irq clear) 0"
  "bit (spi_control_word c irq clear) (Suc 0) \<longleftrightarrow> irq \<or> bit c (Suc 0)"
  "bit (spi_control_word c irq clear) 4 \<longleftrightarrow> clear \<or> bit c 4"
  by (auto simp: spi_control_word_def bit_simps bit_numeral_rec)

lemma spi_write_control_eq:
  "spi_write_control B irq clear m =
     m\<lparr>dev := bus_wr B 0x40030010 (spi_control_word (spi_control m) irq clear) (dev m),
       trace := trace m @ [Wr 0x40030010 (spi_control_word (spi_control m) irq clear)]\<rparr>"
  by (simp add: spi_write_control_def spi_control_word_def mach_simps Let_def or.assoc)

section \<open>The driver on any SPI port\<close>

context spi_port
begin

text \<open>The wait loop polls the byte in progress to its end, or gives up after \<open>t + 1\<close> polls.\<close>

lemma spi_wait_idle_ends:
  "v_busy (view (dev m)) = Some (k, b) \<Longrightarrow>
   \<exists>tr. spi_wait_idle B t m =
     (if k \<le> t then SPI_OK else SPI_ETIMEOUT,
      m\<lparr>dev := polled (if k \<le> t then Suc k else Suc t) (dev m), trace := tr\<rparr>)"
proof (induction k arbitrary: t m)
  case 0
  show ?case
    by (subst spi_wait_idle.simps, simp add: mach_simps polled_def poll_busy [OF 0], rule exI, rule refl)
next
  case (Suc k)
  let ?m = "m\<lparr>dev := snd (bus_rd B 0x40030008 (dev m)),
    trace := trace m @ [Rd 0x40030008 (fst (bus_rd B 0x40030008 (dev m)))]\<rparr>"
  have b: "v_busy (view (dev ?m)) = Some (k, b)"
    using polled_view [OF Suc.prems, of 1] by (simp add: polled_def)
  have step: "spi_wait_idle B t m =
      (case t of 0 \<Rightarrow> (SPI_ETIMEOUT, ?m) | Suc t \<Rightarrow> spi_wait_idle B t ?m)"
    by (subst spi_wait_idle.simps) (simp add: mach_simps poll_busy [OF Suc.prems])
  show ?case
  proof (cases t)
    case 0
    show ?thesis unfolding 0 step [unfolded 0] by (simp add: polled_def, intro exI, rule refl)
  next
    case (Suc t')
    from Suc.IH [OF b, of t'] show ?thesis
      unfolding Suc step [unfolded Suc] by (auto simp: polled_Suc split: if_splits)
  qed
qed

text \<open>The port between two bytes: idle and enabled. A byte of the loop ends there, its answer stored.\<close>

definition ready :: "('d, 'cb, 'e) freertos_spi_scheme \<Rightarrow> bool" where
  "ready m \<longleftrightarrow> v_busy (view (dev m)) = None \<and> bit (v_ctrl (view (dev m))) 0"

lemma at_control:
  assumes "v_busy (view d) = None"
  shows "view (bus_wr B 0x40030010 (spi_control_word c irq True) d) =
      (view d)\<lparr>v_ctrl := spi_control_word c irq True, v_done := False\<rparr>"
    "view (bus_wr B 0x40030010 (spi_control_word c irq clear) d) = (view d)\<lparr>v_ctrl := spi_control_word c irq clear,
      v_done := v_done (view d) \<and> \<not> clear \<and> \<not> bit c 4\<rparr>"
  using assms by (simp_all add: at_regs spi_control_word_bits)

lemma spi_transfer_byte_ok:
  assumes "ready m" "spi_delay (v_script (view (dev m))) 0 \<le> unat t"
  shows "\<exists>tr d. spi_transfer_byte B tx rx t i m =
      (SPI_OK, m\<lparr>dev := d, ram := spi_received rx i [spi_answer (v_script (view (dev m))) 0] (ram m), trace := tr\<rparr>) \<and>
    ready (m\<lparr>dev := d\<rparr>) \<and> v_ss (view d) = v_ss (view (dev m)) \<and>
    v_script (view d) = tl (v_script (view (dev m))) \<and>
    v_sent (view d) = v_sent (view (dev m)) @ [(v_ss (view (dev m)), spi_tx_byte tx i (ram m))]"
proof -
  let ?v = "view (dev m)" and ?w = "ucast (spi_tx_byte tx i (ram m)) :: u32"
  let ?d1 = "bus_wr B 0x40030000 ?w (dev m)"
  let ?m1 = "m\<lparr>dev := ?d1, trace := trace m @ [Wr 0x40030000 ?w]\<rparr>"
  have idle: "v_busy ?v = None" and en: "bit (v_ctrl ?v) 0" using assms(1) by (simp_all add: ready_def)
  obtain k b where kb: "next_byte (v_script ?v) = (k, b)" by fastforce
  have busy: "v_busy (view (dev ?m1)) = Some (k, b)" using started(1) [OF idle en] kb by simp
  have kt: "k \<le> unat t" using assms(2) kb by (simp add: spi_delay_def)
  let ?d2 = "polled (Suc k) ?d1"
  have d2: "view ?d2 = spi_byte (spi_tx_byte tx i (ram m)) ?v"
    using started(2) [OF idle en, of ?w] kb by simp
  obtain tr2 where w: "spi_wait_idle B (unat t) ?m1 = (SPI_OK, m\<lparr>dev := ?d2, trace := tr2\<rparr>)"
    using spi_wait_idle_ends [OF busy, of "unat t"] kt by auto
  let ?c = "spi_control_word (spi_control m) False True"
  let ?d3 = "if rx = 0 then ?d2 else snd (bus_rd B 0x40030004 ?d2)"
  have idle2: "v_busy (view ?d2) = None" "v_rx (view ?d2) = b" using d2 kb by (simp_all add: spi_byte_def)
  have v3: "view ?d3 = view ?d2" "ucast (fst (bus_rd B 0x40030004 ?d2)) = b" using at_rx [OF idle2(1)] idle2(2) by simp_all
  let ?d4 = "bus_wr B 0x40030010 ?c ?d3"
  have "\<exists>tr. spi_transfer_byte B tx rx t i m = (SPI_OK, m\<lparr>dev := ?d4,
      ram := spi_received rx i [b] (ram m), trace := tr\<rparr>)"
    by (cases "rx = 0", simp_all add: spi_transfer_byte_def Let_def mach_simps w v3(2) spi_clear_done_def
        spi_write_control_eq spi_rx_store_def ram_then_dev, (rule exI, rule refl)+)
  then obtain tr where "spi_transfer_byte B tx rx t i m = (SPI_OK, m\<lparr>dev := ?d4,
      ram := spi_received rx i [spi_answer (v_script ?v) 0] (ram m), trace := tr\<rparr>)"
    using kb by (auto simp: spi_answer_def)
  moreover have v4: "view ?d4 = (spi_byte (spi_tx_byte tx i (ram m)) ?v)\<lparr>v_ctrl := ?c, v_done := False\<rparr>"
    using at_control(1) [of ?d3 "spi_control m" False] idle2(1) v3(1) d2 by simp
  moreover have "ready (m\<lparr>dev := ?d4\<rparr>)"
    unfolding ready_def by (simp add: v4 spi_byte_def spi_control_word_bits)
  ultimately show ?thesis by (intro exI [of _ tr] exI [of _ ?d4]) (simp add: spi_byte_def)
qed

lemma spi_transfer_byte_timeout:
  assumes "ready m" "unat t < spi_delay (v_script (view (dev m))) 0"
  shows "\<exists>tr d. spi_transfer_byte B tx rx t i m = (SPI_ETIMEOUT, m\<lparr>dev := d, trace := tr\<rparr>) \<and>
    v_ss (view d) = 0xf \<and>
    v_sent (view d) = v_sent (view (dev m)) @ [(v_ss (view (dev m)), spi_tx_byte tx i (ram m))]"
proof -
  let ?v = "view (dev m)" and ?w = "ucast (spi_tx_byte tx i (ram m)) :: u32"
  let ?d1 = "bus_wr B 0x40030000 ?w (dev m)"
  let ?m1 = "m\<lparr>dev := ?d1, trace := trace m @ [Wr 0x40030000 ?w]\<rparr>"
  have idle: "v_busy ?v = None" and en: "bit (v_ctrl ?v) 0" using assms(1) by (simp_all add: ready_def)
  obtain k b where kb: "next_byte (v_script ?v) = (k, b)" by fastforce
  have busy: "v_busy (view ?d1) = Some (k, b)" using started(1) [OF idle en] kb by simp
  have kt: "\<not> k \<le> unat t" using assms(2) kb by (simp add: spi_delay_def)
  let ?d2 = "polled (Suc (unat t)) ?d1"
  obtain tr2 where w: "spi_wait_idle B (unat t) ?m1 = (SPI_ETIMEOUT, m\<lparr>dev := ?d2, trace := tr2\<rparr>)"
    using spi_wait_idle_ends [of ?m1 k b "unat t"] busy kt by auto
  have v1: "view ?d1 = spi_start (spi_tx_byte tx i (ram m)) ?v" using at_tx [OF idle en, of ?w] by simp
  have v2: "view ?d2 = (view ?d1)\<lparr>v_busy := Some (k - Suc (unat t), b)\<rparr>"
    using polled_view [OF busy, of "Suc (unat t)"] kt by simp
  have "\<exists>tr. spi_transfer_byte B tx rx t i m = (SPI_ETIMEOUT, m\<lparr>dev := bus_wr B 0x40030014 0xf ?d2, trace := tr\<rparr>)"
    by (simp add: spi_transfer_byte_def Let_def mach_simps w, rule exI, rule refl)
  then obtain tr where "spi_transfer_byte B tx rx t i m =
      (SPI_ETIMEOUT, m\<lparr>dev := bus_wr B 0x40030014 0xf ?d2, trace := tr\<rparr>)" ..
  then show ?thesis
    by (intro exI [of _ tr] exI [of _ "bus_wr B 0x40030014 0xf ?d2"]) (simp add: at_regs v2 v1 spi_start_def)
qed

text \<open>The loop over \<open>k\<close> bytes none of which is late.\<close>

lemma spi_transfer_loop_ok:
  assumes "ready m" "\<forall>j<k. spi_delay (v_script (view (dev m))) j \<le> unat t" "spi_buffers_ok tx rx (i + k)"
  shows "\<exists>tr d. spi_transfer_loop B tx rx t i k m =
      (SPI_OK, m\<lparr>dev := d, ram := spi_received rx i (map (spi_answer (v_script (view (dev m)))) [0..<k]) (ram m),
         trace := tr\<rparr>) \<and>
    ready (m\<lparr>dev := d\<rparr>) \<and> v_ss (view d) = v_ss (view (dev m)) \<and>
    v_script (view d) = drop k (v_script (view (dev m))) \<and>
    v_sent (view d) = v_sent (view (dev m)) @
      map (\<lambda>j. (v_ss (view (dev m)), spi_tx_byte tx j (ram m))) [i..<i + k]"
  using assms
proof (induction k arbitrary: i m)
  case 0
  have "m = m\<lparr>dev := dev m, ram := ram m, trace := trace m\<rparr>" by simp
  with 0 show ?case by (intro exI [of _ "trace m"] exI [of _ "dev m"]) simp
next
  case (Suc k)
  let ?sc = "v_script (view (dev m))"
  define r1 where "r1 = spi_received rx i [spi_answer ?sc 0] (ram m)"
  obtain tr1 d1 where byte: "spi_transfer_byte B tx rx t i m = (SPI_OK, m\<lparr>dev := d1, ram := r1, trace := tr1\<rparr>)"
    and rdy: "ready (m\<lparr>dev := d1\<rparr>)" and ss: "v_ss (view d1) = v_ss (view (dev m))"
    and sc: "v_script (view d1) = tl ?sc"
    and sent: "v_sent (view d1) = v_sent (view (dev m)) @ [(v_ss (view (dev m)), spi_tx_byte tx i (ram m))]"
    using spi_transfer_byte_ok [of m t tx rx i] Suc.prems(1,2) unfolding r1_def by fastforce
  let ?m1 = "m\<lparr>dev := d1, ram := r1, trace := tr1\<rparr>"
  have kept: "spi_tx_byte tx j r1 = spi_tx_byte tx j (ram m)" if "j \<in> set [Suc i..<Suc i + k]" for j
    unfolding r1_def by (rule spi_tx_byte_received [OF Suc.prems(3)]) (use that in auto)
  have 1: "ready ?m1" using rdy by (simp add: ready_def)
  have 2: "\<forall>j<k. spi_delay (v_script (view (dev ?m1))) j \<le> unat t" using Suc.prems(2) sc by simp
  have 3: "spi_buffers_ok tx rx (Suc i + k)" using Suc.prems(3) by simp
  have upt: "[i..<i + Suc k] = i # [Suc i..<Suc i + k]" by (simp add: upt_conv_Cons del: upt_Suc)
  from Suc.IH [OF 1 2 3] obtain tr2 d2 where loop: "spi_transfer_loop B tx rx t (Suc i) k ?m1 =
      (SPI_OK, ?m1\<lparr>dev := d2, ram := spi_received rx (Suc i) (map (spi_answer (tl ?sc)) [0..<k]) r1, trace := tr2\<rparr>)"
    and rdy2: "ready (?m1\<lparr>dev := d2\<rparr>)" and v2: "v_ss (view d2) = v_ss (view (dev m))"
    "v_script (view d2) = drop k (tl ?sc)" "v_sent (view d2) = v_sent (view d1) @
       map (\<lambda>j. (v_ss (view (dev m)), spi_tx_byte tx j r1)) [Suc i..<Suc i + k]"
    unfolding sc [symmetric] by (auto simp: ss)
  have answer_tl: "spi_answer (tl ?sc) = (\<lambda>j. spi_answer ?sc (Suc j))" by (simp add: fun_eq_iff)
  have rcv: "spi_received rx (Suc i) (map (spi_answer (tl ?sc)) [0..<k]) r1 =
      spi_received rx i (map (spi_answer ?sc) [0..<Suc k]) (ram m)"
    by (simp add: r1_def upt_0_Suc comp_def answer_tl del: upt_Suc)
  have "spi_transfer_loop B tx rx t i (Suc k) m = (SPI_OK, m\<lparr>dev := d2,
      ram := spi_received rx i (map (spi_answer ?sc) [0..<Suc k]) (ram m), trace := tr2\<rparr>)"
    by (simp only: spi_transfer_loop.simps byte Let_def split_conv loop rcv) simp
  moreover have "ready (m\<lparr>dev := d2\<rparr>)" using rdy2 by (simp add: ready_def)
  ultimately show ?case unfolding upt
    by (intro exI [of _ tr2] exI [of _ d2]) (use kept in \<open>simp add: v2 sent drop_Suc del: upt_Suc\<close>)
qed

text \<open>The loop up to a byte that is late.\<close>

lemma spi_transfer_loop_add:
  "spi_transfer_loop B tx rx t i (a + k) m =
    (let (result, m') = spi_transfer_loop B tx rx t i a m
     in if result \<noteq> SPI_OK then (result, m') else spi_transfer_loop B tx rx t (i + a) k m')"
  by (induction a arbitrary: i m) (simp_all add: Let_def case_prod_beta)

lemma freertos_spi_select_eq:
  assumes "slave < 4" "ready m"
  shows "\<exists>tr d. freertos_spi_select B slave m = (SPI_OK, m\<lparr>dev := d, trace := tr\<rparr>) \<and>
    view d = (view (dev m))\<lparr>v_ss := spi_select_word slave\<rparr>"
proof -
  let ?d = "bus_wr B 0x40030014 (spi_select_word slave) (dev m)"
  have "freertos_spi_select B slave m =
      (SPI_OK, m\<lparr>dev := ?d, trace := trace m @ [Wr 0x40030014 (spi_select_word slave)]\<rparr>)"
    using assms(1) by (simp add: freertos_spi_select_def mach_simps spi_select_word_def not_le)
  moreover have "view ?d = (view (dev m))\<lparr>v_ss := spi_select_word slave\<rparr>"
    using assms(2) by (simp add: at_regs ready_def)
  ultimately show ?thesis by blast
qed

lemma freertos_spi_transfer_buf_eq:
  assumes "len \<noteq> 0" "\<not> spi_async_active m" "slave < 4" "ready m"
  shows "\<exists>tr d. view d = (view (dev m))\<lparr>v_ss := spi_select_word slave\<rparr> \<and>
    freertos_spi_transfer_buf B slave tx rx len t m =
     (let (result, m) = spi_transfer_loop B tx rx t 0 (unat len) (m\<lparr>dev := d, trace := tr\<rparr>)
      in if result \<noteq> SPI_OK then (result, m)
         else (SPI_OK, eriscv_mcu_mmio_write32 B (ERISCV_MCU_SPI0_BASE + SPI_SS) 0xf m))"
proof -
  obtain tr d where "freertos_spi_select B slave m = (SPI_OK, m\<lparr>dev := d, trace := tr\<rparr>)"
    "view d = (view (dev m))\<lparr>v_ss := spi_select_word slave\<rparr>"
    using freertos_spi_select_eq [OF assms(3,4)] by blast
  then show ?thesis using assms(1,2)
    by (intro exI [of _ tr] exI [of _ d]) (simp add: freertos_spi_transfer_buf_def)
qed

lemma spi_transfer_buf_ok:
  assumes "len \<noteq> 0" "\<not> spi_async_active m" "slave < 4" "ready m" "spi_buffers_ok tx rx (unat len)"
    "\<forall>j<unat len. spi_delay (v_script (view (dev m))) j \<le> unat t"
  shows "\<exists>tr d. freertos_spi_transfer_buf B slave tx rx len t m =
      (SPI_OK, m\<lparr>dev := d, ram := spi_received rx 0 (map (spi_answer (v_script (view (dev m)))) [0..<unat len]) (ram m),
         trace := tr\<rparr>) \<and>
    ready (m\<lparr>dev := d\<rparr>) \<and> v_ss (view d) = 0xf \<and> v_script (view d) = drop (unat len) (v_script (view (dev m))) \<and>
    v_sent (view d) = v_sent (view (dev m)) @
      map (\<lambda>j. (spi_select_word slave, spi_tx_byte tx j (ram m))) [0..<unat len]"
proof -
  obtain tr0 d0 where v0: "view d0 = (view (dev m))\<lparr>v_ss := spi_select_word slave\<rparr>"
    and run: "freertos_spi_transfer_buf B slave tx rx len t m =
     (let (result, m) = spi_transfer_loop B tx rx t 0 (unat len) (m\<lparr>dev := d0, trace := tr0\<rparr>)
      in if result \<noteq> SPI_OK then (result, m) else (SPI_OK, eriscv_mcu_mmio_write32 B (ERISCV_MCU_SPI0_BASE + SPI_SS) 0xf m))"
    using freertos_spi_transfer_buf_eq [OF assms(1-4)] by blast
  let ?m0 = "m\<lparr>dev := d0, trace := tr0\<rparr>"
  have "ready ?m0" using assms(4) v0 by (simp add: ready_def)
  from spi_transfer_loop_ok [OF this, of "unat len" t tx rx 0] assms(5,6) v0
  obtain tr d where loop: "spi_transfer_loop B tx rx t 0 (unat len) ?m0 = (SPI_OK, ?m0\<lparr>dev := d,
      ram := spi_received rx 0 (map (spi_answer (v_script (view (dev m)))) [0..<unat len]) (ram m), trace := tr\<rparr>)"
    and d: "ready (?m0\<lparr>dev := d\<rparr>)" "v_script (view d) = drop (unat len) (v_script (view (dev m)))"
    "v_sent (view d) = v_sent (view (dev m)) @
      map (\<lambda>j. (spi_select_word slave, spi_tx_byte tx j (ram m))) [0..<unat len]"
    by auto
  have "v_busy (view d) = None" "bit (v_ctrl (view d)) 0" using d(1) by (simp_all add: ready_def)
  then show ?thesis unfolding run loop
    by (intro exI [of _ "tr @ [Wr 0x40030014 0xf]"] exI [of _ "bus_wr B 0x40030014 0xf d"])
      (simp add: mach_simps ram_then_dev at_regs ready_def d(2,3))
qed

lemma spi_transfer_buf_late:
  assumes "len \<noteq> 0" "\<not> spi_async_active m" "slave < 4" "ready m" "spi_buffers_ok tx rx (unat len)"
    "k < unat len" "\<forall>j<k. spi_delay (v_script (view (dev m))) j \<le> unat t"
    "unat t < spi_delay (v_script (view (dev m))) k"
  shows "\<exists>tr d. freertos_spi_transfer_buf B slave tx rx len t m =
      (SPI_ETIMEOUT, m\<lparr>dev := d, ram := spi_received rx 0 (map (spi_answer (v_script (view (dev m)))) [0..<k]) (ram m),
         trace := tr\<rparr>) \<and> v_ss (view d) = 0xf \<and>
    v_sent (view d) = v_sent (view (dev m)) @
      map (\<lambda>j. (spi_select_word slave, spi_tx_byte tx j (ram m))) [0..<Suc k]"
proof -
  let ?sc = "v_script (view (dev m))"
  let ?r = "spi_received rx 0 (map (spi_answer ?sc) [0..<k]) (ram m)"
  obtain tr0 d0 where v0: "view d0 = (view (dev m))\<lparr>v_ss := spi_select_word slave\<rparr>"
    and run: "freertos_spi_transfer_buf B slave tx rx len t m =
     (let (result, m) = spi_transfer_loop B tx rx t 0 (unat len) (m\<lparr>dev := d0, trace := tr0\<rparr>)
      in if result \<noteq> SPI_OK then (result, m) else (SPI_OK, eriscv_mcu_mmio_write32 B (ERISCV_MCU_SPI0_BASE + SPI_SS) 0xf m))"
    using freertos_spi_transfer_buf_eq [OF assms(1-4)] by blast
  let ?m0 = "m\<lparr>dev := d0, trace := tr0\<rparr>"
  have r0: "ready ?m0" using assms(4) v0 by (simp add: ready_def)
  have b0: "spi_buffers_ok tx rx (0 + k)" using spi_buffers_mono [OF assms(5), of k] assms(6) by simp
  have t0: "\<forall>j<k. spi_delay (v_script (view (dev ?m0))) j \<le> unat t" using assms(7) v0 by simp
  from spi_transfer_loop_ok [OF r0 t0 b0] obtain tr d where loop: "spi_transfer_loop B tx rx t 0 k ?m0 =
      (SPI_OK, ?m0\<lparr>dev := d, ram := ?r, trace := tr\<rparr>)"
    and d: "ready (?m0\<lparr>dev := d\<rparr>)" "v_script (view d) = drop k ?sc" "v_ss (view d) = spi_select_word slave"
    "v_sent (view d) = v_sent (view (dev m)) @ map (\<lambda>j. (spi_select_word slave, spi_tx_byte tx j (ram m))) [0..<k]"
    by (auto simp: v0)
  let ?m1 = "m\<lparr>dev := d, ram := ?r, trace := tr\<rparr>"
  have r1: "ready ?m1" using d(1) by (simp add: ready_def)
  have t1: "unat t < spi_delay (v_script (view (dev ?m1))) 0"
    using assms(8) d(2) by (simp add: spi_delay_def)
  have out: "spi_tx_byte tx k ?r = spi_tx_byte tx k (ram m)"
    by (rule spi_tx_byte_received [OF assms(5,6)]) simp
  from spi_transfer_byte_timeout [OF r1 t1, of tx rx k] obtain tr2 d2 where late: "spi_transfer_byte B tx rx t k ?m1 = (SPI_ETIMEOUT, ?m1\<lparr>dev := d2, trace := tr2\<rparr>)"
    and d2: "v_ss (view d2) = 0xf"
      "v_sent (view d2) = v_sent (view d) @ [(spi_select_word slave, spi_tx_byte tx k (ram m))]"
    by (auto simp: d(3) out)
  obtain k' where k': "unat len = k + Suc k'" using less_imp_Suc_add [OF assms(6)] by auto
  have "freertos_spi_transfer_buf B slave tx rx len t m = (SPI_ETIMEOUT, m\<lparr>dev := d2, ram := ?r, trace := tr2\<rparr>)"
    unfolding run k' spi_transfer_loop_add by (simp only: loop late Let_def split_conv spi_transfer_loop.simps) (simp add: late)
  then show ?thesis using d2 d(4) by (intro exI [of _ tr2] exI [of _ d2]) simp
qed

text \<open>
  An interrupt-driven transfer of \<open>n\<close> bytes with byte \<open>i\<close> on its way and \<open>k\<close> more interrupts to come
  before it is finished; \<open>r\<close>, \<open>sc\<close> and \<open>log\<close> are the memory, the slave's script and the bytes sent when
  the transfer began.
\<close>

definition spi_async_at ::
    "'cb \<Rightarrow> u32 \<Rightarrow> u32 \<Rightarrow> u32 \<Rightarrow> u32 \<Rightarrow> (u32 \<Rightarrow> u8) \<Rightarrow> (nat \<times> u8) list \<Rightarrow> (u32 \<times> u8) list \<Rightarrow> u32 \<Rightarrow>
     nat \<Rightarrow> nat \<Rightarrow> ('d, 'cb, 'e) freertos_spi_scheme \<Rightarrow> bool" where
  "spi_async_at cb ctx tx rx len r sc log slave i k m \<longleftrightarrow>
     spi_async_active m \<and> spi_async_tx m = tx \<and> spi_async_rx m = rx \<and> spi_async_length m = len \<and>
     spi_async_index m = of_nat i \<and> i < unat len \<and> spi_async_callback m = Some cb \<and> spi_async_context m = ctx \<and>
     \<not> bit (spi_control m) 1 \<and> ram m = spi_received rx 0 (map (spi_answer sc) [0..<i]) r \<and>
     v_busy (view (dev m)) = Some (k, spi_answer sc i) \<and> \<not> v_done (view (dev m)) \<and>
     v_script (view (dev m)) = drop (Suc i) sc \<and> bit (v_ctrl (view (dev m))) 0 \<and>
     v_ss (view (dev m)) = spi_select_word slave \<and>
     v_sent (view (dev m)) = log @ map (\<lambda>j. (spi_select_word slave, spi_tx_byte tx j r)) [0..<Suc i]"

text \<open>And the same transfer when its callback is called.\<close>

definition spi_async_end ::
    "u32 \<Rightarrow> u32 \<Rightarrow> u32 \<Rightarrow> (u32 \<Rightarrow> u8) \<Rightarrow> (nat \<times> u8) list \<Rightarrow> (u32 \<times> u8) list \<Rightarrow> u32 \<Rightarrow>
     ('d, 'cb, 'e) freertos_spi_scheme \<Rightarrow> bool" where
  "spi_async_end tx rx len r sc log slave m \<longleftrightarrow>
     \<not> spi_async_active m \<and> spi_async_callback m = None \<and> v_ss (view (dev m)) = 0xf \<and> ready m \<and>
     \<not> bit (v_ctrl (view (dev m))) 1 \<and>
     ram m = spi_received rx 0 (map (spi_answer sc) [0..<unat len]) r \<and>
     v_sent (view (dev m)) = log @ map (\<lambda>j. (spi_select_word slave, spi_tx_byte tx j r)) [0..<unat len]"

lemma spi_irq_early:
  assumes "spi_async_at cb ctx tx rx len r sc log slave i (Suc k) m"
  shows "spi_async_at cb ctx tx rx len r sc log slave i k (freertos_spi_irq_handler B call m)"
proof -
  have busy: "v_busy (view (dev m)) = Some (Suc k, spi_answer sc i)" and nd: "\<not> v_done (view (dev m))"
    using assms by (simp_all add: spi_async_at_def)
  have v: "view (snd (bus_rd B 0x40030008 (dev m))) = (view (dev m))\<lparr>v_busy := Some (k, spi_answer sc i)\<rparr>"
    using at_status(1) [of "dev m"] busy by (simp add: spi_poll_def)
  have "freertos_spi_irq_handler B call m = m\<lparr>dev := snd (bus_rd B 0x40030008 (dev m)),
      trace := trace m @ [Rd 0x40030008 (fst (bus_rd B 0x40030008 (dev m)))]\<rparr>"
    using poll_busy(2) [OF busy] nd by (simp add: freertos_spi_irq_handler_def mach_simps)
  then show ?thesis using assms v by (simp add: spi_async_at_def)
qed

text \<open>The handler up to the byte count, on a finished byte.\<close>

lemma spi_irq_finished:
  assumes "spi_async_at cb ctx tx rx len r sc log slave i 0 m"
  shows "\<exists>tr d. view d = (view (dev m))\<lparr>v_busy := None, v_rx := spi_answer sc i, v_done := False,
      v_ctrl := spi_control_word (spi_control m) True True\<rparr> \<and>
    freertos_spi_irq_handler B call m = spi_async_advance B call (m\<lparr>dev := d,
      ram := spi_received rx 0 (map (spi_answer sc) [0..<Suc i]) r, trace := tr, spi_async_index := of_nat (Suc i)\<rparr>)"
proof -
  let ?b = "spi_answer sc i"
  have busy: "v_busy (view (dev m)) = Some (0, ?b)" using assms by (simp add: spi_async_at_def)
  let ?d1 = "snd (bus_rd B 0x40030008 (dev m))"
  have v1: "view ?d1 = (view (dev m))\<lparr>v_busy := None, v_rx := ?b, v_done := True\<rparr>"
    using at_status(1) [of "dev m"] busy by (simp add: spi_poll_def)
  then have idle: "v_busy (view ?d1) = None" by simp
  let ?d2 = "snd (bus_rd B 0x40030004 ?d1)"
  have v2: "view ?d2 = view ?d1" and b: "ucast (fst (bus_rd B 0x40030004 ?d1)) = ?b"
    using at_rx [OF idle] v1 by simp_all
  let ?c = "spi_control_word (spi_control m) True True"
  let ?d3 = "bus_wr B 0x40030010 ?c ?d2"
  have v3: "view ?d3 = (view (dev m))\<lparr>v_busy := None, v_rx := ?b, v_done := False, v_ctrl := ?c\<rparr>"
    using at_control(1) [of ?d2 "spi_control m" True] v1 v2 by simp
  define r' where "r' = spi_received rx 0 (map (spi_answer sc) [0..<Suc i]) r"
  have r': "r' = (if rx \<noteq> 0 then (ram m)(rx + of_nat i := ?b) else ram m)"
    using assms by (simp add: r'_def spi_async_at_def spi_received_append)
  have i: "unat (spi_async_index m) = i" "spi_async_index m + 1 = of_nat (Suc i)" "spi_async_rx m = rx"
    using assms unat_u32_less [of len] by (simp_all add: spi_async_at_def unat_of_nat)
  have act: "spi_async_active m" using assms by (simp add: spi_async_at_def)
  have dn: "bit (fst (bus_rd B 0x40030008 (dev m))) 3" using poll_busy(2) [OF busy] by simp
  have "\<exists>tr. freertos_spi_irq_handler B call m = spi_async_advance B call
      (m\<lparr>dev := ?d3, ram := r', trace := tr, spi_async_index := of_nat (Suc i)\<rparr>)"
    unfolding r'
    by (cases "rx = 0", simp_all add: freertos_spi_irq_handler_def mach_simps b i act dn spi_clear_done_def
        spi_write_control_eq spi_rx_store_def ram_then_dev Let_def, (rule exI, rule refl)+)
  with v3 show ?thesis unfolding r'_def by blast
qed

lemma spi_irq_next_byte:
  assumes at: "spi_async_at cb ctx tx rx len r sc log slave i 0 m" and i: "Suc i < unat len"
    and ok: "spi_buffers_ok tx rx (unat len)"
  shows "spi_async_at cb ctx tx rx len r sc log slave (Suc i) (spi_delay sc (Suc i)) (freertos_spi_irq_handler B call m)"
proof -
  let ?r = "spi_received rx 0 (map (spi_answer sc) [0..<Suc i]) r"
  obtain tr d where v: "view d = (view (dev m))\<lparr>v_busy := None, v_rx := spi_answer sc i, v_done := False,
      v_ctrl := spi_control_word (spi_control m) True True\<rparr>"
    and h: "freertos_spi_irq_handler B call m = spi_async_advance B call
      (m\<lparr>dev := d, ram := ?r, trace := tr, spi_async_index := of_nat (Suc i)\<rparr>)"
    using spi_irq_finished [OF at] by blast
  have idle: "v_busy (view d) = None" "bit (v_ctrl (view d)) 0" using v by (simp_all add: spi_control_word_bits)
  have u: "unat (of_nat (Suc i) :: u32) = Suc i" using i unat_u32_less [of len] by (simp add: unat_of_nat del: of_nat_Suc)
  then have lt: "(of_nat (Suc i) :: u32) < len" using i by (simp add: word_less_nat_alt)
  have out: "spi_tx_byte tx (Suc i) ?r = spi_tx_byte tx (Suc i) r"
    by (rule spi_tx_byte_received [OF ok i]) simp
  let ?x = "ucast (spi_tx_byte tx (Suc i) r) :: u32"
  have "freertos_spi_irq_handler B call m = m\<lparr>dev := bus_wr B 0x40030000 ?x d, ram := ?r,
      trace := tr @ [Wr 0x40030000 ?x], spi_async_index := of_nat (Suc i)\<rparr>"
    unfolding h spi_async_advance_def using at lt u out
    by (simp add: spi_async_at_def mach_simps ram_then_dev)
  moreover have "view (bus_wr B 0x40030000 ?x d) = spi_start (spi_tx_byte tx (Suc i) r) (view d)"
    using at_tx [OF idle, of ?x] by simp
  ultimately show ?thesis using at v i idle
    by (simp add: spi_async_at_def spi_start_def spi_delay_def spi_answer_def drop_Suc tl_drop)
qed

lemma spi_irq_last_byte:
  assumes at: "spi_async_at cb ctx tx rx len r sc log slave i 0 m" and i: "Suc i = unat len"
  shows "\<exists>m'. freertos_spi_irq_handler B call m = call cb SPI_OK ctx m' \<and>
    spi_async_end tx rx len r sc log slave m'"
proof -
  let ?r = "spi_received rx 0 (map (spi_answer sc) [0..<unat len]) r"
  obtain tr d where v: "view d = (view (dev m))\<lparr>v_busy := None, v_rx := spi_answer sc i, v_done := False,
      v_ctrl := spi_control_word (spi_control m) True True\<rparr>"
    and h: "freertos_spi_irq_handler B call m = spi_async_advance B call
      (m\<lparr>dev := d, ram := ?r, trace := tr, spi_async_index := of_nat (unat len)\<rparr>)"
    using spi_irq_finished [OF at] unfolding i by blast
  let ?c = "spi_control_word (spi_control m) False False"
  let ?d = "bus_wr B 0x40030010 ?c (bus_wr B 0x40030014 0xf d)"
  have idle: "v_busy (view d) = None" using v by simp
  then have v1: "view (bus_wr B 0x40030014 0xf d) = (view d)\<lparr>v_ss := 0xf\<rparr>" by (simp add: at_regs)
  have v2: "view ?d = (view d)\<lparr>v_ss := 0xf, v_ctrl := ?c\<rparr>"
    using at_control(2) [of "bus_wr B 0x40030014 0xf d" "spi_control m" False False] v1 idle v by simp
  let ?m = "m\<lparr>ram := ?r, spi_async_index := len, spi_async_active := False, dev := ?d,
      trace := tr @ [Wr 0x40030014 0xf, Wr 0x40030010 ?c], spi_async_callback := None, spi_async_context := 0\<rparr>"
  have "freertos_spi_irq_handler B call m = call cb SPI_OK ctx ?m"
    unfolding h spi_async_advance_def using at
    by (simp add: spi_async_at_def mach_simps spi_write_control_eq ram_then_dev Let_def)
  moreover have "spi_async_end tx rx len r sc log slave ?m"
    using at v2 v i idle by (simp add: spi_async_end_def spi_async_at_def ready_def spi_control_word_bits)
  ultimately show ?thesis by blast
qed

lemma spi_irq_run:
  assumes ok: "spi_buffers_ok tx rx (unat len)"
    and at: "spi_async_at cb ctx tx rx len r sc log slave 0 (spi_delay sc 0) m"
  shows "(\<exists>m'. (freertos_spi_irq_handler B call ^^ byte_irqs (spi_delay sc) 0 (unat len)) m = call cb SPI_OK ctx m' \<and>
      spi_async_end tx rx len r sc log slave m') \<and>
    (\<forall>j < byte_irqs (spi_delay sc) 0 (unat len). spi_async_active ((freertos_spi_irq_handler B call ^^ j) m))"
proof -
  let ?At = "spi_async_at cb ctx tx rx len r sc log slave" and ?h = "freertos_spi_irq_handler B call"
  have pos: "0 < unat len" using at by (auto simp: spi_async_at_def)
  note run = byte_interrupts [of ?At ?h "unat len" "spi_delay sc", OF spi_irq_early spi_irq_next_byte [OF _ _ ok] pos at]
  then obtain s where "(?h ^^ byte_irqs (spi_delay sc) 0 (unat len)) m = ?h s" "?At (unat len - 1) 0 s" by blast
  then have "\<exists>m'. (?h ^^ byte_irqs (spi_delay sc) 0 (unat len)) m = call cb SPI_OK ctx m' \<and>
      spi_async_end tx rx len r sc log slave m'"
    using spi_irq_last_byte [of cb ctx tx rx len r sc log slave "unat len - 1" s call] pos by simp
  moreover have "spi_async_active s" if "?At i k s" for i k s using that by (simp add: spi_async_at_def)
  ultimately show ?thesis using run by blast
qed

text \<open>Starting the transfer puts the first byte on its way.\<close>

lemma spi_start_async_at:
  assumes "len \<noteq> 0" "\<not> spi_async_active m" "slave < 4" "ready m" "\<not> bit (spi_control m) 1"
  shows "\<exists>m'. freertos_spi_start_async B slave tx rx len (Some cb) ctx m = (SPI_OK, m') \<and>
    spi_async_at cb ctx tx rx len (ram m) (v_script (view (dev m))) (v_sent (view (dev m))) slave
      0 (spi_delay (v_script (view (dev m))) 0) m'"
proof -
  obtain tr d where sel: "freertos_spi_select B slave m = (SPI_OK, m\<lparr>dev := d, trace := tr\<rparr>)"
    and v: "view d = (view (dev m))\<lparr>v_ss := spi_select_word slave\<rparr>"
    using freertos_spi_select_eq [OF assms(3,4)] by blast
  let ?c = "spi_control_word (spi_control m) True True"
  let ?d1 = "bus_wr B 0x40030010 ?c d" and ?x = "ucast (spi_tx_byte tx 0 (ram m)) :: u32"
  have "v_busy (view d) = None" using v assms(4) by (simp add: ready_def)
  then have v1: "view ?d1 = (view d)\<lparr>v_ctrl := ?c, v_done := False\<rparr>" using at_control(1) by simp
  then have idle: "v_busy (view ?d1) = None" "bit (v_ctrl (view ?d1)) 0"
    using v assms(4) by (simp_all add: ready_def spi_control_word_bits)
  have v2: "view (bus_wr B 0x40030000 ?x ?d1) = spi_start (spi_tx_byte tx 0 (ram m)) (view ?d1)"
    using at_tx [OF idle, of ?x] by simp
  obtain m' where m': "freertos_spi_start_async B slave tx rx len (Some cb) ctx m = (SPI_OK, m')"
    "dev m' = bus_wr B 0x40030000 ?x ?d1" "ram m' = ram m" "spi_control m' = spi_control m"
    "spi_async_active m'" "spi_async_tx m' = tx" "spi_async_rx m' = rx" "spi_async_length m' = len"
    "spi_async_index m' = 0" "spi_async_callback m' = Some cb" "spi_async_context m' = ctx"
    using assms(1,2) by (simp add: freertos_spi_start_async_def sel mach_simps spi_write_control_eq)
  have pos: "0 < unat len" using assms(1) by (simp add: unat_gt_0)
  show ?thesis using m' v2 v1 v assms(5) pos
    by (intro exI [of _ m'])
      (simp add: spi_async_at_def spi_start_def spi_delay_def spi_answer_def spi_control_word_bits drop_Suc)
qed

end

section \<open>The driver on the SPI master of the SoC\<close>

lemma apb_ready: "apb_spi.ready m \<longleftrightarrow> \<not> s_busy (dev m) \<and> bit (s_ctrl (dev m)) 0"
  by (simp add: apb_spi.ready_def spi_look_def)

lemma spi_look_sel: "v_script (spi_look s) = s_script s" "v_sent (spi_look s) = s_sent s" "v_ss (spi_look s) = s_ss s"
  "v_ctrl (spi_look s) = s_ctrl s"
  by (simp_all add: spi_look_def)

text \<open>
  C21. The polled transfer, on an idle port and with buffers that do not make an answer overwrite a byte still to be
  sent (the same buffer for both is fine): when no byte takes longer than the timeout, exactly the \<open>len\<close>
  bytes go, in order, to the chosen slave alone, the answers are in the receive buffer and nowhere else, and
  the slave is released; when byte \<open>k\<close> is the first to be late, the result is the timeout, with the answers
  before \<open>k\<close> stored and the slave released too.
\<close>

theorem freertos_spi_transfer_correct:
  assumes "len \<noteq> 0" "\<not> spi_async_active m" "slave < 4" "\<not> s_busy (dev m)" "bit (s_ctrl (dev m)) 0"
    "spi_buffers_ok tx rx (unat len)" "freertos_spi_transfer_buf spi_bus slave tx rx len t m = (result, m')"
  shows "s_ss (dev m') = 0xf \<and>
    ((\<forall>j < unat len. spi_delay (s_script (dev m)) j \<le> unat t) \<longrightarrow>
       result = SPI_OK \<and>
       ram m' = spi_received rx 0 (map (spi_answer (s_script (dev m))) [0..<unat len]) (ram m) \<and>
       s_sent (dev m') = s_sent (dev m) @
         map (\<lambda>j. (spi_select_word slave, spi_tx_byte tx j (ram m))) [0..<unat len]) \<and>
    (\<forall>k < unat len. (\<forall>j<k. spi_delay (s_script (dev m)) j \<le> unat t) \<and> unat t < spi_delay (s_script (dev m)) k \<longrightarrow>
       result = SPI_ETIMEOUT \<and>
       ram m' = spi_received rx 0 (map (spi_answer (s_script (dev m))) [0..<k]) (ram m) \<and>
       s_sent (dev m') = s_sent (dev m) @
         map (\<lambda>j. (spi_select_word slave, spi_tx_byte tx j (ram m))) [0..<Suc k])"
proof -
  have rdy: "apb_spi.ready m" using assms(4,5) by (simp add: apb_ready)
  note ok = apb_spi.spi_transfer_buf_ok [OF assms(1-3) rdy assms(6), of t, unfolded spi_look_sel assms(7)]
  note late = apb_spi.spi_transfer_buf_late [OF assms(1-3) rdy assms(6), of _ t, unfolded spi_look_sel assms(7)]
  have "s_ss (dev m') = 0xf"
  proof (rule first_failure [of "unat len" "\<lambda>j. spi_delay (s_script (dev m)) j \<le> unat t"])
    assume "\<forall>j<unat len. spi_delay (s_script (dev m)) j \<le> unat t"
    then show ?thesis using ok by auto
  next
    fix k assume "k < unat len" "\<forall>j<k. spi_delay (s_script (dev m)) j \<le> unat t" "\<not> spi_delay (s_script (dev m)) k \<le> unat t"
    then show ?thesis using late [of k] by (auto simp: not_le)
  qed
  moreover have "result = SPI_OK \<and>
       ram m' = spi_received rx 0 (map (spi_answer (s_script (dev m))) [0..<unat len]) (ram m) \<and>
       s_sent (dev m') = s_sent (dev m) @
         map (\<lambda>j. (spi_select_word slave, spi_tx_byte tx j (ram m))) [0..<unat len]"
    if "\<forall>j < unat len. spi_delay (s_script (dev m)) j \<le> unat t"
    using ok that by auto
  moreover have "result = SPI_ETIMEOUT \<and>
       ram m' = spi_received rx 0 (map (spi_answer (s_script (dev m))) [0..<k]) (ram m) \<and>
       s_sent (dev m') = s_sent (dev m) @
         map (\<lambda>j. (spi_select_word slave, spi_tx_byte tx j (ram m))) [0..<Suc k]"
    if "k < unat len" "\<forall>j<k. spi_delay (s_script (dev m)) j \<le> unat t" "unat t < spi_delay (s_script (dev m)) k" for k
    using late [of k] that by auto
  ultimately show ?thesis by blast
qed

definition spi_boot :: "(nat \<times> u8) list \<Rightarrow> (u32 \<Rightarrow> u8) \<Rightarrow> (spi_apb, unit) freertos_spi" where
  "spi_boot sc r = \<lparr>dev = spi_reset sc, csrs = (\<lambda>_. 0), ram = r, trace = [], spi_control = 0,
     spi_async_active = False, spi_async_tx = 0, spi_async_rx = 0, spi_async_length = 0, spi_async_index = 0,
     spi_async_callback = None, spi_async_context = 0\<rparr>"

lemma spi_boot_sel [simp]: "spi_async_active (spi_boot sc r) = False" "dev (spi_boot sc r) = spi_reset sc"
  "ram (spi_boot sc r) = r" "spi_control (spi_boot sc r) = 0" "s_busy (spi_reset sc) = False" "s_ctrl (spi_reset sc) = 1"
  "s_script (spi_reset sc) = sc" "s_sent (spi_reset sc) = []"
  by (simp_all add: spi_boot_def spi_reset_def)

theorem freertos_spi_transfer_correct_witness:
  "fst (freertos_spi_transfer_buf spi_bus 1 0x100 0x100 2 10 (spi_boot [(3, 0x11), (11, 0x22)] (\<lambda>_. 7))) = SPI_ETIMEOUT"
proof -
  let ?m = "spi_boot [(3, 0x11), (11, 0x22)] (\<lambda>_. 7)"
  obtain result m' where run: "freertos_spi_transfer_buf spi_bus 1 0x100 0x100 2 10 ?m = (result, m')" by fastforce
  have "spi_buffers_ok 0x100 0x100 (unat (2 :: u32))" by (rule spi_buffers_same) simp
  from freertos_spi_transfer_correct [OF _ _ _ _ _ this run] show ?thesis
    by (auto simp: run spi_delay_def less_Suc_eq dest: spec [of _ 1])
qed

text \<open>
  C22. The interrupt-driven transfer, started on an idle port: it takes exactly as many interrupts as the bytes
  take, stays active until then, and the last one calls the callback once, with \<open>SPI_OK\<close>, in a state where
  the same bytes have gone to the same slave and the same answers are in memory as after the polled transfer,
  the slave is released, the SPI interrupt is off and the driver is free for the next transfer.
\<close>

theorem freertos_spi_async_correct:
  assumes "len \<noteq> 0" "\<not> spi_async_active m" "slave < 4" "\<not> s_busy (dev m)" "bit (s_ctrl (dev m)) 0"
    "\<not> bit (spi_control m) 1" "spi_buffers_ok tx rx (unat len)"
    "freertos_spi_start_async spi_bus slave tx rx len (Some cb) ctx m = (result, m0)"
    "n = (\<Sum>j \<leftarrow> [0..<unat len]. Suc (spi_delay (s_script (dev m)) j))"
  shows "result = SPI_OK \<and>
    (\<forall>j<n. spi_async_active ((freertos_spi_irq_handler spi_bus call ^^ j) m0)) \<and>
    (\<exists>m'. (freertos_spi_irq_handler spi_bus call ^^ n) m0 = call cb SPI_OK ctx m' \<and>
      \<not> spi_async_active m' \<and> spi_async_callback m' = None \<and> s_ss (dev m') = 0xf \<and> \<not> bit (s_ctrl (dev m')) 1 \<and>
      ram m' = spi_received rx 0 (map (spi_answer (s_script (dev m))) [0..<unat len]) (ram m) \<and>
      s_sent (dev m') = s_sent (dev m) @
        map (\<lambda>j. (spi_select_word slave, spi_tx_byte tx j (ram m))) [0..<unat len])"
proof -
  have rdy: "apb_spi.ready m" using assms(4,5) by (simp add: apb_ready)
  have n: "n = byte_irqs (spi_delay (s_script (dev m))) 0 (unat len)" using assms(9) by (simp add: byte_irqs_def)
  have r: "result = SPI_OK" and at0: "apb_spi.spi_async_at cb ctx tx rx len (ram m) (s_script (dev m)) (s_sent (dev m)) slave
      0 (spi_delay (s_script (dev m)) 0) m0"
    using apb_spi.spi_start_async_at [OF assms(1-3) rdy assms(6), of tx rx cb ctx] assms(8)
    by (simp_all add: spi_look_sel)
  from apb_spi.spi_irq_run [OF assms(7) at0, of call] r show ?thesis
    unfolding n apb_spi.spi_async_end_def spi_look_sel by blast
qed

theorem freertos_spi_async_correct_witness:
  "\<exists>m'. (freertos_spi_irq_handler spi_bus (\<lambda>_ _ _ m. m) ^^ 6)
      (snd (freertos_spi_start_async spi_bus 2 0 0x40 2 (Some ()) 9 (spi_boot [(3, 0x11), (1, 0x22)] (\<lambda>_. 7)))) = m' \<and>
    ram m' 0x41 = 0x22 \<and> s_sent (dev m') = [(0xb, 0xff), (0xb, 0xff)]"
proof -
  let ?m = "spi_boot [(3, 0x11), (1, 0x22)] (\<lambda>_. 7)"
  obtain result m0 where run: "freertos_spi_start_async spi_bus 2 0 0x40 2 (Some ()) 9 ?m = (result, m0)" by fastforce
  have "spi_buffers_ok 0 0x40 (unat (2 :: u32))" by (simp add: spi_buffers_ok_def)
  moreover have two: "[0..<2] = [0, 1 :: nat]" by (simp add: upt_rec)
  ultimately show ?thesis using freertos_spi_async_correct [OF _ _ _ _ _ _ _ run, of 6 "\<lambda>_ _ _ m. m"]
    unfolding run by (simp add: spi_delay_def spi_answer_def spi_tx_byte_def spi_select_word_def)
qed

text \<open>
  \<open>spi_init\<close> refuses exactly the control words with bits outside the mode, touching nothing; otherwise it
  leaves the driver and the port as the two transfers need them, with the mode stored, whatever they were.
\<close>

theorem freertos_spi_init_establishes:
  assumes "freertos_spi_init spi_bus divisor control m = (result, m')" "\<not> s_busy (dev m)"
  shows "(result = SPI_EINVAL \<longleftrightarrow> control AND NOT SPI_MODE_MASK \<noteq> 0) \<and> (result = SPI_EINVAL \<longrightarrow> m' = m) \<and>
    (result \<noteq> SPI_EINVAL \<longrightarrow> result = SPI_OK \<and> \<not> spi_async_active m' \<and> spi_async_callback m' = None \<and>
       \<not> s_busy (dev m') \<and> bit (s_ctrl (dev m')) 0 \<and> \<not> bit (spi_control m') 1 \<and> spi_control m' = control \<and>
       s_ss (dev m') = 0xf \<and> s_clk_div (dev m') \<noteq> 0)"
proof (cases "control AND NOT SPI_MODE_MASK = 0")
  case True
  then have c: "control AND SPI_MODE_MASK = control"
    by (simp add: bit_eq_iff bit_simps) blast
  moreover have "\<not> bit (control AND SPI_MODE_MASK) 1" by (simp add: bit_simps bit_numeral_rec)
  ultimately show ?thesis using True assms
    by (auto simp: freertos_spi_init_def freertos_plic_init_source_def mach_simps spi_write_control_eq Let_def
        spi_bus_sel spi_wr_def spi_rd_def spi_control_word_bits split: if_splits)
qed (use assms in \<open>simp add: freertos_spi_init_def\<close>)

theorem freertos_spi_init_establishes_witness:
  "\<exists>m'. freertos_spi_init spi_bus 0 0x24 (spi_boot [] (\<lambda>_. 0)) = (SPI_OK, m') \<and> spi_control m' = 0x24"
proof -
  obtain result m' where run: "freertos_spi_init spi_bus 0 0x24 (spi_boot [] (\<lambda>_. 0)) = (result, m')" by fastforce
  from freertos_spi_init_establishes [OF this] show ?thesis by (simp add: run)
qed

text \<open>The transfer loop times out exactly when a byte does, whatever the buffers.\<close>

context spi_port
begin

lemma spi_transfer_loop_result:
  assumes "ready m"
  shows "fst (spi_transfer_loop B tx rx t i k m) =
    (if \<forall>j<k. spi_delay (v_script (view (dev m))) j \<le> unat t then SPI_OK else SPI_ETIMEOUT)"
  using assms
proof (induction k arbitrary: i m)
  case (Suc k)
  let ?sc = "v_script (view (dev m))"
  have all: "(\<forall>j<Suc k. spi_delay ?sc j \<le> unat t) \<longleftrightarrow> spi_delay ?sc 0 \<le> unat t \<and> (\<forall>j<k. spi_delay ?sc (Suc j) \<le> unat t)"
    by (auto simp: less_Suc_eq_0_disj)
  show ?case
  proof (cases "spi_delay ?sc 0 \<le> unat t")
    case True
    obtain tr d where byte: "spi_transfer_byte B tx rx t i m =
        (SPI_OK, m\<lparr>dev := d, ram := spi_received rx i [spi_answer ?sc 0] (ram m), trace := tr\<rparr>)"
      and rdy: "ready (m\<lparr>dev := d\<rparr>)" and sc: "v_script (view d) = tl ?sc"
      using spi_transfer_byte_ok [OF Suc.prems True, of tx rx i] by blast
    let ?m1 = "m\<lparr>dev := d, ram := spi_received rx i [spi_answer ?sc 0] (ram m), trace := tr\<rparr>"
    have "ready ?m1" using rdy by (simp add: ready_def)
    from Suc.IH [OF this, of "Suc i"] show ?thesis using True sc unfolding all by (simp add: byte)
  next
    case False
    then obtain tr d where "spi_transfer_byte B tx rx t i m = (SPI_ETIMEOUT, m\<lparr>dev := d, trace := tr\<rparr>)"
      using spi_transfer_byte_timeout [OF Suc.prems, of t tx rx i] by (auto simp: not_le)
    then show ?thesis using False unfolding all by simp
  qed
qed simp

lemma spi_transfer_buf_result:
  assumes "ready m" "len \<noteq> 0" "\<not> spi_async_active m" "slave < 4"
  shows "fst (freertos_spi_transfer_buf B slave tx rx len t m) =
    (if \<forall>j<unat len. spi_delay (v_script (view (dev m))) j \<le> unat t then SPI_OK else SPI_ETIMEOUT)"
proof -
  obtain tr d where sel: "freertos_spi_select B slave m = (SPI_OK, m\<lparr>dev := d, trace := tr\<rparr>)"
    and d: "ready (m\<lparr>dev := d\<rparr>)" "v_script (view d) = v_script (view (dev m))"
    using freertos_spi_select_eq [OF assms(4,1)] assms(1) by (auto simp: ready_def)
  have "ready (m\<lparr>dev := d, trace := tr\<rparr>)" using d(1) by (simp add: ready_def)
  from spi_transfer_loop_result [OF this, of tx rx t 0 "unat len"] show ?thesis
    using assms(2,3) d(2) by (auto simp: freertos_spi_transfer_buf_def sel Let_def split: prod.splits if_splits)
qed

end

text \<open>
  The verdicts of the two transfers, on an idle SPI port of the SoC with any slave: a transfer that is empty
  or for a slave that does not exist is invalid, one while another is under way is busy, every other polled transfer
  ends with the timeout if some byte takes more polls than the timeout allows and with \<open>SPI_OK\<close> if none does, and
  every other interrupt-driven one has been started; a refused call has changed nothing.
\<close>

theorem freertos_spi_verdicts:
  assumes "\<not> s_busy (dev m)" "bit (s_ctrl (dev m)) 0"
    "r = freertos_spi_transfer_buf spi_bus slave tx rx len t m"
    "a = freertos_spi_start_async spi_bus slave tx rx len callback ctx m"
  shows "fst r =
      (if len = 0 then SPI_EINVAL else if spi_async_active m then SPI_EBUSY else if 4 \<le> slave then SPI_EINVAL
       else if \<exists>j<unat len. unat t < spi_delay (s_script (dev m)) j then SPI_ETIMEOUT else SPI_OK) \<and>
    fst a =
      (if len = 0 \<or> callback = None then SPI_EINVAL else if spi_async_active m then SPI_EBUSY
       else if 4 \<le> slave then SPI_EINVAL else SPI_OK) \<and>
    (fst r \<in> {SPI_EINVAL, SPI_EBUSY} \<longrightarrow> snd r = m) \<and> (fst a \<noteq> SPI_OK \<longrightarrow> snd a = m)"
proof (cases "len = 0 \<or> spi_async_active m \<or> 4 \<le> slave")
  case True
  then show ?thesis unfolding assms(3,4)
    by (auto simp: freertos_spi_transfer_buf_def freertos_spi_start_async_def freertos_spi_select_def)
next
  case False
  then have l: "len \<noteq> 0" "\<not> spi_async_active m" "slave < 4" by auto
  have "apb_spi.ready m" using assms(1,2) by (simp add: apb_ready)
  note x = apb_spi.spi_transfer_buf_result [OF this l, of tx rx t, folded assms(3)]
  have r: "fst r = (if \<exists>j<unat len. unat t < spi_delay (s_script (dev m)) j then SPI_ETIMEOUT else SPI_OK)"
    using x by (auto simp: spi_look_def not_le split: if_splits)
  have "fst a = (if callback = None then SPI_EINVAL else SPI_OK)" "callback = None \<longrightarrow> snd a = m"
    using l unfolding assms(4) by (auto simp: freertos_spi_start_async_def freertos_spi_select_def Let_def)
  then show ?thesis using r l by auto
qed

theorem freertos_spi_verdicts_witness:
  "fst (freertos_spi_transfer_buf spi_bus 2 0 0 2 10 (spi_boot [(3, 0x11), (10, 0x22)] (\<lambda>_. 7))) = SPI_OK \<and>
   fst (freertos_spi_transfer_buf spi_bus 2 0 0 2 10 (spi_boot [(3, 0x11), (11, 0x22)] (\<lambda>_. 7))) = SPI_ETIMEOUT"
proof -
  let ?m = "\<lambda>d. spi_boot [(3, 0x11), (d, 0x22)] (\<lambda>_. 7)"
  have "fst (freertos_spi_transfer_buf spi_bus 2 0 0 2 10 (?m d)) =
    (if \<exists>j<2. 10 < spi_delay [(3, 0x11), (d, 0x22)] j then SPI_ETIMEOUT else SPI_OK)" for d
    using freertos_spi_verdicts [OF _ _ refl refl, of "?m d" 2 0 0 2 10 None 0] by simp
  then show ?thesis by (auto simp: spi_delay_def less_Suc_eq numeral_2_eq_2)
qed

end
