(* ===== verification/Zephyr_Spi.thy ===== *)
theory Zephyr_Spi
  imports Freertos_Spi
begin

text \<open>
  The Zephyr SPI driver, \<^verbatim>\<open>sw/rtos/zephyr/soc/riscv/eriscv_mcu/drivers/spi.c\<close>: transfers over sets of
  buffers, polled and interrupt-driven. A buffer is an address and a length, a set a list of buffers,
  \<open>None\<close> the null pointer. What the kernel's macros read out of \<open>config->operation\<close> are the fields of
  \<open>spi_config\<close>. A division by zero has no result: \<open>None\<close>.
\<close>

section \<open>Registers and state\<close>

abbreviation (input) ERISCV_SPI_TXDATA :: u32 where "ERISCV_SPI_TXDATA \<equiv> 0x00"
abbreviation (input) ERISCV_SPI_RXDATA :: u32 where "ERISCV_SPI_RXDATA \<equiv> 0x04"
abbreviation (input) ERISCV_SPI_STATUS :: u32 where "ERISCV_SPI_STATUS \<equiv> 0x08"
abbreviation (input) ERISCV_SPI_CLKDIV :: u32 where "ERISCV_SPI_CLKDIV \<equiv> 0x0c"
abbreviation (input) ERISCV_SPI_CTRL :: u32 where "ERISCV_SPI_CTRL \<equiv> 0x10"
abbreviation (input) ERISCV_SPI_SS :: u32 where "ERISCV_SPI_SS \<equiv> 0x14"
abbreviation (input) ERISCV_SPI_CTRL_ENABLE :: u32 where "ERISCV_SPI_CTRL_ENABLE \<equiv> 1"
abbreviation (input) ERISCV_SPI_CTRL_IRQ :: u32 where "ERISCV_SPI_CTRL_IRQ \<equiv> 2"
abbreviation (input) ERISCV_SPI_CTRL_CPOL :: u32 where "ERISCV_SPI_CTRL_CPOL \<equiv> 4"
abbreviation (input) ERISCV_SPI_CTRL_CPHA :: u32 where "ERISCV_SPI_CTRL_CPHA \<equiv> 8"
abbreviation (input) ERISCV_SPI_CTRL_DONE :: u32 where "ERISCV_SPI_CTRL_DONE \<equiv> 0x10"
abbreviation (input) ERISCV_SPI_CTRL_LSB :: u32 where "ERISCV_SPI_CTRL_LSB \<equiv> 0x20"
abbreviation (input) ERISCV_SPI_STATUS_BUSY :: u32 where "ERISCV_SPI_STATUS_BUSY \<equiv> 2"
abbreviation (input) ERISCV_SPI_STATUS_DONE :: u32 where "ERISCV_SPI_STATUS_DONE \<equiv> 8"

record spi_buf =
  buf :: u32
  buf_len :: u32

type_synonym spi_buf_set = "spi_buf list option"

record spi_config =
  op_master :: bool          \<comment> \<open>\<open>SPI_OP_MODE_GET(operation) == SPI_OP_MODE_MASTER\<close>\<close>
  op_word_size :: u32        \<comment> \<open>\<open>SPI_WORD_SIZE_GET(operation)\<close>\<close>
  op_loop :: bool            \<comment> \<open>\<open>SPI_MODE_LOOP\<close> or \<open>SPI_CS_ACTIVE_HIGH\<close>\<close>
  op_cpol :: bool
  op_cpha :: bool
  op_lsb :: bool
  cs_is_gpio :: bool
  frequency :: u32
  slave_no :: u32

record ('d, 'cb) eriscv_spi = "'d mach" +
  spi_base :: u32
  tx_bufs :: spi_buf_set
  rx_bufs :: spi_buf_set
  data_len :: u32
  data_index :: u32
  data_ctrl :: u32
  spi_callback :: "'cb option"
  spi_userdata :: u32
  spi_active :: bool

section \<open>Buffers and configuration\<close>

definition eriscv_spi_validate :: "spi_config \<Rightarrow> errno + unit" where
  "eriscv_spi_validate config =
    (if \<not> op_master config \<or> op_word_size config \<noteq> 8 \<or> op_loop config \<or> cs_is_gpio config \<or>
        frequency config = 0 \<or> slave_no config \<ge> 4
     then Inl ENOTSUP else Inr ())"

text \<open>
  The code does not test \<open>buffers[i].buf\<close>: a null \<open>buf\<close> with a length, the kernel's way to say that there is nothing to
  send or to store there, is dereferenced. Here address 0 is an address like any other.
\<close>

fun spi_tx_walk :: "spi_buf list \<Rightarrow> u32 \<Rightarrow> (u32 \<Rightarrow> u8) \<Rightarrow> u8" where
  "spi_tx_walk [] off r = 0xff"
| "spi_tx_walk (b # bs) off r =
    (if off < buf_len b then r (buf b + off) else spi_tx_walk bs (off - buf_len b) r)"

definition eriscv_spi_tx_byte :: "spi_buf_set \<Rightarrow> u32 \<Rightarrow> (u32 \<Rightarrow> u8) \<Rightarrow> u8" where
  "eriscv_spi_tx_byte tx index r = (case tx of None \<Rightarrow> 0xff | Some bs \<Rightarrow> spi_tx_walk bs index r)"

fun spi_rx_walk :: "spi_buf list \<Rightarrow> u32 \<Rightarrow> u8 \<Rightarrow> (u32 \<Rightarrow> u8) \<Rightarrow> (u32 \<Rightarrow> u8)" where
  "spi_rx_walk [] off v r = r"
| "spi_rx_walk (b # bs) off v r =
    (if off < buf_len b then r(buf b + off := v) else spi_rx_walk bs (off - buf_len b) v r)"

definition eriscv_spi_rx_byte :: "spi_buf_set \<Rightarrow> u32 \<Rightarrow> u8 \<Rightarrow> (u32 \<Rightarrow> u8) \<Rightarrow> (u32 \<Rightarrow> u8)" where
  "eriscv_spi_rx_byte rx index v r = (case rx of None \<Rightarrow> r | Some bs \<Rightarrow> spi_rx_walk bs index v r)"

definition eriscv_spi_len :: "spi_buf_set \<Rightarrow> u32" where
  "eriscv_spi_len bufs = (case bufs of None \<Rightarrow> 0 | Some bs \<Rightarrow> foldl (\<lambda>n b. n + buf_len b) 0 bs)"

definition eriscv_spi_ctrl :: "spi_config \<Rightarrow> bool \<Rightarrow> u32" where
  "eriscv_spi_ctrl config irq =
    (let ctrl = ERISCV_SPI_CTRL_ENABLE;
         ctrl = (if irq then ctrl OR ERISCV_SPI_CTRL_IRQ else ctrl);
         ctrl = (if op_cpol config then ctrl OR ERISCV_SPI_CTRL_CPOL else ctrl);
         ctrl = (if op_cpha config then ctrl OR ERISCV_SPI_CTRL_CPHA else ctrl)
     in if op_lsb config then ctrl OR ERISCV_SPI_CTRL_LSB else ctrl)"

text \<open>\<open>DIV_ROUND_UP(n, d)\<close> is \<open>(n + d - 1) / d\<close>; the arithmetic is that of 32-bit words.\<close>

definition eriscv_spi_divisor :: "u32 \<Rightarrow> spi_config \<Rightarrow> u32 option" where
  "eriscv_spi_divisor hz config =
    (let d = 2 * frequency config
     in if d = 0 then None else Some (max ((hz + d - 1) div d) 1))"

section \<open>Transfers\<close>

fun spi_poll_loop :: "'d bus \<Rightarrow> nat \<Rightarrow> ('d, 'cb, 'e) eriscv_spi_scheme \<Rightarrow> bool \<times> ('d, 'cb, 'e) eriscv_spi_scheme" where
  "spi_poll_loop B timeout m =
    (let (status, m) = eriscv_mcu_mmio_read32 B (spi_base m + ERISCV_SPI_STATUS) m
     in if status AND ERISCV_SPI_STATUS_BUSY = 0 then (True, m)
        else case timeout of 0 \<Rightarrow> (False, m) | Suc t \<Rightarrow> spi_poll_loop B t m)"

declare spi_poll_loop.simps [simp del]

text \<open>The body of the loop over the bytes; \<open>False\<close> is the return with \<open>-ETIMEDOUT\<close>.\<close>

definition spi_xfer_byte ::
    "'d bus \<Rightarrow> spi_buf_set \<Rightarrow> spi_buf_set \<Rightarrow> u32 \<Rightarrow> nat \<Rightarrow> ('d, 'cb, 'e) eriscv_spi_scheme \<Rightarrow> bool \<times> ('d, 'cb, 'e) eriscv_spi_scheme" where
  "spi_xfer_byte B tx rx divisor i m =
    (let timeout = divisor * 32 + 1000;
         m = eriscv_mcu_mmio_write32 B (spi_base m + ERISCV_SPI_TXDATA)
               (ucast (eriscv_spi_tx_byte tx (of_nat i) (ram m))) m;
         (ok, m) = spi_poll_loop B (unat timeout) m
     in if \<not> ok then (False, eriscv_mcu_mmio_write32 B (spi_base m + ERISCV_SPI_SS) 0xf m)
        else
          let (v, m) = eriscv_mcu_mmio_read32 B (spi_base m + ERISCV_SPI_RXDATA) m
          in (True, m\<lparr>ram := eriscv_spi_rx_byte rx (of_nat i) (ucast v) (ram m)\<rparr>))"

fun spi_xfer_loop ::
    "'d bus \<Rightarrow> spi_buf_set \<Rightarrow> spi_buf_set \<Rightarrow> u32 \<Rightarrow> nat \<Rightarrow> nat \<Rightarrow> ('d, 'cb, 'e) eriscv_spi_scheme \<Rightarrow> bool \<times> ('d, 'cb, 'e) eriscv_spi_scheme" where
  "spi_xfer_loop B tx rx divisor i 0 m = (True, m)"
| "spi_xfer_loop B tx rx divisor i (Suc k) m =
    (let (ok, m) = spi_xfer_byte B tx rx divisor i m
     in if \<not> ok then (False, m) else spi_xfer_loop B tx rx divisor (Suc i) k m)"

definition eriscv_spi_transceive ::
    "'d bus \<Rightarrow> ('d, 'cb, 'e) eriscv_spi_scheme zephyr \<Rightarrow> u32 \<Rightarrow> spi_config \<Rightarrow> spi_buf_set \<Rightarrow> spi_buf_set \<Rightarrow>
     ('d, 'cb, 'e) eriscv_spi_scheme \<Rightarrow> ((errno + unit) \<times> ('d, 'cb, 'e) eriscv_spi_scheme) option" where
  "eriscv_spi_transceive B K hz config tx rx m =
    (let len = max (eriscv_spi_len tx) (eriscv_spi_len rx)
     in if isl (eriscv_spi_validate config) \<or> len = 0 then Some (Inl EINVAL, m)
        else
          let (key, m) = irq_lock K m
          in if spi_active m then Some (Inl EBUSY, irq_unlock K key m)
             else
               let m = irq_unlock K key m
               in case eriscv_spi_divisor hz config of
                    None \<Rightarrow> None
                  | Some divisor \<Rightarrow>
                     (let ctrl = eriscv_spi_ctrl config False;
                          m = eriscv_mcu_mmio_write32 B (spi_base m + ERISCV_SPI_CLKDIV) divisor m;
                          m = eriscv_mcu_mmio_write32 B (spi_base m + ERISCV_SPI_CTRL) ctrl m;
                          m = eriscv_mcu_mmio_write32 B (spi_base m + ERISCV_SPI_SS)
                                (NOT (BIT (ucast (slave_no config))) AND 0xf) m;
                          (ok, m) = spi_xfer_loop B tx rx divisor 0 (unat len) m
                      in if \<not> ok then Some (Inl ETIMEDOUT, m)
                         else Some (Inr (), eriscv_mcu_mmio_write32 B (spi_base m + ERISCV_SPI_SS) 0xf m)))"

definition eriscv_spi_complete ::
    "'d bus \<Rightarrow> ('cb \<Rightarrow> int \<Rightarrow> u32 \<Rightarrow> ('d, 'cb, 'e) eriscv_spi_scheme \<Rightarrow> ('d, 'cb, 'e) eriscv_spi_scheme) \<Rightarrow> int \<Rightarrow>
     ('d, 'cb, 'e) eriscv_spi_scheme \<Rightarrow> ('d, 'cb, 'e) eriscv_spi_scheme" where
  "eriscv_spi_complete B call result m =
    (let callback = spi_callback m;
         userdata = spi_userdata m;
         m = eriscv_mcu_mmio_write32 B (spi_base m + ERISCV_SPI_SS) 0xf m;
         m = m\<lparr>spi_active := False, spi_callback := None, spi_userdata := 0\<rparr>
     in case callback of None \<Rightarrow> m | Some cb \<Rightarrow> call cb result userdata m)"

definition eriscv_spi_isr ::
    "'d bus \<Rightarrow> ('cb \<Rightarrow> int \<Rightarrow> u32 \<Rightarrow> ('d, 'cb, 'e) eriscv_spi_scheme \<Rightarrow> ('d, 'cb, 'e) eriscv_spi_scheme) \<Rightarrow>
     ('d, 'cb, 'e) eriscv_spi_scheme \<Rightarrow> ('d, 'cb, 'e) eriscv_spi_scheme" where
  "eriscv_spi_isr B call m =
    (if \<not> spi_active m then m
     else
       let (status, m) = eriscv_mcu_mmio_read32 B (spi_base m + ERISCV_SPI_STATUS) m
       in if status AND ERISCV_SPI_STATUS_DONE = 0 then m
          else
            let m = eriscv_mcu_mmio_write32 B (spi_base m + ERISCV_SPI_CTRL) (data_ctrl m OR ERISCV_SPI_CTRL_DONE) m;
                (v, m) = eriscv_mcu_mmio_read32 B (spi_base m + ERISCV_SPI_RXDATA) m;
                m = m\<lparr>ram := eriscv_spi_rx_byte (rx_bufs m) (data_index m) (ucast v) (ram m)\<rparr>;
                m = m\<lparr>data_index := data_index m + 1\<rparr>
            in if data_index m = data_len m then eriscv_spi_complete B call 0 m
               else eriscv_mcu_mmio_write32 B (spi_base m + ERISCV_SPI_TXDATA)
                      (ucast (eriscv_spi_tx_byte (tx_bufs m) (data_index m) (ram m))) m)"

definition eriscv_spi_transceive_async ::
    "'d bus \<Rightarrow> ('d, 'cb, 'e) eriscv_spi_scheme zephyr \<Rightarrow> u32 \<Rightarrow> spi_config \<Rightarrow> spi_buf_set \<Rightarrow> spi_buf_set \<Rightarrow> 'cb option \<Rightarrow> u32 \<Rightarrow>
     ('d, 'cb, 'e) eriscv_spi_scheme \<Rightarrow> ((errno + unit) \<times> ('d, 'cb, 'e) eriscv_spi_scheme) option" where
  "eriscv_spi_transceive_async B K hz config tx rx callback userdata m =
    (let len = max (eriscv_spi_len tx) (eriscv_spi_len rx)
     in if isl (eriscv_spi_validate config) \<or> len = 0 then Some (Inl EINVAL, m)
        else
          let (key, m) = irq_lock K m
          in if spi_active m then Some (Inl EBUSY, irq_unlock K key m)
             else
               let m = m\<lparr>tx_bufs := tx, rx_bufs := rx, data_len := len, data_index := 0,
                         data_ctrl := eriscv_spi_ctrl config True, spi_callback := callback,
                         spi_userdata := userdata, spi_active := True\<rparr>
               in case eriscv_spi_divisor hz config of
                    None \<Rightarrow> None
                  | Some divisor \<Rightarrow>
                     (let m = eriscv_mcu_mmio_write32 B (spi_base m + ERISCV_SPI_CLKDIV) divisor m;
                          m = eriscv_mcu_mmio_write32 B (spi_base m + ERISCV_SPI_CTRL) (data_ctrl m) m;
                          m = eriscv_mcu_mmio_write32 B (spi_base m + ERISCV_SPI_SS)
                                (NOT (BIT (ucast (slave_no config))) AND 0xf) m;
                          m = eriscv_mcu_mmio_write32 B (spi_base m + ERISCV_SPI_TXDATA)
                                (ucast (eriscv_spi_tx_byte tx 0 (ram m))) m
                      in Some (Inr (), irq_unlock K key m)))"

definition eriscv_spi_init ::
    "'d bus \<Rightarrow> ('d, 'cb, 'e) eriscv_spi_scheme \<Rightarrow> (errno + unit) \<times> ('d, 'cb, 'e) eriscv_spi_scheme" where
  "eriscv_spi_init B m =
    (let m = eriscv_mcu_mmio_write32 B (spi_base m + ERISCV_SPI_CTRL) ERISCV_SPI_CTRL_ENABLE m
     in (Inr (), eriscv_mcu_mmio_write32 B (spi_base m + ERISCV_SPI_SS) 0xf m))"

section \<open>What the walks over the buffers find\<close>

text \<open>The addresses of the bytes of a set of buffers, in order.\<close>

definition buf_addrs :: "spi_buf \<Rightarrow> u32 list" where
  "buf_addrs b = map (\<lambda>i. buf b + of_nat i) [0..<unat (buf_len b)]"

definition set_addrs :: "spi_buf_set \<Rightarrow> u32 list" where
  "set_addrs s = (case s of None \<Rightarrow> [] | Some bs \<Rightarrow> concat (map buf_addrs bs))"

lemma length_buf_addrs [simp]: "length (buf_addrs b) = unat (buf_len b)"
  by (simp add: buf_addrs_def)

lemma buf_addrs_nth: "off < buf_len b \<Longrightarrow> buf_addrs b ! unat off = buf b + off"
  by (simp add: buf_addrs_def word_less_nat_alt)

lemma spi_tx_walk_eq:
  "spi_tx_walk bs off r =
    (if unat off < length (concat (map buf_addrs bs)) then r (concat (map buf_addrs bs) ! unat off) else 0xff)"
proof (induction bs arbitrary: off)
  case (Cons b bs)
  show ?case
  proof (cases "off < buf_len b")
    case True
    then show ?thesis using buf_addrs_nth [OF True] by (simp add: nth_append word_less_nat_alt)
  next
    case False
    then have "unat (off - buf_len b) = unat off - unat (buf_len b)" by (simp add: unat_sub not_less)
    with False show ?thesis using Cons.IH [of "off - buf_len b"]
      by (auto simp: nth_append word_less_nat_alt not_less)
  qed
qed simp

lemma spi_rx_walk_eq:
  "spi_rx_walk bs off v r =
    (if unat off < length (concat (map buf_addrs bs)) then r(concat (map buf_addrs bs) ! unat off := v) else r)"
proof (induction bs arbitrary: off)
  case (Cons b bs)
  show ?case
  proof (cases "off < buf_len b")
    case True
    then show ?thesis using buf_addrs_nth [OF True] by (simp add: nth_append word_less_nat_alt)
  next
    case False
    then have "unat (off - buf_len b) = unat off - unat (buf_len b)" by (simp add: unat_sub not_less)
    with False show ?thesis using Cons.IH [of "off - buf_len b"]
      by (auto simp: nth_append word_less_nat_alt not_less)
  qed
qed simp

lemma eriscv_spi_len_eq: "eriscv_spi_len s = of_nat (length (set_addrs s))"
proof -
  have "foldl (\<lambda>n b. n + buf_len b) a bs = a + of_nat (length (concat (map buf_addrs bs)))" for a bs
    by (induction bs arbitrary: a) (simp_all add: add.assoc)
  then show ?thesis by (simp add: eriscv_spi_len_def set_addrs_def split: option.split)
qed

text \<open>Byte \<open>i\<close> of a send list, and the memory after byte \<open>i\<close> of a receive list.\<close>

definition fetch :: "u32 list \<Rightarrow> nat \<Rightarrow> (u32 \<Rightarrow> u8) \<Rightarrow> u8" where
  "fetch A i r = (if i < length A then r (A ! i) else 0xff)"

definition deposit :: "u32 list \<Rightarrow> nat \<Rightarrow> u8 \<Rightarrow> (u32 \<Rightarrow> u8) \<Rightarrow> (u32 \<Rightarrow> u8)" where
  "deposit A i v r = (if i < length A then r(A ! i := v) else r)"

lemma eriscv_spi_tx_byte_eq: "eriscv_spi_tx_byte s off r = fetch (set_addrs s) (unat off) r"
  by (simp add: eriscv_spi_tx_byte_def fetch_def set_addrs_def spi_tx_walk_eq split: option.split)

lemma eriscv_spi_rx_byte_eq: "eriscv_spi_rx_byte s off v r = deposit (set_addrs s) (unat off) v r"
  by (simp add: eriscv_spi_rx_byte_def deposit_def set_addrs_def spi_rx_walk_eq split: option.split)

fun deposits :: "u32 list \<Rightarrow> nat \<Rightarrow> u8 list \<Rightarrow> (u32 \<Rightarrow> u8) \<Rightarrow> (u32 \<Rightarrow> u8)" where
  "deposits A i [] r = r"
| "deposits A i (b # bs) r = deposits A (Suc i) bs (deposit A i b r)"

lemma deposits_append: "deposits A i (bs @ cs) r = deposits A (i + length bs) cs (deposits A i bs r)"
  by (induction bs arbitrary: i r) simp_all

text \<open>No answer is stored over a byte that is still to be sent.\<close>

definition no_clobber :: "u32 list \<Rightarrow> u32 list \<Rightarrow> bool" where
  "no_clobber T R \<longleftrightarrow> (\<forall>j < length T. \<forall>i < j. i < length R \<longrightarrow> R ! i \<noteq> T ! j)"

lemma no_clobber_disjoint: "set T \<inter> set R = {} \<Longrightarrow> no_clobber T R"
  unfolding no_clobber_def by (metis disjoint_iff nth_mem)

lemma no_clobber_same: "distinct T \<Longrightarrow> no_clobber T T"
  by (auto simp: no_clobber_def nth_eq_iff_index_eq)

lemma fetch_deposits:
  assumes "no_clobber T R" "i + length bs \<le> j"
  shows "fetch T j (deposits R i bs r) = fetch T j r"
  using assms(2)
proof (induction bs arbitrary: i r)
  case (Cons b bs)
  have "j < length T \<Longrightarrow> i < length R \<Longrightarrow> R ! i \<noteq> T ! j"
    using assms(1) Cons.prems by (auto simp: no_clobber_def)
  then have "fetch T j (deposit R i b r) = fetch T j r" by (auto simp: fetch_def deposit_def)
  with Cons.IH [of "Suc i"] Cons.prems show ?case by simp
qed simp

lemma trace_then_ram: "m\<lparr>trace := t, ram := r\<rparr> = m\<lparr>ram := r, trace := t\<rparr>"
  by (cases m) simp

lemma eriscv_spi_ctrl_bits:
  "bit (eriscv_spi_ctrl config irq) 0" "\<not> bit (eriscv_spi_ctrl config irq) 4"
  "bit (eriscv_spi_ctrl config irq) 1 \<longleftrightarrow> irq"
  by (simp_all add: eriscv_spi_ctrl_def bit_simps bit_numeral_rec Let_def)

lemma BIT_select: "slave < 4 \<Longrightarrow> NOT (BIT (ucast (slave :: u32))) AND 0xf = spi_select_word slave"
proof -
  assume "slave < 4"
  then have "unat slave < 4" by (simp add: word_less_nat_alt)
  then have "unat (ucast slave :: u8) = unat slave" by (simp add: unsigned_ucast_eq take_bit_nat_eq_self)
  then show ?thesis by (simp add: BIT_def spi_select_word_def)
qed

lemma riscv_lock:
  "irq_lock riscv_kernel m = (csrs m Mstatus, m\<lparr>csrs := (csrs m)(Mstatus := csrs m Mstatus AND NOT 8),
     trace := trace m @ [CsrRd Mstatus (csrs m Mstatus), CsrClr Mstatus 8]\<rparr>)"
  by (simp add: riscv_kernel_def uart_irq_save_def mach_simps)

lemma riscv_unlock:
  assumes "csrs m' = (csrs m)(Mstatus := csrs m Mstatus AND NOT 8)"
  shows "\<exists>tr. irq_unlock riscv_kernel (csrs m Mstatus) m' = m'\<lparr>csrs := csrs m, trace := tr\<rparr>"
proof (cases "bit (csrs m Mstatus) 3")
  case True
  have "csrs (uart_irq_restore (csrs m Mstatus) m') = csrs m" by (rule irq_restore_csrs [OF assms])
  then show ?thesis using True
    by (auto simp: riscv_kernel_def uart_irq_restore_def mach_simps)
next
  case False
  then have "csrs m Mstatus AND NOT 8 = csrs m Mstatus" using and_not_exp_same [of "csrs m Mstatus" 3] by simp
  then have "csrs m' = csrs m" using assms by simp
  then have "m' = m'\<lparr>csrs := csrs m, trace := trace m'\<rparr>" by simp
  moreover have "irq_unlock riscv_kernel (csrs m Mstatus) m' = m'"
    using False by (simp add: riscv_kernel_def uart_irq_restore_def)
  ultimately show ?thesis by (intro exI [of _ "trace m'"]) simp
qed

section \<open>The driver on any SPI port\<close>

definition xfer_timeout :: "u32 \<Rightarrow> nat" where
  "xfer_timeout divisor = unat (divisor * 32 + 1000)"

context spi_port
begin

definition open_port :: "'d \<Rightarrow> bool" where
  "open_port d \<longleftrightarrow> v_busy (view d) = None \<and> bit (v_ctrl (view d)) 0"

lemma spi_poll_loop_ends:
  "v_busy (view (dev m)) = Some (k, b) \<Longrightarrow> spi_base m = ERISCV_MCU_SPI0_BASE \<Longrightarrow>
   \<exists>tr. spi_poll_loop B t m =
     (k \<le> t, m\<lparr>dev := polled (if k \<le> t then Suc k else Suc t) (dev m), trace := tr\<rparr>)"
proof (induction k arbitrary: t m)
  case 0
  show ?case
    by (subst spi_poll_loop.simps, simp add: mach_simps polled_def 0 poll_busy [OF 0(1)], rule exI, rule refl)
next
  case (Suc k)
  let ?m = "m\<lparr>dev := snd (bus_rd B 0x40030008 (dev m)),
    trace := trace m @ [Rd 0x40030008 (fst (bus_rd B 0x40030008 (dev m)))]\<rparr>"
  have b: "v_busy (view (dev ?m)) = Some (k, b)"
    using polled_view [OF Suc.prems(1), of 1] by (simp add: polled_def)
  have step: "spi_poll_loop B t m = (case t of 0 \<Rightarrow> (False, ?m) | Suc t \<Rightarrow> spi_poll_loop B t ?m)"
    by (subst spi_poll_loop.simps) (simp add: mach_simps Suc.prems(2) poll_busy [OF Suc.prems(1)])
  show ?case
  proof (cases t)
    case 0
    show ?thesis unfolding 0 step [unfolded 0] by (simp add: polled_def, intro exI, rule refl)
  next
    case (Suc t')
    from Suc.IH [OF b, of t'] Suc.prems(2) show ?thesis
      unfolding Suc step [unfolded Suc] by (auto simp: polled_Suc split: if_splits)
  qed
qed

lemma spi_xfer_byte_ok:
  assumes "open_port (dev m)" "spi_base m = ERISCV_MCU_SPI0_BASE" "i < 2 ^ 32"
    "spi_delay (v_script (view (dev m))) 0 \<le> xfer_timeout divisor"
  shows "\<exists>tr d. spi_xfer_byte B tx rx divisor i m =
      (True, m\<lparr>dev := d, ram := deposit (set_addrs rx) i (spi_answer (v_script (view (dev m))) 0) (ram m), trace := tr\<rparr>) \<and>
    open_port d \<and> v_ss (view d) = v_ss (view (dev m)) \<and> v_script (view d) = tl (v_script (view (dev m))) \<and>
    v_sent (view d) = v_sent (view (dev m)) @ [(v_ss (view (dev m)), fetch (set_addrs tx) i (ram m))]"
proof -
  let ?v = "view (dev m)" and ?b = "fetch (set_addrs tx) i (ram m)"
  let ?d1 = "bus_wr B 0x40030000 (ucast ?b) (dev m)"
  let ?m1 = "m\<lparr>dev := ?d1, trace := trace m @ [Wr 0x40030000 (ucast ?b)]\<rparr>"
  have idle: "v_busy ?v = None" and en: "bit (v_ctrl ?v) 0" using assms(1) by (simp_all add: open_port_def)
  have i: "unat (of_nat i :: u32) = i" using assms(3) by (simp add: unat_of_nat)
  obtain k b where kb: "next_byte (v_script ?v) = (k, b)" by fastforce
  have busy: "v_busy (view (dev ?m1)) = Some (k, b)" using started(1) [OF idle en] kb by simp
  have kt: "k \<le> unat (divisor * 32 + 1000)" using assms(4) kb by (simp add: spi_delay_def xfer_timeout_def)
  let ?d2 = "polled (Suc k) ?d1"
  have d2: "view ?d2 = spi_byte ?b ?v" using started(2) [OF idle en, of "ucast ?b"] kb by simp
  obtain tr2 where w: "spi_poll_loop B (unat (divisor * 32 + 1000)) ?m1 = (True, m\<lparr>dev := ?d2, trace := tr2\<rparr>)"
    using spi_poll_loop_ends [OF busy, of "unat (divisor * 32 + 1000)"] kt assms(2) by auto
  have idle2: "v_busy (view ?d2) = None" "v_rx (view ?d2) = b" using d2 kb by (simp_all add: spi_byte_def)
  let ?d3 = "snd (bus_rd B 0x40030004 ?d2)"
  have v3: "view ?d3 = view ?d2" "ucast (fst (bus_rd B 0x40030004 ?d2)) = b" using at_rx [OF idle2(1)] idle2(2) by simp_all
  have "\<exists>tr. spi_xfer_byte B tx rx divisor i m =
      (True, m\<lparr>dev := ?d3, ram := deposit (set_addrs rx) i b (ram m), trace := tr\<rparr>)"
    by (simp add: spi_xfer_byte_def mach_simps w v3(2) assms(2) eriscv_spi_tx_byte_eq eriscv_spi_rx_byte_eq i Let_def
        trace_then_ram, rule exI, rule refl)
  then obtain tr where "spi_xfer_byte B tx rx divisor i m =
      (True, m\<lparr>dev := ?d3, ram := deposit (set_addrs rx) i (spi_answer (v_script ?v) 0) (ram m), trace := tr\<rparr>)"
    using kb by (auto simp: spi_answer_def)
  moreover have "open_port ?d3" using v3(1) d2 en by (simp add: open_port_def spi_byte_def)
  ultimately show ?thesis by (intro exI [of _ tr] exI [of _ ?d3]) (simp add: v3(1) d2 spi_byte_def)
qed

lemma spi_xfer_byte_late:
  assumes "open_port (dev m)" "spi_base m = ERISCV_MCU_SPI0_BASE" "i < 2 ^ 32"
    "xfer_timeout divisor < spi_delay (v_script (view (dev m))) 0"
  shows "\<exists>tr d. spi_xfer_byte B tx rx divisor i m = (False, m\<lparr>dev := d, trace := tr\<rparr>) \<and> v_ss (view d) = 0xf \<and>
    v_sent (view d) = v_sent (view (dev m)) @ [(v_ss (view (dev m)), fetch (set_addrs tx) i (ram m))]"
proof -
  let ?v = "view (dev m)" and ?b = "fetch (set_addrs tx) i (ram m)" and ?t = "unat (divisor * 32 + 1000)"
  let ?d1 = "bus_wr B 0x40030000 (ucast ?b) (dev m)"
  let ?m1 = "m\<lparr>dev := ?d1, trace := trace m @ [Wr 0x40030000 (ucast ?b)]\<rparr>"
  have idle: "v_busy ?v = None" and en: "bit (v_ctrl ?v) 0" using assms(1) by (simp_all add: open_port_def)
  have i: "unat (of_nat i :: u32) = i" using assms(3) by (simp add: unat_of_nat)
  obtain k b where kb: "next_byte (v_script ?v) = (k, b)" by fastforce
  have busy: "v_busy (view (dev ?m1)) = Some (k, b)" using started(1) [OF idle en] kb by simp
  have kt: "\<not> k \<le> ?t" using assms(4) kb by (simp add: spi_delay_def xfer_timeout_def)
  let ?d2 = "polled (Suc ?t) ?d1"
  obtain tr2 where w: "spi_poll_loop B ?t ?m1 = (False, m\<lparr>dev := ?d2, trace := tr2\<rparr>)"
    using spi_poll_loop_ends [OF busy, of ?t] kt assms(2) by auto
  have v2: "view ?d2 = (spi_start ?b ?v)\<lparr>v_busy := Some (k - Suc ?t, b)\<rparr>"
    using polled_view [of ?d1 k b "Suc ?t"] busy kt at_tx [OF idle en, of "ucast ?b"] by simp
  have "spi_xfer_byte B tx rx divisor i m =
      (False, m\<lparr>dev := bus_wr B 0x40030014 0xf ?d2, trace := tr2 @ [Wr 0x40030014 0xf]\<rparr>)"
    by (simp add: spi_xfer_byte_def mach_simps w assms(2) eriscv_spi_tx_byte_eq i Let_def)
  then show ?thesis
    by (intro exI [of _ "tr2 @ [Wr 0x40030014 0xf]"] exI [of _ "bus_wr B 0x40030014 0xf ?d2"])
      (simp add: at_regs v2 spi_start_def)
qed

lemma spi_xfer_loop_ok:
  assumes "open_port (dev m)" "spi_base m = ERISCV_MCU_SPI0_BASE" "i + k < 2 ^ 32"
    "\<forall>j<k. spi_delay (v_script (view (dev m))) j \<le> xfer_timeout divisor" "no_clobber (set_addrs tx) (set_addrs rx)"
  shows "\<exists>tr d. spi_xfer_loop B tx rx divisor i k m =
      (True, m\<lparr>dev := d, ram := deposits (set_addrs rx) i (map (spi_answer (v_script (view (dev m)))) [0..<k]) (ram m),
         trace := tr\<rparr>) \<and>
    open_port d \<and> v_ss (view d) = v_ss (view (dev m)) \<and> v_script (view d) = drop k (v_script (view (dev m))) \<and>
    v_sent (view d) = v_sent (view (dev m)) @ map (\<lambda>j. (v_ss (view (dev m)), fetch (set_addrs tx) j (ram m))) [i..<i + k]"
  using assms
proof (induction k arbitrary: i m)
  case 0
  have "m = m\<lparr>dev := dev m, ram := ram m, trace := trace m\<rparr>" by simp
  with 0 show ?case by (intro exI [of _ "trace m"] exI [of _ "dev m"]) simp
next
  case (Suc k)
  let ?sc = "v_script (view (dev m))"
  define r1 where "r1 = deposit (set_addrs rx) i (spi_answer ?sc 0) (ram m)"
  have i: "i < 2 ^ 32" using Suc.prems(3) by simp
  obtain tr1 d1 where byte: "spi_xfer_byte B tx rx divisor i m = (True, m\<lparr>dev := d1, ram := r1, trace := tr1\<rparr>)"
    and d1: "open_port d1" "v_ss (view d1) = v_ss (view (dev m))" "v_script (view d1) = tl ?sc"
    "v_sent (view d1) = v_sent (view (dev m)) @ [(v_ss (view (dev m)), fetch (set_addrs tx) i (ram m))]"
    using spi_xfer_byte_ok [OF Suc.prems(1,2) i, of divisor tx rx] Suc.prems(4) unfolding r1_def by fastforce
  let ?m1 = "m\<lparr>dev := d1, ram := r1, trace := tr1\<rparr>"
  have kept: "fetch (set_addrs tx) j r1 = fetch (set_addrs tx) j (ram m)" if "j \<in> set [Suc i..<Suc i + k]" for j
    using fetch_deposits [OF Suc.prems(5), of i "[spi_answer ?sc 0]" j "ram m"] that by (auto simp: r1_def)
  have 1: "open_port (dev ?m1)" "spi_base ?m1 = ERISCV_MCU_SPI0_BASE" "Suc i + k < 2 ^ 32"
    "\<forall>j<k. spi_delay (v_script (view (dev ?m1))) j \<le> xfer_timeout divisor"
    using d1 Suc.prems(2-4) by simp_all
  from Suc.IH [OF 1 Suc.prems(5)] obtain tr2 d2 where loop: "spi_xfer_loop B tx rx divisor (Suc i) k ?m1 =
      (True, ?m1\<lparr>dev := d2, ram := deposits (set_addrs rx) (Suc i) (map (spi_answer (tl ?sc)) [0..<k]) r1, trace := tr2\<rparr>)"
    and d2: "open_port d2" "v_ss (view d2) = v_ss (view (dev m))" "v_script (view d2) = drop k (tl ?sc)"
    "v_sent (view d2) = v_sent (view d1) @
       map (\<lambda>j. (v_ss (view (dev m)), fetch (set_addrs tx) j r1)) [Suc i..<Suc i + k]"
    unfolding d1(3) [symmetric] by (auto simp: d1(2))
  have answer_tl: "spi_answer (tl ?sc) = (\<lambda>j. spi_answer ?sc (Suc j))" by (simp add: fun_eq_iff)
  have rcv: "deposits (set_addrs rx) (Suc i) (map (spi_answer (tl ?sc)) [0..<k]) r1 =
      deposits (set_addrs rx) i (map (spi_answer ?sc) [0..<Suc k]) (ram m)"
    by (simp add: r1_def upt_0_Suc comp_def answer_tl del: upt_Suc)
  have upt: "[i..<i + Suc k] = i # [Suc i..<Suc i + k]" by (simp add: upt_conv_Cons del: upt_Suc)
  have "spi_xfer_loop B tx rx divisor i (Suc k) m = (True, m\<lparr>dev := d2,
      ram := deposits (set_addrs rx) i (map (spi_answer ?sc) [0..<Suc k]) (ram m), trace := tr2\<rparr>)"
    by (simp only: spi_xfer_loop.simps byte Let_def split_conv loop rcv) simp
  then show ?case unfolding upt
    by (intro exI [of _ tr2] exI [of _ d2]) (use kept in \<open>simp add: d2 d1(4) drop_Suc del: upt_Suc\<close>)
qed

lemma spi_xfer_loop_add:
  "spi_xfer_loop B tx rx divisor i (a + k) m =
    (let (ok, m') = spi_xfer_loop B tx rx divisor i a m
     in if \<not> ok then (False, m') else spi_xfer_loop B tx rx divisor (i + a) k m')"
  by (induction a arbitrary: i m) (simp_all add: Let_def case_prod_beta)

lemma spi_xfer_loop_late:
  assumes "open_port (dev m)" "spi_base m = ERISCV_MCU_SPI0_BASE" "n < 2 ^ 32" "k < n"
    "\<forall>j<k. spi_delay (v_script (view (dev m))) j \<le> xfer_timeout divisor"
    "xfer_timeout divisor < spi_delay (v_script (view (dev m))) k" "no_clobber (set_addrs tx) (set_addrs rx)"
  shows "\<exists>tr d. spi_xfer_loop B tx rx divisor 0 n m =
      (False, m\<lparr>dev := d, ram := deposits (set_addrs rx) 0 (map (spi_answer (v_script (view (dev m)))) [0..<k]) (ram m),
         trace := tr\<rparr>) \<and> v_ss (view d) = 0xf \<and>
    v_sent (view d) = v_sent (view (dev m)) @ map (\<lambda>j. (v_ss (view (dev m)), fetch (set_addrs tx) j (ram m))) [0..<Suc k]"
proof -
  let ?sc = "v_script (view (dev m))"
  let ?r = "deposits (set_addrs rx) 0 (map (spi_answer ?sc) [0..<k]) (ram m)"
  have k: "0 + k < 2 ^ 32" "k < 2 ^ 32" using assms(3,4) by simp_all
  from spi_xfer_loop_ok [OF assms(1,2) k(1) assms(5,7)]
  obtain tr d where loop: "spi_xfer_loop B tx rx divisor 0 k m = (True, m\<lparr>dev := d, ram := ?r, trace := tr\<rparr>)"
    and d: "open_port d" "v_ss (view d) = v_ss (view (dev m))" "v_script (view d) = drop k ?sc"
    "v_sent (view d) = v_sent (view (dev m)) @ map (\<lambda>j. (v_ss (view (dev m)), fetch (set_addrs tx) j (ram m))) [0..<k]"
    by auto
  let ?m1 = "m\<lparr>dev := d, ram := ?r, trace := tr\<rparr>"
  have 1: "open_port (dev ?m1)" "spi_base ?m1 = ERISCV_MCU_SPI0_BASE"
    "xfer_timeout divisor < spi_delay (v_script (view (dev ?m1))) 0"
    using d assms(2,6) by (simp_all add: spi_delay_def)
  have out: "fetch (set_addrs tx) k ?r = fetch (set_addrs tx) k (ram m)" by (rule fetch_deposits [OF assms(7)]) simp
  from spi_xfer_byte_late [OF 1(1,2) k(2) 1(3), of tx rx] obtain tr2 d2
    where late: "spi_xfer_byte B tx rx divisor k ?m1 = (False, ?m1\<lparr>dev := d2, trace := tr2\<rparr>)"
    and d2: "v_ss (view d2) = 0xf"
      "v_sent (view d2) = v_sent (view d) @ [(v_ss (view (dev m)), fetch (set_addrs tx) k (ram m))]"
    by (auto simp: d(2) out)
  obtain k' where k': "n = k + Suc k'" using less_imp_Suc_add [OF assms(4)] by auto
  have "spi_xfer_loop B tx rx divisor 0 n m = (False, m\<lparr>dev := d2, ram := ?r, trace := tr2\<rparr>)"
    unfolding k' spi_xfer_loop_add by (simp only: loop Let_def split_conv spi_xfer_loop.simps) (simp add: late)
  then show ?thesis using d2 d(4) by (intro exI [of _ tr2] exI [of _ d2]) simp
qed

text \<open>A call that is accepted sets the port up and runs the loop.\<close>

lemma transceive_accepted:
  assumes "eriscv_spi_validate config = Inr ()" "max (eriscv_spi_len tx) (eriscv_spi_len rx) \<noteq> 0"
    "\<not> spi_active m" "eriscv_spi_divisor hz config = Some divisor" "spi_base m = ERISCV_MCU_SPI0_BASE"
    "v_busy (view (dev m)) = None"
  shows "\<exists>m1. eriscv_spi_transceive B riscv_kernel hz config tx rx m =
      (let (ok, m) = spi_xfer_loop B tx rx divisor 0 (unat (max (eriscv_spi_len tx) (eriscv_spi_len rx))) m1
       in if \<not> ok then Some (Inl ETIMEDOUT, m)
          else Some (Inr (), eriscv_mcu_mmio_write32 B (spi_base m + ERISCV_SPI_SS) 0xf m)) \<and>
    spi_base m1 = ERISCV_MCU_SPI0_BASE \<and> ram m1 = ram m \<and> csrs m1 = csrs m \<and> open_port (dev m1) \<and>
    v_ss (view (dev m1)) = spi_select_word (slave_no config) \<and>
    v_script (view (dev m1)) = v_script (view (dev m)) \<and> v_sent (view (dev m1)) = v_sent (view (dev m))"
proof -
  let ?len = "max (eriscv_spi_len tx) (eriscv_spi_len rx)" and ?c = "eriscv_spi_ctrl config False"
  let ?s = "spi_select_word (slave_no config)"
  have slave: "slave_no config < 4" using assms(1) by (auto simp: eriscv_spi_validate_def split: if_splits)
  let ?ml = "m\<lparr>csrs := (csrs m)(Mstatus := csrs m Mstatus AND NOT 8),
     trace := trace m @ [CsrRd Mstatus (csrs m Mstatus), CsrClr Mstatus 8]\<rparr>"
  obtain tr where ml: "irq_unlock riscv_kernel (csrs m Mstatus) ?ml = m\<lparr>csrs := csrs m, trace := tr\<rparr>"
    using riscv_unlock [of ?ml m] by auto
  let ?d = "bus_wr B 0x40030014 ?s (bus_wr B 0x40030010 ?c (bus_wr B 0x4003000c divisor (dev m)))"
  let ?m1 = "m\<lparr>csrs := csrs m, dev := ?d, trace := tr @ [Wr 0x4003000c divisor, Wr 0x40030010 ?c, Wr 0x40030014 ?s]\<rparr>"
  have "eriscv_spi_transceive B riscv_kernel hz config tx rx m =
      (let (ok, m) = spi_xfer_loop B tx rx divisor 0 (unat ?len) ?m1
       in if \<not> ok then Some (Inl ETIMEDOUT, m)
          else Some (Inr (), eriscv_mcu_mmio_write32 B (spi_base m + ERISCV_SPI_SS) 0xf m))"
    using assms(1-5) BIT_select [OF slave]
    by (simp add: eriscv_spi_transceive_def riscv_lock ml [simplified] mach_simps Let_def)
  moreover have "view ?d = (view (dev m))\<lparr>v_ctrl := ?c, v_ss := ?s\<rparr>"
    using assms(6) by (simp add: at_regs eriscv_spi_ctrl_bits)
  ultimately show ?thesis using assms(5,6)
    by (intro exI [of _ ?m1]) (simp add: open_port_def eriscv_spi_ctrl_bits)
qed

text \<open>An interrupt-driven transfer with byte \<open>i\<close> on its way, \<open>k\<close> interrupts before its end.\<close>

definition xfer_at ::
    "u32 list \<Rightarrow> (u32 \<Rightarrow> u8) \<Rightarrow> (nat \<times> u8) list \<Rightarrow> (u32 \<times> u8) list \<Rightarrow> u32 \<Rightarrow> ('d, 'cb, 'e) eriscv_spi_scheme \<Rightarrow>
     nat \<Rightarrow> nat \<Rightarrow> ('d, 'cb, 'e) eriscv_spi_scheme \<Rightarrow> bool" where
  "xfer_at T r sc log sel m0 i k m \<longleftrightarrow>
     spi_active m \<and> spi_base m = ERISCV_MCU_SPI0_BASE \<and> tx_bufs m = tx_bufs m0 \<and> rx_bufs m = rx_bufs m0 \<and>
     data_len m = data_len m0 \<and> data_ctrl m = data_ctrl m0 \<and> spi_callback m = spi_callback m0 \<and>
     spi_userdata m = spi_userdata m0 \<and> data_index m = of_nat i \<and> i < unat (data_len m0) \<and>
     bit (data_ctrl m0) 0 \<and> T = set_addrs (tx_bufs m0) \<and>
     ram m = deposits (set_addrs (rx_bufs m0)) 0 (map (spi_answer sc) [0..<i]) r \<and>
     v_busy (view (dev m)) = Some (k, spi_answer sc i) \<and> \<not> v_done (view (dev m)) \<and>
     v_script (view (dev m)) = drop (Suc i) sc \<and> bit (v_ctrl (view (dev m))) 0 \<and> v_ss (view (dev m)) = sel \<and>
     v_sent (view (dev m)) = log @ map (\<lambda>j. (sel, fetch T j r)) [0..<Suc i]"

lemma spi_isr_early:
  assumes "xfer_at T r sc log sel m0 i (Suc k) m"
  shows "xfer_at T r sc log sel m0 i k (eriscv_spi_isr B call m)"
proof -
  have busy: "v_busy (view (dev m)) = Some (Suc k, spi_answer sc i)" and nd: "\<not> v_done (view (dev m))"
    using assms by (simp_all add: xfer_at_def)
  have v: "view (snd (bus_rd B 0x40030008 (dev m))) = (view (dev m))\<lparr>v_busy := Some (k, spi_answer sc i)\<rparr>"
    using at_status(1) [of "dev m"] busy by (simp add: spi_poll_def)
  have "eriscv_spi_isr B call m = m\<lparr>dev := snd (bus_rd B 0x40030008 (dev m)),
      trace := trace m @ [Rd 0x40030008 (fst (bus_rd B 0x40030008 (dev m)))]\<rparr>"
    using poll_busy(2) [OF busy] nd assms by (simp add: eriscv_spi_isr_def xfer_at_def mach_simps)
  then show ?thesis using assms v by (simp add: xfer_at_def)
qed

text \<open>The handler on a finished byte, up to the byte count.\<close>

lemma spi_isr_finished:
  assumes "xfer_at T r sc log sel m0 i 0 m"
  shows "\<exists>tr d. v_busy (view d) = None \<and> bit (v_ctrl (view d)) 0 \<and> v_ss (view d) = sel \<and>
      v_script (view d) = v_script (view (dev m)) \<and> v_sent (view d) = v_sent (view (dev m)) \<and>
    eriscv_spi_isr B call m =
      (let m = m\<lparr>dev := d, ram := deposits (set_addrs (rx_bufs m0)) 0 (map (spi_answer sc) [0..<Suc i]) r,
                trace := tr, data_index := of_nat (Suc i)\<rparr>
       in if data_index m = data_len m then eriscv_spi_complete B call 0 m
          else eriscv_mcu_mmio_write32 B (spi_base m + ERISCV_SPI_TXDATA)
                 (ucast (eriscv_spi_tx_byte (tx_bufs m) (data_index m) (ram m))) m)"
proof -
  let ?b = "spi_answer sc i" and ?c = "data_ctrl m0 OR 0x10"
  have busy: "v_busy (view (dev m)) = Some (0, ?b)" using assms by (simp add: xfer_at_def)
  let ?d1 = "snd (bus_rd B 0x40030008 (dev m))"
  have v1: "view ?d1 = (view (dev m))\<lparr>v_busy := None, v_rx := ?b, v_done := True\<rparr>"
    using at_status(1) [of "dev m"] busy by (simp add: spi_poll_def)
  let ?d2 = "bus_wr B 0x40030010 ?c ?d1"
  have v2: "view ?d2 = (view ?d1)\<lparr>v_ctrl := ?c, v_done := False\<rparr>"
    using v1 by (simp add: at_regs bit_simps bit_numeral_rec)
  then have idle: "v_busy (view ?d2) = None" using v1 by simp
  let ?d3 = "snd (bus_rd B 0x40030004 ?d2)"
  have v3: "view ?d3 = view ?d2" and b: "ucast (fst (bus_rd B 0x40030004 ?d2)) = ?b"
    using at_rx [OF idle] v1 v2 by simp_all
  have dn: "bit (fst (bus_rd B 0x40030008 (dev m))) 3" using poll_busy(2) [OF busy] by simp
  have i: "unat (of_nat i :: u32) = i"
    using assms unat_u32_less [of "data_len m0"] by (simp add: xfer_at_def unat_of_nat)
  have f: "spi_active m" "spi_base m = ERISCV_MCU_SPI0_BASE" "rx_bufs m = rx_bufs m0" "data_index m = of_nat i"
    "data_ctrl m = data_ctrl m0" "bit (data_ctrl m0) 0" "v_ss (view (dev m)) = sel"
    "ram m = deposits (set_addrs (rx_bufs m0)) 0 (map (spi_answer sc) [0..<i]) r"
    using assms by (simp_all add: xfer_at_def)
  define r' where "r' = deposits (set_addrs (rx_bufs m0)) 0 (map (spi_answer sc) [0..<Suc i]) r"
  have r': "deposit (set_addrs (rx_bufs m0)) i ?b (ram m) = r'" by (simp add: r'_def f(8) deposits_append)
  have "\<exists>tr. eriscv_spi_isr B call m =
      (let m = m\<lparr>dev := ?d3, ram := r', trace := tr, data_index := of_nat (Suc i)\<rparr>
       in if data_index m = data_len m then eriscv_spi_complete B call 0 m
          else eriscv_mcu_mmio_write32 B (spi_base m + ERISCV_SPI_TXDATA)
                 (ucast (eriscv_spi_tx_byte (tx_bufs m) (data_index m) (ram m))) m)"
    by (simp add: eriscv_spi_isr_def mach_simps dn f(1-5) b i r' eriscv_spi_rx_byte_eq trace_then_ram add.commute [of 1],
        rule exI, rule refl)
  then obtain tr where "eriscv_spi_isr B call m =
      (let m = m\<lparr>dev := ?d3, ram := r', trace := tr, data_index := of_nat (Suc i)\<rparr>
       in if data_index m = data_len m then eriscv_spi_complete B call 0 m
          else eriscv_mcu_mmio_write32 B (spi_base m + ERISCV_SPI_TXDATA)
                 (ucast (eriscv_spi_tx_byte (tx_bufs m) (data_index m) (ram m))) m)" ..
  then show ?thesis unfolding r'_def
    by (intro exI [of _ tr] exI [of _ ?d3]) (simp add: v3 v2 v1 f(6,7) bit_simps)
qed

lemma spi_isr_next_byte:
  assumes at: "xfer_at T r sc log sel m0 i 0 m" and i: "Suc i < unat (data_len m0)"
    and ok: "no_clobber T (set_addrs (rx_bufs m0))"
  shows "xfer_at T r sc log sel m0 (Suc i) (spi_delay sc (Suc i)) (eriscv_spi_isr B call m)"
proof -
  define r' where "r' = deposits (set_addrs (rx_bufs m0)) 0 (map (spi_answer sc) [0..<Suc i]) r"
  obtain tr d where v: "v_busy (view d) = None" "bit (v_ctrl (view d)) 0" "v_ss (view d) = sel"
      "v_script (view d) = v_script (view (dev m))" "v_sent (view d) = v_sent (view (dev m))"
    and h: "eriscv_spi_isr B call m =
      (let m = m\<lparr>dev := d, ram := r', trace := tr, data_index := of_nat (Suc i)\<rparr>
       in if data_index m = data_len m then eriscv_spi_complete B call 0 m
          else eriscv_mcu_mmio_write32 B (spi_base m + ERISCV_SPI_TXDATA)
                 (ucast (eriscv_spi_tx_byte (tx_bufs m) (data_index m) (ram m))) m)"
    using spi_isr_finished [OF at] unfolding r'_def by blast
  have u: "unat (of_nat (Suc i) :: u32) = Suc i"
    using i unat_u32_less [of "data_len m0"] by (simp add: unat_of_nat del: of_nat_Suc)
  then have ne: "(of_nat (Suc i) :: u32) \<noteq> data_len m0" using i by auto
  have out: "fetch T (Suc i) r' = fetch T (Suc i) r" unfolding r'_def by (rule fetch_deposits [OF ok]) simp
  let ?b = "fetch T (Suc i) r"
  have f: "spi_base m = ERISCV_MCU_SPI0_BASE" "data_len m = data_len m0" "set_addrs (tx_bufs m) = T"
    using at by (simp_all add: xfer_at_def)
  have "eriscv_spi_isr B call m = m\<lparr>ram := r', data_index := of_nat (Suc i), dev := bus_wr B 0x40030000 (ucast ?b) d,
      trace := tr @ [Wr 0x40030000 (ucast ?b)]\<rparr>"
    unfolding h Let_def using ne
    by (simp add: mach_simps f eriscv_spi_tx_byte_eq u [simplified] out)
  moreover have "view (bus_wr B 0x40030000 (ucast ?b) d) = spi_start ?b (view d)"
    using at_tx [OF v(1,2), of "ucast ?b"] by simp
  ultimately show ?thesis using at v i
    by (simp add: xfer_at_def spi_start_def spi_delay_def spi_answer_def drop_Suc tl_drop r'_def)
qed

text \<open>The state in which the callback is called.\<close>

definition xfer_end ::
    "u32 list \<Rightarrow> (u32 \<Rightarrow> u8) \<Rightarrow> (nat \<times> u8) list \<Rightarrow> (u32 \<times> u8) list \<Rightarrow> u32 \<Rightarrow> ('d, 'cb, 'e) eriscv_spi_scheme \<Rightarrow>
     ('d, 'cb, 'e) eriscv_spi_scheme \<Rightarrow> bool" where
  "xfer_end T r sc log sel m0 m \<longleftrightarrow>
     \<not> spi_active m \<and> spi_callback m = None \<and> open_port (dev m) \<and> v_ss (view (dev m)) = 0xf \<and>
     ram m = deposits (set_addrs (rx_bufs m0)) 0 (map (spi_answer sc) [0..<unat (data_len m0)]) r \<and>
     v_sent (view (dev m)) = log @ map (\<lambda>j. (sel, fetch T j r)) [0..<unat (data_len m0)]"

lemma spi_isr_last_byte:
  assumes at: "xfer_at T r sc log sel m0 i 0 m" and i: "Suc i = unat (data_len m0)"
  shows "\<exists>m'. eriscv_spi_isr B call m =
      (case spi_callback m0 of None \<Rightarrow> m' | Some cb \<Rightarrow> call cb 0 (spi_userdata m0) m') \<and>
    xfer_end T r sc log sel m0 m'"
proof -
  define r' where "r' = deposits (set_addrs (rx_bufs m0)) 0 (map (spi_answer sc) [0..<unat (data_len m0)]) r"
  obtain tr d where v: "v_busy (view d) = None" "bit (v_ctrl (view d)) 0" "v_ss (view d) = sel"
      "v_script (view d) = v_script (view (dev m))" "v_sent (view d) = v_sent (view (dev m))"
    and h: "eriscv_spi_isr B call m =
      (let m = m\<lparr>dev := d, ram := r', trace := tr, data_index := of_nat (unat (data_len m0))\<rparr>
       in if data_index m = data_len m then eriscv_spi_complete B call 0 m
          else eriscv_mcu_mmio_write32 B (spi_base m + ERISCV_SPI_TXDATA)
                 (ucast (eriscv_spi_tx_byte (tx_bufs m) (data_index m) (ram m))) m)"
    using spi_isr_finished [OF at] unfolding r'_def i by blast
  have f: "spi_base m = ERISCV_MCU_SPI0_BASE" "data_len m = data_len m0" "spi_callback m = spi_callback m0"
    "spi_userdata m = spi_userdata m0"
    using at by (simp_all add: xfer_at_def)
  let ?d = "bus_wr B 0x40030014 0xf d"
  let ?m = "m\<lparr>ram := r', data_index := data_len m0, dev := ?d, trace := tr @ [Wr 0x40030014 0xf],
      spi_active := False, spi_callback := None, spi_userdata := 0\<rparr>"
  have "eriscv_spi_isr B call m = (case spi_callback m0 of None \<Rightarrow> ?m | Some cb \<Rightarrow> call cb 0 (spi_userdata m0) ?m)"
    unfolding h Let_def
    by (simp add: eriscv_spi_complete_def mach_simps f Let_def)
  moreover have "xfer_end T r sc log sel m0 ?m"
    using at v i by (simp add: xfer_end_def xfer_at_def open_port_def at_regs r'_def)
  ultimately show ?thesis by blast
qed

lemma spi_isr_run:
  assumes ok: "no_clobber T (set_addrs (rx_bufs m0))" and at: "xfer_at T r sc log sel m0 0 (spi_delay sc 0) m"
  shows "(\<exists>m'. (eriscv_spi_isr B call ^^ byte_irqs (spi_delay sc) 0 (unat (data_len m0))) m =
        (case spi_callback m0 of None \<Rightarrow> m' | Some cb \<Rightarrow> call cb 0 (spi_userdata m0) m') \<and>
      xfer_end T r sc log sel m0 m') \<and>
    (\<forall>j < byte_irqs (spi_delay sc) 0 (unat (data_len m0)). spi_active ((eriscv_spi_isr B call ^^ j) m))"
proof -
  let ?At = "xfer_at T r sc log sel m0" and ?h = "eriscv_spi_isr B call" and ?n = "unat (data_len m0)"
  have pos: "0 < ?n" using at by (auto simp: xfer_at_def)
  note run = byte_interrupts [of ?At ?h ?n "spi_delay sc", OF spi_isr_early spi_isr_next_byte [OF _ _ ok] pos at]
  then obtain s where "(?h ^^ byte_irqs (spi_delay sc) 0 ?n) m = ?h s" "?At (?n - 1) 0 s" by blast
  then have "\<exists>m'. (?h ^^ byte_irqs (spi_delay sc) 0 ?n) m =
        (case spi_callback m0 of None \<Rightarrow> m' | Some cb \<Rightarrow> call cb 0 (spi_userdata m0) m') \<and>
      xfer_end T r sc log sel m0 m'"
    using spi_isr_last_byte [of T r sc log sel m0 "?n - 1" s call] pos by simp
  moreover have "spi_active s" if "?At i k s" for i k s using that by (simp add: xfer_at_def)
  ultimately show ?thesis using run by blast
qed

lemma transceive_async_accepted:
  assumes "eriscv_spi_validate config = Inr ()" "max (eriscv_spi_len tx) (eriscv_spi_len rx) \<noteq> 0"
    "\<not> spi_active m" "eriscv_spi_divisor hz config = Some divisor" "spi_base m = ERISCV_MCU_SPI0_BASE"
    "v_busy (view (dev m)) = None"
  shows "\<exists>m1. eriscv_spi_transceive_async B riscv_kernel hz config tx rx callback userdata m = Some (Inr (), m1) \<and>
    csrs m1 = csrs m \<and> tx_bufs m1 = tx \<and> rx_bufs m1 = rx \<and> data_len m1 = max (eriscv_spi_len tx) (eriscv_spi_len rx) \<and>
    spi_callback m1 = callback \<and> spi_userdata m1 = userdata \<and>
    xfer_at (set_addrs tx) (ram m) (v_script (view (dev m))) (v_sent (view (dev m))) (spi_select_word (slave_no config)) m1
      0 (spi_delay (v_script (view (dev m))) 0) m1"
proof -
  let ?len = "max (eriscv_spi_len tx) (eriscv_spi_len rx)" and ?c = "eriscv_spi_ctrl config True"
  let ?s = "spi_select_word (slave_no config)" and ?b = "fetch (set_addrs tx) 0 (ram m)"
  have slave: "slave_no config < 4" using assms(1) by (auto simp: eriscv_spi_validate_def split: if_splits)
  let ?d = "bus_wr B 0x40030014 ?s (bus_wr B 0x40030010 ?c (bus_wr B 0x4003000c divisor (dev m)))"
  let ?d1 = "bus_wr B 0x40030000 (ucast ?b) ?d"
  let ?ml = "m\<lparr>csrs := (csrs m)(Mstatus := csrs m Mstatus AND NOT 8), tx_bufs := tx, rx_bufs := rx, data_len := ?len,
     data_index := 0, data_ctrl := ?c, spi_callback := callback, spi_userdata := userdata, spi_active := True,
     dev := ?d1, trace := trace m @ [CsrRd Mstatus (csrs m Mstatus), CsrClr Mstatus 8, Wr 0x4003000c divisor,
       Wr 0x40030010 ?c, Wr 0x40030014 ?s, Wr 0x40030000 (ucast ?b)]\<rparr>"
  obtain tr where ml: "irq_unlock riscv_kernel (csrs m Mstatus) ?ml = ?ml\<lparr>csrs := csrs m, trace := tr\<rparr>"
    using riscv_unlock [of ?ml m] by auto
  let ?m1 = "?ml\<lparr>csrs := csrs m, trace := tr\<rparr>"
  have "eriscv_spi_transceive_async B riscv_kernel hz config tx rx callback userdata m =
      Some (Inr (), irq_unlock riscv_kernel (csrs m Mstatus) ?ml)"
    using assms(1-5) BIT_select [OF slave]
    by (simp add: eriscv_spi_transceive_async_def riscv_lock mach_simps Let_def eriscv_spi_tx_byte_eq)
  then have run: "eriscv_spi_transceive_async B riscv_kernel hz config tx rx callback userdata m = Some (Inr (), ?m1)"
    unfolding ml .
  have v: "view ?d = (view (dev m))\<lparr>v_ctrl := ?c, v_ss := ?s\<rparr>"
    using assms(6) by (simp add: at_regs eriscv_spi_ctrl_bits)
  then have idle: "v_busy (view ?d) = None" "bit (v_ctrl (view ?d)) 0" using assms(6) by (simp_all add: eriscv_spi_ctrl_bits)
  have v1: "view ?d1 = spi_start ?b (view ?d)" using at_tx [OF idle, of "ucast ?b"] by simp
  have pos: "0 < unat ?len" using assms(2) unat_gt_0 by blast
  have "xfer_at (set_addrs tx) (ram m) (v_script (view (dev m))) (v_sent (view (dev m))) ?s ?m1
      0 (spi_delay (v_script (view (dev m))) 0) ?m1"
    using assms(5) pos
    by (simp add: xfer_at_def v1 v spi_start_def spi_delay_def spi_answer_def drop_Suc eriscv_spi_ctrl_bits)
  then show ?thesis by (intro exI [of _ ?m1]) (simp add: run)
qed

end

section \<open>The driver on the SPI master of the SoC\<close>

text \<open>The shared set-up: an accepted configuration, an idle port, buffers of less than 4 GiB that do not clobber.\<close>

definition transfer_ok ::
    "u32 \<Rightarrow> spi_config \<Rightarrow> u32 \<Rightarrow> spi_buf_set \<Rightarrow> spi_buf_set \<Rightarrow> (spi_apb, 'cb, 'e) eriscv_spi_scheme \<Rightarrow> bool" where
  "transfer_ok hz config divisor tx rx m \<longleftrightarrow>
     eriscv_spi_validate config = Inr () \<and> eriscv_spi_divisor hz config = Some divisor \<and> \<not> spi_active m \<and>
     spi_base m = ERISCV_MCU_SPI0_BASE \<and> \<not> s_busy (dev m) \<and>
     length (set_addrs tx) < 2 ^ 32 \<and> length (set_addrs rx) < 2 ^ 32 \<and>
     no_clobber (set_addrs tx) (set_addrs rx) \<and> max (length (set_addrs tx)) (length (set_addrs rx)) \<noteq> 0"

lemma max_len:
  assumes "length (set_addrs tx) < 2 ^ 32" "length (set_addrs rx) < 2 ^ 32"
  shows "unat (max (eriscv_spi_len tx) (eriscv_spi_len rx)) = max (length (set_addrs tx)) (length (set_addrs rx))"
  using assms by (simp add: eriscv_spi_len_eq max_def word_le_nat_alt unat_of_nat)

lemma transfer_ok_len: "transfer_ok hz config divisor tx rx m \<Longrightarrow>
    max (eriscv_spi_len tx) (eriscv_spi_len rx) \<noteq> 0"
  using max_len [of tx rx] by (auto simp: transfer_ok_def)

text \<open>
  C23. The polled transfer of the Zephyr driver, for an accepted configuration on an idle port: every byte of
  the send buffers in turn, and 0xff once they are used up, goes to the chosen slave alone; the answers fill
  the receive buffers in turn and touch no other memory; the slave is released and the interrupt state is
  what it was. If a byte takes longer than the time the divisor allows, the call ends with \<open>-ETIMEDOUT\<close> and
  the answers before it stored.
\<close>

theorem zephyr_spi_transceive_correct:
  assumes "transfer_ok hz config divisor tx rx m"
    "n = max (length (set_addrs tx)) (length (set_addrs rx))"
  shows "\<exists>result m'. eriscv_spi_transceive spi_bus riscv_kernel hz config tx rx m = Some (result, m') \<and>
    s_ss (dev m') = 0xf \<and> csrs m' = csrs m \<and>
    ((\<forall>j<n. spi_delay (s_script (dev m)) j \<le> xfer_timeout divisor) \<longrightarrow>
       result = Inr () \<and> ram m' = deposits (set_addrs rx) 0 (map (spi_answer (s_script (dev m))) [0..<n]) (ram m) \<and>
       s_sent (dev m') = s_sent (dev m) @
         map (\<lambda>j. (spi_select_word (slave_no config), fetch (set_addrs tx) j (ram m))) [0..<n]) \<and>
    (\<forall>k<n. (\<forall>j<k. spi_delay (s_script (dev m)) j \<le> xfer_timeout divisor) \<and>
        xfer_timeout divisor < spi_delay (s_script (dev m)) k \<longrightarrow>
       result = Inl ETIMEDOUT \<and> ram m' = deposits (set_addrs rx) 0 (map (spi_answer (s_script (dev m))) [0..<k]) (ram m) \<and>
       s_sent (dev m') = s_sent (dev m) @
         map (\<lambda>j. (spi_select_word (slave_no config), fetch (set_addrs tx) j (ram m))) [0..<Suc k])"
proof -
  note ok = assms(1) [unfolded transfer_ok_def]
  have n: "unat (max (eriscv_spi_len tx) (eriscv_spi_len rx)) = n" "n < 2 ^ 32" "0 + n < 2 ^ 32"
    using max_len [of tx rx] ok assms(2) by auto
  obtain m1 where run: "eriscv_spi_transceive spi_bus riscv_kernel hz config tx rx m =
      (let (ok, m) = spi_xfer_loop spi_bus tx rx divisor 0 n m1
       in if \<not> ok then Some (Inl ETIMEDOUT, m)
          else Some (Inr (), eriscv_mcu_mmio_write32 spi_bus (spi_base m + ERISCV_SPI_SS) 0xf m))"
    and m1: "spi_base m1 = ERISCV_MCU_SPI0_BASE" "ram m1 = ram m" "csrs m1 = csrs m" "apb_spi.open_port (dev m1)"
    "s_ss (dev m1) = spi_select_word (slave_no config)" "s_script (dev m1) = s_script (dev m)" "s_sent (dev m1) = s_sent (dev m)"
    using apb_spi.transceive_accepted [of config tx rx m hz divisor] ok transfer_ok_len [OF assms(1)]
    by (auto simp: n spi_look_sel spi_look_idle)
  obtain result m' where call: "eriscv_spi_transceive spi_bus riscv_kernel hz config tx rx m = Some (result, m')"
    unfolding run by (cases "spi_xfer_loop spi_bus tx rx divisor 0 n m1"; cases "fst (spi_xfer_loop spi_bus tx rx divisor 0 n m1)") auto
  note run = run [unfolded call]
  note good = apb_spi.spi_xfer_loop_ok [OF m1(4,1) n(3), unfolded spi_look_sel m1, of divisor tx rx]
  note late = apb_spi.spi_xfer_loop_late [OF m1(4,1) n(2), unfolded spi_look_sel m1, of _ divisor tx rx]
  have nc: "no_clobber (set_addrs tx) (set_addrs rx)" using ok by blast
  show ?thesis
  proof (rule first_failure [of n "\<lambda>j. spi_delay (s_script (dev m)) j \<le> xfer_timeout divisor"])
    assume all: "\<forall>j<n. spi_delay (s_script (dev m)) j \<le> xfer_timeout divisor"
    obtain tr d where loop: "spi_xfer_loop spi_bus tx rx divisor 0 n m1 = (True, m1\<lparr>dev := d,
        ram := deposits (set_addrs rx) 0 (map (spi_answer (s_script (dev m))) [0..<n]) (ram m), trace := tr\<rparr>)"
      and d: "apb_spi.open_port d" "s_sent d = s_sent (dev m) @
         map (\<lambda>j. (spi_select_word (slave_no config), fetch (set_addrs tx) j (ram m))) [0..<n]"
      using good [OF all nc] by auto
    have "\<not> s_busy d" using d(1) by (simp add: apb_spi.open_port_def spi_look_idle)
    then have "s_ss (dev m') = 0xf \<and> csrs m' = csrs m \<and> result = Inr () \<and>
        ram m' = deposits (set_addrs rx) 0 (map (spi_answer (s_script (dev m))) [0..<n]) (ram m) \<and> s_sent (dev m') = s_sent d"
      using run by (simp add: loop mach_simps m1 spi_bus_sel spi_wr_def)
    then show ?thesis using all d(2) call by (auto simp: not_le [symmetric])
  next
    fix k assume k: "k < n" "\<forall>j<k. spi_delay (s_script (dev m)) j \<le> xfer_timeout divisor"
      "\<not> spi_delay (s_script (dev m)) k \<le> xfer_timeout divisor"
    have "s_ss (dev m') = 0xf \<and> csrs m' = csrs m \<and> result = Inl ETIMEDOUT \<and>
       ram m' = deposits (set_addrs rx) 0 (map (spi_answer (s_script (dev m))) [0..<k]) (ram m) \<and>
       s_sent (dev m') = s_sent (dev m) @
         map (\<lambda>j. (spi_select_word (slave_no config), fetch (set_addrs tx) j (ram m))) [0..<Suc k]"
      using late [OF k(1,2) _ nc] k(3) run m1(3) by (auto simp: not_le)
    moreover have "k' = k" if "\<forall>j<k'. spi_delay (s_script (dev m)) j \<le> xfer_timeout divisor"
      "xfer_timeout divisor < spi_delay (s_script (dev m)) k'" for k'
      using k that by (metis linorder_neqE_nat not_le)
    ultimately show ?thesis using k call by blast
  qed
qed

definition zspi_boot :: "(nat \<times> u8) list \<Rightarrow> (u32 \<Rightarrow> u8) \<Rightarrow> (spi_apb, unit) eriscv_spi" where
  "zspi_boot sc r = \<lparr>dev = spi_reset sc, csrs = (\<lambda>_. 0), ram = r, trace = [], spi_base = 0x40030000, tx_bufs = None,
     rx_bufs = None, data_len = 0, data_index = 0, data_ctrl = 0, spi_callback = None, spi_userdata = 0, spi_active = False\<rparr>"

definition demo_config :: spi_config where
  "demo_config = \<lparr>op_master = True, op_word_size = 8, op_loop = False, op_cpol = False, op_cpha = False, op_lsb = False,
     cs_is_gpio = False, frequency = 1000000, slave_no = 2\<rparr>"

definition demo_tx :: spi_buf_set where
  "demo_tx = Some [\<lparr>buf = 0x10, buf_len = 1\<rparr>, \<lparr>buf = 0x20, buf_len = 1\<rparr>]"

definition demo_rx :: spi_buf_set where
  "demo_rx = Some [\<lparr>buf = 0x30, buf_len = 3\<rparr>]"

lemma demo_addrs: "set_addrs demo_tx = [0x10, 0x20]" "set_addrs demo_rx = [0x30, 0x31, 0x32]"
  by (simp_all add: set_addrs_def demo_tx_def demo_rx_def buf_addrs_def upt_rec)

lemma demo_ok: "transfer_ok 100000000 demo_config 50 demo_tx demo_rx (zspi_boot sc r)"
  by (simp add: transfer_ok_def demo_config_def eriscv_spi_validate_def eriscv_spi_divisor_def zspi_boot_def
      spi_reset_def demo_addrs no_clobber_disjoint)

theorem zephyr_spi_transceive_correct_witness:
  "\<exists>m'. eriscv_spi_transceive spi_bus riscv_kernel 100000000 demo_config demo_tx demo_rx
      (zspi_boot [(0, 1), (0, 2), (0, 3)] ((\<lambda>_. 0)(0x10 := 7, 0x20 := 8))) = Some (Inr (), m') \<and>
    s_sent (dev m') = [(0xb, 7), (0xb, 8), (0xb, 0xff)]"
proof -
  let ?m = "zspi_boot [(0, 1), (0, 2), (0, 3)] ((\<lambda>_. 0)(0x10 := 7, 0x20 := 8))"
  have "[0..<3] = [0, 1, 2 :: nat]" by (simp add: upt_rec)
  moreover have "spi_delay [(0, 1), (0, 2), (0, 3)] j \<le> xfer_timeout 50" if "j < 3" for j
    using that by (auto simp: spi_delay_def less_Suc_eq numeral_3_eq_3)
  ultimately show ?thesis
    using zephyr_spi_transceive_correct [OF demo_ok [of "[(0, 1), (0, 2), (0, 3)]" "(\<lambda>_. 0)(0x10 := 7, 0x20 := 8)"] refl]
    by (auto simp: demo_addrs zspi_boot_def spi_reset_def fetch_def demo_config_def spi_select_word_def)
qed

lemma spi_async_result:
  assumes "transfer_ok hz config divisor tx rx m"
    "n = max (length (set_addrs tx)) (length (set_addrs rx))"
    "k = (\<Sum>j \<leftarrow> [0..<n]. Suc (spi_delay (s_script (dev m)) j))"
  shows "\<exists>m0 m'. eriscv_spi_transceive_async spi_bus riscv_kernel hz config tx rx callback userdata m = Some (Inr (), m0) \<and>
    csrs m0 = csrs m \<and> (\<forall>j<k. spi_active ((eriscv_spi_isr spi_bus call ^^ j) m0)) \<and>
    (eriscv_spi_isr spi_bus call ^^ k) m0 = (case callback of None \<Rightarrow> m' | Some cb \<Rightarrow> call cb 0 userdata m') \<and>
    \<not> spi_active m' \<and> spi_callback m' = None \<and> s_ss (dev m') = 0xf \<and>
    ram m' = deposits (set_addrs rx) 0 (map (spi_answer (s_script (dev m))) [0..<n]) (ram m) \<and>
    s_sent (dev m') = s_sent (dev m) @
      map (\<lambda>j. (spi_select_word (slave_no config), fetch (set_addrs tx) j (ram m))) [0..<n]"
proof -
  note ok = assms(1) [unfolded transfer_ok_def]
  have n: "unat (max (eriscv_spi_len tx) (eriscv_spi_len rx)) = n" using max_len [of tx rx] ok assms(2) by auto
  have acc: "eriscv_spi_validate config = Inr ()" "\<not> spi_active m" "eriscv_spi_divisor hz config = Some divisor"
    "spi_base m = ERISCV_MCU_SPI0_BASE" "v_busy (spi_look (dev m)) = None"
    using ok by (simp_all add: spi_look_idle)
  obtain m0 where start: "eriscv_spi_transceive_async spi_bus riscv_kernel hz config tx rx callback userdata m = Some (Inr (), m0)"
    "csrs m0 = csrs m"
    and f: "rx_bufs m0 = rx" "data_len m0 = max (eriscv_spi_len tx) (eriscv_spi_len rx)" "spi_callback m0 = callback" "spi_userdata m0 = userdata"
    and at: "apb_spi.xfer_at (set_addrs tx) (ram m) (s_script (dev m)) (s_sent (dev m)) (spi_select_word (slave_no config)) m0
      0 (spi_delay (s_script (dev m)) 0) m0"
    using apb_spi.transceive_async_accepted [OF acc(1) transfer_ok_len [OF assms(1)] acc(2-5), of callback userdata]
    unfolding spi_look_sel by blast
  have k: "k = byte_irqs (spi_delay (s_script (dev m))) 0 (unat (data_len m0))" using assms(3) f n by (simp add: byte_irqs_def)
  have "no_clobber (set_addrs tx) (set_addrs (rx_bufs m0))" using ok f by simp
  from apb_spi.spi_isr_run [OF this at, of call] start show ?thesis
    unfolding k f n apb_spi.xfer_end_def spi_look_sel by blast
qed

text \<open>
  C24. The interrupt-driven transfer of the Zephyr driver: it takes exactly the interrupts its bytes take,
  stays active until then, and the last one calls the callback once, with 0 and the caller's data (or nothing
  when there is no callback), with the same bytes sent and the same memory as after the polled transfer.
\<close>

theorem zephyr_spi_async_correct:
  assumes "transfer_ok hz config divisor tx rx m"
    "n = max (length (set_addrs tx)) (length (set_addrs rx))"
    "k = (\<Sum>j \<leftarrow> [0..<n]. Suc (spi_delay (s_script (dev m)) j))"
  shows "\<exists>m0 m'. eriscv_spi_transceive_async spi_bus riscv_kernel hz config tx rx callback userdata m = Some (Inr (), m0) \<and>
    csrs m0 = csrs m \<and> (\<forall>j<k. spi_active ((eriscv_spi_isr spi_bus call ^^ j) m0)) \<and>
    (eriscv_spi_isr spi_bus call ^^ k) m0 = (case callback of None \<Rightarrow> m' | Some cb \<Rightarrow> call cb 0 userdata m') \<and>
    \<not> spi_active m' \<and> spi_callback m' = None \<and> s_ss (dev m') = 0xf \<and>
    ram m' = deposits (set_addrs rx) 0 (map (spi_answer (s_script (dev m))) [0..<n]) (ram m) \<and>
    s_sent (dev m') = s_sent (dev m) @
      map (\<lambda>j. (spi_select_word (slave_no config), fetch (set_addrs tx) j (ram m))) [0..<n]"
  using spi_async_result [OF assms] .

theorem zephyr_spi_async_correct_witness:
  "\<exists>m0 m'. eriscv_spi_transceive_async spi_bus riscv_kernel 100000000 demo_config demo_tx demo_rx None 5
      (zspi_boot [(3, 1), (0, 2), (2, 3)] (\<lambda>_. 0)) = Some (Inr (), m0) \<and>
    (eriscv_spi_isr spi_bus (\<lambda>_ _ _ m. m) ^^ 8) m0 = m' \<and> ram m' 0x32 = 3 \<and> \<not> spi_active m'"
proof -
  have three: "[0..<3] = [0, 1, 2 :: nat]" by (simp add: upt_rec)
  have k: "8 = (\<Sum>j \<leftarrow> [0..<3]. Suc (spi_delay (s_script (dev (zspi_boot [(3, 1), (0, 2), (2, 3)] (\<lambda>_. 0)))) j))"
    by (simp add: three zspi_boot_def spi_reset_def spi_delay_def)
  have n: "3 = max (length (set_addrs demo_tx)) (length (set_addrs demo_rx))" by (simp add: demo_addrs)
  from zephyr_spi_async_correct [OF demo_ok [of "[(3, 1), (0, 2), (2, 3)]" "\<lambda>_. 0"] n k, of None 5 "\<lambda>_ _ _ m. m"]
  show ?thesis
    by (fastforce simp: demo_addrs three zspi_boot_def spi_reset_def spi_answer_def deposit_def)
qed

text \<open>
  The divisor: for every request \<open>f\<close> below \<open>2 ^ 31\<close> hertz with \<open>hz + 2 * f\<close> at most \<open>2 ^ 32\<close>, where the sum
  of the rounded division does not wrap, it is the least positive one whose clock, \<open>hz / (2 * divisor)\<close>, is not faster
  than the request; at \<open>2 ^ 31\<close> hertz, which validation lets through, the driver divides by zero.
\<close>

theorem zephyr_spi_divisor_least:
  assumes "0 < frequency config" "frequency config < 0x80000000" "unat (frequency config) * 2 + unat hz \<le> 2 ^ 32"
  shows "(\<exists>d. eriscv_spi_divisor hz config = Some d \<and> 0 < d \<and>
      unat hz \<le> 2 * unat d * unat (frequency config) \<and>
      (\<forall>e. 0 < e \<and> unat hz \<le> 2 * e * unat (frequency config) \<longrightarrow> unat d \<le> e)) \<and>
    eriscv_spi_divisor hz (config\<lparr>frequency := 0x80000000\<rparr>) = None"
proof -
  let ?f = "unat (frequency config)" and ?h = "unat hz"
  let ?w = "2 * frequency config" and ?q = "(?h + 2 * ?f - 1) div (2 * ?f)"
  have f: "0 < ?f" "?f < 2 ^ 31" using assms(1,2) by (simp_all add: word_less_nat_alt)
  have w: "unat ?w = 2 * ?f" using f by (simp add: unat_word_ariths)
  have s: "unat (hz + ?w - 1) = ?h + 2 * ?f - 1"
  proof (cases "?h + 2 * ?f = 2 ^ 32")
    case True
    then have "hz + ?w = 0" by (simp add: word_unat_eq_iff unat_word_ariths(1) w)
    then show ?thesis using True by (simp add: unsigned_minus_1_eq_mask mask_eq_exp_minus_1)
  next
    case False
    then have "unat (hz + ?w) = ?h + 2 * ?f" using assms(3) by (simp add: unat_word_ariths(1) w)
    moreover from this have "hz + ?w \<noteq> 0" using f(1) by auto
    ultimately show ?thesis by (simp add: unat_minus_one)
  qed
  define d where "d = max ((hz + ?w - 1) div ?w) 1"
  have d: "unat d = max ?q 1" by (simp add: d_def max_def word_le_nat_alt unat_div s w)
  have "?w \<noteq> 0" using f(1) w by (metis mult_pos_pos unat_0 less_irrefl zero_less_numeral)
  then have "eriscv_spi_divisor hz config = Some d" by (simp add: eriscv_spi_divisor_def d_def Let_def)
  moreover have "?h \<le> ?q * (2 * ?f)"
    using dividend_less_div_times [of "2 * ?f" "?h + 2 * ?f - 1"] f(1) by simp
  then have "?h \<le> max ?q 1 * (2 * ?f)" by (rule order.trans) (rule mult_le_mono1, simp)
  then have "?h \<le> 2 * unat d * ?f" unfolding d by (simp add: mult_ac)
  moreover have "?q \<le> e" if "?h \<le> 2 * e * ?f" for e
  proof -
    have "?h + 2 * ?f - 1 < Suc e * (2 * ?f)" using that f(1) by (simp add: algebra_simps)
    then show ?thesis using less_mult_imp_div_less [of "?h + 2 * ?f - 1" "Suc e" "2 * ?f"] by simp
  qed
  moreover have "0 < d" using d by (simp add: word_less_nat_alt)
  ultimately show ?thesis using d by (auto simp: eriscv_spi_divisor_def)
qed

theorem zephyr_spi_divisor_least_witness:
  "\<exists>d. eriscv_spi_divisor 100000000 demo_config = Some d \<and> 50 \<le> unat d"
  using zephyr_spi_divisor_least [of demo_config 100000000] by (auto simp: demo_config_def)

end
