(* ===== verification/Zephyr_Uart.thy ===== *)
theory Zephyr_Uart
  imports Zephyr_Spi
begin

text \<open>
  The Zephyr UART driver (\<^verbatim>\<open>sw/rtos/zephyr/soc/riscv/eriscv_mcu/drivers/uart.c\<close>) and the interrupt-driven
  console on top of it (\<^verbatim>\<open>.../console/uart_irq_console.c\<close>). The kernel's ring buffer is not in the
  repository: it is the parameter \<open>ring_ops\<close>, and \<open>ring_laws\<close> is what its documentation promises.
  A loop that may not end gives \<open>None\<close>.
\<close>

section \<open>The driver\<close>

abbreviation (input) ERISCV_UART_TXDATA :: u32 where "ERISCV_UART_TXDATA \<equiv> 0x00"
abbreviation (input) ERISCV_UART_RXDATA :: u32 where "ERISCV_UART_RXDATA \<equiv> 0x04"
abbreviation (input) ERISCV_UART_STATUS :: u32 where "ERISCV_UART_STATUS \<equiv> 0x08"
abbreviation (input) ERISCV_UART_BAUDDIV :: u32 where "ERISCV_UART_BAUDDIV \<equiv> 0x0c"
abbreviation (input) ERISCV_UART_CTRL :: u32 where "ERISCV_UART_CTRL \<equiv> 0x10"
abbreviation (input) ERISCV_UART_IRQ_STATUS :: u32 where "ERISCV_UART_IRQ_STATUS \<equiv> 0x1c"
abbreviation (input) ERISCV_UART_TX_READY :: u32 where "ERISCV_UART_TX_READY \<equiv> 1"
abbreviation (input) ERISCV_UART_RX_VALID :: u32 where "ERISCV_UART_RX_VALID \<equiv> 2"
abbreviation (input) ERISCV_UART_TX_BUSY :: u32 where "ERISCV_UART_TX_BUSY \<equiv> 4"
abbreviation (input) ERISCV_UART_RX_OVERRUN :: u32 where "ERISCV_UART_RX_OVERRUN \<equiv> 8"
abbreviation (input) ERISCV_UART_TX_ENABLE :: u32 where "ERISCV_UART_TX_ENABLE \<equiv> 1"
abbreviation (input) ERISCV_UART_RX_ENABLE :: u32 where "ERISCV_UART_RX_ENABLE \<equiv> 2"
abbreviation (input) ERISCV_UART_RX_IRQ_ENABLE :: u32 where "ERISCV_UART_RX_IRQ_ENABLE \<equiv> 4"
abbreviation (input) ERISCV_UART_TX_IRQ_ENABLE :: u32 where "ERISCV_UART_TX_IRQ_ENABLE \<equiv> 8"
abbreviation (input) ERISCV_UART_ERR_IRQ_ENABLE :: u32 where "ERISCV_UART_ERR_IRQ_ENABLE \<equiv> 16"
abbreviation (input) ERISCV_UART_IRQ_RX_WATERMARK :: u32 where "ERISCV_UART_IRQ_RX_WATERMARK \<equiv> 1"
abbreviation (input) ERISCV_UART_IRQ_TX_WATERMARK :: u32 where "ERISCV_UART_IRQ_TX_WATERMARK \<equiv> 2"
abbreviation (input) ERISCV_UART_IRQ_RX_OVERRUN :: u32 where "ERISCV_UART_IRQ_RX_OVERRUN \<equiv> 4"

record eriscv_uart_config =
  uart_base :: u32
  baud_divisor :: u32

record ('d, 'cb) eriscv_uart = "'d mach" +
  uart_callback :: "'cb option"
  uart_callback_data :: u32

definition eriscv_uart_ctrl_update ::
    "'d bus \<Rightarrow> eriscv_uart_config \<Rightarrow> u32 \<Rightarrow> u32 \<Rightarrow> ('d, 'e) mach_scheme \<Rightarrow> ('d, 'e) mach_scheme" where
  "eriscv_uart_ctrl_update B config bits_set bits_clear m =
    (let (ctrl, m) = eriscv_mcu_mmio_read32 B (uart_base config + ERISCV_UART_CTRL) m;
         ctrl = (ctrl OR bits_set) AND NOT bits_clear
     in eriscv_mcu_mmio_write32 B (uart_base config + ERISCV_UART_CTRL) ctrl m)"

text \<open>\<open>-1\<close>, or 0 and the byte.\<close>

definition eriscv_uart_poll_in ::
    "'d bus \<Rightarrow> eriscv_uart_config \<Rightarrow> ('d, 'e) mach_scheme \<Rightarrow> u8 option \<times> ('d, 'e) mach_scheme" where
  "eriscv_uart_poll_in B config m =
    (let (status, m) = eriscv_mcu_mmio_read32 B (uart_base config + ERISCV_UART_STATUS) m
     in if status AND ERISCV_UART_RX_VALID = 0 then (None, m)
        else let (v, m) = eriscv_mcu_mmio_read32 B (uart_base config + ERISCV_UART_RXDATA) m
             in (Some (ucast v), m))"

partial_function (option) eriscv_uart_wait ::
    "'d bus \<Rightarrow> eriscv_uart_config \<Rightarrow> u32 \<Rightarrow> ('d, 'e) mach_scheme \<Rightarrow> ('d, 'e) mach_scheme option" where
  "eriscv_uart_wait B config bits m =
    (let (status, m) = eriscv_mcu_mmio_read32 B (uart_base config + ERISCV_UART_STATUS) m
     in if status AND bits = 0 then eriscv_uart_wait B config bits m else Some m)"

definition eriscv_uart_poll_out ::
    "'d bus \<Rightarrow> eriscv_uart_config \<Rightarrow> u8 \<Rightarrow> ('d, 'e) mach_scheme \<Rightarrow> ('d, 'e) mach_scheme option" where
  "eriscv_uart_poll_out B config c m =
    Option.bind (eriscv_uart_wait B config ERISCV_UART_TX_READY m) (\<lambda>m.
      eriscv_uart_wait B config ERISCV_UART_TX_BUSY
        (eriscv_mcu_mmio_write32 B (uart_base config + ERISCV_UART_TXDATA) (ucast c) m))"

text \<open>\<open>UART_ERROR_OVERRUN\<close> is a constant of the kernel; the result says whether it is returned.\<close>

definition eriscv_uart_err_check ::
    "'d bus \<Rightarrow> eriscv_uart_config \<Rightarrow> ('d, 'e) mach_scheme \<Rightarrow> bool \<times> ('d, 'e) mach_scheme" where
  "eriscv_uart_err_check B config m =
    (let (status, m) = eriscv_mcu_mmio_read32 B (uart_base config + ERISCV_UART_STATUS) m
     in if status AND ERISCV_UART_RX_OVERRUN = 0 then (False, m)
        else (True, eriscv_mcu_mmio_write32 B (uart_base config + ERISCV_UART_IRQ_STATUS) ERISCV_UART_IRQ_RX_OVERRUN m))"

text \<open>The loops of \<open>fifo_fill\<close> and \<open>fifo_read\<close> over the bytes still to go; \<open>tx_data\<close> is what the buffer holds.\<close>

fun eriscv_uart_fifo_fill ::
    "'d bus \<Rightarrow> eriscv_uart_config \<Rightarrow> u8 list \<Rightarrow> ('d, 'e) mach_scheme \<Rightarrow> nat \<times> ('d, 'e) mach_scheme" where
  "eriscv_uart_fifo_fill B config [] m = (0, m)"
| "eriscv_uart_fifo_fill B config (b # bs) m =
    (let (status, m) = eriscv_mcu_mmio_read32 B (uart_base config + ERISCV_UART_STATUS) m
     in if status AND ERISCV_UART_TX_READY = 0 then (0, m)
        else let (n, m) = eriscv_uart_fifo_fill B config bs
                            (eriscv_mcu_mmio_write32 B (uart_base config + ERISCV_UART_TXDATA) (ucast b) m)
             in (Suc n, m))"

fun eriscv_uart_fifo_read ::
    "'d bus \<Rightarrow> eriscv_uart_config \<Rightarrow> nat \<Rightarrow> ('d, 'e) mach_scheme \<Rightarrow> u8 list \<times> ('d, 'e) mach_scheme" where
  "eriscv_uart_fifo_read B config 0 m = ([], m)"
| "eriscv_uart_fifo_read B config (Suc k) m =
    (let (status, m) = eriscv_mcu_mmio_read32 B (uart_base config + ERISCV_UART_STATUS) m
     in if status AND ERISCV_UART_RX_VALID = 0 then ([], m)
        else let (v, m) = eriscv_mcu_mmio_read32 B (uart_base config + ERISCV_UART_RXDATA) m;
                 (bs, m) = eriscv_uart_fifo_read B config k m
             in (ucast v # bs, m))"

definition eriscv_uart_irq_tx_enable ::
    "'d bus \<Rightarrow> eriscv_uart_config \<Rightarrow> ('d, 'e) mach_scheme \<Rightarrow> ('d, 'e) mach_scheme" where
  "eriscv_uart_irq_tx_enable B config m = eriscv_uart_ctrl_update B config ERISCV_UART_TX_IRQ_ENABLE 0 m"

definition eriscv_uart_irq_tx_disable ::
    "'d bus \<Rightarrow> eriscv_uart_config \<Rightarrow> ('d, 'e) mach_scheme \<Rightarrow> ('d, 'e) mach_scheme" where
  "eriscv_uart_irq_tx_disable B config m = eriscv_uart_ctrl_update B config 0 ERISCV_UART_TX_IRQ_ENABLE m"

definition eriscv_uart_irq_tx_ready ::
    "'d bus \<Rightarrow> eriscv_uart_config \<Rightarrow> ('d, 'e) mach_scheme \<Rightarrow> bool \<times> ('d, 'e) mach_scheme" where
  "eriscv_uart_irq_tx_ready B config m =
    (let (ctrl, m) = eriscv_mcu_mmio_read32 B (uart_base config + ERISCV_UART_CTRL) m;
         (status, m) = eriscv_mcu_mmio_read32 B (uart_base config + ERISCV_UART_STATUS) m
     in (ctrl AND ERISCV_UART_TX_IRQ_ENABLE \<noteq> 0 \<and> status AND ERISCV_UART_TX_READY \<noteq> 0, m))"

definition eriscv_uart_irq_rx_enable ::
    "'d bus \<Rightarrow> eriscv_uart_config \<Rightarrow> ('d, 'e) mach_scheme \<Rightarrow> ('d, 'e) mach_scheme" where
  "eriscv_uart_irq_rx_enable B config m = eriscv_uart_ctrl_update B config ERISCV_UART_RX_IRQ_ENABLE 0 m"

definition eriscv_uart_irq_rx_disable ::
    "'d bus \<Rightarrow> eriscv_uart_config \<Rightarrow> ('d, 'e) mach_scheme \<Rightarrow> ('d, 'e) mach_scheme" where
  "eriscv_uart_irq_rx_disable B config m = eriscv_uart_ctrl_update B config 0 ERISCV_UART_RX_IRQ_ENABLE m"

definition eriscv_uart_irq_tx_complete ::
    "'d bus \<Rightarrow> eriscv_uart_config \<Rightarrow> ('d, 'e) mach_scheme \<Rightarrow> bool \<times> ('d, 'e) mach_scheme" where
  "eriscv_uart_irq_tx_complete B config m =
    (let (status, m) = eriscv_mcu_mmio_read32 B (uart_base config + ERISCV_UART_STATUS) m
     in (status AND ERISCV_UART_TX_BUSY = 0, m))"

definition eriscv_uart_irq_rx_ready ::
    "'d bus \<Rightarrow> eriscv_uart_config \<Rightarrow> ('d, 'e) mach_scheme \<Rightarrow> bool \<times> ('d, 'e) mach_scheme" where
  "eriscv_uart_irq_rx_ready B config m =
    (let (ctrl, m) = eriscv_mcu_mmio_read32 B (uart_base config + ERISCV_UART_CTRL) m;
         (status, m) = eriscv_mcu_mmio_read32 B (uart_base config + ERISCV_UART_STATUS) m
     in (ctrl AND ERISCV_UART_RX_IRQ_ENABLE \<noteq> 0 \<and> status AND ERISCV_UART_RX_VALID \<noteq> 0, m))"

definition eriscv_uart_irq_err_enable ::
    "'d bus \<Rightarrow> eriscv_uart_config \<Rightarrow> ('d, 'e) mach_scheme \<Rightarrow> ('d, 'e) mach_scheme" where
  "eriscv_uart_irq_err_enable B config m = eriscv_uart_ctrl_update B config ERISCV_UART_ERR_IRQ_ENABLE 0 m"

definition eriscv_uart_irq_err_disable ::
    "'d bus \<Rightarrow> eriscv_uart_config \<Rightarrow> ('d, 'e) mach_scheme \<Rightarrow> ('d, 'e) mach_scheme" where
  "eriscv_uart_irq_err_disable B config m = eriscv_uart_ctrl_update B config 0 ERISCV_UART_ERR_IRQ_ENABLE m"

definition eriscv_uart_irq_is_pending ::
    "'d bus \<Rightarrow> eriscv_uart_config \<Rightarrow> ('d, 'e) mach_scheme \<Rightarrow> bool \<times> ('d, 'e) mach_scheme" where
  "eriscv_uart_irq_is_pending B config m =
    (let (ctrl, m) = eriscv_mcu_mmio_read32 B (uart_base config + ERISCV_UART_CTRL) m;
         (pending, m) = eriscv_mcu_mmio_read32 B (uart_base config + ERISCV_UART_IRQ_STATUS) m
     in ((ctrl AND ERISCV_UART_RX_IRQ_ENABLE \<noteq> 0 \<and> pending AND ERISCV_UART_IRQ_RX_WATERMARK \<noteq> 0) \<or>
         (ctrl AND ERISCV_UART_TX_IRQ_ENABLE \<noteq> 0 \<and> pending AND ERISCV_UART_IRQ_TX_WATERMARK \<noteq> 0) \<or>
         (ctrl AND ERISCV_UART_ERR_IRQ_ENABLE \<noteq> 0 \<and> pending AND ERISCV_UART_IRQ_RX_OVERRUN \<noteq> 0), m))"

definition eriscv_uart_irq_update :: int where "eriscv_uart_irq_update = 1"

definition eriscv_uart_irq_callback_set ::
    "'cb option \<Rightarrow> u32 \<Rightarrow> ('d, 'cb, 'e) eriscv_uart_scheme \<Rightarrow> ('d, 'cb, 'e) eriscv_uart_scheme" where
  "eriscv_uart_irq_callback_set callback user_data m =
     m\<lparr>uart_callback := callback, uart_callback_data := user_data\<rparr>"

definition eriscv_uart_isr ::
    "'d bus \<Rightarrow> eriscv_uart_config \<Rightarrow>
     ('cb \<Rightarrow> u32 \<Rightarrow> ('d, 'cb, 'e) eriscv_uart_scheme \<Rightarrow> ('d, 'cb, 'e) eriscv_uart_scheme option) \<Rightarrow>
     ('d, 'cb, 'e) eriscv_uart_scheme \<Rightarrow> ('d, 'cb, 'e) eriscv_uart_scheme option" where
  "eriscv_uart_isr B config call m =
    (case uart_callback m of
       Some cb \<Rightarrow>
         (let (pending, m) = eriscv_uart_irq_is_pending B config m
          in if pending then call cb (uart_callback_data m) m else Some m)
     | None \<Rightarrow> Some (eriscv_uart_ctrl_update B config 0
         (ERISCV_UART_RX_IRQ_ENABLE OR ERISCV_UART_TX_IRQ_ENABLE OR ERISCV_UART_ERR_IRQ_ENABLE) m))"

definition eriscv_uart_init ::
    "'d bus \<Rightarrow> ('d, 'e) mach_scheme zephyr \<Rightarrow> eriscv_uart_config \<Rightarrow> ('d, 'e) mach_scheme \<Rightarrow> ('d, 'e) mach_scheme" where
  "eriscv_uart_init B K config m =
    (let m = eriscv_mcu_mmio_write32 B (uart_base config + ERISCV_UART_BAUDDIV) (baud_divisor config) m;
         m = eriscv_mcu_mmio_write32 B (uart_base config + ERISCV_UART_CTRL)
               (ERISCV_UART_TX_ENABLE OR ERISCV_UART_RX_ENABLE) m
     in irq_enable K (riscv_plic_set_priority K (irq_connect K m)))"

section \<open>The console\<close>

text \<open>The kernel's ring buffer, one byte at a time as the console uses it: 0 is the count of a refusal.\<close>

record 'r ring_ops =
  ring_buf_put :: "u8 \<Rightarrow> 'r \<Rightarrow> nat \<times> 'r"
  ring_buf_get :: "'r \<Rightarrow> nat \<times> u8 \<times> 'r"
  ring_buf_size_get :: "'r \<Rightarrow> nat"
  ring_buf_init :: 'r

abbreviation (input) ERISCV_UART_IRQ_CONSOLE_TX_BUFFER_SIZE :: nat where
  "ERISCV_UART_IRQ_CONSOLE_TX_BUFFER_SIZE \<equiv> 256"

record ('d, 'cb, 'r) console = "('d, 'cb) eriscv_uart" +
  uart_console_tx_ring :: 'r
  uart_console_tx_irq_count :: u32
  uart_console_tx_dropped :: u32

partial_function (option) uart_console_tx_drain ::
    "'d bus \<Rightarrow> 'r ring_ops \<Rightarrow> eriscv_uart_config \<Rightarrow> ('d, 'cb, 'r) console \<Rightarrow> ('d, 'cb, 'r) console option" where
  "uart_console_tx_drain B R config m =
    (let (ready, m) = eriscv_uart_irq_tx_ready B config m
     in if \<not> ready then Some m
        else
          let (n, c, ring) = ring_buf_get R (uart_console_tx_ring m)
          in if n = 0 then Some (eriscv_uart_irq_tx_disable B config (m\<lparr>uart_console_tx_ring := ring\<rparr>))
             else uart_console_tx_drain B R config
                    (snd (eriscv_uart_fifo_fill B config [c] (m\<lparr>uart_console_tx_ring := ring\<rparr>))))"

definition uart_console_irq_callback ::
    "'d bus \<Rightarrow> 'r ring_ops \<Rightarrow> eriscv_uart_config \<Rightarrow> ('d, 'cb, 'r) console \<Rightarrow> ('d, 'cb, 'r) console option" where
  "uart_console_irq_callback B R config m =
    (if eriscv_uart_irq_update = 0 then Some m
     else
       let (pending, m) = eriscv_uart_irq_is_pending B config m
       in if \<not> pending then Some m
          else
            let (ready, m) = eriscv_uart_irq_tx_ready B config m
            in map_option (\<lambda>m. snd (eriscv_uart_err_check B config m))
                 (if ready then
                    uart_console_tx_drain B R config
                      (m\<lparr>uart_console_tx_irq_count := uart_console_tx_irq_count m + 1\<rparr>)
                  else Some m))"

definition uart_console_enqueue :: "'r ring_ops \<Rightarrow> u8 \<Rightarrow> ('d, 'cb, 'r) console \<Rightarrow> ('d, 'cb, 'r) console" where
  "uart_console_enqueue R c m =
    (let (n, ring) = ring_buf_put R c (uart_console_tx_ring m);
         m = m\<lparr>uart_console_tx_ring := ring\<rparr>
     in if n = 0 then m\<lparr>uart_console_tx_dropped := uart_console_tx_dropped m + 1\<rparr> else m)"

definition uart_console_out ::
    "'d bus \<Rightarrow> 'r ring_ops \<Rightarrow> ('d, 'cb, 'r) console zephyr \<Rightarrow> eriscv_uart_config \<Rightarrow> u32 \<Rightarrow>
     ('d, 'cb, 'r) console \<Rightarrow> u32 \<times> ('d, 'cb, 'r) console" where
  "uart_console_out B R K config c m =
    (let (key, m) = irq_lock K m;
         m = (if c = 0x0a then uart_console_enqueue R 0x0d m else m);
         m = uart_console_enqueue R (ucast c) m;
         m = eriscv_uart_irq_tx_enable B config m
     in (c, irq_unlock K key m))"

definition eriscv_uart_console_tx_irq_count :: "('d, 'cb, 'r) console \<Rightarrow> u32" where
  "eriscv_uart_console_tx_irq_count m = uart_console_tx_irq_count m"

definition eriscv_uart_console_tx_busy ::
    "'d bus \<Rightarrow> 'r ring_ops \<Rightarrow> ('d, 'cb, 'r) console zephyr \<Rightarrow> eriscv_uart_config \<Rightarrow>
     ('d, 'cb, 'r) console \<Rightarrow> bool \<times> ('d, 'cb, 'r) console" where
  "eriscv_uart_console_tx_busy B R K config m =
    (let (key, m) = irq_lock K m
     in if ring_buf_size_get R (uart_console_tx_ring m) \<noteq> 0 then (True, irq_unlock K key m)
        else let (complete, m) = eriscv_uart_irq_tx_complete B config m
             in (\<not> complete, irq_unlock K key m))"

definition eriscv_uart_irq_console_init ::
    "'r ring_ops \<Rightarrow> bool \<Rightarrow> 'cb \<Rightarrow> ('d, 'cb, 'r) console \<Rightarrow> (errno + unit) \<times> ('d, 'cb, 'r) console" where
  "eriscv_uart_irq_console_init R device_is_ready irq_callback m =
    (if \<not> device_is_ready then (Inl ENODEV, m)
     else (Inr (), eriscv_uart_irq_callback_set (Some irq_callback) 0 (m\<lparr>uart_console_tx_ring := ring_buf_init R\<rparr>)))"

section \<open>Polling\<close>

lemma wait_is_wait:
  assumes "uart_base config = ERISCV_MCU_UART0_BASE"
  shows "eriscv_uart_wait B config bits m = uart_wait_status B bits m"
proof -
  have "uart_wait_status B bits m = Some m'" if "eriscv_uart_wait B config bits m = Some m'" for m'
    using that assms
  proof (induction B config bits m m' rule: eriscv_uart_wait.raw_induct [rotated, consumes 1])
    case (1 f B config bits m m')
    then show ?case
      by (subst uart_wait_status.simps) (auto simp: Let_def split: prod.splits if_splits)
  qed
  moreover have "eriscv_uart_wait B config bits m = Some m'" if "uart_wait_status B bits m = Some m'" for m'
    using that
  proof (induction B bits m m' rule: uart_wait_status.raw_induct [rotated, consumes 1])
    case (1 f B bits m m')
    then show ?case
      by (subst eriscv_uart_wait.simps) (auto simp: assms Let_def split: prod.splits if_splits)
  qed
  ultimately show ?thesis by (cases "eriscv_uart_wait B config bits m"; cases "uart_wait_status B bits m") auto
qed

text \<open>
  C39. The two polling drivers are the same code: on the UART of the SoC Zephyr's \<open>poll_out\<close> is, on any device and
  also when it does not return, the bare-metal \<open>putc\<close>, and \<open>getc\<close> returns exactly when the port shows a byte
  at some poll, the byte \<open>poll_in\<close> reads at the first such poll.
\<close>

theorem zephyr_uart_polling_same:
  assumes "uart_base config = ERISCV_MCU_UART0_BASE"
  shows "eriscv_uart_poll_out B config c m = eriscv_mcu_uart_putc B c m \<and>
    eriscv_mcu_uart_getc B m =
      (case eriscv_uart_poll_in B config m of
         (Some b, m') \<Rightarrow> Some (int (unat b), m')
       | (None, m') \<Rightarrow> eriscv_mcu_uart_getc B m')"
proof -
  have "sint (x AND 0xff :: u32) = int (unat (ucast x :: u8))" for x :: u32
  proof -
    have "unat (x AND 0xff) = unat x mod 2 ^ 8" using unat_and_mask [of x 8] by (simp add: mask_eq_exp_minus_1)
    then have "unat (x AND 0xff) = unat (ucast x :: u8)" by (simp add: unsigned_ucast_eq take_bit_eq_mod)
    moreover have "x AND 0xff < 0x80000000" by (rule order.strict_trans1 [OF word_and_mask_le]) simp
    from sint_small [OF this] have "sint (x AND 0xff) = int (unat (x AND 0xff))" by simp
    ultimately show ?thesis by simp
  qed
  then show ?thesis
    unfolding eriscv_uart_poll_out_def eriscv_mcu_uart_putc_def wait_is_wait [OF assms]
    unfolding eriscv_mcu_uart_getc_def uart_wait_status.simps [of B _ m]
    by (simp add: assms eriscv_uart_poll_in_def mach_simps Let_def)
qed

theorem zephyr_uart_polling_same_witness:
  "eriscv_uart_poll_out uart_apb_bus \<lparr>uart_base = 0x40000000, baud_divisor = 8\<rparr> 0x41 (uart_boot (uart_apb_reset [])) =
   eriscv_mcu_uart_putc uart_apb_bus 0x41 (uart_boot (uart_apb_reset []))"
  using zephyr_uart_polling_same [of "\<lparr>uart_base = 0x40000000, baud_divisor = 8\<rparr>" uart_apb_bus "0x41"
      "uart_boot (uart_apb_reset [])"] by simp

section \<open>The console\<close>

text \<open>The kernel documents its ring buffer as a bounded FIFO: \<open>contents\<close> are the bytes in it.\<close>

definition ring_laws :: "'r ring_ops \<Rightarrow> ('r \<Rightarrow> u8 list) \<Rightarrow> nat \<Rightarrow> bool" where
  "ring_laws R contents cap \<longleftrightarrow>
     (\<forall>r b. if length (contents r) < cap then \<exists>r'. ring_buf_put R b r = (1, r') \<and> contents r' = contents r @ [b]
            else ring_buf_put R b r = (0, r)) \<and>
     (\<forall>r. case contents r of
            [] \<Rightarrow> \<exists>b r'. ring_buf_get R r = (0, b, r') \<and> contents r' = []
          | b # bs \<Rightarrow> \<exists>r'. ring_buf_get R r = (1, b, r') \<and> contents r' = bs)"

lemma ring_put:
  assumes "ring_laws R contents cap"
  shows "length (contents r) < cap \<Longrightarrow> \<exists>r'. ring_buf_put R b r = (1, r') \<and> contents r' = contents r @ [b]"
    "\<not> length (contents r) < cap \<Longrightarrow> ring_buf_put R b r = (0, r)"
  using assms [unfolded ring_laws_def, THEN conjunct1, rule_format, of r b] by (auto simp del: One_nat_def)

lemma ring_get:
  assumes "ring_laws R contents cap"
  shows "contents r = [] \<Longrightarrow> \<exists>b r'. ring_buf_get R r = (0, b, r') \<and> contents r' = []"
    "contents r = b # bs \<Longrightarrow> \<exists>r'. ring_buf_get R r = (1, b, r') \<and> contents r' = bs"
  using assms [unfolded ring_laws_def, THEN conjunct2, rule_format, of r] by (auto simp del: One_nat_def)

text \<open>
  The UART as the console sees it: the laws of \<open>uart_device\<close>, the transmit interrupt enable, and that a
  transmitter that is ready stays so until something is sent.
\<close>

locale console_uart = uart_device B line backlog enabled
  for B :: "'d bus" and line :: "'d \<Rightarrow> u8 list" and backlog :: "'d \<Rightarrow> nat" and enabled :: "'d \<Rightarrow> bool" +
  fixes tx_irq :: "'d \<Rightarrow> bool"
  assumes ready_stays: "enabled d \<Longrightarrow> bit (fst (bus_rd B (ERISCV_MCU_UART0_BASE + ERISCV_MCU_UART_STATUS) d)) 0 \<Longrightarrow>
      bit (fst (bus_rd B (ERISCV_MCU_UART0_BASE + ERISCV_MCU_UART_STATUS)
        (snd (bus_rd B (ERISCV_MCU_UART0_BASE + ERISCV_MCU_UART_STATUS) d)))) 0"
    and tx_irq_rd: "tx_irq (snd (bus_rd B a d)) = tx_irq d"
      "bit (fst (bus_rd B (ERISCV_MCU_UART0_BASE + ERISCV_MCU_UART_CTRL) d)) 3 = tx_irq d"
    and tx_irq_wr: "tx_irq (bus_wr B ERISCV_MCU_UART0_BASE v d) = tx_irq d"
      "tx_irq (bus_wr B (ERISCV_MCU_UART0_BASE + ERISCV_MCU_UART_IRQ_STATUS) v d) = tx_irq d"
      "tx_irq (bus_wr B (ERISCV_MCU_UART0_BASE + ERISCV_MCU_UART_CTRL) v d) = bit v 3"
begin

lemma at_ctrl:
  assumes "enabled d" "bit v 0"
  shows "line (bus_wr B 0x40000010 v d) = line d" "enabled (bus_wr B 0x40000010 v d)"
    "tx_irq (bus_wr B 0x40000010 v d) = bit v 3"
  using ctrl_wr [OF assms] tx_irq_wr(3) [of v d] by simp_all

lemma ctrl_update:
  assumes "enabled (dev m)" "uart_base config = ERISCV_MCU_UART0_BASE" "\<not> bit off 0"
  shows "\<exists>tr d. eriscv_uart_ctrl_update B config on off m = m\<lparr>dev := d, trace := tr\<rparr> \<and>
    line d = line (dev m) \<and> enabled d \<and> (tx_irq d \<longleftrightarrow> (tx_irq (dev m) \<or> bit on 3) \<and> \<not> bit off 3)"
proof -
  let ?c = "fst (bus_rd B 0x40000010 (dev m))" and ?d = "snd (bus_rd B 0x40000010 (dev m))"
  let ?v = "(?c OR on) AND NOT off"
  have c: "bit ?c 0" "bit ?c 3 = tx_irq (dev m)" using ctrl_rd [of "dev m"] tx_irq_rd(2) [of "dev m"] assms(1) by simp_all
  have d: "line ?d = line (dev m)" "enabled ?d" using rd_keeps [OF assms(1), of "0x40000010"] by simp_all
  have v: "bit ?v 0" "bit ?v 3 \<longleftrightarrow> (tx_irq (dev m) \<or> bit on 3) \<and> \<not> bit off 3" using c assms(3) by (auto simp: bit_simps)
  have "eriscv_uart_ctrl_update B config on off m = m\<lparr>dev := bus_wr B 0x40000010 ?v ?d,
      trace := trace m @ [Rd 0x40000010 ?c, Wr 0x40000010 ?v]\<rparr>"
    by (simp add: eriscv_uart_ctrl_update_def mach_simps assms(2) Let_def)
  then show ?thesis using at_ctrl [OF d(2) v(1)] d v(2) by metis
qed

lemma irq_tx_ready:
  assumes "enabled (dev m)" "uart_base config = ERISCV_MCU_UART0_BASE"
  shows "\<exists>tr ready d. eriscv_uart_irq_tx_ready B config m = (ready, m\<lparr>dev := d, trace := tr\<rparr>) \<and>
    line d = line (dev m) \<and> enabled d \<and> tx_irq d = tx_irq (dev m) \<and>
    (ready \<longrightarrow> bit (fst (bus_rd B 0x40000008 d)) 0)"
proof -
  let ?c = "fst (bus_rd B 0x40000010 (dev m))" and ?d1 = "snd (bus_rd B 0x40000010 (dev m))"
  let ?s = "fst (bus_rd B 0x40000008 ?d1)" and ?d = "snd (bus_rd B 0x40000008 ?d1)"
  have d1: "line ?d1 = line (dev m)" "enabled ?d1" using rd_keeps [OF assms(1), of "0x40000010"] by simp_all
  have d: "line ?d = line (dev m)" "enabled ?d" using rd_keeps [OF d1(2), of "0x40000008"] d1 by simp_all
  have "eriscv_uart_irq_tx_ready B config m = (bit ?c 3 \<and> bit ?s 0, m\<lparr>dev := ?d,
      trace := trace m @ [Rd 0x40000010 ?c, Rd 0x40000008 ?s]\<rparr>)"
    by (simp add: eriscv_uart_irq_tx_ready_def mach_simps assms(2))
  moreover have "tx_irq ?d = tx_irq (dev m)" by (simp add: tx_irq_rd(1))
  moreover have "bit ?s 0 \<Longrightarrow> bit (fst (bus_rd B 0x40000008 ?d)) 0" using ready_stays [OF d1(2)] by simp
  ultimately show ?thesis using d by blast
qed

lemma fill_one:
  assumes "enabled (dev m)" "uart_base config = ERISCV_MCU_UART0_BASE" "bit (fst (bus_rd B 0x40000008 (dev m))) 0"
  shows "\<exists>tr d. eriscv_uart_fifo_fill B config [b] m = (1, m\<lparr>dev := d, trace := tr\<rparr>) \<and>
    line d = line (dev m) @ [b] \<and> enabled d \<and> tx_irq d = tx_irq (dev m)"
proof -
  let ?d1 = "snd (bus_rd B 0x40000008 (dev m))" and ?d = "bus_wr B 0x40000000 (ucast b) (snd (bus_rd B 0x40000008 (dev m)))"
  have "line ?d = line (dev m) @ [b]" using tx_accept [OF assms(1), of "ucast b"] assms(3) by simp
  moreover have "enabled ?d"
    using tx_enabled [of "ucast b" ?d1] rd_keeps(2) [OF assms(1), of "0x40000008"] by simp
  moreover have "tx_irq ?d = tx_irq (dev m)" using tx_irq_wr(1) [of "ucast b" ?d1] by (simp add: tx_irq_rd(1))
  moreover have "eriscv_uart_fifo_fill B config [b] m = (1, m\<lparr>dev := ?d,
      trace := trace m @ [Rd 0x40000008 (fst (bus_rd B 0x40000008 (dev m))), Wr 0x40000000 (ucast b)]\<rparr>)"
    using assms(3) by (simp add: mach_simps assms(2))
  ultimately show ?thesis by blast
qed

text \<open>
  The drain loop returns, moves bytes from the ring to the line in order, and turns its interrupt off only
  with the ring empty.
\<close>

definition console_keeps :: "('r \<Rightarrow> u8 list) \<Rightarrow> ('d, 'cb, 'r) console \<Rightarrow> ('d, 'cb, 'r) console \<Rightarrow> bool" where
  "console_keeps contents m m' \<longleftrightarrow>
     enabled (dev m') \<and> csrs m' = csrs m \<and> uart_callback m' = uart_callback m \<and>
     uart_console_tx_dropped m' = uart_console_tx_dropped m \<and>
     line (dev m') @ contents (uart_console_tx_ring m') = line (dev m) @ contents (uart_console_tx_ring m) \<and>
     length (contents (uart_console_tx_ring m')) \<le> length (contents (uart_console_tx_ring m)) \<and>
     (tx_irq (dev m) \<longrightarrow> contents (uart_console_tx_ring m') \<noteq> [] \<longrightarrow> tx_irq (dev m'))"

lemma drain_keeps:
  assumes R: "ring_laws R contents cap" and base: "uart_base config = ERISCV_MCU_UART0_BASE"
  shows "enabled (dev m) \<Longrightarrow> \<exists>m'. uart_console_tx_drain B R config m = Some m' \<and> console_keeps contents m m'"
proof (induction "length (contents (uart_console_tx_ring m))" arbitrary: m rule: less_induct)
  case less
  obtain tr ready d where rdy: "eriscv_uart_irq_tx_ready B config m = (ready, m\<lparr>dev := d, trace := tr\<rparr>)"
    and d: "line d = line (dev m)" "enabled d" "tx_irq d = tx_irq (dev m)" "ready \<longrightarrow> bit (fst (bus_rd B 0x40000008 d)) 0"
    using irq_tx_ready [OF less.prems base] by blast
  note step = uart_console_tx_drain.simps [of B R config m, unfolded rdy Let_def split_conv]
  consider "\<not> ready" | "ready" "contents (uart_console_tx_ring m) = []"
    | b bs where "ready" "contents (uart_console_tx_ring m) = b # bs" by (meson list.exhaust)
  then show ?case
  proof cases
    case 1
    then show ?thesis unfolding step using d by (simp add: console_keeps_def)
  next
    case 2
    obtain b r' where get: "ring_buf_get R (uart_console_tx_ring m) = (0, b, r')" "contents r' = []"
      using ring_get(1) [OF R 2(2)] by blast
    let ?m = "m\<lparr>dev := d, trace := tr, uart_console_tx_ring := r'\<rparr>"
    have "\<not> bit (8 :: u32) 0" by (simp add: bit_numeral_rec)
    then obtain tr2 d2 where "eriscv_uart_ctrl_update B config 0 8 ?m = ?m\<lparr>dev := d2, trace := tr2\<rparr>"
      "line d2 = line d" "enabled d2"
      using ctrl_update [of ?m config 8 0] d(2) base by auto
    then show ?thesis unfolding step using 2 get d
      by (simp add: console_keeps_def eriscv_uart_irq_tx_disable_def)
  next
    case (3 b bs)
    obtain r' where get: "ring_buf_get R (uart_console_tx_ring m) = (1, b, r')" "contents r' = bs"
      using ring_get(2) [OF R 3(2)] by blast
    let ?m = "m\<lparr>dev := d, trace := tr, uart_console_tx_ring := r'\<rparr>"
    obtain tr2 d2 where fill: "eriscv_uart_fifo_fill B config [b] ?m = (1, ?m\<lparr>dev := d2, trace := tr2\<rparr>)"
      and d2: "line d2 = line d @ [b]" "enabled d2" "tx_irq d2 = tx_irq d"
      using fill_one [of ?m config b] d base 3(1) by auto
    let ?m2 = "?m\<lparr>dev := d2, trace := tr2\<rparr>"
    have "length (contents (uart_console_tx_ring ?m2)) < length (contents (uart_console_tx_ring m))"
      using 3(2) get(2) by simp
    from less.hyps [OF this] d2(2) obtain m' where "uart_console_tx_drain B R config ?m2 = Some m'" "console_keeps contents ?m2 m'"
      by auto
    then show ?thesis unfolding step using 3 get fill d d2 by (auto simp: console_keeps_def)
  qed
qed

lemma two_reads:
  assumes "enabled (dev m)" "uart_base config = ERISCV_MCU_UART0_BASE"
  shows "\<exists>p tr d. eriscv_uart_irq_is_pending B config m = (p, m\<lparr>dev := d, trace := tr\<rparr>) \<and>
    line d = line (dev m) \<and> enabled d \<and> tx_irq d = tx_irq (dev m)"
proof -
  let ?d1 = "snd (bus_rd B 0x40000010 (dev m))" and ?d = "snd (bus_rd B 0x4000001c (snd (bus_rd B 0x40000010 (dev m))))"
  have d1: "line ?d1 = line (dev m)" "enabled ?d1" using rd_keeps [OF assms(1), of "0x40000010"] by simp_all
  have "line ?d = line (dev m)" "enabled ?d" using rd_keeps [OF d1(2), of "0x4000001c"] d1 by simp_all
  moreover have "tx_irq ?d = tx_irq (dev m)" by (simp add: tx_irq_rd(1))
  moreover have "\<exists>p tr. eriscv_uart_irq_is_pending B config m = (p, m\<lparr>dev := ?d, trace := tr\<rparr>)"
    by (simp add: eriscv_uart_irq_is_pending_def mach_simps assms(2)) (rule exI, rule refl)
  ultimately show ?thesis by blast
qed

lemma err_check:
  assumes "enabled (dev m)" "uart_base config = ERISCV_MCU_UART0_BASE"
  shows "\<exists>e tr d. eriscv_uart_err_check B config m = (e, m\<lparr>dev := d, trace := tr\<rparr>) \<and>
    line d = line (dev m) \<and> enabled d \<and> tx_irq d = tx_irq (dev m)"
proof -
  let ?s = "fst (bus_rd B 0x40000008 (dev m))" and ?d1 = "snd (bus_rd B 0x40000008 (dev m))"
  let ?d = "bus_wr B 0x4000001c 4 ?d1"
  have d1: "line ?d1 = line (dev m)" "enabled ?d1" "tx_irq ?d1 = tx_irq (dev m)"
    using rd_keeps [OF assms(1), of "0x40000008"] by (simp_all add: tx_irq_rd(1))
  have d: "line ?d = line (dev m)" "enabled ?d" "tx_irq ?d = tx_irq (dev m)"
    using irq_wr(1) [OF d1(2), of 4] irq_wr(2) [of 4 ?d1] tx_irq_wr(2) [of 4 ?d1] d1 by simp_all
  have "eriscv_uart_err_check B config m =
      (bit ?s 3, if bit ?s 3 then m\<lparr>dev := ?d, trace := trace m @ [Rd 0x40000008 ?s, Wr 0x4000001c 4]\<rparr>
       else m\<lparr>dev := ?d1, trace := trace m @ [Rd 0x40000008 ?s]\<rparr>)"
    by (simp add: eriscv_uart_err_check_def mach_simps assms(2))
  then show ?thesis using d d1 by (cases "bit ?s 3") (simp_all, blast+)
qed

lemma callback_keeps:
  assumes R: "ring_laws R contents cap" and base: "uart_base config = ERISCV_MCU_UART0_BASE" and m: "enabled (dev m)"
  shows "\<exists>m'. uart_console_irq_callback B R config m = Some m' \<and> console_keeps contents m m'"
proof -
  obtain p tr d where pend: "eriscv_uart_irq_is_pending B config m = (p, m\<lparr>dev := d, trace := tr\<rparr>)"
    and d: "line d = line (dev m)" "enabled d" "tx_irq d = tx_irq (dev m)" using two_reads [OF m base] by blast
  define m1 where "m1 = m\<lparr>dev := d, trace := tr\<rparr>"
  have "enabled (dev m1)" using d by (simp add: m1_def)
  from irq_tx_ready [OF this base] obtain tr2 ready d2 where
    rdy: "eriscv_uart_irq_tx_ready B config m1 = (ready, m1\<lparr>dev := d2, trace := tr2\<rparr>)"
    and d2: "line d2 = line (dev m)" "enabled d2" "tx_irq d2 = tx_irq (dev m)" using d by (auto simp: m1_def)
  define m2 where "m2 = m1\<lparr>dev := d2, trace := tr2\<rparr>"
  define m3 where "m3 = m2\<lparr>uart_console_tx_irq_count := uart_console_tx_irq_count m2 + 1\<rparr>"
  have "enabled (dev m3)" using d2 by (simp add: m3_def m2_def)
  from drain_keeps [OF R base this] obtain m4 where drain: "uart_console_tx_drain B R config m3 = Some m4"
    and m4: "console_keeps contents m3 m4" by blast
  define m5 where "m5 = (if ready then m4 else m2)"
  have m5: "console_keeps contents m m5"
    using m4 d2 by (simp add: m5_def console_keeps_def m3_def m2_def m1_def)
  then have "enabled (dev m5)" by (simp add: console_keeps_def)
  from err_check [OF this base] obtain e tr6 d6 where
    err: "eriscv_uart_err_check B config m5 = (e, m5\<lparr>dev := d6, trace := tr6\<rparr>)"
    and d6: "line d6 = line (dev m5)" "enabled d6" "tx_irq d6 = tx_irq (dev m5)" by blast
  have "uart_console_irq_callback B R config m = Some (if p then m5\<lparr>dev := d6, trace := tr6\<rparr> else m1)"
    using drain err rdy [folded m2_def]
    by (cases ready)
      (simp_all add: uart_console_irq_callback_def eriscv_uart_irq_update_def pend [folded m1_def] m3_def [symmetric] m5_def)
  moreover have "console_keeps contents m (m5\<lparr>dev := d6, trace := tr6\<rparr>)" using m5 d6 by (simp add: console_keeps_def)
  moreover have "console_keeps contents m m1" using d by (simp add: console_keeps_def m1_def)
  ultimately show ?thesis by simp
qed

end

text \<open>The interrupt with the console's callback installed, and what a run of the console is.\<close>

definition uart_console_isr ::
    "'d bus \<Rightarrow> 'r ring_ops \<Rightarrow> eriscv_uart_config \<Rightarrow> ('d, 'cb, 'r) console \<Rightarrow> ('d, 'cb, 'r) console option" where
  "uart_console_isr B R config m = eriscv_uart_isr B config (\<lambda>_ _. uart_console_irq_callback B R config) m"

datatype con_call = Con_out u32 | Con_irq

fun console_run ::
    "'d bus \<Rightarrow> 'r ring_ops \<Rightarrow> eriscv_uart_config \<Rightarrow> con_call list \<Rightarrow> ('d, 'cb, 'r) console \<Rightarrow>
     ('d, 'cb, 'r) console option" where
  "console_run B R config [] m = Some m"
| "console_run B R config (Con_out c # cs) m = console_run B R config cs (snd (uart_console_out B R riscv_kernel config c m))"
| "console_run B R config (Con_irq # cs) m = Option.bind (uart_console_isr B R config m) (console_run B R config cs)"

fun con_bytes :: "con_call \<Rightarrow> u8 list" where
  "con_bytes (Con_out c) = (if c = 0x0a then [0x0d, 0x0a] else [ucast c])"
| "con_bytes Con_irq = []"

lemma lost_add:
  "a \<le> x \<Longrightarrow> b \<le> y \<Longrightarrow> (of_nat (x - a) + of_nat (y - b) :: u32) = of_nat ((x + y) - (a + b))"
  by (simp add: of_nat_diff algebra_simps)

lemma enqueue_ring:
  assumes "ring_laws R contents cap"
  shows "\<exists>acc r'. uart_console_enqueue R c m =
      m\<lparr>uart_console_tx_ring := r', uart_console_tx_dropped := uart_console_tx_dropped m + of_nat (1 - length acc)\<rparr> \<and>
    contents r' = contents (uart_console_tx_ring m) @ acc \<and> subseq acc [c]"
proof (cases "length (contents (uart_console_tx_ring m)) < cap")
  case True
  then obtain r' where r': "ring_buf_put R c (uart_console_tx_ring m) = (1, r')"
    "contents r' = contents (uart_console_tx_ring m) @ [c]" using ring_put(1) [OF assms] by blast
  then show ?thesis by (intro exI [of _ "[c]"] exI [of _ r']) (simp add: uart_console_enqueue_def)
next
  case False
  then have "ring_buf_put R c (uart_console_tx_ring m) = (0, uart_console_tx_ring m)" using ring_put(2) [OF assms] by blast
  then show ?thesis
    by (intro exI [of _ "[]"] exI [of _ "uart_console_tx_ring m"]) (simp add: uart_console_enqueue_def)
qed

definition uart_console_puts :: "'r ring_ops \<Rightarrow> u8 list \<Rightarrow> ('d, 'cb, 'r) console \<Rightarrow> ('d, 'cb, 'r) console" where
  "uart_console_puts R bs m = fold (uart_console_enqueue R) bs m"

lemma puts_ring:
  assumes "ring_laws R contents cap"
  shows "\<exists>acc r'. uart_console_puts R bs m =
      m\<lparr>uart_console_tx_ring := r', uart_console_tx_dropped := uart_console_tx_dropped m + of_nat (length bs - length acc)\<rparr> \<and>
    contents r' = contents (uart_console_tx_ring m) @ acc \<and> subseq acc bs"
proof (induction bs arbitrary: m)
  case Nil
  show ?case by (intro exI [of _ "[]"] exI [of _ "uart_console_tx_ring m"]) (simp add: uart_console_puts_def)
next
  case (Cons b bs)
  obtain a r1 where 1: "uart_console_enqueue R b m =
      m\<lparr>uart_console_tx_ring := r1, uart_console_tx_dropped := uart_console_tx_dropped m + of_nat (1 - length a)\<rparr>"
    "contents r1 = contents (uart_console_tx_ring m) @ a" "subseq a [b]" using enqueue_ring [OF assms] by blast
  obtain a2 r2 where 2: "uart_console_puts R bs (uart_console_enqueue R b m) = (uart_console_enqueue R b m)
      \<lparr>uart_console_tx_ring := r2, uart_console_tx_dropped := uart_console_tx_dropped (uart_console_enqueue R b m) + of_nat (length bs - length a2)\<rparr>"
    "contents r2 = contents (uart_console_tx_ring (uart_console_enqueue R b m)) @ a2" "subseq a2 bs" using Cons.IH by blast
  have s: "subseq (a @ a2) (b # bs)" using list_emb_append_mono [OF 1(3) 2(3)] by simp
  have "length a \<le> 1" "length a2 \<le> length bs" using 1(3) 2(3) by (auto dest: list_emb_length)
  then have "of_nat (1 - length a) + of_nat (length bs - length a2) = (of_nat (length (b # bs) - length (a @ a2)) :: u32)"
    using lost_add [of "length a" 1 "length a2" "length bs"] by simp
  then show ?case using 1(1,2) 2(1,2) s
    by (intro exI [of _ "a @ a2"] exI [of _ r2]) (simp add: uart_console_puts_def add.assoc)
qed

lemma out_puts:
  "uart_console_out B R K config c m =
    (let (key, m) = irq_lock K m
     in (c, irq_unlock K key (eriscv_uart_irq_tx_enable B config (uart_console_puts R (con_bytes (Con_out c)) m))))"
  by (simp add: uart_console_out_def uart_console_puts_def Let_def case_prod_beta)

text \<open>What a run that has taken \<open>acc\<close> into the ring and dropped \<open>lost\<close> bytes keeps.\<close>

context console_uart
begin

definition console_sends ::
    "('r \<Rightarrow> u8 list) \<Rightarrow> u8 list \<Rightarrow> nat \<Rightarrow> ('d, 'cb, 'r) console \<Rightarrow> ('d, 'cb, 'r) console \<Rightarrow> bool" where
  "console_sends contents acc lost m m' \<longleftrightarrow>
     enabled (dev m') \<and> csrs m' = csrs m \<and> uart_callback m' = uart_callback m \<and>
     uart_console_tx_dropped m' = uart_console_tx_dropped m + of_nat lost \<and>
     line (dev m') @ contents (uart_console_tx_ring m') = line (dev m) @ contents (uart_console_tx_ring m) @ acc \<and>
     (contents (uart_console_tx_ring m') \<noteq> [] \<longrightarrow> tx_irq (dev m'))"

lemma out_sends:
  assumes R: "ring_laws R contents cap" and base: "uart_base config = ERISCV_MCU_UART0_BASE" and m: "enabled (dev m)"
  shows "\<exists>acc m'. uart_console_out B R riscv_kernel config c m = (c, m') \<and>
    console_sends contents acc (length (con_bytes (Con_out c)) - length acc) m m' \<and> subseq acc (con_bytes (Con_out c))"
proof -
  define m1 where "m1 = m\<lparr>csrs := (csrs m)(Mstatus := csrs m Mstatus AND NOT 8),
     trace := trace m @ [CsrRd Mstatus (csrs m Mstatus), CsrClr Mstatus 8]\<rparr>"
  define bs where "bs = con_bytes (Con_out c)"
  obtain acc r' where puts: "uart_console_puts R bs m1 = m1\<lparr>uart_console_tx_ring := r',
      uart_console_tx_dropped := uart_console_tx_dropped m1 + of_nat (length bs - length acc)\<rparr>"
    and r': "contents r' = contents (uart_console_tx_ring m1) @ acc" and sub: "subseq acc bs"
    using puts_ring [OF R] by blast
  define m2 where "m2 = uart_console_puts R bs m1"
  have "enabled (dev m2)" "\<not> bit (0 :: u32) 0" using m by (simp_all only: m2_def puts) (simp_all add: m1_def)
  from ctrl_update [OF this(1) base this(2), of 8] obtain tr d where
    en: "eriscv_uart_irq_tx_enable B config m2 = m2\<lparr>dev := d, trace := tr\<rparr>" and
    d: "line d = line (dev m2)" "enabled d" "tx_irq d"
    by (auto simp: eriscv_uart_irq_tx_enable_def bit_numeral_rec)
  define m3 where "m3 = m2\<lparr>dev := d, trace := tr\<rparr>"
  have "csrs m3 = (csrs m)(Mstatus := csrs m Mstatus AND NOT 8)"
    unfolding m3_def m2_def puts by (simp add: m1_def)
  from riscv_unlock [OF this] obtain tr2 where un: "irq_unlock riscv_kernel (csrs m Mstatus) m3 = m3\<lparr>csrs := csrs m, trace := tr2\<rparr>" by blast
  have "uart_console_out B R riscv_kernel config c m = (c, m3\<lparr>csrs := csrs m, trace := tr2\<rparr>)"
    unfolding out_puts bs_def [symmetric] by (simp add: riscv_lock [of m, folded m1_def] m2_def [symmetric] en m3_def [symmetric] un)
  moreover have "console_sends contents acc (length bs - length acc) m (m3\<lparr>csrs := csrs m, trace := tr2\<rparr>)"
    using d r' unfolding m3_def puts [folded m2_def] by (simp add: console_sends_def m1_def)
  ultimately show ?thesis unfolding bs_def [symmetric] using sub by blast
qed

lemma isr_sends:
  assumes R: "ring_laws R contents cap" and base: "uart_base config = ERISCV_MCU_UART0_BASE" and m: "enabled (dev m)"
    and cb: "uart_callback m \<noteq> None" and irq: "contents (uart_console_tx_ring m) \<noteq> [] \<longrightarrow> tx_irq (dev m)"
  shows "\<exists>m'. uart_console_isr B R config m = Some m' \<and> console_sends contents [] 0 m m'"
proof -
  obtain p tr d where pend: "eriscv_uart_irq_is_pending B config m = (p, m\<lparr>dev := d, trace := tr\<rparr>)"
    and d: "line d = line (dev m)" "enabled d" "tx_irq d = tx_irq (dev m)" using two_reads [OF m base] by blast
  let ?m1 = "m\<lparr>dev := d, trace := tr\<rparr>"
  have "enabled (dev ?m1)" using d by simp
  from callback_keeps [OF R base this] obtain m2 where call: "uart_console_irq_callback B R config ?m1 = Some m2"
    and m2: "console_keeps contents ?m1 m2" by blast
  have "length (contents (uart_console_tx_ring m2)) \<le> length (contents (uart_console_tx_ring m))"
    using m2 by (simp add: console_keeps_def)
  then have "contents (uart_console_tx_ring m2) \<noteq> [] \<longrightarrow> tx_irq (dev m2)"
    using m2 irq d by (auto simp: console_keeps_def)
  then have "console_sends contents [] 0 m m2" "console_sends contents [] 0 m ?m1"
    using m2 d irq by (auto simp: console_keeps_def console_sends_def)
  moreover have "uart_console_isr B R config m = Some (if p then m2 else ?m1)"
    using cb call by (auto simp: uart_console_isr_def eriscv_uart_isr_def pend)
  ultimately show ?thesis by simp
qed

lemma run_sends:
  assumes R: "ring_laws R contents cap" and base: "uart_base config = ERISCV_MCU_UART0_BASE"
  shows "enabled (dev m) \<Longrightarrow> uart_callback m \<noteq> None \<Longrightarrow> (contents (uart_console_tx_ring m) \<noteq> [] \<longrightarrow> tx_irq (dev m)) \<Longrightarrow>
    \<exists>acc m'. console_run B R config cs m = Some m' \<and> subseq acc (concat (map con_bytes cs)) \<and>
      console_sends contents acc (length (concat (map con_bytes cs)) - length acc) m m'"
proof (induction cs arbitrary: m)
  case Nil
  then show ?case by (intro exI [of _ "[]"] exI [of _ m]) (simp add: console_sends_def)
next
  case (Cons c cs)
  obtain a m1 where step: "console_run B R config (c # cs) m = console_run B R config cs m1" "subseq a (con_bytes c)"
    and m1: "console_sends contents a (length (con_bytes c) - length a) m m1"
  proof (cases c)
    case (Con_out x)
    then show ?thesis using out_sends [OF R base Cons.prems(1), of x] that by (auto simp del: con_bytes.simps)
  next
    case Con_irq
    then show ?thesis using isr_sends [OF R base Cons.prems] that [of _ "[]"] by auto
  qed
  from m1 Cons.prems(2) have "enabled (dev m1)" "uart_callback m1 \<noteq> None"
    "contents (uart_console_tx_ring m1) \<noteq> [] \<longrightarrow> tx_irq (dev m1)" by (simp_all add: console_sends_def)
  from Cons.IH [OF this] obtain a2 m2 where rest: "console_run B R config cs m1 = Some m2" "subseq a2 (concat (map con_bytes cs))"
    and m2: "console_sends contents a2 (length (concat (map con_bytes cs)) - length a2) m1 m2" by blast
  have le: "length a \<le> length (con_bytes c)" "length a2 \<le> length (concat (map con_bytes cs))"
    using step(2) rest(2) by (auto dest: list_emb_length)
  have "of_nat (length (con_bytes c) - length a) + of_nat (length (concat (map con_bytes cs)) - length a2) =
      (of_nat (length (concat (map con_bytes (c # cs))) - length (a @ a2)) :: u32)"
    using lost_add [OF le] by simp
  then have "console_sends contents (a @ a2) (length (concat (map con_bytes (c # cs))) - length (a @ a2)) m m2"
    using m1 m2 by (simp add: console_sends_def add.assoc)
  moreover have "subseq (a @ a2) (concat (map con_bytes (c # cs)))" using list_emb_append_mono [OF step(2) rest(2)] by simp
  ultimately show ?case using step(1) rest(1) by auto
qed

end

section \<open>On the UART of the SoC\<close>

interpretation apb_console: console_uart uart_apb_bus uart_line uart_backlog "\<lambda>u. bit (ctrl u) 0" "\<lambda>u. bit (ctrl u) 3"
proof
  fix d :: uart_apb and a v :: u32
  show "bit (ctrl (snd (bus_rd uart_apb_bus a d))) 3 = bit (ctrl d) 3"
    by (simp add: uart_apb_bus_def uart_apb_rd_keeps)
  show "bit (fst (bus_rd uart_apb_bus (ERISCV_MCU_UART0_BASE + ERISCV_MCU_UART_CTRL) d)) 3 = bit (ctrl d) 3"
    by (simp add: uart_apb_bus_def uart_apb_rd_def Let_def uart_events_keep)
  show "bit (ctrl (bus_wr uart_apb_bus ERISCV_MCU_UART0_BASE v d)) 3 = bit (ctrl d) 3"
    "bit (ctrl (bus_wr uart_apb_bus (ERISCV_MCU_UART0_BASE + ERISCV_MCU_UART_IRQ_STATUS) v d)) 3 = bit (ctrl d) 3"
    "bit (ctrl (bus_wr uart_apb_bus (ERISCV_MCU_UART0_BASE + ERISCV_MCU_UART_CTRL) v d)) 3 = bit v 3"
    by (simp_all add: uart_apb_bus_def uart_apb_wr_def Let_def uart_events_keep)
  show "bit (fst (bus_rd uart_apb_bus (ERISCV_MCU_UART0_BASE + ERISCV_MCU_UART_STATUS)
      (snd (bus_rd uart_apb_bus (ERISCV_MCU_UART0_BASE + ERISCV_MCU_UART_STATUS) d)))) 0"
    if "bit (fst (bus_rd uart_apb_bus (ERISCV_MCU_UART0_BASE + ERISCV_MCU_UART_STATUS) d)) 0"
    using that order.strict_trans1 [OF uart_events_keep(3) [of "uart_events d"], of 32]
    by (simp add: uart_apb_bus_def uart_apb_rd_def Let_def status_bits uart_events_keep)
qed

text \<open>
  C11. The console loses nothing it does not count, on the UART of the SoC and with any ring buffer that keeps
  the kernel's contract: any sequence of characters and interrupts returns, the bytes written (a line feed with its
  carriage return) are, those refused by a full ring apart, on the line or in the ring in the order they
  came, the dropped counter grows by exactly the bytes refused, and while bytes wait the transmit interrupt is on.
\<close>

theorem zephyr_console_conserves:
  assumes "ring_laws R contents cap" "uart_base config = ERISCV_MCU_UART0_BASE" "bit (ctrl (dev m)) 0"
    "uart_callback m \<noteq> None" "contents (uart_console_tx_ring m) \<noteq> [] \<Longrightarrow> bit (ctrl (dev m)) 3"
  shows "\<exists>acc m'. console_run uart_apb_bus R config cs m = Some m' \<and> subseq acc (concat (map con_bytes cs)) \<and>
    uart_line (dev m') @ contents (uart_console_tx_ring m') = uart_line (dev m) @ contents (uart_console_tx_ring m) @ acc \<and>
    uart_console_tx_dropped m' =
      uart_console_tx_dropped m + of_nat (length (concat (map con_bytes cs)) - length acc) \<and>
    (contents (uart_console_tx_ring m') \<noteq> [] \<longrightarrow> bit (ctrl (dev m')) 3) \<and> csrs m' = csrs m"
  using apb_console.run_sends [OF assms(1,2), of m cs] assms(3-5) by (auto simp: apb_console.console_sends_def)

text \<open>A ring of two bytes, and a console that has it empty.\<close>

definition two_ring :: "u8 list ring_ops" where
  "two_ring = \<lparr>ring_buf_put = (\<lambda>b r. if length r < 2 then (1, r @ [b]) else (0, r)),
     ring_buf_get = (\<lambda>r. case r of [] \<Rightarrow> (0, 0, []) | b # bs \<Rightarrow> (1, b, bs)),
     ring_buf_size_get = length, ring_buf_init = []\<rparr>"

lemma two_ring_laws: "ring_laws two_ring (\<lambda>r. r) 2"
  by (simp add: ring_laws_def two_ring_def split: list.split)

definition console_boot :: "uart_event list list \<Rightarrow> (uart_apb, unit, u8 list) console" where
  "console_boot es = \<lparr>dev = uart_apb_reset es, csrs = (\<lambda>_. 0), ram = (\<lambda>_. 0), trace = [],
     uart_callback = Some (), uart_callback_data = 0, uart_console_tx_ring = [],
     uart_console_tx_irq_count = 0, uart_console_tx_dropped = 0\<rparr>"

lemma console_boot_fields [simp]: "dev (console_boot es) = uart_apb_reset es" "uart_callback (console_boot es) = Some ()"
  "uart_console_tx_ring (console_boot es) = []" "uart_console_tx_dropped (console_boot es) = 0"
  by (simp_all add: console_boot_def)

theorem zephyr_console_conserves_witness:
  "\<exists>acc m'. console_run uart_apb_bus two_ring \<lparr>uart_base = 0x40000000, baud_divisor = 8\<rparr>
      [Con_out 0x41, Con_out 0x0a, Con_irq] (console_boot []) = Some m' \<and> subseq acc [0x41, 0x0d, 0x0a] \<and>
    uart_line (dev m') @ uart_console_tx_ring m' = acc \<and> uart_console_tx_dropped m' = of_nat (3 - length acc)"
  using zephyr_console_conserves [OF two_ring_laws, of "\<lparr>uart_base = 0x40000000, baud_divisor = 8\<rparr>" "console_boot []"
      "[Con_out 0x41, Con_out 0x0a, Con_irq]"] by (auto simp: bit_numeral_rec numeral_3_eq_3)

end
