(* ===== verification/Zephyr_App.thy ===== *)
theory Zephyr_App
  imports Prelude
begin

text \<open>
  The threads of the Zephyr demonstration (\<^verbatim>\<open>sw/rtos/zephyr/app/src/main.c\<close>): two threads that hand a message back and
  forth, and the main thread that waits for them and publishes the result. The kernel is not in the repository: it is
  the parameter \<open>zkernel\<close>, which answers from the history of calls, and \<open>zkernel_ok\<close> is what its documentation promises.
  A step of a thread goes from one kernel call or store to the next, so the threads may be interleaved anywhere.
\<close>

section \<open>The kernel\<close>

datatype zthread = Thread_a | Thread_b | Main_thread
datatype zsem = Sem_a | Sem_b | Sem_done

text \<open>The calls that took effect, with the thread where it matters.\<close>

datatype zcall =
    Sem_take zsem | Sem_give zsem | Mutex_lock zthread | Mutex_unlock zthread | Msgq_put u32 | Msgq_get u32
  | Printk string u32

record zkernel =
  k_sem_take :: "zcall list \<Rightarrow> zsem \<Rightarrow> int option"        \<comment> \<open>\<open>K_FOREVER\<close>; \<open>None\<close>: the caller still waits\<close>
  k_sem_take_ms :: "zcall list \<Rightarrow> zsem \<Rightarrow> int option"     \<comment> \<open>with a timeout\<close>
  k_mutex_lock :: "zcall list \<Rightarrow> zthread \<Rightarrow> int option"
  k_mutex_unlock :: "zcall list \<Rightarrow> zthread \<Rightarrow> int"
  k_msgq_put :: "zcall list \<Rightarrow> u32 \<Rightarrow> int"               \<comment> \<open>\<open>K_NO_WAIT\<close>\<close>
  k_msgq_get :: "zcall list \<Rightarrow> int \<times> u32"

text \<open>
  What the history says about the kernel's objects, as \<^verbatim>\<open>main.c\<close> defines them: three semaphores with limit 1, the
  first one free; a mutex; a message queue. Both threads lock the mutex at most once at a time.
\<close>

record zobjects =
  sem_count :: "zsem \<Rightarrow> nat"
  mutex_owner :: "zthread option"
  msgq :: "u32 list"

definition zobjects_init :: zobjects where
  "zobjects_init = \<lparr>sem_count = (\<lambda>_. 0)(Sem_a := 1), mutex_owner = None, msgq = []\<rparr>"

fun zobjects_step :: "zcall \<Rightarrow> zobjects \<Rightarrow> zobjects" where
  "zobjects_step (Sem_take x) z = z\<lparr>sem_count := (sem_count z)(x := sem_count z x - 1)\<rparr>"
| "zobjects_step (Sem_give x) z = z\<lparr>sem_count := (sem_count z)(x := min 1 (Suc (sem_count z x)))\<rparr>"
| "zobjects_step (Mutex_lock t) z = z\<lparr>mutex_owner := Some t\<rparr>"
| "zobjects_step (Mutex_unlock t) z = z\<lparr>mutex_owner := None\<rparr>"
| "zobjects_step (Msgq_put v) z = z\<lparr>msgq := msgq z @ [v]\<rparr>"
| "zobjects_step (Msgq_get v) z = z\<lparr>msgq := tl (msgq z)\<rparr>"
| "zobjects_step (Printk _ _) z = z"

definition zobjects_of :: "zcall list \<Rightarrow> zobjects" where
  "zobjects_of log = fold zobjects_step log zobjects_init"

lemma zobjects_of_simps [simp]:
  "zobjects_of [] = zobjects_init" "zobjects_of (log @ cs) = fold zobjects_step cs (zobjects_of log)"
  by (simp_all add: zobjects_of_def)

text \<open>
  The documented behaviour the code relies on: a semaphore is taken when its count is positive, and until then a
  thread that waits forever waits; a free mutex is locked and its owner can unlock it; a message queue of one message
  refuses a second one and gives the oldest.
\<close>

definition zkernel_ok :: "zkernel \<Rightarrow> bool" where
  "zkernel_ok K \<longleftrightarrow>
     (\<forall>log x. k_sem_take K log x = (if 0 < sem_count (zobjects_of log) x then Some 0 else None)) \<and>
     (\<forall>log x. k_sem_take_ms K log x = Some 0 \<longrightarrow> 0 < sem_count (zobjects_of log) x) \<and>
     (\<forall>log t. mutex_owner (zobjects_of log) = None \<longrightarrow> k_mutex_lock K log t = Some 0) \<and>
     (\<forall>log t. mutex_owner (zobjects_of log) = Some t \<longrightarrow> k_mutex_unlock K log t = 0) \<and>
     (\<forall>log v. k_msgq_put K log v = 0 \<longleftrightarrow> msgq (zobjects_of log) = []) \<and>
     (\<forall>log v vs. msgq (zobjects_of log) = v # vs \<longrightarrow> k_msgq_get K log = (0, v))"

section \<open>State\<close>

abbreviation (input) HANDOFF_COUNT :: u32 where "HANDOFF_COUNT \<equiv> 4"
abbreviation (input) ZEPHYR_RESULT_PASS :: u32 where "ZEPHYR_RESULT_PASS \<equiv> 0x5a6b7c8d"

datatype a_pc = A_for | A_take | A_lock | A_store | A_unlock | A_put | A_print | A_inc | A_give | A_done
datatype b_pc = B_for | B_take | B_lock | B_check | B_unlock | B_get | B_message | B_print | B_give | B_give_done | B_done
datatype main_pc = M_smoke | M_poll nat | M_console | M_wait | M_done

record 'b zapp =
  a_pc :: a_pc
  a_handoff :: u32
  b_pc :: b_pc
  b_handoff :: u32
  b_message :: u32
  main_pc :: main_pc
  mutex_handoff :: u32
  handoff_count :: u32
  zephyr_result :: u32
  zlog :: "zcall list"
  board :: 'b

definition zlog_call :: "zcall \<Rightarrow> 'b zapp \<Rightarrow> 'b zapp" where
  "zlog_call c s = s\<lparr>zlog := zlog s @ [c]\<rparr>"

section \<open>The threads\<close>

definition thread_a_entry :: "zkernel \<Rightarrow> 'b zapp \<Rightarrow> 'b zapp" where
  "thread_a_entry K s =
    (let message = a_handoff s + 1
     in case a_pc s of
       A_for \<Rightarrow>
         if a_handoff s < HANDOFF_COUNT then s\<lparr>a_pc := A_take\<rparr>
         else (zlog_call (Printk ''Zephyr-A: done'' 0) s)\<lparr>a_pc := A_done\<rparr>
     | A_take \<Rightarrow>
         (case k_sem_take K (zlog s) Sem_a of
            None \<Rightarrow> s
          | Some r \<Rightarrow> if r \<noteq> 0 then s\<lparr>zephyr_result := 0xdead0001, a_pc := A_done\<rparr>
                      else (zlog_call (Sem_take Sem_a) s)\<lparr>a_pc := A_lock\<rparr>)
     | A_lock \<Rightarrow>
         (case k_mutex_lock K (zlog s) Thread_a of
            None \<Rightarrow> s
          | Some r \<Rightarrow> if r \<noteq> 0 then s\<lparr>zephyr_result := 0xdead000a, a_pc := A_done\<rparr>
                      else (zlog_call (Mutex_lock Thread_a) s)\<lparr>a_pc := A_store\<rparr>)
     | A_store \<Rightarrow> s\<lparr>mutex_handoff := message, a_pc := A_unlock\<rparr>
     | A_unlock \<Rightarrow>
         if k_mutex_unlock K (zlog s) Thread_a \<noteq> 0 then s\<lparr>zephyr_result := 0xdead000b, a_pc := A_done\<rparr>
         else (zlog_call (Mutex_unlock Thread_a) s)\<lparr>a_pc := A_put\<rparr>
     | A_put \<Rightarrow>
         if k_msgq_put K (zlog s) message \<noteq> 0 then s\<lparr>zephyr_result := 0xdead000b, a_pc := A_done\<rparr>
         else (zlog_call (Msgq_put message) s)\<lparr>a_pc := A_print\<rparr>
     | A_print \<Rightarrow> (zlog_call (Printk ''Zephyr-A: handoff'' (a_handoff s + 1)) s)\<lparr>a_pc := A_inc\<rparr>
     | A_inc \<Rightarrow> s\<lparr>handoff_count := handoff_count s + 1, a_pc := A_give\<rparr>
     | A_give \<Rightarrow> (zlog_call (Sem_give Sem_b) s)\<lparr>a_handoff := a_handoff s + 1, a_pc := A_for\<rparr>
     | A_done \<Rightarrow> s)"

definition thread_b_entry :: "zkernel \<Rightarrow> 'b zapp \<Rightarrow> 'b zapp" where
  "thread_b_entry K s =
    (let failed = s\<lparr>zephyr_result := 0xdead000c, b_pc := B_done\<rparr>
     in case b_pc s of
       B_for \<Rightarrow>
         if b_handoff s < HANDOFF_COUNT then s\<lparr>b_pc := B_take\<rparr>
         else (zlog_call (Printk ''Zephyr-B: done'' 0) s)\<lparr>b_pc := B_give_done\<rparr>
     | B_take \<Rightarrow>
         (case k_sem_take K (zlog s) Sem_b of
            None \<Rightarrow> s
          | Some r \<Rightarrow> if r \<noteq> 0 then s\<lparr>zephyr_result := 0xdead0002, b_pc := B_done\<rparr>
                      else (zlog_call (Sem_take Sem_b) s)\<lparr>b_pc := B_lock\<rparr>)
     | B_lock \<Rightarrow>
         (case k_mutex_lock K (zlog s) Thread_b of
            None \<Rightarrow> s
          | Some r \<Rightarrow> if r \<noteq> 0 then failed else (zlog_call (Mutex_lock Thread_b) s)\<lparr>b_pc := B_check\<rparr>)
     | B_check \<Rightarrow> if mutex_handoff s \<noteq> b_handoff s + 1 then failed else s\<lparr>b_pc := B_unlock\<rparr>
     | B_unlock \<Rightarrow>
         if k_mutex_unlock K (zlog s) Thread_b \<noteq> 0 then failed
         else (zlog_call (Mutex_unlock Thread_b) s)\<lparr>b_pc := B_get\<rparr>
     | B_get \<Rightarrow>
         (case k_msgq_get K (zlog s) of
            (r, message) \<Rightarrow> if r \<noteq> 0 then failed
                            else (zlog_call (Msgq_get message) s)\<lparr>b_message := message, b_pc := B_message\<rparr>)
     | B_message \<Rightarrow> if b_message s \<noteq> b_handoff s + 1 then failed else s\<lparr>b_pc := B_print\<rparr>
     | B_print \<Rightarrow> (zlog_call (Printk ''Zephyr-B: handoff'' (b_handoff s + 1)) s)\<lparr>b_pc := B_give\<rparr>
     | B_give \<Rightarrow> (zlog_call (Sem_give Sem_a) s)\<lparr>b_handoff := b_handoff s + 1, b_pc := B_for\<rparr>
     | B_give_done \<Rightarrow> (zlog_call (Sem_give Sem_done) s)\<lparr>b_pc := B_done\<rparr>
     | B_done \<Rightarrow> s)"

text \<open>
  The main thread. \<open>tests\<close> runs the smoke tests on the board and gives the message and the code of the first one that failed, if any;
  \<open>console\<close> is what \<open>eriscv_uart_console_tx_irq_count\<close> and \<open>eriscv_uart_console_tx_busy\<close> answer at a point of the run.
\<close>

definition zephyr_main ::
    "('b \<Rightarrow> (string \<times> u32) option \<times> 'b) \<Rightarrow> ('b zapp \<Rightarrow> u32 \<times> bool) \<Rightarrow> zkernel \<Rightarrow> 'b zapp \<Rightarrow> 'b zapp" where
  "zephyr_main tests console K s =
    (case main_pc s of
       M_smoke \<Rightarrow>
         (let s = zlog_call (Printk ''Zephyr eRISCV-M2 multi-thread demo'' 0) s
          in case tests (board s) of
               (Some (txt, code), b) \<Rightarrow> (zlog_call (Printk txt 0) s)\<lparr>board := b, zephyr_result := code, main_pc := M_done\<rparr>
             | (None, b) \<Rightarrow> s\<lparr>board := b, main_pc := M_poll 0\<rparr>)
     | M_poll wait_ms \<Rightarrow>
         if wait_ms < 100 then
           (case console s of
              (irq_count, busy) \<Rightarrow> if irq_count \<noteq> 0 \<and> \<not> busy then s\<lparr>main_pc := M_console\<rparr> else s\<lparr>main_pc := M_poll (Suc wait_ms)\<rparr>)
         else s\<lparr>main_pc := M_console\<rparr>
     | M_console \<Rightarrow>
         (case console s of
            (irq_count, busy) \<Rightarrow> if irq_count = 0 \<or> busy then
                (zlog_call (Printk ''Zephyr FAIL: UART IRQ smoke'' 0) s)\<lparr>zephyr_result := 0xdead0005, main_pc := M_done\<rparr>
              else s\<lparr>main_pc := M_wait\<rparr>)
     | M_wait \<Rightarrow>
         (case k_sem_take_ms K (zlog s) Sem_done of
            None \<Rightarrow> s
          | Some r \<Rightarrow>
              let s' = (if r = 0 then zlog_call (Sem_take Sem_done) s else s)
              in if r = 0 \<and> handoff_count s = HANDOFF_COUNT then
                   (zlog_call (Printk ''Zephyr PASS: all handoffs complete'' 0) s')\<lparr>zephyr_result := ZEPHYR_RESULT_PASS, main_pc := M_done\<rparr>
                 else (zlog_call (Printk ''Zephyr FAIL: handoff timeout'' 0) s')\<lparr>zephyr_result := 0xdead0003, main_pc := M_done\<rparr>)
     | M_done \<Rightarrow> s)"

section \<open>Runs\<close>

fun zstep :: "('b \<Rightarrow> (string \<times> u32) option \<times> 'b) \<Rightarrow> ('b zapp \<Rightarrow> u32 \<times> bool) \<Rightarrow> zkernel \<Rightarrow> zthread \<Rightarrow> 'b zapp \<Rightarrow> 'b zapp" where
  "zstep tests console K Thread_a s = thread_a_entry K s"
| "zstep tests console K Thread_b s = thread_b_entry K s"
| "zstep tests console K Main_thread s = zephyr_main tests console K s"

definition zrun :: "('b \<Rightarrow> (string \<times> u32) option \<times> 'b) \<Rightarrow> ('b zapp \<Rightarrow> u32 \<times> bool) \<Rightarrow> zkernel \<Rightarrow> zthread list \<Rightarrow> 'b zapp \<Rightarrow> 'b zapp" where
  "zrun tests console K sched s = fold (zstep tests console K) sched s"

text \<open>After the kernel has started: the result word is not initialised.\<close>

definition zboot :: "u32 \<Rightarrow> 'b \<Rightarrow> 'b zapp" where
  "zboot junk b = \<lparr>a_pc = A_for, a_handoff = 0, b_pc = B_for, b_handoff = 0, b_message = 0, main_pc = M_smoke,
     mutex_handoff = 0, handoff_count = 0, zephyr_result = junk, zlog = [], board = b\<rparr>"

section \<open>The invariant\<close>

text \<open>The messages that went through the queue.\<close>

definition traffic :: "zcall list \<Rightarrow> zcall list" where
  "traffic log = filter (\<lambda>c. case c of Msgq_put _ \<Rightarrow> True | Msgq_get _ \<Rightarrow> True | _ \<Rightarrow> False) log"

lemma traffic_simps [simp]:
  "traffic [] = []" "traffic (log @ cs) = traffic log @ traffic cs"
  "traffic (Msgq_put v # cs) = Msgq_put v # traffic cs" "traffic (Msgq_get v # cs) = Msgq_get v # traffic cs"
  "traffic (Sem_take x # cs) = traffic cs" "traffic (Sem_give x # cs) = traffic cs" "traffic (Mutex_lock t # cs) = traffic cs"
  "traffic (Mutex_unlock t # cs) = traffic cs" "traffic (Printk txt v # cs) = traffic cs"
  by (simp_all add: traffic_def)

text \<open>\<open>n\<close> messages sent and received, each before the next.\<close>

fun handoffs :: "nat \<Rightarrow> zcall list" where
  "handoffs 0 = []"
| "handoffs (Suc n) = handoffs n @ [Msgq_put (of_nat (Suc n)), Msgq_get (of_nat (Suc n))]"

text \<open>
  Where the one token is: in one of the two semaphores, or with one of the threads between its take and its give.
  \<open>n\<close> is the number of handoffs B has finished.
\<close>

definition a_outside :: "a_pc \<Rightarrow> bool" where "a_outside p \<longleftrightarrow> p = A_for \<or> p = A_take \<or> p = A_done"
definition b_outside :: "b_pc \<Rightarrow> bool" where "b_outside p \<longleftrightarrow> p = B_for \<or> p = B_take \<or> p = B_give_done \<or> p = B_done"

definition sems :: "nat \<Rightarrow> nat \<Rightarrow> zobjects \<Rightarrow> bool" where
  "sems x y z \<longleftrightarrow> sem_count z Sem_a = x \<and> sem_count z Sem_b = y"

definition at_rest :: "nat \<Rightarrow> 'b zapp \<Rightarrow> bool" where
  "at_rest n s \<longleftrightarrow> a_outside (a_pc s) \<and> b_outside (b_pc s) \<and> a_handoff s = of_nat n \<and> handoff_count s = of_nat n \<and>
     traffic (zlog s) = handoffs n \<and> sems 1 0 (zobjects_of (zlog s)) \<and> mutex_owner (zobjects_of (zlog s)) = None \<and> msgq (zobjects_of (zlog s)) = []"

definition a_inside :: "nat \<Rightarrow> 'b zapp \<Rightarrow> bool" where
  "a_inside n s \<longleftrightarrow> \<not> a_outside (a_pc s) \<and> b_outside (b_pc s) \<and> a_handoff s = of_nat n \<and> n < 4 \<and>
     handoff_count s = of_nat (if a_pc s = A_give then Suc n else n) \<and>
     (a_pc s \<in> {A_unlock, A_put, A_print, A_inc, A_give} \<longrightarrow> mutex_handoff s = of_nat (Suc n)) \<and>
     sems 0 0 (zobjects_of (zlog s)) \<and>
     mutex_owner (zobjects_of (zlog s)) = (if a_pc s = A_store \<or> a_pc s = A_unlock then Some Thread_a else None) \<and>
     (if a_pc s \<in> {A_print, A_inc, A_give}
      then traffic (zlog s) = handoffs n @ [Msgq_put (of_nat (Suc n))] \<and> msgq (zobjects_of (zlog s)) = [of_nat (Suc n)]
      else traffic (zlog s) = handoffs n \<and> msgq (zobjects_of (zlog s)) = [])"

definition handed :: "nat \<Rightarrow> 'b zapp \<Rightarrow> bool" where
  "handed n s \<longleftrightarrow> a_outside (a_pc s) \<and> a_handoff s = of_nat (Suc n) \<and> n < 4 \<and> handoff_count s = of_nat (Suc n) \<and>
     mutex_handoff s = of_nat (Suc n)"

definition in_queue :: "nat \<Rightarrow> 'b zapp \<Rightarrow> bool" where
  "in_queue n s \<longleftrightarrow> handed n s \<and> b_outside (b_pc s) \<and> sems 0 1 (zobjects_of (zlog s)) \<and> mutex_owner (zobjects_of (zlog s)) = None \<and>
     traffic (zlog s) = handoffs n @ [Msgq_put (of_nat (Suc n))] \<and> msgq (zobjects_of (zlog s)) = [of_nat (Suc n)]"

definition b_inside :: "nat \<Rightarrow> 'b zapp \<Rightarrow> bool" where
  "b_inside n s \<longleftrightarrow> handed n s \<and> \<not> b_outside (b_pc s) \<and> sems 0 0 (zobjects_of (zlog s)) \<and>
     mutex_owner (zobjects_of (zlog s)) = (if b_pc s = B_check \<or> b_pc s = B_unlock then Some Thread_b else None) \<and>
     (b_pc s = B_message \<longrightarrow> b_message s = of_nat (Suc n)) \<and>
     (if b_pc s \<in> {B_lock, B_check, B_unlock, B_get}
      then traffic (zlog s) = handoffs n @ [Msgq_put (of_nat (Suc n))] \<and> msgq (zobjects_of (zlog s)) = [of_nat (Suc n)]
      else traffic (zlog s) = handoffs (Suc n) \<and> msgq (zobjects_of (zlog s)) = [])"

text \<open>A thread stops only when it has done its four handoffs, and the last semaphore says that B has.\<close>

definition ends_ok :: "nat \<Rightarrow> 'b zapp \<Rightarrow> bool" where
  "ends_ok n s \<longleftrightarrow> n \<le> 4 \<and> b_handoff s = of_nat n \<and> (a_pc s = A_take \<longrightarrow> a_handoff s < 4) \<and> (a_pc s = A_done \<longrightarrow> a_handoff s = 4) \<and>
     (b_pc s = B_take \<longrightarrow> n < 4) \<and> (b_pc s = B_give_done \<or> b_pc s = B_done \<longrightarrow> n = 4) \<and>
     (0 < sem_count (zobjects_of (zlog s)) Sem_done \<longrightarrow> b_pc s = B_done)"

definition zinv :: "'b zapp \<Rightarrow> bool" where
  "zinv s \<longleftrightarrow> (\<exists>n. ends_ok n s \<and> (at_rest n s \<or> a_inside n s \<or> in_queue n s \<or> b_inside n s))"

end
