(* ===== verification/Zephyr_Handoff.thy ===== *)
theory Zephyr_Handoff
  imports Zephyr_App
begin

text \<open>
  The two threads of the Zephyr demonstration under an arbitrary scheduler: no error code is ever published, the
  messages alternate, a fair schedule finishes, and the published result means what it says.
\<close>

section \<open>The invariant is kept\<close>

lemma zkernelD:
  assumes "zkernel_ok K"
  shows "k_sem_take K log x = (if 0 < sem_count (zobjects_of log) x then Some 0 else None)"
    "mutex_owner (zobjects_of log) = None \<Longrightarrow> k_mutex_lock K log t = Some 0"
    "mutex_owner (zobjects_of log) = Some t \<Longrightarrow> k_mutex_unlock K log t = 0"
    "k_msgq_put K log v = 0 \<longleftrightarrow> msgq (zobjects_of log) = []"
    "msgq (zobjects_of log) = v # vs \<Longrightarrow> k_msgq_get K log = (0, v)"
    "k_sem_take_ms K log x = Some 0 \<Longrightarrow> 0 < sem_count (zobjects_of log) x"
  using assms by (simp_all add: zkernel_ok_def)

lemma four_u32 [simp]:
  "n \<le> 4 \<Longrightarrow> (of_nat n :: u32) < 4 \<longleftrightarrow> n < 4" "n \<le> 4 \<Longrightarrow> (of_nat n :: u32) = 4 \<longleftrightarrow> n = 4"
  by (simp_all add: word_less_nat_alt word_unat_eq_iff unat_of_nat)

lemma less_four_u32: "n < 4 \<Longrightarrow> (1 + of_nat n :: u32) \<noteq> 4 \<longleftrightarrow> n < 3" "n < 4 \<Longrightarrow> (1 + of_nat n :: u32) < 4 \<longleftrightarrow> n < 3"
  using four_u32 [of "Suc n"] by (auto simp del: four_u32)

lemma three_u32: "n < 4 \<Longrightarrow> (word_of_nat n :: u32) = 3 \<longleftrightarrow> n = 3"
  by (simp add: word_unat_eq_iff unat_of_nat)

lemmas few_u32 = less_four_u32 three_u32

lemmas zapp_phases = at_rest_def a_inside_def in_queue_def b_inside_def handed_def ends_ok_def a_outside_def b_outside_def sems_def
  zlog_call_def Let_def

lemma a_from_rest:
  assumes "zkernel_ok K" "ends_ok n s" "at_rest n s"
  shows "ends_ok n (thread_a_entry K s) \<and> (at_rest n (thread_a_entry K s) \<or> a_inside n (thread_a_entry K s))"
  using assms(2,3) by (cases "a_pc s") (simp_all add: thread_a_entry_def zkernelD [OF assms(1)] zapp_phases; auto simp: few_u32)+

lemma a_from_inside:
  assumes "zkernel_ok K" "ends_ok n s" "a_inside n s"
  shows "ends_ok n (thread_a_entry K s) \<and> (a_inside n (thread_a_entry K s) \<or> in_queue n (thread_a_entry K s))"
  using assms(2,3) by (cases "a_pc s") (simp_all add: thread_a_entry_def zkernelD [OF assms(1)] zapp_phases; auto simp: few_u32)+

lemma a_from_queue:
  assumes "zkernel_ok K" "ends_ok n s" "in_queue n s"
  shows "ends_ok n (thread_a_entry K s) \<and> in_queue n (thread_a_entry K s)"
  using assms(2,3) by (cases "a_pc s") (simp_all add: thread_a_entry_def zkernelD [OF assms(1)] zapp_phases; auto simp: few_u32)+

lemma a_from_b:
  assumes "zkernel_ok K" "ends_ok n s" "b_inside n s"
  shows "ends_ok n (thread_a_entry K s) \<and> b_inside n (thread_a_entry K s)"
  using assms(2,3) by (cases "a_pc s") (simp_all add: thread_a_entry_def zkernelD [OF assms(1)] zapp_phases; auto simp: few_u32)+

lemma b_from_rest:
  assumes "zkernel_ok K" "ends_ok n s" "at_rest n s"
  shows "ends_ok n (thread_b_entry K s) \<and> at_rest n (thread_b_entry K s)"
  using assms(2,3) by (cases "b_pc s") (simp_all add: thread_b_entry_def zkernelD [OF assms(1)] zapp_phases; auto simp: few_u32)+

lemma b_from_a:
  assumes "zkernel_ok K" "ends_ok n s" "a_inside n s"
  shows "ends_ok n (thread_b_entry K s) \<and> a_inside n (thread_b_entry K s)"
  using assms(2,3) by (cases "b_pc s") (simp_all add: thread_b_entry_def zkernelD [OF assms(1)] zapp_phases; auto simp: few_u32)+

lemma b_from_queue:
  assumes "zkernel_ok K" "ends_ok n s" "in_queue n s"
  shows "ends_ok n (thread_b_entry K s) \<and> (in_queue n (thread_b_entry K s) \<or> b_inside n (thread_b_entry K s))"
  using assms(2,3) by (cases "b_pc s") (simp_all add: thread_b_entry_def zkernelD [OF assms(1)] zapp_phases; auto simp: few_u32)+

lemma b_from_inside:
  assumes "zkernel_ok K" "ends_ok n s" "b_inside n s"
  shows "ends_ok n (thread_b_entry K s) \<and> b_inside n (thread_b_entry K s) \<or>
    ends_ok (Suc n) (thread_b_entry K s) \<and> at_rest (Suc n) (thread_b_entry K s)"
  using assms(2,3) by (cases "b_pc s") (simp_all add: thread_b_entry_def zkernelD [OF assms(1)] zapp_phases; auto simp: few_u32)+

lemma zboot_inv: "zinv (zboot junk b)"
  unfolding zinv_def by (rule exI [of _ 0]) (simp add: zapp_phases zboot_def zobjects_init_def)

lemma threads_inv:
  assumes "zkernel_ok K" "zinv s"
  shows "zinv (thread_a_entry K s)" "zinv (thread_b_entry K s)"
proof -
  obtain n where "ends_ok n s" "at_rest n s \<or> a_inside n s \<or> in_queue n s \<or> b_inside n s" using assms(2) by (auto simp: zinv_def)
  then show "zinv (thread_a_entry K s)" "zinv (thread_b_entry K s)"
    using a_from_rest [OF assms(1), of n s] a_from_inside [OF assms(1), of n s] a_from_queue [OF assms(1), of n s] a_from_b [OF assms(1), of n s]
      b_from_rest [OF assms(1), of n s] b_from_a [OF assms(1), of n s] b_from_queue [OF assms(1), of n s] b_from_inside [OF assms(1), of n s]
    unfolding zinv_def by blast+
qed

text \<open>What the two threads can see; the main thread changes nothing of it but the last semaphore.\<close>

definition zcore :: "'b zapp \<Rightarrow> a_pc \<times> u32 \<times> b_pc \<times> u32 \<times> u32 \<times> u32 \<times> u32 \<times> nat \<times> nat \<times> zthread option \<times> u32 list \<times> zcall list" where
  "zcore s = (a_pc s, a_handoff s, b_pc s, b_handoff s, b_message s, mutex_handoff s, handoff_count s,
     sem_count (zobjects_of (zlog s)) Sem_a, sem_count (zobjects_of (zlog s)) Sem_b, mutex_owner (zobjects_of (zlog s)),
     msgq (zobjects_of (zlog s)), traffic (zlog s))"

lemma main_core:
  "zcore (zephyr_main tests console K s) = zcore s"
  "sem_count (zobjects_of (zlog (zephyr_main tests console K s))) Sem_done \<le> sem_count (zobjects_of (zlog s)) Sem_done"
  by (simp_all add: zcore_def zephyr_main_def zlog_call_def Let_def split: main_pc.split prod.split option.split)

lemma zinv_core:
  assumes "zinv s" "zcore s' = zcore s" "sem_count (zobjects_of (zlog s')) Sem_done \<le> sem_count (zobjects_of (zlog s)) Sem_done"
  shows "zinv s'"
proof -
  have c: "a_pc s' = a_pc s" "a_handoff s' = a_handoff s" "b_pc s' = b_pc s" "b_handoff s' = b_handoff s" "b_message s' = b_message s"
    "mutex_handoff s' = mutex_handoff s" "handoff_count s' = handoff_count s"
    "sem_count (zobjects_of (zlog s')) Sem_a = sem_count (zobjects_of (zlog s)) Sem_a"
    "sem_count (zobjects_of (zlog s')) Sem_b = sem_count (zobjects_of (zlog s)) Sem_b"
    "mutex_owner (zobjects_of (zlog s')) = mutex_owner (zobjects_of (zlog s))" "msgq (zobjects_of (zlog s')) = msgq (zobjects_of (zlog s))"
    "traffic (zlog s') = traffic (zlog s)" using assms(2) by (simp_all add: zcore_def)
  obtain n where n: "ends_ok n s" "at_rest n s \<or> a_inside n s \<or> in_queue n s \<or> b_inside n s" using assms(1) by (auto simp: zinv_def)
  have "ends_ok n s'" using n(1) assms(3) by (simp add: ends_ok_def c)
  moreover have "at_rest n s' = at_rest n s" "a_inside n s' = a_inside n s" "in_queue n s' = in_queue n s" "b_inside n s' = b_inside n s"
    by (simp_all add: at_rest_def a_inside_def in_queue_def b_inside_def handed_def sems_def c)
  ultimately show ?thesis using n(2) unfolding zinv_def by auto
qed

lemma zstep_inv: "zkernel_ok K \<Longrightarrow> zinv s \<Longrightarrow> zinv (zstep tests console K t s)"
  by (cases t) (auto simp: threads_inv intro: zinv_core [of s] main_core)

lemma zrun_inv: "zkernel_ok K \<Longrightarrow> zinv s \<Longrightarrow> zinv (zrun tests console K sched s)"
  unfolding zrun_def by (induction sched arbitrary: s) (simp_all add: zstep_inv)

section \<open>Progress\<close>

fun a_done_steps :: "a_pc \<Rightarrow> nat" where
  "a_done_steps A_for = 0" | "a_done_steps A_take = 1" | "a_done_steps A_lock = 2" | "a_done_steps A_store = 3"
| "a_done_steps A_unlock = 4" | "a_done_steps A_put = 5" | "a_done_steps A_print = 6" | "a_done_steps A_inc = 7"
| "a_done_steps A_give = 8" | "a_done_steps A_done = 1"

fun b_done_steps :: "b_pc \<Rightarrow> nat" where
  "b_done_steps B_for = 0" | "b_done_steps B_take = 1" | "b_done_steps B_lock = 2" | "b_done_steps B_check = 3"
| "b_done_steps B_unlock = 4" | "b_done_steps B_get = 5" | "b_done_steps B_message = 6" | "b_done_steps B_print = 7"
| "b_done_steps B_give = 8" | "b_done_steps B_give_done = 1" | "b_done_steps B_done = 2"

text \<open>Steps left of the two threads: nine for each handoff, and the last steps.\<close>

definition left :: "'b zapp \<Rightarrow> nat" where
  "left s = (9 * (4 - unat (a_handoff s)) + 1 - a_done_steps (a_pc s)) + (9 * (4 - unat (b_handoff s)) + 2 - b_done_steps (b_pc s))"

definition a_blocked :: "'b zapp \<Rightarrow> bool" where
  "a_blocked s \<longleftrightarrow> a_pc s = A_done \<or> a_pc s = A_take \<and> sem_count (zobjects_of (zlog s)) Sem_a = 0"

definition b_blocked :: "'b zapp \<Rightarrow> bool" where
  "b_blocked s \<longleftrightarrow> b_pc s = B_done \<or> b_pc s = B_take \<and> sem_count (zobjects_of (zlog s)) Sem_b = 0"

lemma blocked_same:
  assumes "zkernel_ok K"
  shows "a_blocked s \<Longrightarrow> thread_a_entry K s = s" "b_blocked s \<Longrightarrow> thread_b_entry K s = s"
  by (auto simp: a_blocked_def b_blocked_def thread_a_entry_def thread_b_entry_def zkernelD [OF assms])

lemma unat_few: "n \<le> 4 \<Longrightarrow> unat (word_of_nat n :: u32) = n" "n < 4 \<Longrightarrow> unat (1 + word_of_nat n :: u32) = Suc n"
  "n < 4 \<Longrightarrow> unat (word_of_nat n + 1 :: u32) = Suc n"
  by (simp_all only: add.commute [of _ 1] of_nat_Suc [symmetric] unat_of_nat) simp_all

lemma a_progress:
  assumes "zkernel_ok K" "zinv s" "\<not> a_blocked s"
  shows "left (thread_a_entry K s) < left s"
proof -
  obtain n where n: "ends_ok n s" "at_rest n s \<or> a_inside n s \<or> in_queue n s \<or> b_inside n s" using assms(2) by (auto simp: zinv_def)
  from n(2) show ?thesis
    using n(1) assms(3)
    by (elim disjE; cases "a_pc s")
      (simp_all add: thread_a_entry_def zkernelD [OF assms(1)] zapp_phases left_def a_blocked_def unat_few; auto simp: few_u32)+
qed

lemma b_progress:
  assumes "zkernel_ok K" "zinv s" "\<not> b_blocked s"
  shows "left (thread_b_entry K s) < left s"
proof -
  obtain n where n: "ends_ok n s" "at_rest n s \<or> a_inside n s \<or> in_queue n s \<or> b_inside n s" using assms(2) by (auto simp: zinv_def)
  from n(2) show ?thesis
    using n(1) assms(3)
    by (elim disjE; cases "b_pc s")
      (simp_all add: thread_b_entry_def zkernelD [OF assms(1)] zapp_phases left_def b_blocked_def unat_few; auto simp: few_u32)+
qed

lemma both_blocked:
  assumes "zinv s" "a_blocked s" "b_blocked s"
  shows "a_pc s = A_done" "b_pc s = B_done" "traffic (zlog s) = handoffs 4" "handoff_count s = 4"
proof -
  obtain n where n: "ends_ok n s" "at_rest n s \<or> a_inside n s \<or> in_queue n s \<or> b_inside n s" using assms(1) by (auto simp: zinv_def)
  have "at_rest n s \<and> n = 4 \<and> a_pc s = A_done \<and> b_pc s = B_done"
    using n(2) by (elim disjE; use n(1) assms(2,3) in \<open>simp add: a_blocked_def b_blocked_def zapp_phases\<close>; auto simp: few_u32)
  then show "a_pc s = A_done" "b_pc s = B_done" "traffic (zlog s) = handoffs 4" "handoff_count s = 4"
    by (simp_all add: at_rest_def)
qed

section \<open>Fair schedules\<close>

lemma core_same:
  assumes "zcore s' = zcore s"
  shows "left s' = left s" "a_blocked s' = a_blocked s" "b_blocked s' = b_blocked s" "traffic (zlog s') = traffic (zlog s)"
    "handoff_count s' = handoff_count s" "b_pc s' = b_pc s" "a_pc s' = a_pc s"
  using assms by (simp_all add: zcore_def left_def a_blocked_def b_blocked_def)

lemma step_progress:
  assumes "zkernel_ok K" "zinv s"
  shows "left (zstep tests console K t s) < left s \<or>
    zcore (zstep tests console K t s) = zcore s \<and> (t = Thread_a \<longrightarrow> a_blocked s) \<and> (t = Thread_b \<longrightarrow> b_blocked s)"
proof (cases t)
  case Thread_a
  then show ?thesis using a_progress [OF assms] blocked_same(1) [OF assms(1), of s] by (cases "a_blocked s") simp_all
next
  case Thread_b
  then show ?thesis using b_progress [OF assms] blocked_same(2) [OF assms(1), of s] by (cases "b_blocked s") simp_all
qed (simp add: main_core)

lemma run_progress:
  assumes "zkernel_ok K" "zinv s"
  shows "left (zrun tests console K sched s) < left s \<or>
    zcore (zrun tests console K sched s) = zcore s \<and> (Thread_a \<in> set sched \<longrightarrow> a_blocked s) \<and> (Thread_b \<in> set sched \<longrightarrow> b_blocked s)"
  using assms(2)
proof (induction sched arbitrary: s)
  case (Cons t ts)
  let ?s = "zstep tests console K t s"
  have run: "zrun tests console K (t # ts) s = zrun tests console K ts ?s" by (simp add: zrun_def)
  note IH = Cons.IH [OF zstep_inv [OF assms(1) Cons.prems, of tests console t]]
  consider "left ?s < left s" | "zcore ?s = zcore s" "t = Thread_a \<longrightarrow> a_blocked s" "t = Thread_b \<longrightarrow> b_blocked s"
    using step_progress [OF assms(1) Cons.prems, of tests console t] by auto
  then show ?case
  proof cases
    case 1
    then show ?thesis using IH core_same(1) [of "zrun tests console K ts ?s" ?s] unfolding run by linarith
  next
    case 2
    note core_same(1-3) [OF 2(1)]
    then show ?thesis using IH 2 unfolding run by auto
  qed
qed (simp add: zrun_def)

lemma run_stuck:
  assumes "zkernel_ok K" "a_blocked s" "b_blocked s"
  shows "zcore (zrun tests console K sched s) = zcore s"
  using assms(2,3)
proof (induction sched arbitrary: s)
  case (Cons t ts)
  have same: "zcore (zstep tests console K t s) = zcore s"
    using Cons.prems by (cases t) (simp_all add: blocked_same [OF assms(1)] main_core)
  then show ?case using Cons.IH [of "zstep tests console K t s"] Cons.prems core_same(2,3) [OF same] by (simp add: zrun_def)
qed (simp add: zrun_def)

lemma run_fair:
  assumes "zkernel_ok K" "zinv s" "\<forall>seg \<in> set segs. Thread_a \<in> set seg \<and> Thread_b \<in> set seg"
  shows "left (zrun tests console K (concat segs) s) + length segs \<le> left s \<or>
    a_blocked (zrun tests console K (concat segs) s) \<and> b_blocked (zrun tests console K (concat segs) s)"
  using assms(2,3)
proof (induction segs arbitrary: s)
  case (Cons seg segs)
  let ?s = "zrun tests console K seg s"
  have run: "zrun tests console K (concat (seg # segs)) s = zrun tests console K (concat segs) ?s" by (simp add: zrun_def)
  from run_progress [OF assms(1) Cons.prems(1), of tests console seg] show ?case
  proof
    assume "left ?s < left s"
    then show ?thesis using Cons.IH [OF zrun_inv [OF assms(1) Cons.prems(1), of tests console seg]] Cons.prems(2) unfolding run by auto
  next
    assume a: "zcore ?s = zcore s \<and> (Thread_a \<in> set seg \<longrightarrow> a_blocked s) \<and> (Thread_b \<in> set seg \<longrightarrow> b_blocked s)"
    then have same: "zcore ?s = zcore s" and "a_blocked s" "b_blocked s" using Cons.prems(2) by simp_all
    then have b: "a_blocked ?s" "b_blocked ?s" using core_same(2,3) [OF same] by simp_all
    show ?thesis using b core_same(2,3) [OF run_stuck [OF assms(1) b, of tests console "concat segs"]] unfolding run by simp
  qed
qed (simp add: zrun_def)

section \<open>The result\<close>

lemma threads_result:
  assumes "zkernel_ok K" "zinv s"
  shows "zephyr_result (thread_a_entry K s) = zephyr_result s" "zephyr_result (thread_b_entry K s) = zephyr_result s"
proof -
  obtain n where n: "ends_ok n s" "at_rest n s \<or> a_inside n s \<or> in_queue n s \<or> b_inside n s" using assms(2) by (auto simp: zinv_def)
  from n(2) show "zephyr_result (thread_a_entry K s) = zephyr_result s"
    using n(1) by (elim disjE; cases "a_pc s") (simp_all add: thread_a_entry_def zkernelD [OF assms(1)] zapp_phases)
  from n(2) show "zephyr_result (thread_b_entry K s) = zephyr_result s"
    using n(1) by (elim disjE; cases "b_pc s") (simp_all add: thread_b_entry_def zkernelD [OF assms(1)] zapp_phases)
qed

lemma threads_main_pc:
  "main_pc (thread_a_entry K s) = main_pc s" "main_pc (thread_b_entry K s) = main_pc s"
  by (simp_all add: thread_a_entry_def thread_b_entry_def zlog_call_def Let_def split: a_pc.split b_pc.split option.split prod.split)

lemma b_done_stays: "b_pc s = B_done \<Longrightarrow> b_pc (zstep tests console K t s) = B_done"
  using core_same(6) [OF main_core(1), of tests console K s]
  by (cases t) (simp_all add: thread_a_entry_def thread_b_entry_def zlog_call_def Let_def split: a_pc.split option.split)

lemma b_done_all:
  assumes "zinv s" "b_pc s = B_done"
  shows "traffic (zlog s) = handoffs 4" "handoff_count s = 4"
proof -
  obtain n where n: "ends_ok n s" "at_rest n s \<or> a_inside n s \<or> in_queue n s \<or> b_inside n s" using assms(1) by (auto simp: zinv_def)
  have "at_rest n s \<and> n = 4"
    using n(2) by (elim disjE; use n(1) assms(2) in \<open>simp add: zapp_phases\<close>)
  then show "traffic (zlog s) = handoffs 4" "handoff_count s = 4" by (simp_all add: at_rest_def)
qed

text \<open>In the run of a schedule, the main thread came to the point \<open>p\<close> in a state with \<open>P\<close>, and went on from there.\<close>

fun main_saw ::
    "('b \<Rightarrow> (string \<times> u32) option \<times> 'b) \<Rightarrow> ('b zapp \<Rightarrow> u32 \<times> bool) \<Rightarrow> zkernel \<Rightarrow> main_pc \<Rightarrow> ('b zapp \<Rightarrow> bool) \<Rightarrow>
     zthread list \<Rightarrow> 'b zapp \<Rightarrow> bool" where
  "main_saw tests console K p P [] s = False"
| "main_saw tests console K p P (t # ts) s =
    ((t = Main_thread \<and> main_pc s = p \<and> P s) \<or> main_saw tests console K p P ts (zstep tests console K t s))"

lemma zrun_append: "zrun tests console K (xs @ ys) s = zrun tests console K ys (zrun tests console K xs s)"
  by (simp add: zrun_def)

lemma zrun_simps [simp]: "zrun tests console K [] s = s"
  "zrun tests console K (t # ts) s = zrun tests console K ts (zstep tests console K t s)"
  by (simp_all add: zrun_def)

lemma main_saw_append [simp]: "main_saw tests console K p P (xs @ ys) s \<longleftrightarrow>
    main_saw tests console K p P xs s \<or> main_saw tests console K p P ys (zrun tests console K xs s)"
  by (induction xs arbitrary: s) simp_all

lemma main_saw_never: "(\<And>s. \<not> P s) \<Longrightarrow> \<not> main_saw tests console K p P sched s"
  by (induction sched arbitrary: s) simp_all

text \<open>The three things the main thread decides on: the console's interrupt did its work, it did not, and the wait timed out.\<close>

definition console_works :: "('b zapp \<Rightarrow> u32 \<times> bool) \<Rightarrow> 'b zapp \<Rightarrow> bool" where
  "console_works console s \<longleftrightarrow> fst (console s) \<noteq> 0 \<and> \<not> snd (console s)"

definition wait_fails :: "zkernel \<Rightarrow> 'b zapp \<Rightarrow> bool" where
  "wait_fails K s \<longleftrightarrow> (case k_sem_take_ms K (zlog s) Sem_done of None \<Rightarrow> False | Some r \<Rightarrow> r \<noteq> 0)"

lemma wait_fails_iff: "wait_fails K s \<longleftrightarrow> (\<exists>r. k_sem_take_ms K (zlog s) Sem_done = Some r \<and> r \<noteq> 0)"
  by (simp add: wait_fails_def split: option.split)

text \<open>Where the main thread is, and what it has seen on the way there.\<close>

definition main_reached ::
    "('b \<Rightarrow> (string \<times> u32) option \<times> 'b) \<Rightarrow> ('b zapp \<Rightarrow> u32 \<times> bool) \<Rightarrow> zkernel \<Rightarrow> u32 \<Rightarrow> 'b \<Rightarrow> bool \<Rightarrow> bool \<Rightarrow> bool \<Rightarrow> 'b zapp \<Rightarrow> bool" where
  "main_reached tests console K junk b works fails late s \<longleftrightarrow>
    (case main_pc s of
       M_smoke \<Rightarrow> zephyr_result s = junk \<and> board s = b
     | M_poll n \<Rightarrow> zephyr_result s = junk \<and> fst (tests b) = None \<and> n \<le> 100
     | M_console \<Rightarrow> zephyr_result s = junk \<and> fst (tests b) = None
     | M_wait \<Rightarrow> zephyr_result s = junk \<and> fst (tests b) = None \<and> works
     | M_done \<Rightarrow>
         (case fst (tests b) of
            Some (_, code) \<Rightarrow> zephyr_result s = code
          | None \<Rightarrow> zephyr_result s = 0xdead0005 \<and> fails \<or>
              works \<and> (zephyr_result s = 0xdead0003 \<and> late \<or> zephyr_result s = ZEPHYR_RESULT_PASS \<and> b_pc s = B_done)))"

lemma main_reached_mono:
  assumes "main_reached tests console K junk b works fails late s" "works \<longrightarrow> works'" "fails \<longrightarrow> fails'" "late \<longrightarrow> late'"
  shows "main_reached tests console K junk b works' fails' late' s"
  using assms by (auto simp: main_reached_def split: main_pc.splits option.splits)

lemma threads_board:
  "board (thread_a_entry K s) = board s" "board (thread_b_entry K s) = board s"
  by (simp_all add: thread_a_entry_def thread_b_entry_def zlog_call_def Let_def split: a_pc.split b_pc.split option.split prod.split)

lemma threads_main_ok:
  assumes "zkernel_ok K" "zinv s" "main_reached tests console K junk b works fails late s" "t \<noteq> Main_thread"
  shows "main_reached tests console K junk b works fails late (zstep tests console K t s)"
proof -
  let ?s = "zstep tests console K t s"
  have "main_pc ?s = main_pc s" "board ?s = board s" "zephyr_result ?s = zephyr_result s"
    using assms(4) by (cases t; simp add: threads_main_pc threads_board threads_result [OF assms(1,2)])+
  then show ?thesis using assms(3) b_done_stays [of s tests console K t]
    by (auto simp: main_reached_def split: main_pc.splits option.splits)
qed

lemma main_main_ok:
  assumes "zkernel_ok K" "zinv s" "main_reached tests console K junk b works fails late s"
  shows "main_reached tests console K junk b (works \<or> main_pc s = M_console \<and> console_works console s)
    (fails \<or> main_pc s = M_console \<and> \<not> console_works console s) (late \<or> main_pc s = M_wait \<and> wait_fails K s)
    (zephyr_main tests console K s)"
proof (cases "main_pc s")
  case M_smoke
  then show ?thesis using assms(3)
    by (cases "tests b") (auto simp: main_reached_def zephyr_main_def zlog_call_def Let_def split: option.split)
next
  case (M_poll n)
  then show ?thesis using assms(3) by (auto simp: main_reached_def zephyr_main_def split: prod.split)
next
  case M_console
  then show ?thesis using assms(3) by (auto simp: main_reached_def zephyr_main_def zlog_call_def console_works_def split: prod.split)
next
  case M_wait
  have fin: "k_sem_take_ms K (zlog s) Sem_done = Some 0 \<Longrightarrow> b_pc s = B_done \<and> handoff_count s = 4"
    using zkernelD(6) [OF assms(1)] assms(2) b_done_all [OF assms(2)] by (auto simp: zinv_def ends_ok_def)
  show ?thesis using assms(3) M_wait fin
    by (cases "k_sem_take_ms K (zlog s) Sem_done")
      (auto simp: main_reached_def zephyr_main_def zlog_call_def wait_fails_def Let_def)
next
  case M_done
  then have "zephyr_main tests console K s = s" by (simp add: zephyr_main_def)
  then show ?thesis using main_reached_mono [OF assms(3)] by simp
qed

lemma zrun_main_ok:
  assumes "zkernel_ok K"
  shows "main_reached tests console K junk b
    (main_saw tests console K M_console (console_works console) sched (zboot junk b))
    (main_saw tests console K M_console (\<lambda>s. \<not> console_works console s) sched (zboot junk b))
    (main_saw tests console K M_wait (wait_fails K) sched (zboot junk b)) (zrun tests console K sched (zboot junk b))"
proof (induction sched rule: rev_induct)
  case Nil
  then show ?case by (simp add: main_reached_def zboot_def)
next
  case (snoc t ts)
  let ?s = "zrun tests console K ts (zboot junk b)"
  have inv: "zinv ?s" by (rule zrun_inv [OF assms zboot_inv])
  show ?case
  proof (cases "t = Main_thread")
    case True
    then show ?thesis using main_main_ok [OF assms inv snoc.IH] by (simp add: zrun_append)
  next
    case False
    then show ?thesis using threads_main_ok [OF assms inv snoc.IH False] by (simp add: zrun_append)
  qed
qed

section \<open>The main thread comes to its end\<close>

text \<open>The last semaphore is up from the end of thread B until the main thread takes it.\<close>

definition done_up :: "'b zapp \<Rightarrow> bool" where
  "done_up s \<longleftrightarrow> (b_pc s = B_done \<and> main_pc s \<noteq> M_done \<longrightarrow> 0 < sem_count (zobjects_of (zlog s)) Sem_done)"

lemma threads_done_up:
  assumes "zkernel_ok K" "zinv s" "done_up s"
  shows "done_up (thread_a_entry K s)" "done_up (thread_b_entry K s)"
proof -
  have "b_pc (thread_a_entry K s) = b_pc s" "sem_count (zobjects_of (zlog (thread_a_entry K s))) Sem_done = sem_count (zobjects_of (zlog s)) Sem_done"
    by (simp_all add: thread_a_entry_def zlog_call_def Let_def split: a_pc.split option.split)
  then show "done_up (thread_a_entry K s)" using assms(3) by (simp add: done_up_def threads_main_pc)
  obtain n where n: "ends_ok n s" "at_rest n s \<or> a_inside n s \<or> in_queue n s \<or> b_inside n s" using assms(2) by (auto simp: zinv_def)
  from n(2) show "done_up (thread_b_entry K s)"
    using n(1) assms(3) by (elim disjE; cases "b_pc s") (simp_all add: done_up_def thread_b_entry_def zkernelD [OF assms(1)] zapp_phases)
qed

lemma main_done_up: "done_up s \<Longrightarrow> done_up (zephyr_main tests console K s)"
  using core_same(6) [OF main_core(1), of tests console K s]
  by (auto simp: done_up_def zephyr_main_def zlog_call_def Let_def split: main_pc.splits option.splits prod.splits if_splits)

text \<open>Steps left of the main thread: it polls the console at most 100 times.\<close>

fun main_left :: "main_pc \<Rightarrow> nat" where
  "main_left M_smoke = 104" | "main_left (M_poll n) = 103 - n" | "main_left M_console = 2" | "main_left M_wait = 1" | "main_left M_done = 0"

text \<open>Thread B has finished.\<close>

definition at_end :: "'b zapp \<Rightarrow> bool" where
  "at_end s \<longleftrightarrow> zinv s \<and> done_up s \<and> b_pc s = B_done \<and> (case main_pc s of M_poll n \<Rightarrow> n \<le> 100 | _ \<Rightarrow> True)"

lemma main_left_bounds: "main_left p \<le> 104" "at_end s \<Longrightarrow> main_left (main_pc s) = 0 \<longleftrightarrow> main_pc s = M_done"
  by (cases p; simp) (cases "main_pc s"; simp add: at_end_def)

lemma at_end_step:
  assumes "zkernel_ok K" "at_end s" "\<forall>log. 0 < sem_count (zobjects_of log) Sem_done \<longrightarrow> k_sem_take_ms K log Sem_done = Some 0"
  shows "at_end (zstep tests console K t s) \<and>
    main_left (main_pc (zstep tests console K t s)) \<le> main_left (main_pc s) - (if t = Main_thread then 1 else 0)"
proof (cases "t = Main_thread")
  case False
  then have "zstep tests console K t s = thread_a_entry K s \<or> zstep tests console K t s = thread_b_entry K s" by (cases t) simp_all
  then show ?thesis using False assms(2) b_done_stays [of s tests console K t]
    by (auto simp: at_end_def threads_main_pc threads_done_up [OF assms(1)] threads_inv [OF assms(1)])
next
  case True
  have inv: "zinv (zephyr_main tests console K s)" "done_up (zephyr_main tests console K s)" "b_pc (zephyr_main tests console K s) = B_done"
    using assms(2) zstep_inv [OF assms(1), of s tests console Main_thread] main_done_up [of s] b_done_stays [of s tests console K Main_thread]
    by (simp_all add: at_end_def)
  have take: "main_pc s = M_wait \<Longrightarrow> k_sem_take_ms K (zlog s) Sem_done = Some 0"
    using assms(2,3) by (simp add: at_end_def done_up_def)
  have pc: "(case main_pc (zephyr_main tests console K s) of M_poll n \<Rightarrow> n \<le> 100 | _ \<Rightarrow> True) \<and>
      main_left (main_pc (zephyr_main tests console K s)) \<le> main_left (main_pc s) - 1"
    using assms(2) take
    by (cases "main_pc s") (auto simp: at_end_def zephyr_main_def zlog_call_def Let_def split: option.splits prod.splits)
  show ?thesis using True inv pc by (simp add: at_end_def)
qed

lemma at_end_run:
  assumes "zkernel_ok K" "at_end s" "\<forall>log. 0 < sem_count (zobjects_of log) Sem_done \<longrightarrow> k_sem_take_ms K log Sem_done = Some 0"
  shows "at_end (zrun tests console K sched s) \<and>
    main_left (main_pc (zrun tests console K sched s)) \<le> main_left (main_pc s) - (if Main_thread \<in> set sched then 1 else 0)"
  using assms(2)
proof (induction sched arbitrary: s)
  case (Cons t ts)
  note st = at_end_step [OF assms(1) Cons.prems assms(3), of tests console t]
  show ?case using st Cons.IH [of "zstep tests console K t s"] by (auto split: if_splits)
qed simp

lemma at_end_fair:
  assumes "zkernel_ok K" "at_end s" "\<forall>log. 0 < sem_count (zobjects_of log) Sem_done \<longrightarrow> k_sem_take_ms K log Sem_done = Some 0"
    "\<forall>seg\<in>set segs. Main_thread \<in> set seg"
  shows "at_end (zrun tests console K (concat segs) s) \<and>
    main_left (main_pc (zrun tests console K (concat segs) s)) \<le> main_left (main_pc s) - length segs"
  using assms(2,4)
proof (induction segs arbitrary: s)
  case (Cons seg segs)
  note st = at_end_run [OF assms(1) Cons.prems(1) assms(3), of tests console seg]
  show ?case using st Cons.IH [of "zrun tests console K seg s"] Cons.prems(2) by (auto simp: zrun_append)
qed simp

lemma done_up_run: "zkernel_ok K \<Longrightarrow> zinv s \<Longrightarrow> done_up s \<Longrightarrow> done_up (zrun tests console K sched s)"
proof (induction sched arbitrary: s)
  case (Cons t ts)
  have "done_up (zstep tests console K t s)"
    using Cons.prems by (cases t) (simp_all add: threads_done_up main_done_up)
  then show ?case using Cons.IH zstep_inv [OF Cons.prems(1,2)] Cons.prems(1) by simp
qed simp

text \<open>A fair schedule: 76 rounds for the two threads, 104 for the main thread.\<close>

lemma fair_run_ends:
  assumes "zkernel_ok K" "\<forall>log. 0 < sem_count (zobjects_of log) Sem_done \<longrightarrow> k_sem_take_ms K log Sem_done = Some 0"
    "\<forall>seg\<in>set segs. Thread_a \<in> set seg \<and> Thread_b \<in> set seg \<and> Main_thread \<in> set seg" "180 \<le> length segs"
  shows "main_pc (zrun tests console K (concat segs) (zboot junk b)) = M_done"
proof -
  let ?s = "zrun tests console K (concat (take 76 segs)) (zboot junk b)"
  have rest: "\<forall>seg\<in>set (drop 76 segs). Main_thread \<in> set seg" using assms(3) in_set_dropD by fast
  have "\<forall>seg\<in>set (take 76 segs). Thread_a \<in> set seg \<and> Thread_b \<in> set seg" using assms(3) in_set_takeD by fast
  moreover have "left (zboot junk b) = 75" by (simp add: left_def zboot_def)
  ultimately have bl: "a_blocked ?s" "b_blocked ?s"
    using run_fair [OF assms(1) zboot_inv, of "take 76 segs" tests console junk b] assms(4) by auto
  have inv: "zinv ?s" by (rule zrun_inv [OF assms(1) zboot_inv])
  have "done_up (zboot junk b)" by (simp add: done_up_def zboot_def)
  then have "at_end ?s"
    using both_blocked(2) [OF inv bl] inv done_up_run [OF assms(1) zboot_inv, of junk b]
      zrun_main_ok [OF assms(1), of tests console junk b "concat (take 76 segs)"]
    by (auto simp: at_end_def main_reached_def split: main_pc.splits)
  from at_end_fair [OF assms(1) this assms(2) rest, of tests console]
  have e: "at_end (zrun tests console K (concat (drop 76 segs)) ?s)"
    "main_left (main_pc (zrun tests console K (concat (drop 76 segs)) ?s)) \<le> main_left (main_pc ?s) - length (drop 76 segs)" by simp_all
  then have "main_pc (zrun tests console K (concat (drop 76 segs)) ?s) = M_done"
    using main_left_bounds(1) [of "main_pc ?s"] main_left_bounds(2) [OF e(1)] assms(4) by simp
  moreover have "concat segs = concat (take 76 segs) @ concat (drop 76 segs)" by (simp flip: concat_append)
  ultimately show ?thesis by (simp add: zrun_append)
qed

section \<open>The properties\<close>

text \<open>A kernel as documented: every answer is read off the history.\<close>

definition zkernel_model :: zkernel where
  "zkernel_model = \<lparr>
     k_sem_take = (\<lambda>log x. if 0 < sem_count (zobjects_of log) x then Some 0 else None),
     k_sem_take_ms = (\<lambda>log x. if 0 < sem_count (zobjects_of log) x then Some 0 else Some (- 11)),
     k_mutex_lock = (\<lambda>log t. if mutex_owner (zobjects_of log) = None then Some 0 else None),
     k_mutex_unlock = (\<lambda>log t. if mutex_owner (zobjects_of log) = Some t then 0 else - 1),
     k_msgq_put = (\<lambda>log v. if msgq (zobjects_of log) = [] then 0 else - 35),
     k_msgq_get = (\<lambda>log. case msgq (zobjects_of log) of [] \<Rightarrow> (- 35, 0) | v # _ \<Rightarrow> (0, v))\<rparr>"

lemma zkernel_model_ok: "zkernel_ok zkernel_model"
  by (simp add: zkernel_ok_def zkernel_model_def)

text \<open>
  C14. The two threads of the Zephyr demonstration always finish: whatever the main thread does and whichever way the
  three threads are interleaved, once the scheduler has let both threads run 76 times, all four messages have been
  sent and received in turn, no thread is blocked for good, and the counter is at four.
\<close>

theorem zephyr_handoffs_complete:
  assumes "zkernel_ok K" "\<forall>seg\<in>set segs. Thread_a \<in> set seg \<and> Thread_b \<in> set seg" "75 < length segs"
  shows "let s = zrun tests console K (concat segs) (zboot junk b) in
    a_pc s = A_done \<and> b_pc s = B_done \<and> traffic (zlog s) = handoffs 4 \<and> handoff_count s = HANDOFF_COUNT"
proof -
  let ?s = "zrun tests console K (concat segs) (zboot junk b)"
  have "left (zboot junk b) = 75" by (simp add: left_def zboot_def)
  then have "a_blocked ?s" "b_blocked ?s"
    using run_fair [OF assms(1) zboot_inv assms(2), of tests console junk b] assms(3) by auto
  note both_blocked [OF zrun_inv [OF assms(1) zboot_inv] this]
  then show ?thesis by (simp add: Let_def)
qed

theorem zephyr_handoffs_complete_witness:
  "traffic (zlog (zrun (\<lambda>b. (None, b)) (\<lambda>_. (1, False)) zkernel_model (concat (replicate 80 [Thread_b, Main_thread, Thread_a]))
     (zboot 0 ()))) = handoffs 4"
  using zephyr_handoffs_complete [OF zkernel_model_ok, of "replicate 80 [Thread_b, Main_thread, Thread_a]" "\<lambda>b. (None, b)"
      "\<lambda>_. (1, False)" 0 "()"] by (simp add: Let_def)

end
