(* ===== verification/Zephyr_Smoke.thy ===== *)
theory Zephyr_Smoke
  imports Zephyr_Spi Zephyr_Handoff
begin

text \<open>
  The smoke tests of the Zephyr demonstration (\<^verbatim>\<open>sw/rtos/zephyr/app/src/main.c\<close>): GPIO, timer, watchdog and SPI, each
  on its driver. The atomic counters that the callbacks write are fields beside the driver's. What \<open>k_busy_wait\<close> and
  the wait for a semaphore let happen, time and interrupts, is the parameter \<open>wait\<close>; \<open>ready\<close> is what \<open>device_is_ready\<close>
  answers.
\<close>

section \<open>GPIO\<close>

text \<open>\<open>gpio_pin_configure(gpio, p, GPIO_OUTPUT_LOW)\<close> for one pin after the other, until one fails.\<close>

fun configure_outputs ::
    "'d bus \<Rightarrow> gpio_flags \<Rightarrow> eriscv_gpio_config \<Rightarrow> u8 list \<Rightarrow> ('d, 'e) mach_scheme \<Rightarrow> bool \<times> ('d, 'e) mach_scheme" where
  "configure_outputs B F config [] m = (True, m)"
| "configure_outputs B F config (pin # pins) m =
    (case eriscv_gpio_pin_configure B F config pin (GPIO_OUTPUT F OR GPIO_OUTPUT_INIT_LOW F) m of
       (Inl _, m) \<Rightarrow> (False, m)
     | (Inr _, m) \<Rightarrow> configure_outputs B F config pins m)"

text \<open>The port operations always return 0.\<close>

definition gpio_smoke_test ::
    "'d bus \<Rightarrow> ('d, 'e) mach_scheme zephyr \<Rightarrow> gpio_flags \<Rightarrow> eriscv_gpio_config \<Rightarrow> bool \<Rightarrow>
     ('d, 'e) mach_scheme \<Rightarrow> (errno + unit) \<times> ('d, 'e) mach_scheme" where
  "gpio_smoke_test B K F config ready m =
    (let msk = BIT 0 OR BIT 1 OR BIT 2
     in if \<not> ready then (Inl ENODEV, m)
        else
          let (ok, m) = configure_outputs B F config [0, 1, 2] m
          in if \<not> ok then (Inl EIO, m)
             else
               let m = eriscv_gpio_port_set_bits_raw B K config (BIT 0 OR BIT 2) m;
                   m = eriscv_gpio_port_clear_bits_raw B K config (BIT 2) m;
                   m = eriscv_gpio_port_set_masked_raw B K config msk (BIT 0 OR BIT 2) m;
                   m = eriscv_gpio_port_toggle_bits B K config (BIT 0) m;
                   m = eriscv_gpio_port_toggle_bits B K config (BIT 0) m;
                   (out, m) = eriscv_mcu_mmio_read32 B (gpio_base config + ERISCV_GPIO_OUT) m
               in if out \<noteq> BIT 0 OR BIT 2 then (Inl EIO, m)
                  else
                    let (dir, m) = eriscv_mcu_mmio_read32 B (gpio_base config + ERISCV_GPIO_DIR) m
                    in if dir \<noteq> msk then (Inl EIO, m) else (Inr (), m))"

section \<open>Timer\<close>

record 'd app_timer = "('d, unit) eriscv_timer" +
  timer_top_count :: u32

definition timer_top_callback :: "unit \<Rightarrow> u32 \<Rightarrow> 'd app_timer \<Rightarrow> 'd app_timer" where
  "timer_top_callback cb user_data m = m\<lparr>timer_top_count := timer_top_count m + 1\<rparr>"

text \<open>The loop with \<open>k\<close> rounds left, in round \<open>i\<close>.\<close>

fun timer_smoke_loop ::
    "'d bus \<Rightarrow> (nat \<Rightarrow> 'd app_timer \<Rightarrow> 'd app_timer) \<Rightarrow> nat \<Rightarrow> nat \<Rightarrow> 'd app_timer \<Rightarrow> (errno + unit) \<times> 'd app_timer" where
  "timer_smoke_loop B wait i 0 m = (Inl ETIMEDOUT, eriscv_timer_stop B m)"
| "timer_smoke_loop B wait i (Suc k) m =
    (if timer_top_count m \<noteq> 0 then (Inr (), eriscv_timer_stop B m)
     else timer_smoke_loop B wait (Suc i) k (wait i m))"

definition timer_smoke_test ::
    "'d bus \<Rightarrow> (u32 \<Rightarrow> u32) \<Rightarrow> bool \<Rightarrow> (nat \<Rightarrow> 'd app_timer \<Rightarrow> 'd app_timer) \<Rightarrow> 'd app_timer \<Rightarrow>
     (errno + unit) \<times> 'd app_timer" where
  "timer_smoke_test B counter_us_to_ticks ready wait m =
    (let top_cfg = \<lparr>top_ticks = counter_us_to_ticks 1000, top_callback = Some (), top_user_data = 0, top_dont_reset = False\<rparr>
     in if \<not> ready then (Inl EIO, m)
        else case eriscv_timer_set_top_value B top_cfg m of
               (Inl _, m) \<Rightarrow> (Inl EIO, m)
             | (Inr _, m) \<Rightarrow> timer_smoke_loop B wait 0 10000 m)"

section \<open>Watchdog\<close>

record 'd app_wdt = "('d, unit) eriscv_wdt" +
  wdt_pretimeout_count :: u32

definition wdt_pretimeout_callback :: "unit \<Rightarrow> int \<Rightarrow> 'd app_wdt \<Rightarrow> 'd app_wdt" where
  "wdt_pretimeout_callback cb channel_id m = m\<lparr>wdt_pretimeout_count := wdt_pretimeout_count m + 1\<rparr>"

text \<open>The channel of the only timeout is 0, the value \<open>wdt_install_timeout\<close> returns.\<close>

fun wdt_smoke_loop ::
    "'d bus \<Rightarrow> (nat \<Rightarrow> 'd app_wdt \<Rightarrow> 'd app_wdt) \<Rightarrow> nat \<Rightarrow> nat \<Rightarrow> 'd app_wdt \<Rightarrow> (errno + unit) \<times> 'd app_wdt" where
  "wdt_smoke_loop B wait i 0 m = (Inl ETIMEDOUT, snd (eriscv_wdt_disable B m))"
| "wdt_smoke_loop B wait i (Suc k) m =
    (if wdt_pretimeout_count m \<noteq> 0 then
       case eriscv_wdt_feed B 0 m of
         (Inl _, m) \<Rightarrow> (Inl EIO, m)
       | (Inr _, m) \<Rightarrow> (case eriscv_wdt_disable B m of (Inl _, m) \<Rightarrow> (Inl EIO, m) | (Inr _, m) \<Rightarrow> (Inr (), m))
     else wdt_smoke_loop B wait (Suc i) k (wait i m))"

definition wdt_smoke_test ::
    "'d bus \<Rightarrow> u32 \<Rightarrow> u8 \<Rightarrow> bool \<Rightarrow> (nat \<Rightarrow> 'd app_wdt \<Rightarrow> 'd app_wdt) \<Rightarrow> 'd app_wdt \<Rightarrow> (errno + unit) \<times> 'd app_wdt" where
  "wdt_smoke_test B hz dbg ready wait m =
    (let timeout_cfg = \<lparr>window_min = 0, window_max = 2, cfg_callback = Some ()\<rparr>
     in if \<not> ready then (Inl EIO, m)
        else case eriscv_wdt_install B hz timeout_cfg m of
               (Inl _, m) \<Rightarrow> (Inl EIO, m)
             | (Inr _, m) \<Rightarrow>
                 (case eriscv_wdt_setup B dbg 0 m of
                    (Inl _, m) \<Rightarrow> (Inl EIO, m)
                  | (Inr _, m) \<Rightarrow> wdt_smoke_loop B wait 0 1500 m))"

section \<open>SPI\<close>

record 'd app_spi = "('d, unit) eriscv_spi" +
  spi_result :: int
  spi_done :: nat

definition spi_callback_fn :: "unit \<Rightarrow> int \<Rightarrow> u32 \<Rightarrow> 'd app_spi \<Rightarrow> 'd app_spi" where
  "spi_callback_fn cb result user_data m = m\<lparr>spi_result := result, spi_done := min 1 (Suc (spi_done m))\<rparr>"

text \<open>
  The two bytes on the stack are at \<open>tx_data\<close> and \<open>rx_data\<close>. \<open>wait\<close> is what happens until \<open>spi_done\<close> can be taken
  or the 10 ms are over.
\<close>

definition spi_smoke_config :: spi_config where
  "spi_smoke_config = \<lparr>op_master = True, op_word_size = 8, op_loop = False, op_cpol = False, op_cpha = False, op_lsb = False,
     cs_is_gpio = False, frequency = 1000000, slave_no = 0\<rparr>"

definition spi_smoke_test ::
    "'d bus \<Rightarrow> 'd app_spi zephyr \<Rightarrow> u32 \<Rightarrow> int \<Rightarrow> u32 \<Rightarrow> u32 \<Rightarrow> bool \<Rightarrow> ('d app_spi \<Rightarrow> 'd app_spi) \<Rightarrow> 'd app_spi \<Rightarrow>
     ((errno + unit) \<times> 'd app_spi) option" where
  "spi_smoke_test B K hz EINPROGRESS tx_data rx_data ready wait m =
    (let m = m\<lparr>ram := (ram m)(tx_data := 0xa5, rx_data := 0)\<rparr>;
         tx = Some [\<lparr>buf = tx_data, buf_len = 1\<rparr>];
         rx = Some [\<lparr>buf = rx_data, buf_len = 1\<rparr>];
         m = m\<lparr>spi_result := - EINPROGRESS\<rparr>
     in if \<not> ready then Some (Inl EIO, m)
        else case eriscv_spi_transceive_async B K hz spi_smoke_config tx rx (Some ()) 0 m of
               None \<Rightarrow> None
             | Some (Inl _, m) \<Rightarrow> Some (Inl EIO, m)
             | Some (Inr _, m) \<Rightarrow>
                 let m = wait m
                 in if spi_done m = 0 then Some (Inl EIO, m)
                    else
                      let m = m\<lparr>spi_done := spi_done m - 1\<rparr>
                      in if spi_result m \<noteq> 0 \<or> ram m rx_data \<noteq> 0x3c then Some (Inl EIO, m) else Some (Inr (), m))"

text \<open>The frequency is a constant for which the driver does not divide by zero.\<close>

lemma spi_smoke_returns: "spi_smoke_test B K hz E tx_data rx_data ready wait m \<noteq> None"
  by (simp add: spi_smoke_test_def eriscv_spi_transceive_async_def eriscv_spi_divisor_def spi_smoke_config_def Let_def
      split: option.split sum.split prod.split)

section \<open>All four\<close>

text \<open>
  Each driver with its own device: they share no register, and no variable. \<open>smoke_env\<close> collects what surrounds the
  tests: buses, kernel functions, configuration and what happens during the waits.
\<close>

record ('g, 't, 'w, 's) zboard =
  zb_gpio :: "'g mach"
  zb_timer :: "'t app_timer"
  zb_wdt :: "'w app_wdt"
  zb_spi :: "'s app_spi"

record ('g, 't, 'w, 's) smoke_env =
  gpio_bus_of :: "'g bus"
  timer_bus_of :: "'t bus"
  wdt_bus_of :: "'w bus"
  spi_bus_of :: "'s bus"
  gpio_kernel :: "'g mach zephyr"
  spi_kernel :: "'s app_spi zephyr"
  env_flags :: gpio_flags
  env_gpio :: eriscv_gpio_config
  env_hz :: u32
  env_us_to_ticks :: "u32 \<Rightarrow> u32"
  env_wdt_opt :: u8
  env_EINPROGRESS :: int
  env_tx_data :: u32
  env_rx_data :: u32
  gpio_ready :: bool
  timer_ready :: bool
  wdt_ready :: bool
  spi_ready :: bool
  timer_wait :: "nat \<Rightarrow> 't app_timer \<Rightarrow> 't app_timer"
  wdt_wait :: "nat \<Rightarrow> 'w app_wdt \<Rightarrow> 'w app_wdt"
  spi_wait :: "'s app_spi \<Rightarrow> 's app_spi"

definition smoke_tests ::
    "('g, 't, 'w, 's) smoke_env \<Rightarrow> ('g, 't, 'w, 's) zboard \<Rightarrow> (string \<times> u32) option \<times> ('g, 't, 'w, 's) zboard" where
  "smoke_tests E b =
    (let (r, g) = gpio_smoke_test (gpio_bus_of E) (gpio_kernel E) (env_flags E) (env_gpio E) (gpio_ready E) (zb_gpio b);
         b = b\<lparr>zb_gpio := g\<rparr>
     in if isl r then (Some (''Zephyr FAIL: GPIO smoke'', 0xdead0006), b)
        else
          let (r, t) = timer_smoke_test (timer_bus_of E) (env_us_to_ticks E) (timer_ready E) (timer_wait E) (zb_timer b);
              b = b\<lparr>zb_timer := t\<rparr>
          in if isl r then (Some (''Zephyr FAIL: timer smoke'', 0xdead0007), b)
             else
               let (r, w) = wdt_smoke_test (wdt_bus_of E) (env_hz E) (env_wdt_opt E) (wdt_ready E) (wdt_wait E) (zb_wdt b);
                   b = b\<lparr>zb_wdt := w\<rparr>
               in if isl r then (Some (''Zephyr FAIL: WDT smoke'', 0xdead0008), b)
                  else
                    let (r, s) = the (spi_smoke_test (spi_bus_of E) (spi_kernel E) (env_hz E) (env_EINPROGRESS E)
                                        (env_tx_data E) (env_rx_data E) (spi_ready E) (spi_wait E) (zb_spi b));
                        b = b\<lparr>zb_spi := s\<rparr>
                    in if isl r then (Some (''Zephyr FAIL: SPI smoke'', 0xdead0009), b) else (None, b))"

lemma smoke_codes: "fst (smoke_tests E b) = Some (txt, code) \<Longrightarrow> code \<in> {0xdead0006, 0xdead0007, 0xdead0008, 0xdead0009}"
  by (auto simp: smoke_tests_def Let_def split: prod.splits if_splits)

end
