(* ===== verification/Zephyr_Demo.thy ===== *)
theory Zephyr_Demo
  imports Zephyr_Smoke "HOL-Library.Sublist"
begin

text \<open>
  The smoke tests of the Zephyr demonstration on the peripherals of the SoC: exactly when each passes. Then the whole
  demonstration: what its published result means, and that it passes.
\<close>

section \<open>GPIO\<close>

text \<open>What the kernel's header says of the flags: no two of them share a bit, and none is empty.\<close>

definition flags_ok :: "gpio_flags \<Rightarrow> bool" where
  "flags_ok F \<longleftrightarrow> GPIO_OUTPUT F \<noteq> 0 \<and> GPIO_OUTPUT_INIT_LOW F \<noteq> 0 \<and>
     (GPIO_OUTPUT F OR GPIO_OUTPUT_INIT_LOW F) AND
       (GPIO_SINGLE_ENDED F OR GPIO_PULL_UP F OR GPIO_PULL_DOWN F OR GPIO_OUTPUT_INIT_HIGH F) = 0"

lemma flags_okD:
  assumes "flags_ok F"
  shows "(GPIO_OUTPUT F OR GPIO_OUTPUT_INIT_LOW F) AND (GPIO_SINGLE_ENDED F OR GPIO_PULL_UP F OR GPIO_PULL_DOWN F) = 0"
    "(GPIO_OUTPUT F OR GPIO_OUTPUT_INIT_LOW F) AND GPIO_OUTPUT_INIT_HIGH F = 0"
    "(GPIO_OUTPUT F OR GPIO_OUTPUT_INIT_LOW F) AND GPIO_OUTPUT_INIT_LOW F \<noteq> 0"
    "(GPIO_OUTPUT F OR GPIO_OUTPUT_INIT_LOW F) AND GPIO_OUTPUT F \<noteq> 0"
proof -
  have z: "a AND (b OR c) = 0 \<longleftrightarrow> a AND b = 0 \<and> a AND c = 0" for a b c :: u32
    by (simp add: bit.conj_disj_distrib or_eq_0_iff)
  have l: "(a OR b) AND b = b" "(a OR b) AND a = a" for a b :: u32
    by (auto intro!: bit_word_eqI simp: bit_simps)
  show "(GPIO_OUTPUT F OR GPIO_OUTPUT_INIT_LOW F) AND (GPIO_SINGLE_ENDED F OR GPIO_PULL_UP F OR GPIO_PULL_DOWN F) = 0"
    "(GPIO_OUTPUT F OR GPIO_OUTPUT_INIT_LOW F) AND GPIO_OUTPUT_INIT_HIGH F = 0"
    "(GPIO_OUTPUT F OR GPIO_OUTPUT_INIT_LOW F) AND GPIO_OUTPUT_INIT_LOW F \<noteq> 0"
    "(GPIO_OUTPUT F OR GPIO_OUTPUT_INIT_LOW F) AND GPIO_OUTPUT F \<noteq> 0"
    using assms unfolding flags_ok_def z l by simp_all
qed

lemma pin_output:
  assumes "flags_ok F" "gpio_base config = ERISCV_MCU_GPIO0_BASE" "BIT pin AND port_pin_mask config \<noteq> 0"
  shows "\<exists>m'. eriscv_gpio_pin_configure gpio_bus F config pin (GPIO_OUTPUT F OR GPIO_OUTPUT_INIT_LOW F) m = (Inr (), m') \<and>
    dev m' = (dev m)\<lparr>g_out := g_out (dev m) AND NOT (BIT pin), g_dir := g_dir (dev m) OR BIT pin\<rparr>"
  using assms(2,3) flags_okD [OF assms(1)]
  by (simp add: eriscv_gpio_pin_configure_def mach_simps gpio_bus_def gpio_rd_def gpio_wr_def Let_def)

lemma BIT_few [simp]: "BIT 0 = 1" "BIT 1 = 2" "BIT 2 = 4"
  by (simp_all add: BIT_def)

lemma few_mask:
  assumes "7 AND P = (7 :: u32)"
  shows "1 AND P = 1" "2 AND P = 2" "4 AND P = 4" "5 AND P = 5"
proof -
  have e: "a AND P = (a AND 7) AND P" if "a AND 7 = a" for a using that by simp
  have "a AND P = a AND (7 AND P)" if "a AND 7 = a" for a using that by (simp add: and.assoc [symmetric])
  then show "1 AND P = 1" "2 AND P = 2" "4 AND P = 4" "5 AND P = 5" using assms by simp_all
qed

lemma gpio_outputs:
  assumes "flags_ok F" "gpio_base config = ERISCV_MCU_GPIO0_BASE" "7 AND port_pin_mask config = 7"
  shows "\<exists>m'. configure_outputs gpio_bus F config [0, 1, 2] m = (True, m') \<and>
    dev m' = (dev m)\<lparr>g_out := g_out (dev m) AND NOT 7, g_dir := g_dir (dev m) OR 7\<rparr>"
proof -
  note P = few_mask [OF assms(3)]
  obtain m1 where 1: "eriscv_gpio_pin_configure gpio_bus F config 0 (GPIO_OUTPUT F OR GPIO_OUTPUT_INIT_LOW F) m = (Inr (), m1)"
    "dev m1 = (dev m)\<lparr>g_out := g_out (dev m) AND NOT 1, g_dir := g_dir (dev m) OR 1\<rparr>"
    using pin_output [OF assms(1,2), of 0 m] P by auto
  obtain m2 where 2: "eriscv_gpio_pin_configure gpio_bus F config 1 (GPIO_OUTPUT F OR GPIO_OUTPUT_INIT_LOW F) m1 = (Inr (), m2)"
    "dev m2 = (dev m1)\<lparr>g_out := g_out (dev m1) AND NOT 2, g_dir := g_dir (dev m1) OR 2\<rparr>"
    using pin_output [OF assms(1,2), of 1 m1] P by auto
  obtain m3 where 3: "eriscv_gpio_pin_configure gpio_bus F config 2 (GPIO_OUTPUT F OR GPIO_OUTPUT_INIT_LOW F) m2 = (Inr (), m3)"
    "dev m3 = (dev m2)\<lparr>g_out := g_out (dev m2) AND NOT 4, g_dir := g_dir (dev m2) OR 4\<rparr>"
    using pin_output [OF assms(1,2), of 2 m2] P by auto
  show ?thesis using 1 2 3 by (intro exI [of _ m3]) (simp add: and.assoc or.assoc)
qed

text \<open>The port operations, on the latch.\<close>

lemma port_ops:
  assumes "gpio_base config = ERISCV_MCU_GPIO0_BASE"
  shows "dev (eriscv_gpio_port_set_masked_raw gpio_bus riscv_kernel config msk v m) =
      (dev m)\<lparr>g_out := (g_out (dev m) AND NOT (msk AND port_pin_mask config)) OR (v AND (msk AND port_pin_mask config))\<rparr>"
    "dev (eriscv_gpio_port_toggle_bits gpio_bus riscv_kernel config msk m) =
      (dev m)\<lparr>g_out := g_out (dev m) XOR (msk AND port_pin_mask config)\<rparr>"
  using assms
  by (simp_all add: eriscv_gpio_port_set_masked_raw_def eriscv_gpio_port_toggle_bits_def Let_def case_prod_beta
      riscv_irq.unlock_dev riscv_irq.lock_dev mach_simps gpio_bus_def gpio_rd_def gpio_wr_def)

lemma gpio_reads: "bus_rd gpio_bus 0x40010000 g = (g_out g, g)" "bus_rd gpio_bus 0x40010008 g = (g_dir g, g)"
  by (simp_all add: gpio_bus_def gpio_rd_def)

lemma latch_end:
  fixes x :: u32
  shows "(((x AND NOT 7) AND NOT 5 OR 5) AND NOT 4) AND NOT 7 = x AND NOT 7"
    "((x AND NOT 7) OR 5) XOR 1 XOR 1 = (x AND NOT 7) OR 5"
    "(x AND NOT 7) OR 5 = 5 \<longleftrightarrow> x AND NOT 7 = 0" "x OR 7 = 7 \<longleftrightarrow> x AND NOT 7 = 0"
proof -
  show "(((x AND NOT 7) AND NOT 5 OR 5) AND NOT 4) AND NOT 7 = x AND NOT 7"
    by (simp add: and.assoc bit.conj_disj_distrib2)
  show "((x AND NOT 7) OR 5) XOR 1 XOR 1 = (x AND NOT 7) OR 5" by (simp add: xor.assoc)
  show "(x AND NOT 7) OR 5 = 5 \<longleftrightarrow> x AND NOT 7 = 0"
  proof
    assume "(x AND NOT 7) OR 5 = 5"
    then have "((x AND NOT 7) OR 5) AND NOT 7 = 5 AND NOT 7" by simp
    then show "x AND NOT 7 = 0" by (simp add: and.assoc bit.conj_disj_distrib2)
  qed simp
  show "x OR 7 = 7 \<longleftrightarrow> x AND NOT 7 = 0"
  proof
    assume "x OR 7 = 7"
    then have "(x OR 7) AND NOT 7 = 7 AND NOT 7" by simp
    then show "x AND NOT 7 = 0" by (simp add: bit.conj_disj_distrib2)
  next
    assume "x AND NOT 7 = 0"
    moreover have "x OR 7 = (x AND NOT 7) OR 7" by (auto intro!: bit_word_eqI simp: bit_simps)
    ultimately show "x OR 7 = 7" by simp
  qed
qed

text \<open>
  The test passes exactly when no other pin is an output or driven high, and leaves pins 0 and 2 high.
\<close>

lemma gpio_smoke_rtl:
  assumes "flags_ok F" "gpio_base config = ERISCV_MCU_GPIO0_BASE" "7 AND port_pin_mask config = 7"
  shows "fst (gpio_smoke_test gpio_bus riscv_kernel F config True m) =
      (if g_out (dev m) AND NOT 7 = 0 \<and> g_dir (dev m) AND NOT 7 = 0 then Inr () else Inl EIO)"
proof -
  note P = few_mask [OF assms(3)] assms(3)
  obtain m1 where 1: "configure_outputs gpio_bus F config [0, 1, 2] m = (True, m1)"
    "dev m1 = (dev m)\<lparr>g_out := g_out (dev m) AND NOT 7, g_dir := g_dir (dev m) OR 7\<rparr>"
    using gpio_outputs [OF assms, of m] by blast
  define m2 where "m2 = eriscv_gpio_port_set_bits_raw gpio_bus riscv_kernel config 5 m1"
  define m3 where "m3 = eriscv_gpio_port_clear_bits_raw gpio_bus riscv_kernel config 4 m2"
  define m4 where "m4 = eriscv_gpio_port_set_masked_raw gpio_bus riscv_kernel config 7 5 m3"
  define m5 where "m5 = eriscv_gpio_port_toggle_bits gpio_bus riscv_kernel config 1 m4"
  define m6 where "m6 = eriscv_gpio_port_toggle_bits gpio_bus riscv_kernel config 1 m5"
  have "dev m2 = (dev m1)\<lparr>g_out := (g_out (dev m1) AND NOT 5) OR 5\<rparr>"
    by (simp add: m2_def eriscv_gpio_port_set_bits_raw_def port_ops [OF assms(2)] P)
  then have d3: "dev m3 = (dev m1)\<lparr>g_out := ((g_out (dev m1) AND NOT 5) OR 5) AND NOT 4\<rparr>"
    by (simp add: m3_def eriscv_gpio_port_clear_bits_raw_def port_ops [OF assms(2)] P)
  then have "dev m4 = (dev m1)\<lparr>g_out := (((g_out (dev m1) AND NOT 5) OR 5) AND NOT 4) AND NOT 7 OR 5\<rparr>"
    unfolding m4_def port_ops [OF assms(2)] P d3 by simp
  then have "dev m4 = (dev m1)\<lparr>g_out := (g_out (dev m) AND NOT 7) OR 5\<rparr>" 
    using latch_end(1) [of "g_out (dev m)"] by (simp add: 1(2))
  then have d6: "dev m6 = (dev m)\<lparr>g_dir := g_dir (dev m) OR 7, g_out := (g_out (dev m) AND NOT 7) OR 5\<rparr>"
    unfolding m6_def m5_def port_ops [OF assms(2)] P 1(2) by (simp add: xor.assoc)
  have "fst (gpio_smoke_test gpio_bus riscv_kernel F config True m) =
      (if (g_out (dev m) AND NOT 7) OR 5 \<noteq> 5 \<or> g_dir (dev m) OR 7 \<noteq> 7 then Inl EIO else Inr ())"
    using d6 by (simp add: gpio_smoke_test_def 1(1) m2_def [symmetric] m3_def [symmetric] m4_def [symmetric] m5_def [symmetric]
        m6_def [symmetric] mach_simps assms(2) gpio_reads Let_def del: configure_outputs.simps)
  then show ?thesis unfolding latch_end(3,4) by simp
qed

section \<open>Timer\<close>

text \<open>Wait \<open>i\<close> takes \<open>c i\<close> cycles, and at its end the interrupt is taken if the timer asserts it.\<close>

definition timer_busy_wait :: "(nat \<Rightarrow> nat) \<Rightarrow> nat \<Rightarrow> timer_apb app_timer \<Rightarrow> timer_apb app_timer" where
  "timer_busy_wait c i m =
    (let m = m\<lparr>dev := (timer_tick ^^ c i) (dev m)\<rparr>
     in if t_expired (dev m) \<and> bit (t_ctrl (dev m)) 1 then eriscv_timer_isr timer_bus timer_top_callback m else m)"

lemma timer_stop_ctrl: "timer_base m = ERISCV_MCU_TIMER0_BASE \<Longrightarrow> t_ctrl (dev (eriscv_timer_stop timer_bus m)) = 0"
  by (simp add: eriscv_timer_stop_def mach_simps timer_bus_sel timer_wr_def Let_def)

lemma timer_isr_counts:
  "timer_callback m = Some () \<Longrightarrow> timer_top_count (eriscv_timer_isr timer_bus timer_top_callback m) = timer_top_count m + 1"
  "timer_base (eriscv_timer_isr timer_bus timer_top_callback m) = timer_base m"
  by (simp_all add: eriscv_timer_isr_def timer_top_callback_def mach_simps Let_def split: option.split)

lemma timer_smoke_loop_rtl:
  fixes c :: "nat \<Rightarrow> nat"
  defines "S \<equiv> \<lambda>i. \<Sum>j<i. c j"
  assumes "t_ctrl d = 3" "t_count d = 0" "\<not> t_expired d" "t_compare d \<noteq> 0"
  shows "timer_base m = ERISCV_MCU_TIMER0_BASE \<Longrightarrow> timer_callback m = Some () \<Longrightarrow> timer_top_count m = 0 \<Longrightarrow>
    dev m = (timer_tick ^^ S i) d \<Longrightarrow> S i \<le> unat (t_compare d) \<Longrightarrow>
    (let (r, m') = timer_smoke_loop timer_bus (timer_busy_wait c) i k m in
      r = (if 0 < k \<and> unat (t_compare d) < S (i + k - 1) then Inr () else Inl ETIMEDOUT) \<and> t_ctrl (dev m') = 0)"
proof (induction k arbitrary: i m)
  case 0
  then show ?case by (simp add: timer_stop_ctrl)
next
  case (Suc k)
  have run: "bit (t_ctrl d) 0" using assms(2) by (simp add: bit_numeral_rec)
  let ?m = "m\<lparr>dev := (timer_tick ^^ c i) (dev m)\<rparr>"
  have d1: "dev ?m = (timer_tick ^^ S (Suc i)) d" using Suc.prems(4) by (simp add: S_def funpow_add add.commute)
  note t = timer_ticks [OF run assms(3,4), of "S (Suc i)"]
  have irq: "t_expired (dev ?m) \<and> bit (t_ctrl (dev ?m)) 1 \<longleftrightarrow> unat (t_compare d) < S (Suc i)"
    unfolding d1 using t assms(2,5) by (simp add: bit_numeral_rec)
  show ?case
  proof (cases "unat (t_compare d) < S (Suc i)")
    case False
    then have w: "timer_busy_wait c i m = ?m" by (simp only: timer_busy_wait_def Let_def irq if_False)
    have "timer_base ?m = ERISCV_MCU_TIMER0_BASE" "timer_callback ?m = Some ()" "timer_top_count ?m = 0"
      using Suc.prems(1-3) by simp_all
    from Suc.IH [OF this d1] False have IH: "let (r, m') = timer_smoke_loop timer_bus (timer_busy_wait c) (Suc i) k ?m in
      r = (if 0 < k \<and> unat (t_compare d) < S (Suc i + k - 1) then Inr () else Inl ETIMEDOUT) \<and> t_ctrl (dev m') = 0" by simp
    have "unat (t_compare d) < S (i + k) \<longleftrightarrow> 0 < k \<and> unat (t_compare d) < S (i + k)" using Suc.prems(5) by (cases k) auto
    then show ?thesis using IH Suc.prems(3) by (simp add: w)
  next
    case True
    then have w: "timer_busy_wait c i m = eriscv_timer_isr timer_bus timer_top_callback ?m"
      by (simp only: timer_busy_wait_def Let_def irq if_True)
    let ?n = "eriscv_timer_isr timer_bus timer_top_callback ?m"
    have n: "timer_top_count ?n \<noteq> 0" "timer_base ?n = ERISCV_MCU_TIMER0_BASE"
      using timer_isr_counts [of ?m] Suc.prems(1-3) by simp_all
    have "S (Suc i) \<le> S (i + k)" if "0 < k" unfolding S_def by (rule sum_mono2) (use that in auto)
    moreover have "S (Suc i) \<le> S i \<Longrightarrow> False" using True Suc.prems(5) by simp
    ultimately show ?thesis using n Suc.prems(3,5) True
      by (cases k) (simp_all add: w timer_stop_ctrl)
  qed
qed

text \<open>
  The test passes exactly when the first 9999 of the 10000 waits are longer than the top value, and stops the timer.
\<close>

lemma timer_smoke_rtl:
  assumes "timer_base m = ERISCV_MCU_TIMER0_BASE" "timer_top_count m = 0" "t_gaps (dev m) = []"
    "\<not> bit (t_ctrl (dev m)) 0" "\<not> t_expired (dev m)" "us_to_ticks 1000 \<noteq> 0"
  shows "let (r, m') = timer_smoke_test timer_bus us_to_ticks True (timer_busy_wait c) m in
    r = (if unat (us_to_ticks 1000) < (\<Sum>j<9999. c j) then Inr () else Inl ETIMEDOUT) \<and> t_ctrl (dev m') = 0"
proof -
  let ?d = "(dev m)\<lparr>t_compare := us_to_ticks 1000, t_count := 0, t_ctrl := 3\<rparr>"
  have idle: "timer_idle t = t" "timer_tick t = t" if "t_gaps t = []" "\<not> bit (t_ctrl t) 0" for t
    using that by (simp_all add: timer_idle_def timer_tick_def)
  obtain m1 where 1: "eriscv_timer_set_top_value timer_bus
      \<lparr>top_ticks = us_to_ticks 1000, top_callback = Some (), top_user_data = 0, top_dont_reset = False\<rparr> m = (Inr (), m1)"
    "dev m1 = ?d" "timer_callback m1 = Some ()" "timer_base m1 = ERISCV_MCU_TIMER0_BASE" "timer_top_count m1 = 0"
    using assms by (simp add: eriscv_timer_set_top_value_def mach_simps timer_bus_sel timer_wr_def idle Let_def)
  have "let (r, m') = timer_smoke_loop timer_bus (timer_busy_wait c) 0 10000 m1 in
      r = (if 0 < (10000 :: nat) \<and> unat (t_compare ?d) < (\<Sum>j<0 + 10000 - 1. c j) then Inr () else Inl ETIMEDOUT) \<and> t_ctrl (dev m') = 0"
    by (rule timer_smoke_loop_rtl [where d = ?d]) (use 1 assms(5,6) in simp_all)
  then show ?thesis by (simp add: timer_smoke_test_def 1(1) Let_def)
qed

section \<open>Watchdog\<close>

definition wdt_busy_wait :: "(nat \<Rightarrow> nat) \<Rightarrow> nat \<Rightarrow> wdt_apb app_wdt \<Rightarrow> wdt_apb app_wdt" where
  "wdt_busy_wait c i m =
    (let m = m\<lparr>dev := (wdt_cycle None ^^ c i) (dev m)\<rparr>
     in if w_pre_pending (dev m) \<and> bit (w_ctrl (dev m)) 2 then eriscv_wdt_isr wdt_bus wdt_pretimeout_callback m else m)"

text \<open>Enabled with the warning halfway, \<open>n\<close> cycles ago.\<close>

definition wdt_warned :: "nat \<Rightarrow> nat \<Rightarrow> wdt_apb \<Rightarrow> bool" where
  "wdt_warned q n w \<longleftrightarrow> w_ctrl w = 5 \<and> unat (w_timeout w) = 2 * q \<and> unat (w_pretimeout w) = q \<and> unat (w_count w) = 2 * q - n \<and>
     w_pre_pending w = (q \<le> n) \<and> \<not> w_reset_seen w \<and> \<not> w_locked w \<and> w_gaps w = []"

lemma wdt_warned_count:
  assumes "wdt_warned q n w" "n < 2 * q"
  shows "w_count w \<noteq> 0" "unat (w_count w - 1) = 2 * q - Suc n"
proof -
  have u: "unat (w_count w) = 2 * q - n" using assms(1) by (simp add: wdt_warned_def)
  then show z: "w_count w \<noteq> 0" using assms(2) by auto
  show "unat (w_count w - 1) = 2 * q - Suc n" using unat_minus_one [OF z] u by simp
qed

lemma wdt_warned_cycle:
  assumes "wdt_warned q n w" "0 < q" "n < 2 * q"
  shows "wdt_warned q (Suc n) (wdt_cycle None w)"
proof -
  note c = wdt_warned_count [OF assms(1,3)]
  have hit: "w_count w - 1 = w_pretimeout w \<longleftrightarrow> Suc n = q"
    using c(2) assms by (auto simp: word_unat_eq_iff wdt_warned_def)
  have pre: "w_pretimeout w \<noteq> 0" "w_pretimeout w < w_timeout w"
    using assms by (auto simp: wdt_warned_def word_less_nat_alt)
  show ?thesis using assms c hit pre
    by (auto simp: wdt_warned_def wdt_cycle_def Let_def bit_numeral_rec word_greater_zero_iff)
qed

lemma wdt_warned_cycles:
  assumes "wdt_warned q n w" "0 < q" "n + k \<le> 2 * q"
  shows "wdt_warned q (n + k) ((wdt_cycle None ^^ k) w)"
  using assms(3)
proof (induction k)
  case (Suc k)
  then show ?case using wdt_warned_cycle [of q "n + k" "(wdt_cycle None ^^ k) w"] assms(2) by simp
qed (use assms(1) in simp)

lemma wdt_quiet_cycle: "w_count w \<noteq> 0 \<Longrightarrow> w_reset_seen (wdt_cycle acc w) = w_reset_seen w"
  by (simp add: wdt_cycle_def Let_def)

text \<open>The interrupt, and the feeding and disabling that follow it.\<close>

lemma wdt_isr_rtl:
  assumes "wdt_warned q n (dev m)" "0 < q" "n < 2 * q" "wdt_base m = ERISCV_MCU_WDT0_BASE" "wdt_callback m = Some ()"
  defines "m' \<equiv> eriscv_wdt_isr wdt_bus wdt_pretimeout_callback m"
  shows "wdt_pretimeout_count m' = wdt_pretimeout_count m + 1" "wdt_base m' = ERISCV_MCU_WDT0_BASE" "wdt_running m' = wdt_running m"
    "w_ctrl (dev m') = 5" "w_timeout (dev m') = w_timeout (dev m)" "unat (w_count (dev m')) = 2 * q - Suc n"
    "\<not> w_reset_seen (dev m')" "\<not> w_locked (dev m')" "w_gaps (dev m') = []"
proof -
  note c = wdt_warned_count [OF assms(1,3)]
  have "dev m' = wdt_wr 0x40040010 8 (dev m)"
    by (simp add: m'_def eriscv_wdt_isr_def mach_simps assms(4,5) wdt_pretimeout_callback_def wdt_bus_sel Let_def)
  then show "w_ctrl (dev m') = 5" "w_timeout (dev m') = w_timeout (dev m)" "unat (w_count (dev m')) = 2 * q - Suc n"
    "\<not> w_reset_seen (dev m')" "\<not> w_locked (dev m')" "w_gaps (dev m') = []"
    using assms(1) c
    by (simp_all add: wdt_warned_def wdt_wr_def wdt_idle_def wdt_cycle_def Let_def bit_numeral_rec word_greater_zero_iff)
  show "wdt_pretimeout_count m' = wdt_pretimeout_count m + 1" "wdt_base m' = ERISCV_MCU_WDT0_BASE" "wdt_running m' = wdt_running m"
    by (simp_all add: m'_def eriscv_wdt_isr_def mach_simps assms(4,5) wdt_pretimeout_callback_def Let_def)
qed

lemma wdt_feed_disable_rtl:
  assumes "wdt_running m" "wdt_base m = ERISCV_MCU_WDT0_BASE" "w_ctrl (dev m) = 5" "w_timeout (dev m) \<noteq> 0" "w_count (dev m) \<noteq> 0"
    "\<not> w_reset_seen (dev m)" "\<not> w_locked (dev m)" "w_gaps (dev m) = []"
  shows "\<exists>m1 m2. eriscv_wdt_feed wdt_bus 0 m = (Inr (), m1) \<and> eriscv_wdt_disable wdt_bus m1 = (Inr (), m2) \<and>
    w_ctrl (dev m2) = 0 \<and> \<not> w_reset_seen (dev m2) \<and> \<not> wdt_running m2"
proof -
  let ?w1 = "wdt_wr 0x4004000c WDT_FEED_MAGIC_z (dev m)"
  have w1: "w_count ?w1 = w_timeout (dev m)" "w_ctrl ?w1 = 5" "\<not> w_reset_seen ?w1" "\<not> w_locked ?w1" "w_gaps ?w1 = []"
    using assms(3-8) by (simp_all add: wdt_wr_def wdt_idle_def wdt_cycle_def wdt_window_ok_def Let_def bit_numeral_rec)
  let ?w2 = "wdt_wr 0x40040000 0 ?w1"
  have "w_ctrl ?w2 = 0" "\<not> w_reset_seen ?w2" using w1 assms(4) by (simp_all add: wdt_wr_def wdt_idle_def wdt_cycle_def Let_def)
  then show ?thesis using assms(1,2)
    by (simp add: eriscv_wdt_feed_def eriscv_wdt_disable_def mach_simps wdt_bus_sel Let_def)
qed

lemma wdt_disable_rtl:
  assumes "wdt_running m" "wdt_base m = ERISCV_MCU_WDT0_BASE" "w_count (dev m) \<noteq> 0"
    "\<not> w_reset_seen (dev m)" "\<not> w_locked (dev m)" "w_gaps (dev m) = []"
  shows "w_ctrl (dev (snd (eriscv_wdt_disable wdt_bus m))) = 0 \<and> \<not> w_reset_seen (dev (snd (eriscv_wdt_disable wdt_bus m))) \<and>
    \<not> wdt_running (snd (eriscv_wdt_disable wdt_bus m))"
  using assms by (simp add: eriscv_wdt_disable_def mach_simps wdt_bus_sel wdt_wr_def wdt_idle_def wdt_cycle_def Let_def)

definition wdt_stopped :: "wdt_apb app_wdt \<Rightarrow> bool" where
  "wdt_stopped m \<longleftrightarrow> w_ctrl (dev m) = 0 \<and> \<not> w_reset_seen (dev m) \<and> \<not> wdt_running m"

lemma wdt_smoke_loop_rtl:
  fixes c :: "nat \<Rightarrow> nat"
  defines "S \<equiv> \<lambda>i. \<Sum>j<i. c j"
  assumes "\<forall>j. c j + 2 \<le> q"
  shows "wdt_base m = ERISCV_MCU_WDT0_BASE \<Longrightarrow> wdt_callback m = Some () \<Longrightarrow> wdt_running m \<Longrightarrow> wdt_pretimeout_count m = 0 \<Longrightarrow>
    wdt_warned q (S i) (dev m) \<Longrightarrow> S i < q \<Longrightarrow>
    (let (r, m') = wdt_smoke_loop wdt_bus (wdt_busy_wait c) i k m in
      r = (if 0 < k \<and> q \<le> S (i + k - 1) then Inr () else Inl ETIMEDOUT) \<and> wdt_stopped m')"
proof (induction k arbitrary: i m)
  case 0
  have "w_count (dev m) \<noteq> 0" by (rule wdt_warned_count [OF 0(5)]) (use 0(6) in simp)
  then show ?case using 0 wdt_disable_rtl [of m] by (auto simp: wdt_stopped_def wdt_warned_def)
next
  case (Suc k)
  let ?m = "m\<lparr>dev := (wdt_cycle None ^^ c i) (dev m)\<rparr>"
  have q: "2 \<le> q" "c i + 2 \<le> q" using assms(2) by (auto dest: spec [of _ i])
  have S: "S (Suc i) = S i + c i" by (simp add: S_def)
  have d1: "wdt_warned q (S (Suc i)) (dev ?m)"
    using wdt_warned_cycles [OF Suc.prems(5), of "c i"] q Suc.prems(6) unfolding S by simp
  have irq: "w_pre_pending (dev ?m) \<and> bit (w_ctrl (dev ?m)) 2 \<longleftrightarrow> q \<le> S (Suc i)"
    using d1 by (simp add: wdt_warned_def bit_numeral_rec)
  show ?case
  proof (cases "q \<le> S (Suc i)")
    case False
    then have w: "wdt_busy_wait c i m = ?m" by (simp only: wdt_busy_wait_def Let_def irq if_False)
    have "wdt_base ?m = ERISCV_MCU_WDT0_BASE" "wdt_callback ?m = Some ()" "wdt_running ?m" "wdt_pretimeout_count ?m = 0"
      using Suc.prems(1-4) by simp_all
    from Suc.IH [OF this d1] False have IH: "let (r, m') = wdt_smoke_loop wdt_bus (wdt_busy_wait c) (Suc i) k ?m in
      r = (if 0 < k \<and> q \<le> S (Suc i + k - 1) then Inr () else Inl ETIMEDOUT) \<and> wdt_stopped m'" by simp
    have "q \<le> S (i + k) \<longleftrightarrow> 0 < k \<and> q \<le> S (i + k)" using Suc.prems(6) by (cases k) auto
    then show ?thesis using IH Suc.prems(4) by (simp add: w)
  next
    case True
    then have w: "wdt_busy_wait c i m = eriscv_wdt_isr wdt_bus wdt_pretimeout_callback ?m"
      by (simp only: wdt_busy_wait_def Let_def irq if_True)
    let ?n = "eriscv_wdt_isr wdt_bus wdt_pretimeout_callback ?m"
    have late: "S (Suc i) < 2 * q" "2 * q - Suc (S (Suc i)) \<noteq> 0" using S q Suc.prems(6) by linarith+
    have "0 < q" "wdt_base ?m = ERISCV_MCU_WDT0_BASE" "wdt_callback ?m = Some ()" using q Suc.prems(1,2) by simp_all
    note n = wdt_isr_rtl [OF d1 this(1) late(1) this(2,3)]
    have n': "wdt_pretimeout_count ?n \<noteq> 0" "wdt_running ?n" "w_count (dev ?n) \<noteq> 0" "w_timeout (dev ?n) \<noteq> 0"
      using n Suc.prems(3,4) late d1 q by (auto simp: wdt_warned_def)
    obtain m1 m2 where fd: "eriscv_wdt_feed wdt_bus 0 ?n = (Inr (), m1)" "eriscv_wdt_disable wdt_bus m1 = (Inr (), m2)" "wdt_stopped m2"
      using wdt_feed_disable_rtl [OF n'(2) n(2,4) n'(4,3) n(7-9)] by (auto simp: wdt_stopped_def)
    show ?thesis
    proof (cases k)
      case 0
      have "wdt_stopped (snd (eriscv_wdt_disable wdt_bus ?n))"
        using wdt_disable_rtl [OF n'(2) n(2) n'(3) n(7-9)] by (simp add: wdt_stopped_def)
      then show ?thesis using Suc.prems(4,6) by (simp add: 0 w)
    next
      case (Suc k')
      have "S (Suc i) \<le> S (i + k)" unfolding S_def by (rule sum_mono2) (use Suc in auto)
      then show ?thesis using Suc.prems(4) True fd n'(1) by (simp add: Suc w)
    qed
  qed
qed

lemma wdt_setup_rtl:
  assumes "\<not> bit (w_ctrl w) 0" "\<not> w_locked w" "\<not> w_pre_pending w" "\<not> w_reset_seen w" "w_gaps w = []" "0 < q"
    "unat timeout = 2 * q" "unat pre = q"
  shows "wdt_warned q 0 (wdt_wr 0x40040000 5 (wdt_wr 0x40040018 pre (wdt_wr 0x40040004 timeout w)))"
proof -
  let ?w1 = "wdt_wr 0x40040004 timeout w"
  let ?w2 = "wdt_wr 0x40040018 pre ?w1"
  let ?w3 = "wdt_wr 0x40040000 5 ?w2"
  have w1: "w_timeout ?w1 = timeout" "\<not> bit (w_ctrl ?w1) 0" "\<not> w_locked ?w1" "\<not> w_pre_pending ?w1" "\<not> w_reset_seen ?w1" "w_gaps ?w1 = []"
    using assms(1-5) by (simp_all add: wdt_wr_def wdt_idle_def wdt_cycle_def Let_def)
  have w2: "w_timeout ?w2 = timeout" "w_pretimeout ?w2 = pre" "\<not> bit (w_ctrl ?w2) 0" "\<not> w_locked ?w2"
    "\<not> w_pre_pending ?w2" "\<not> w_reset_seen ?w2" "w_gaps ?w2 = []"
    unfolding wdt_wr_def [of _ _ ?w1] wdt_idle_def w1(6) list.case using w1 by (simp_all add: wdt_cycle_def Let_def)
  have "w_ctrl ?w3 = 5" "w_timeout ?w3 = timeout" "w_pretimeout ?w3 = pre" "w_count ?w3 = timeout"
    "\<not> w_locked ?w3" "\<not> w_pre_pending ?w3" "\<not> w_reset_seen ?w3" "w_gaps ?w3 = []"
    unfolding wdt_wr_def [of _ _ ?w2] wdt_idle_def w2(7) list.case using w2 by (simp_all add: wdt_cycle_def Let_def bit_numeral_rec)
  then show ?thesis using assms(6-8) by (simp add: wdt_warned_def)
qed

lemma wdt_smoke_rtl:
  assumes "wdt_base m = ERISCV_MCU_WDT0_BASE" "wdt_pretimeout_count m = 0" "\<not> wdt_running m" "\<not> wdt_installed m"
    "\<not> bit (w_ctrl (dev m)) 0" "\<not> w_locked (dev m)" "\<not> w_pre_pending (dev m)" "\<not> w_reset_seen (dev m)" "w_gaps (dev m) = []"
    "\<forall>j. c j + 2 \<le> unat hz div 1000"
  shows "let (r, m') = wdt_smoke_test wdt_bus hz dbg True (wdt_busy_wait c) m in
    r = (if unat hz div 1000 \<le> (\<Sum>j<1499. c j) then Inr () else Inl ETIMEDOUT) \<and> wdt_stopped m'"
proof -
  define q where "q = unat hz div 1000"
  have small: "2 * q < 2 ^ 32" using unat_u32_less [of hz] by (simp add: q_def)
  have q: "0 < q" using assms(10) by (auto simp: q_def)
  have cyc: "unat (wdt_cycles hz 2) = 2 * q" "unat (wdt_cycles hz 1) = q" using small by (simp_all add: wdt_cycles_unat q_def mult.commute)
  let ?cfg = "\<lparr>window_min = 0, window_max = 2, cfg_callback = Some ()\<rparr>"
  let ?w3 = "wdt_wr 0x40040000 5 (wdt_wr 0x40040018 (wdt_cycles hz 1) (wdt_wr 0x40040004 (wdt_cycles hz 2) (dev m)))"
  have w3: "wdt_warned q 0 ?w3" by (rule wdt_setup_rtl [OF assms(5-9) q cyc])
  obtain m1 m2 where m: "eriscv_wdt_install wdt_bus hz ?cfg m = (Inr (), m1)" "eriscv_wdt_setup wdt_bus dbg 0 m1 = (Inr (), m2)"
    "dev m2 = ?w3" "wdt_base m2 = ERISCV_MCU_WDT0_BASE" "wdt_callback m2 = Some ()" "wdt_running m2" "wdt_pretimeout_count m2 = 0"
    using assms(1-4) by (simp add: eriscv_wdt_install_def eriscv_wdt_setup_def mach_simps wdt_bus_sel Let_def)
  have "let (r, m') = wdt_smoke_loop wdt_bus (wdt_busy_wait c) 0 1500 m2 in
      r = (if 0 < (1500 :: nat) \<and> q \<le> (\<Sum>j<0 + 1500 - 1. c j) then Inr () else Inl ETIMEDOUT) \<and> wdt_stopped m'"
    by (rule wdt_smoke_loop_rtl) (use m(3-7) w3 q assms(10) in \<open>simp_all add: q_def\<close>)
  then show ?thesis by (simp add: wdt_smoke_test_def m(1,2) Let_def q_def)
qed

section \<open>SPI\<close>

text \<open>In the 10 ms of the wait, \<open>n\<close> interrupts are taken.\<close>

definition spi_wait_irqs :: "nat \<Rightarrow> spi_apb app_spi \<Rightarrow> spi_apb app_spi" where
  "spi_wait_irqs n m = (eriscv_spi_isr spi_bus spi_callback_fn ^^ n) m"

lemma spi_isr_active_done:
  "spi_active (eriscv_spi_isr spi_bus spi_callback_fn m) \<Longrightarrow>
   spi_done (eriscv_spi_isr spi_bus spi_callback_fn m) = spi_done m"
  by (auto simp: eriscv_spi_isr_def eriscv_spi_complete_def spi_callback_fn_def mach_simps Let_def split: if_splits option.splits)

lemma spi_isrs_active_done:
  "\<forall>j\<le>n. spi_active (spi_wait_irqs j m) \<Longrightarrow> spi_done (spi_wait_irqs n m) = spi_done m"
proof (induction n)
  case (Suc n)
  then have "spi_active (eriscv_spi_isr spi_bus spi_callback_fn (spi_wait_irqs n m))" by (auto simp: spi_wait_irqs_def dest: spec [of _ "Suc n"])
  then show ?case using Suc spi_isr_active_done by (simp add: spi_wait_irqs_def)
qed (simp add: spi_wait_irqs_def)

lemma spi_isrs_inactive: "\<not> spi_active m \<Longrightarrow> spi_wait_irqs n m = m"
  by (induction n) (simp_all add: spi_wait_irqs_def eriscv_spi_isr_def)

lemma spi_async_done:
  "eriscv_spi_transceive_async spi_bus riscv_kernel hz config tx rx cb ud m = Some (r, m') \<Longrightarrow> spi_done m' = spi_done m"
  by (auto simp: eriscv_spi_transceive_async_def riscv_kernel_def uart_irq_save_def uart_irq_restore_def mach_simps Let_def
      split: if_splits option.splits)

text \<open>The test passes exactly when the byte is finished in time and the slave answers \<open>0x3c\<close>.\<close>

lemma spi_smoke_rtl:
  assumes "spi_base m = ERISCV_MCU_SPI0_BASE" "\<not> spi_active m" "\<not> s_busy (dev m)" "spi_done m = 0" "tx_data \<noteq> rx_data"
  shows "\<exists>m'. spi_smoke_test spi_bus riscv_kernel hz E tx_data rx_data True (spi_wait_irqs n) m =
    Some (if spi_delay (s_script (dev m)) 0 < n \<and> spi_answer (s_script (dev m)) 0 = 0x3c then Inr () else Inl EIO, m')"
proof -
  let ?tx = "Some [\<lparr>buf = tx_data, buf_len = 1\<rparr>]" and ?rx = "Some [\<lparr>buf = rx_data, buf_len = 1\<rparr>]"
  let ?m = "m\<lparr>ram := (ram m)(tx_data := 0xa5, rx_data := 0), spi_result := - E\<rparr>"
  let ?d = "spi_delay (s_script (dev m)) 0" and ?a = "spi_answer (s_script (dev m)) 0"
  obtain divisor where div: "eriscv_spi_divisor hz spi_smoke_config = Some divisor"
    by (simp add: eriscv_spi_divisor_def spi_smoke_config_def)
  have addrs: "set_addrs ?tx = [tx_data]" "set_addrs ?rx = [rx_data]"
    by (simp_all add: set_addrs_def buf_addrs_def)
  have ok: "transfer_ok hz spi_smoke_config divisor ?tx ?rx ?m"
    using assms div by (simp add: transfer_ok_def addrs eriscv_spi_validate_def spi_smoke_config_def no_clobber_disjoint)
  have n1: "1 = max (length (set_addrs ?tx)) (length (set_addrs ?rx))" by (simp add: addrs)
  have k1: "Suc ?d = (\<Sum>j \<leftarrow> [0..<1]. Suc (spi_delay (s_script (dev ?m)) j))" by simp
  from spi_async_result [OF ok n1 k1, of "Some ()" 0 spi_callback_fn]
  obtain m0 m1 where r: "eriscv_spi_transceive_async spi_bus riscv_kernel hz spi_smoke_config ?tx ?rx (Some ()) 0 ?m = Some (Inr (), m0)"
    "\<forall>j<Suc ?d. spi_active (spi_wait_irqs j m0)" "spi_wait_irqs (Suc ?d) m0 = spi_callback_fn () 0 0 m1" "\<not> spi_active m1"
    "ram m1 = deposits [rx_data] 0 [?a] (ram ?m)"
    unfolding spi_wait_irqs_def addrs by (auto simp: addrs)
  have test: "spi_smoke_test spi_bus riscv_kernel hz E tx_data rx_data True (spi_wait_irqs n) m =
      (let m' = spi_wait_irqs n m0
       in if spi_done m' = 0 then Some (Inl EIO, m')
          else let m'' = m'\<lparr>spi_done := spi_done m' - 1\<rparr>
               in if spi_result m'' \<noteq> 0 \<or> ram m'' rx_data \<noteq> 0x3c then Some (Inl EIO, m'') else Some (Inr (), m''))"
    using r(1) by (simp add: spi_smoke_test_def Let_def)
  show ?thesis
  proof (cases "?d < n")
    case False
    then have "spi_done (spi_wait_irqs n m0) = 0"
      using spi_isrs_active_done [of n m0] r(2) spi_async_done [OF r(1)] assms(4) by simp
    then show ?thesis using False by (simp add: test)
  next
    case True
    have "spi_wait_irqs n m0 = spi_wait_irqs (n - Suc ?d) (spi_wait_irqs (Suc ?d) m0)"
      using True funpow_add [of "n - Suc ?d" "Suc ?d" "eriscv_spi_isr spi_bus spi_callback_fn"] by (simp add: spi_wait_irqs_def)
    then have w: "spi_wait_irqs n m0 = spi_callback_fn () 0 0 m1"
      using r(4) by (simp add: r(3) spi_isrs_inactive spi_callback_fn_def)
    have "ram m1 rx_data = ?a" using r(5) by (simp add: deposit_def)
    then show ?thesis using True by (simp add: test w spi_callback_fn_def Let_def)
  qed
qed

section \<open>The published result\<close>

lemma handoffs_prefix: "n \<le> k \<Longrightarrow> prefix (handoffs n) (handoffs k)"
proof (induction rule: dec_induct)
  case (step k)
  then show ?case using prefix_order.trans [of "handoffs n" "handoffs k" "handoffs (Suc k)"] by (simp del: of_nat_Suc)
qed simp

lemma half_prefix: "n < 4 \<Longrightarrow> prefix (handoffs n @ [Msgq_put (of_nat (Suc n))]) (handoffs 4)"
  using prefix_order.trans [of "handoffs n @ [Msgq_put (of_nat (Suc n))]" "handoffs (Suc n)" "handoffs 4"]
    handoffs_prefix [of "Suc n" 4] by (simp del: of_nat_Suc)

lemma phase_traffic:
  assumes "at_rest n s \<or> a_inside n s \<or> in_queue n s \<or> b_inside n s"
  shows "traffic (zlog s) = handoffs n \<or>
    n < 4 \<and> (traffic (zlog s) = handoffs n @ [Msgq_put (of_nat (Suc n))] \<or> traffic (zlog s) = handoffs (Suc n))"
  using assms
proof (elim disjE)
  assume "a_inside n s"
  then show ?thesis by (cases "a_pc s \<in> {A_print, A_inc, A_give}") (simp_all only: a_inside_def if_True if_False simp_thms)
next
  assume "b_inside n s"
  then show ?thesis
    by (cases "b_pc s \<in> {B_lock, B_check, B_unlock, B_get}") (simp_all only: b_inside_def handed_def if_True if_False simp_thms)
qed (simp_all only: at_rest_def in_queue_def handed_def simp_thms)

lemma zinv_traffic: "zinv s \<Longrightarrow> prefix (traffic (zlog s)) (handoffs 4)"
proof -
  assume "zinv s"
  then obtain n where "ends_ok n s" "at_rest n s \<or> a_inside n s \<or> in_queue n s \<or> b_inside n s" by (auto simp: zinv_def)
  then have "n \<le> 4" and t: "traffic (zlog s) = handoffs n \<or>
    n < 4 \<and> (traffic (zlog s) = handoffs n @ [Msgq_put (of_nat (Suc n))] \<or> traffic (zlog s) = handoffs (Suc n))"
    using phase_traffic by (auto simp only: ends_ok_def)
  from t show ?thesis
    using handoffs_prefix [OF \<open>n \<le> 4\<close>] half_prefix [of n] handoffs_prefix [of "Suc n" 4] by (elim disjE conjE) simp_all
qed

section \<open>The smoke tests on the SoC\<close>

text \<open>
  The surroundings on the SoC: its peripherals, cycles \<open>ct\<close> and \<open>cw\<close> that the busy waits take, \<open>n\<close> SPI interrupts in
  time. The board before the tests: timer and watchdog off, SPI idle.
\<close>

definition soc_env ::
    "(gpio_apb, timer_apb, wdt_apb, spi_apb) smoke_env \<Rightarrow> (nat \<Rightarrow> nat) \<Rightarrow> (nat \<Rightarrow> nat) \<Rightarrow> nat \<Rightarrow> bool" where
  "soc_env E ct cw n \<longleftrightarrow>
     gpio_bus_of E = gpio_bus \<and> timer_bus_of E = timer_bus \<and> wdt_bus_of E = wdt_bus \<and> spi_bus_of E = spi_bus \<and>
     gpio_kernel E = riscv_kernel \<and> spi_kernel E = riscv_kernel \<and> flags_ok (env_flags E) \<and>
     gpio_base (env_gpio E) = ERISCV_MCU_GPIO0_BASE \<and> 7 AND port_pin_mask (env_gpio E) = 7 \<and>
     gpio_ready E \<and> timer_ready E \<and> wdt_ready E \<and> spi_ready E \<and> env_us_to_ticks E 1000 \<noteq> 0 \<and>
     env_tx_data E \<noteq> env_rx_data E \<and>
     timer_wait E = timer_busy_wait ct \<and> wdt_wait E = wdt_busy_wait cw \<and> spi_wait E = spi_wait_irqs n"

definition board_idle :: "(gpio_apb, timer_apb, wdt_apb, spi_apb) zboard \<Rightarrow> bool" where
  "board_idle b \<longleftrightarrow>
     timer_base (zb_timer b) = ERISCV_MCU_TIMER0_BASE \<and> timer_top_count (zb_timer b) = 0 \<and>
     \<not> bit (t_ctrl (dev (zb_timer b))) 0 \<and> \<not> t_expired (dev (zb_timer b)) \<and>
     wdt_base (zb_wdt b) = ERISCV_MCU_WDT0_BASE \<and> wdt_pretimeout_count (zb_wdt b) = 0 \<and> \<not> wdt_running (zb_wdt b) \<and>
     \<not> wdt_installed (zb_wdt b) \<and> \<not> bit (w_ctrl (dev (zb_wdt b))) 0 \<and> \<not> w_locked (dev (zb_wdt b)) \<and>
     \<not> w_pre_pending (dev (zb_wdt b)) \<and> \<not> w_reset_seen (dev (zb_wdt b)) \<and>
     spi_base (zb_spi b) = ERISCV_MCU_SPI0_BASE \<and> \<not> spi_active (zb_spi b) \<and> \<not> s_busy (dev (zb_spi b)) \<and> spi_done (zb_spi b) = 0"

text \<open>
  The time of a test is the time of its waits: an access to the timer or the watchdog is not followed by idle cycles of
  its own, and no single wait reaches, within two cycles, half the watchdog's timeout.
\<close>

definition waits_only :: "(gpio_apb, timer_apb, wdt_apb, spi_apb) smoke_env \<Rightarrow> (nat \<Rightarrow> nat) \<Rightarrow> (gpio_apb, timer_apb, wdt_apb, spi_apb) zboard \<Rightarrow> bool" where
  "waits_only E cw b \<longleftrightarrow> t_gaps (dev (zb_timer b)) = [] \<and> w_gaps (dev (zb_wdt b)) = [] \<and> (\<forall>j. cw j + 2 \<le> unat (env_hz E) div 1000)"

text \<open>What each test depends on.\<close>

definition gpio_passes :: "(gpio_apb, timer_apb, wdt_apb, spi_apb) zboard \<Rightarrow> bool" where
  "gpio_passes b \<longleftrightarrow> g_out (dev (zb_gpio b)) AND NOT 7 = 0 \<and> g_dir (dev (zb_gpio b)) AND NOT 7 = 0"

definition spi_passes :: "nat \<Rightarrow> (gpio_apb, timer_apb, wdt_apb, spi_apb) zboard \<Rightarrow> bool" where
  "spi_passes n b \<longleftrightarrow> spi_delay (s_script (dev (zb_spi b))) 0 < n \<and> spi_answer (s_script (dev (zb_spi b))) 0 = 0x3c"

lemma smoke_soc:
  assumes "soc_env E ct cw n" "board_idle b" "waits_only E cw b"
  shows "\<exists>b'. smoke_tests E b =
      (if \<not> gpio_passes b then Some (''Zephyr FAIL: GPIO smoke'', 0xdead0006)
       else if (\<Sum>j<9999. ct j) \<le> unat (env_us_to_ticks E 1000) then Some (''Zephyr FAIL: timer smoke'', 0xdead0007)
       else if (\<Sum>j<1499. cw j) < unat (env_hz E) div 1000 then Some (''Zephyr FAIL: WDT smoke'', 0xdead0008)
       else if \<not> spi_passes n b then Some (''Zephyr FAIL: SPI smoke'', 0xdead0009) else None, b') \<and>
    (gpio_passes b \<longrightarrow> t_ctrl (dev (zb_timer b')) = 0 \<and>
      ((\<Sum>j<9999. ct j) > unat (env_us_to_ticks E 1000) \<longrightarrow> wdt_stopped (zb_wdt b')))"
proof -
  note env = assms(1) [unfolded soc_env_def] and idle = assms(2) [unfolded board_idle_def] assms(3) [unfolded waits_only_def]
  obtain r1 g where g: "gpio_smoke_test gpio_bus riscv_kernel (env_flags E) (env_gpio E) True (zb_gpio b) = (r1, g)" by fastforce
  have r1: "r1 = (if gpio_passes b then Inr () else Inl EIO)"
    using gpio_smoke_rtl [of "env_flags E" "env_gpio E" "zb_gpio b"] env g by (simp add: gpio_passes_def)
  obtain r2 t where t: "timer_smoke_test timer_bus (env_us_to_ticks E) True (timer_busy_wait ct) (zb_timer b) = (r2, t)" by fastforce
  have r2: "r2 = (if unat (env_us_to_ticks E 1000) < (\<Sum>j<9999. ct j) then Inr () else Inl ETIMEDOUT)" "t_ctrl (dev t) = 0"
    using timer_smoke_rtl [of "zb_timer b" "env_us_to_ticks E" ct] env idle t by (simp_all del: sum.lessThan_Suc)
  obtain r3 w where w: "wdt_smoke_test wdt_bus (env_hz E) (env_wdt_opt E) True (wdt_busy_wait cw) (zb_wdt b) = (r3, w)" by fastforce
  have r3: "r3 = (if unat (env_hz E) div 1000 \<le> (\<Sum>j<1499. cw j) then Inr () else Inl ETIMEDOUT)" "wdt_stopped w"
    using wdt_smoke_rtl [of "zb_wdt b" cw "env_hz E" "env_wdt_opt E"] env idle w by simp_all
  obtain r4 s where s: "spi_smoke_test spi_bus riscv_kernel (env_hz E) (env_EINPROGRESS E) (env_tx_data E) (env_rx_data E) True
      (spi_wait_irqs n) (zb_spi b) = Some (r4, s)" and r4: "r4 = (if spi_passes n b then Inr () else Inl EIO)"
    using spi_smoke_rtl [of "zb_spi b" "env_tx_data E" "env_rx_data E" "env_hz E" "env_EINPROGRESS E" n] env idle
    by (auto simp: spi_passes_def)
  show ?thesis
    using env r2(2) r3(2) by (simp add: smoke_tests_def g t w s r1 r2(1) r3(1) r4 Let_def not_less not_le)
qed

section \<open>The whole demonstration\<close>

text \<open>
  C15. The smoke tests of the demonstration on the peripherals of the SoC, run from an idle board, where the time of a
  test is the time of its waits (\<open>t_gaps\<close> and \<open>w_gaps\<close> are empty: register accesses are not followed by idle cycles)
  and no single wait of the watchdog's test comes within two cycles of half the timeout, so that the watchdog cannot
  bite between two checks: the first failure, and with it the published code, is determined exactly by the state of the
  GPIO latches, by whether the 9999 checked waits outlast the timer's top value and 1499 of them half the watchdog's
  timeout, and by the slave's answer and the time it takes. The timer is left stopped, and the watchdog stopped without
  having reset the system.
\<close>

theorem zephyr_smoke_verdict:
  assumes "soc_env E ct cw n" "board_idle b"
    "t_gaps (dev (zb_timer b)) = []" "w_gaps (dev (zb_wdt b)) = []" "\<forall>j. cw j + 2 \<le> unat (env_hz E) div 1000"
  shows "\<exists>b'. smoke_tests E b =
      (if \<not> gpio_passes b then Some (''Zephyr FAIL: GPIO smoke'', 0xdead0006)
       else if (\<Sum>j<9999. ct j) \<le> unat (env_us_to_ticks E 1000) then Some (''Zephyr FAIL: timer smoke'', 0xdead0007)
       else if (\<Sum>j<1499. cw j) < unat (env_hz E) div 1000 then Some (''Zephyr FAIL: WDT smoke'', 0xdead0008)
       else if \<not> spi_passes n b then Some (''Zephyr FAIL: SPI smoke'', 0xdead0009) else None, b') \<and>
    (gpio_passes b \<longrightarrow> t_ctrl (dev (zb_timer b')) = 0 \<and>
      ((\<Sum>j<9999. ct j) > unat (env_us_to_ticks E 1000) \<longrightarrow> wdt_stopped (zb_wdt b')))"
  by (rule smoke_soc [OF assms(1,2)]) (use assms(3-5) in \<open>simp add: waits_only_def\<close>)

text \<open>A board after reset and its surroundings at 100 MHz: waits of 100 cycles, the slave answers \<open>0x3c\<close> after two interrupts.\<close>

definition reset_board :: "(gpio_apb, timer_apb, wdt_apb, spi_apb) zboard" where
  "reset_board = \<lparr>
     zb_gpio = \<lparr>dev = \<lparr>g_out = 0, g_dir = 0, g_in = []\<rparr>, csrs = (\<lambda>_. 0), ram = (\<lambda>_. 0), trace = []\<rparr>,
     zb_timer = \<lparr>dev = \<lparr>t_ctrl = 0, t_count = 0, t_compare = 0, t_expired = False, t_gaps = []\<rparr>, csrs = (\<lambda>_. 0), ram = (\<lambda>_. 0),
       trace = [], timer_base = 0x40020000, timer_callback = None, timer_user_data = 0, timer_top_count = 0\<rparr>,
     zb_wdt = \<lparr>dev = wdt_reset [], csrs = (\<lambda>_. 0), ram = (\<lambda>_. 0), trace = [], wdt_base = 0x40040000, wdt_callback = None,
       wdt_installed = False, wdt_running = False, wdt_pretimeout_count = 0\<rparr>,
     zb_spi = \<lparr>dev = spi_reset [(2, 0x3c)], csrs = (\<lambda>_. 0), ram = (\<lambda>_. 0), trace = [], spi_base = 0x40030000, tx_bufs = None,
       rx_bufs = None, data_len = 0, data_index = 0, data_ctrl = 0, spi_callback = None, spi_userdata = 0, spi_active = False,
       spi_result = 0, spi_done = 0\<rparr>\<rparr>"

definition demo_env :: "(gpio_apb, timer_apb, wdt_apb, spi_apb) smoke_env" where
  "demo_env = \<lparr>gpio_bus_of = gpio_bus, timer_bus_of = timer_bus, wdt_bus_of = wdt_bus, spi_bus_of = spi_bus,
     gpio_kernel = riscv_kernel, spi_kernel = riscv_kernel,
     env_flags = \<lparr>GPIO_SINGLE_ENDED = 2, GPIO_PULL_UP = 16, GPIO_PULL_DOWN = 32, GPIO_OUTPUT = 0x20000,
       GPIO_OUTPUT_INIT_HIGH = 0x80000, GPIO_OUTPUT_INIT_LOW = 0x40000\<rparr>,
     env_gpio = \<lparr>port_pin_mask = 0xff, gpio_base = 0x40010000\<rparr>, env_hz = 100000000, env_us_to_ticks = (\<lambda>us. 100 * us),
     env_wdt_opt = 2, env_EINPROGRESS = 119, env_tx_data = 0x100, env_rx_data = 0x104,
     gpio_ready = True, timer_ready = True, wdt_ready = True, spi_ready = True,
     timer_wait = timer_busy_wait (\<lambda>_. 100), wdt_wait = wdt_busy_wait (\<lambda>_. 100), spi_wait = spi_wait_irqs 3\<rparr>"

lemma demo_soc: "soc_env demo_env (\<lambda>_. 100) (\<lambda>_. 100) 3"
  by (simp add: soc_env_def demo_env_def flags_ok_def)

lemma reset_board_idle: "board_idle reset_board" "gpio_passes reset_board" "spi_passes 3 reset_board"
  by (simp_all add: board_idle_def reset_board_def wdt_reset_def spi_reset_def gpio_passes_def spi_passes_def spi_delay_def spi_answer_def)

lemma demo_waits: "t_gaps (dev (zb_timer reset_board)) = []" "w_gaps (dev (zb_wdt reset_board)) = []"
    "\<forall>j. (\<lambda>_. 100) (j :: nat) + 2 \<le> unat (env_hz demo_env) div 1000"
  by (simp_all add: reset_board_def wdt_reset_def demo_env_def)

theorem zephyr_smoke_verdict_witness: "fst (smoke_tests demo_env reset_board) = None"
  using zephyr_smoke_verdict [OF demo_soc reset_board_idle(1) demo_waits] reset_board_idle(2,3) by (auto simp: demo_env_def)

text \<open>Which of the four tests fails on the board; no test touches what another one uses.\<close>

definition smoke_failed :: "('g, 't, 'w, 's) smoke_env \<Rightarrow> ('g, 't, 'w, 's) zboard \<Rightarrow> bool list" where
  "smoke_failed E b =
    [isl (fst (gpio_smoke_test (gpio_bus_of E) (gpio_kernel E) (env_flags E) (env_gpio E) (gpio_ready E) (zb_gpio b))),
     isl (fst (timer_smoke_test (timer_bus_of E) (env_us_to_ticks E) (timer_ready E) (timer_wait E) (zb_timer b))),
     isl (fst (wdt_smoke_test (wdt_bus_of E) (env_hz E) (env_wdt_opt E) (wdt_ready E) (wdt_wait E) (zb_wdt b))),
     isl (fst (the (spi_smoke_test (spi_bus_of E) (spi_kernel E) (env_hz E) (env_EINPROGRESS E) (env_tx_data E)
       (env_rx_data E) (spi_ready E) (spi_wait E) (zb_spi b))))]"

text \<open>The tests that pass before the first failure.\<close>

definition smoke_passed :: "('g, 't, 'w, 's) smoke_env \<Rightarrow> ('g, 't, 'w, 's) zboard \<Rightarrow> nat" where
  "smoke_passed E b = length (takeWhile Not (smoke_failed E b))"

lemma smoke_tests_first:
  "case fst (smoke_tests E b) of
     None \<Rightarrow> smoke_passed E b = 4
   | Some (_, code) \<Rightarrow> smoke_passed E b < 4 \<and> code = 0xdead0006 + of_nat (smoke_passed E b)"
  by (simp add: smoke_tests_def smoke_passed_def smoke_failed_def Let_def split: prod.splits)

text \<open>
  C6. What the result word of the demonstration says, whatever the devices, the smoke tests' surroundings, the console
  and the schedule. It is written once, when the main thread ends. It is one of the codes of the smoke tests exactly
  when one of them failed on the board, and then the code of the first that did. With all four passed, it is the code
  of the console check only when that check was made and found no interrupt or a transmission under way, the code of the
  handoffs only when the console check passed and the kernel's wait ended with an error, and otherwise the value for success: then all four smoke
  tests and the console check passed and all four messages were sent and received in turn.
\<close>

theorem zephyr_result_sound:
  assumes "zkernel_ok K"
  shows "let s = zrun (smoke_tests E) console K sched (zboot junk b);
      saw = (\<lambda>p P. main_saw (smoke_tests E) console K p P sched (zboot junk b))
    in prefix (traffic (zlog s)) (handoffs 4) \<and>
      (if main_pc s \<noteq> M_done then zephyr_result s = junk
       else if smoke_passed E b < 4 then zephyr_result s = 0xdead0006 + of_nat (smoke_passed E b)
       else zephyr_result s = 0xdead0005 \<and> saw M_console (\<lambda>s. fst (console s) = 0 \<or> snd (console s)) \<or>
         saw M_console (\<lambda>s. fst (console s) \<noteq> 0 \<and> \<not> snd (console s)) \<and>
         (zephyr_result s = 0xdead0003 \<and> saw M_wait (\<lambda>s. \<exists>r. k_sem_take_ms K (zlog s) Sem_done = Some r \<and> r \<noteq> 0) \<or>
          zephyr_result s = ZEPHYR_RESULT_PASS \<and> traffic (zlog s) = handoffs 4 \<and> handoff_count s = HANDOFF_COUNT))"
proof -
  let ?s = "zrun (smoke_tests E) console K sched (zboot junk b)"
  have inv: "zinv ?s" by (rule zrun_inv [OF assms zboot_inv])
  have saw: "console_works console = (\<lambda>s. fst (console s) \<noteq> 0 \<and> \<not> snd (console s))"
    "(\<lambda>s. \<not> (fst (console s) \<noteq> 0 \<and> \<not> snd (console s))) = (\<lambda>s. fst (console s) = 0 \<or> snd (console s))"
    "wait_fails K = (\<lambda>s. \<exists>r. k_sem_take_ms K (zlog s) Sem_done = Some r \<and> r \<noteq> 0)"
    by (auto simp: console_works_def wait_fails_def fun_eq_iff split: option.split)
  note ok = zrun_main_ok [OF assms, of "smoke_tests E" console junk b sched, unfolded saw]
  show ?thesis
  proof (cases "main_pc ?s = M_done")
    case False
    then show ?thesis using ok zinv_traffic [OF inv] by (auto simp: Let_def main_reached_def split: main_pc.splits)
  next
    case True
    then show ?thesis using ok zinv_traffic [OF inv] b_done_all [OF inv] smoke_tests_first [of E b]
      by (auto simp: Let_def main_reached_def split: option.splits)
  qed
qed

text \<open>A kernel whose wait with a timeout is never given up.\<close>

definition zkernel_patient :: zkernel where
  "zkernel_patient = zkernel_model\<lparr>k_sem_take_ms := k_sem_take zkernel_model\<rparr>"

lemma zkernel_patient_ok: "zkernel_ok zkernel_patient"
  by (simp add: zkernel_ok_def zkernel_patient_def zkernel_model_def)

abbreviation (input) demo_schedule :: "zthread list" where
  "demo_schedule \<equiv> concat (replicate 180 [Main_thread, Thread_b, Thread_a])"

lemma demo_ends:
  "main_pc (zrun (smoke_tests demo_env) console zkernel_patient demo_schedule (zboot 7 reset_board)) = M_done"
  by (rule fair_run_ends [OF zkernel_patient_ok]) (simp_all add: zkernel_patient_def zkernel_model_def)

lemma demo_smoke: "smoke_passed demo_env reset_board = 4"
proof -
  have "waits_only demo_env (\<lambda>_. 100) reset_board" using demo_waits by (simp add: waits_only_def)
  then have "fst (smoke_tests demo_env reset_board) = None"
    using smoke_soc [OF demo_soc reset_board_idle(1)] reset_board_idle(2,3) by (auto simp: demo_env_def)
  then show ?thesis using smoke_tests_first [of demo_env reset_board] by simp
qed

theorem zephyr_result_sound_witness:
  "let s = zrun (smoke_tests demo_env) (\<lambda>_. (1, False)) zkernel_patient demo_schedule (zboot 7 reset_board) in
     zephyr_result s = ZEPHYR_RESULT_PASS \<and> traffic (zlog s) = handoffs 4"
proof -
  have "\<not> (\<exists>r. k_sem_take_ms zkernel_patient log Sem_done = Some r \<and> r \<noteq> 0)" for log
    by (simp add: zkernel_patient_def zkernel_model_def)
  then show ?thesis
    using zephyr_result_sound [OF zkernel_patient_ok, of demo_env "\<lambda>_. (1, False)" demo_schedule 7 reset_board]
    by (simp add: Let_def demo_ends demo_smoke main_saw_never del: zrun_simps)
qed



end
