(* ===== verification/Linux_Eth.thy ===== *)
theory Linux_Eth
  imports Machine "HOL-Library.Multiset"
begin

text \<open>
  The Linux driver of the Ethernet DMA (\<^verbatim>\<open>sw/linux/eriscv_ap_eth/eriscv_ap_eth.c\<close>). The kernel is not in
  the repository: what it answers is the parameter \<open>kernel\<close>, a function of the history of calls, so any
  kernel, and any timing of it, is some parameter; every call the driver makes goes into the history.
  The device answers through \<open>eth_hw\<close>: the register window, addressed by offset, and the descriptors, which
  sit in memory it shares with the driver. \<open>None\<close> stands for a null pointer dereferenced or a loop that
  does not end.
\<close>

section \<open>Registers and descriptors\<close>

abbreviation (input) AP_ETH_REG_CTRL :: u32 where "AP_ETH_REG_CTRL \<equiv> 0x000"
abbreviation (input) AP_ETH_REG_IRQ_STATUS :: u32 where "AP_ETH_REG_IRQ_STATUS \<equiv> 0x004"
abbreviation (input) AP_ETH_REG_IRQ_ENABLE :: u32 where "AP_ETH_REG_IRQ_ENABLE \<equiv> 0x008"
abbreviation (input) AP_ETH_REG_STATUS :: u32 where "AP_ETH_REG_STATUS \<equiv> 0x00c"
abbreviation (input) AP_ETH_REG_TX_BASE_LO :: u32 where "AP_ETH_REG_TX_BASE_LO \<equiv> 0x010"
abbreviation (input) AP_ETH_REG_TX_BASE_HI :: u32 where "AP_ETH_REG_TX_BASE_HI \<equiv> 0x014"
abbreviation (input) AP_ETH_REG_TX_COUNT :: u32 where "AP_ETH_REG_TX_COUNT \<equiv> 0x018"
abbreviation (input) AP_ETH_REG_TX_TAIL :: u32 where "AP_ETH_REG_TX_TAIL \<equiv> 0x01c"
abbreviation (input) AP_ETH_REG_TX_HEAD :: u32 where "AP_ETH_REG_TX_HEAD \<equiv> 0x020"
abbreviation (input) AP_ETH_REG_TX_DOORBELL :: u32 where "AP_ETH_REG_TX_DOORBELL \<equiv> 0x024"
abbreviation (input) AP_ETH_REG_RX_BASE_LO :: u32 where "AP_ETH_REG_RX_BASE_LO \<equiv> 0x030"
abbreviation (input) AP_ETH_REG_RX_BASE_HI :: u32 where "AP_ETH_REG_RX_BASE_HI \<equiv> 0x034"
abbreviation (input) AP_ETH_REG_RX_COUNT :: u32 where "AP_ETH_REG_RX_COUNT \<equiv> 0x038"
abbreviation (input) AP_ETH_REG_RX_TAIL :: u32 where "AP_ETH_REG_RX_TAIL \<equiv> 0x03c"
abbreviation (input) AP_ETH_REG_RX_HEAD :: u32 where "AP_ETH_REG_RX_HEAD \<equiv> 0x040"
abbreviation (input) AP_ETH_REG_RX_DOORBELL :: u32 where "AP_ETH_REG_RX_DOORBELL \<equiv> 0x044"
abbreviation (input) AP_ETH_REG_CAPS :: u32 where "AP_ETH_REG_CAPS \<equiv> 0x050"
abbreviation (input) AP_ETH_REG_MAC_LO :: u32 where "AP_ETH_REG_MAC_LO \<equiv> 0x054"
abbreviation (input) AP_ETH_REG_MAC_HI :: u32 where "AP_ETH_REG_MAC_HI \<equiv> 0x058"
abbreviation (input) AP_ETH_CTRL_TX_ENABLE :: u32 where "AP_ETH_CTRL_TX_ENABLE \<equiv> 1"
abbreviation (input) AP_ETH_CTRL_RX_ENABLE :: u32 where "AP_ETH_CTRL_RX_ENABLE \<equiv> 2"
abbreviation (input) AP_ETH_CTRL_RING_RESET :: u32 where "AP_ETH_CTRL_RING_RESET \<equiv> 4"
abbreviation (input) AP_ETH_IRQ_ALL :: u32 where "AP_ETH_IRQ_ALL \<equiv> 0xf"
abbreviation (input) AP_ETH_DESC_OWN :: u64 where "AP_ETH_DESC_OWN \<equiv> 0x10000"
abbreviation (input) AP_ETH_DESC_IOC :: u64 where "AP_ETH_DESC_IOC \<equiv> 0x20000"
abbreviation (input) AP_ETH_DESC_EOP :: u64 where "AP_ETH_DESC_EOP \<equiv> 0x40000"
abbreviation (input) AP_ETH_DESC_DONE :: u64 where "AP_ETH_DESC_DONE \<equiv> 1"
abbreviation (input) AP_ETH_DESC_ERROR :: u64 where "AP_ETH_DESC_ERROR \<equiv> 2"
abbreviation (input) AP_ETH_DESC_ACTUAL_SHIFT :: nat where "AP_ETH_DESC_ACTUAL_SHIFT \<equiv> 16"
abbreviation (input) AP_ETH_DESC_ACTUAL_MASK :: u64 where "AP_ETH_DESC_ACTUAL_MASK \<equiv> 0xffff0000"
abbreviation (input) AP_ETH_RING_SIZE :: nat where "AP_ETH_RING_SIZE \<equiv> 64"
abbreviation (input) AP_ETH_RING_MASK :: u16 where "AP_ETH_RING_MASK \<equiv> 63"
abbreviation (input) AP_ETH_TX_MAX_BYTES :: u32 where "AP_ETH_TX_MAX_BYTES \<equiv> 1536"
abbreviation (input) AP_ETH_RX_BUF_BYTES :: u32 where "AP_ETH_RX_BUF_BYTES \<equiv> 2048"

datatype ring_id = Tx | Rx
datatype dma_dir = DMA_TO_DEVICE | DMA_FROM_DEVICE

record ap_eth_desc =
  buffer_addr :: u64
  length_flags :: u64
  desc_status :: u64
  desc_cookie :: u64

record 'd eth_hw = "'d bus" +
  desc_rd :: "ring_id \<Rightarrow> nat \<Rightarrow> 'd \<Rightarrow> u64 \<times> 'd"             \<comment> \<open>the status word of a slot\<close>
  desc_wr :: "ring_id \<Rightarrow> nat \<Rightarrow> ap_eth_desc \<Rightarrow> 'd \<Rightarrow> 'd"       \<comment> \<open>all four words\<close>
  status_wr :: "ring_id \<Rightarrow> nat \<Rightarrow> u64 \<Rightarrow> 'd \<Rightarrow> 'd"
  ring_zero :: "ring_id \<Rightarrow> 'd \<Rightarrow> 'd"

section \<open>The kernel\<close>

record sk_buff =
  skb_data :: u64
  skb_len :: u32
  skb_nonlinear :: bool

text \<open>What the driver calls, with the answer it got. A pointer is a 64-bit word, a null pointer \<open>None\<close>.\<close>

datatype kcall =
    Netdev_alloc_skb "u64 option" | Dev_kfree_skb_any u64 | Napi_gro_receive u64 u32
  | Kmalloc u32 "u64 option" | Kfree u64 | Memcpy u64 u64 u32
  | Dma_map_single u64 u32 dma_dir "u64 option" | Dma_unmap_single u64 u32 dma_dir
  | Dma_alloc_coherent "(u64 \<times> u64) option" | Dma_free_coherent u64 u64
  | Skb_handed u64 | Skb_returned u64     \<comment> \<open>the stack calls \<open>start_xmit\<close>, and keeps the buffer on \<open>NETDEV_TX_BUSY\<close>\<close>
  | Reg_read u32 u32 | Reg_write u32 u32
  | Desc_read ring_id nat u64 | Desc_write ring_id nat ap_eth_desc | Status_write ring_id nat u64 | Ring_zero ring_id
  | Dma_wmb | Spin_lock_irqsave | Spin_unlock_irqrestore
  | Netif_stop_queue | Netif_start_queue | Netif_wake_queue | Netif_carrier_on | Netif_carrier_off
  | Napi_enable | Napi_disable | Napi_schedule | Napi_complete_done bool
  | Alloc_etherdev bool | Free_netdev | Ioremap bool | Platform_get_irq int | Dma_set_mask int
  | Netif_napi_add | Netif_napi_del | Eth_hw_addr_set "u8 list"
  | Request_irq int | Free_irq | Register_netdev int | Unregister_netdev

record kernel =
  k_alloc_skb :: "kcall list \<Rightarrow> (u64 \<times> u64) option"     \<comment> \<open>the buffer and its \<open>data\<close> pointer\<close>
  k_kmalloc :: "kcall list \<Rightarrow> u64 option"
  k_dma_map :: "dma_dir \<Rightarrow> kcall list \<Rightarrow> u64 option"     \<comment> \<open>\<open>None\<close>: \<open>dma_mapping_error\<close>\<close>
  k_coherent :: "kcall list \<Rightarrow> (u64 \<times> u64) option"      \<comment> \<open>pointer and DMA address\<close>
  k_polls :: "kcall list \<Rightarrow> nat"                         \<comment> \<open>polls that fit in a timeout\<close>
  k_napi_complete :: "kcall list \<Rightarrow> bool"
  k_etherdev :: "kcall list \<Rightarrow> bool"
  k_ioremap :: "kcall list \<Rightarrow> int"                       \<comment> \<open>0, or the error\<close>
  k_irq :: "kcall list \<Rightarrow> int"                           \<comment> \<open>the line, or the error when negative\<close>
  k_dma_mask :: "kcall list \<Rightarrow> int"
  k_request_irq :: "kcall list \<Rightarrow> int"
  k_register :: "kcall list \<Rightarrow> int"
  k_device_mac :: "kcall list \<Rightarrow> u8 list option"
  k_valid_ether_addr :: "u8 list \<Rightarrow> bool"
  k_random_addr :: "kcall list \<Rightarrow> u8 list"
  k_handed :: "kcall list \<Rightarrow> (u64 \<times> sk_buff) option"    \<comment> \<open>the next buffer the stack transmits, if any\<close>

section \<open>The driver's state\<close>

record net_device_stats =
  tx_packets :: u64
  tx_errors :: u64
  tx_bytes :: u64
  tx_dropped :: u64
  rx_packets :: u64
  rx_bytes :: u64
  rx_errors :: u64
  rx_dropped :: u64

definition stats_add :: "((u64 \<Rightarrow> u64) \<Rightarrow> net_device_stats \<Rightarrow> net_device_stats) \<Rightarrow> u64 \<Rightarrow> net_device_stats \<Rightarrow> net_device_stats" where
  "stats_add upd n st = upd (\<lambda>x. x + n) st"

record 'd ap_eth_priv =
  hw :: 'd
  klog :: "kcall list"
  skbuff :: "u64 \<Rightarrow> sk_buff"
  queue_stopped :: bool
  tx_ring :: "u64 option"
  tx_ring_dma :: u64
  rx_ring :: "u64 option"
  rx_ring_dma :: u64
  tx_skb :: "u64 option list"
  tx_bounce_alloc :: "u64 option list"
  tx_bounce :: "u64 option list"
  tx_dma :: "u64 list"
  rx_skb :: "u64 option list"
  rx_dma :: "u64 list"
  tx_prod :: u16
  tx_clean :: u16
  rx_cons :: u16
  rx_prod :: u16
  ndev_stats :: net_device_stats

definition call :: "kcall \<Rightarrow> 'd ap_eth_priv \<Rightarrow> 'd ap_eth_priv" where
  "call c m = m\<lparr>klog := klog m @ [c]\<rparr>"

text \<open>The kernel's functions, as the driver sees them.\<close>

definition netdev_alloc_skb :: "kernel \<Rightarrow> 'd ap_eth_priv \<Rightarrow> u64 option \<times> 'd ap_eth_priv" where
  "netdev_alloc_skb K m =
    (case k_alloc_skb K (klog m) of
       None \<Rightarrow> (None, call (Netdev_alloc_skb None) m)
     | Some (s, data) \<Rightarrow>
        (Some s, call (Netdev_alloc_skb (Some s))
           (m\<lparr>skbuff := (skbuff m)(s := \<lparr>skb_data = data, skb_len = 0, skb_nonlinear = False\<rparr>)\<rparr>)))"

definition skb_reserve :: "u64 \<Rightarrow> u64 \<Rightarrow> 'd ap_eth_priv \<Rightarrow> 'd ap_eth_priv" where
  "skb_reserve s n m = m\<lparr>skbuff := (skbuff m)(s := (skbuff m s)\<lparr>skb_data := skb_data (skbuff m s) + n\<rparr>)\<rparr>"

definition skb_put :: "u64 \<Rightarrow> u32 \<Rightarrow> 'd ap_eth_priv \<Rightarrow> 'd ap_eth_priv" where
  "skb_put s n m = m\<lparr>skbuff := (skbuff m)(s := (skbuff m s)\<lparr>skb_len := skb_len (skbuff m s) + n\<rparr>)\<rparr>"

definition skb_trim :: "u64 \<Rightarrow> u32 \<Rightarrow> 'd ap_eth_priv \<Rightarrow> 'd ap_eth_priv" where
  "skb_trim s n m = (if n < skb_len (skbuff m s) then m\<lparr>skbuff := (skbuff m)(s := (skbuff m s)\<lparr>skb_len := n\<rparr>)\<rparr> else m)"

definition dev_kfree_skb_any :: "u64 option \<Rightarrow> 'd ap_eth_priv \<Rightarrow> 'd ap_eth_priv" where
  "dev_kfree_skb_any p m = (case p of None \<Rightarrow> m | Some s \<Rightarrow> call (Dev_kfree_skb_any s) m)"

definition kfree :: "u64 option \<Rightarrow> 'd ap_eth_priv \<Rightarrow> 'd ap_eth_priv" where
  "kfree p m = (case p of None \<Rightarrow> m | Some a \<Rightarrow> call (Kfree a) m)"

definition dma_map_single :: "kernel \<Rightarrow> u64 \<Rightarrow> u32 \<Rightarrow> dma_dir \<Rightarrow> 'd ap_eth_priv \<Rightarrow> u64 option \<times> 'd ap_eth_priv" where
  "dma_map_single K p n dir m = (k_dma_map K dir (klog m), call (Dma_map_single p n dir (k_dma_map K dir (klog m))) m)"

definition PTR_ALIGN8 :: "u64 \<Rightarrow> u64" where "PTR_ALIGN8 p = (p + 7) AND NOT 7"

section \<open>Accesses\<close>

definition ap_eth_writel :: "'d eth_hw \<Rightarrow> u32 \<Rightarrow> u32 \<Rightarrow> 'd ap_eth_priv \<Rightarrow> 'd ap_eth_priv" where
  "ap_eth_writel H reg value m = call (Reg_write reg value) (m\<lparr>hw := bus_wr H reg value (hw m)\<rparr>)"

definition ap_eth_readl :: "'d eth_hw \<Rightarrow> u32 \<Rightarrow> 'd ap_eth_priv \<Rightarrow> u32 \<times> 'd ap_eth_priv" where
  "ap_eth_readl H reg m = (let (v, d) = bus_rd H reg (hw m) in (v, call (Reg_read reg v) (m\<lparr>hw := d\<rparr>)))"

definition desc_read :: "'d eth_hw \<Rightarrow> ring_id \<Rightarrow> nat \<Rightarrow> 'd ap_eth_priv \<Rightarrow> u64 \<times> 'd ap_eth_priv" where
  "desc_read H r i m = (let (v, d) = desc_rd H r i (hw m) in (v, call (Desc_read r i v) (m\<lparr>hw := d\<rparr>)))"

definition status_write :: "'d eth_hw \<Rightarrow> ring_id \<Rightarrow> nat \<Rightarrow> u64 \<Rightarrow> 'd ap_eth_priv \<Rightarrow> 'd ap_eth_priv" where
  "status_write H r i v m = call (Status_write r i v) (m\<lparr>hw := status_wr H r i v (hw m)\<rparr>)"

definition ap_eth_ring_next :: "u16 \<Rightarrow> u16" where
  "ap_eth_ring_next index = (index + 1) AND AP_ETH_RING_MASK"

definition ap_eth_dma_addr_valid :: "u64 \<Rightarrow> u64 \<Rightarrow> bool" where
  "ap_eth_dma_addr_valid addr align \<longleftrightarrow> addr AND NOT (mask 48) = 0 \<and> addr AND (align - 1) = 0"

definition ap_eth_tx_ring_full :: "'d ap_eth_priv \<Rightarrow> u16 \<Rightarrow> bool" where
  "ap_eth_tx_ring_full m head \<longleftrightarrow> ap_eth_ring_next (tx_prod m) = head"

definition ap_eth_desc_of :: "u64 \<Rightarrow> u16 \<Rightarrow> ap_eth_desc" where
  "ap_eth_desc_of dma len =
     \<lparr>buffer_addr = dma, length_flags = ucast len OR AP_ETH_DESC_OWN OR AP_ETH_DESC_IOC OR AP_ETH_DESC_EOP,
      desc_status = 0, desc_cookie = 0\<rparr>"

definition ap_eth_desc_set :: "'d eth_hw \<Rightarrow> ring_id \<Rightarrow> nat \<Rightarrow> u64 \<Rightarrow> u16 \<Rightarrow> 'd ap_eth_priv \<Rightarrow> 'd ap_eth_priv" where
  "ap_eth_desc_set H r i dma len m =
     call (Desc_write r i (ap_eth_desc_of dma len)) (m\<lparr>hw := desc_wr H r i (ap_eth_desc_of dma len) (hw m)\<rparr>)"

section \<open>Receive buffers and rings\<close>

definition ap_eth_alloc_rx_skb :: "kernel \<Rightarrow> 'd ap_eth_priv \<Rightarrow> u64 option \<times> 'd ap_eth_priv" where
  "ap_eth_alloc_rx_skb K m =
    (case netdev_alloc_skb K m of
       (None, m) \<Rightarrow> (None, m)
     | (Some s, m) \<Rightarrow> (Some s, skb_reserve s (PTR_ALIGN8 (skb_data (skbuff m s)) - skb_data (skbuff m s)) m))"

definition ap_eth_post_rx_buffer :: "'d eth_hw \<Rightarrow> kernel \<Rightarrow> nat \<Rightarrow> u64 \<Rightarrow> 'd ap_eth_priv \<Rightarrow> bool \<times> 'd ap_eth_priv" where
  "ap_eth_post_rx_buffer H K index s m =
    (case dma_map_single K (skb_data (skbuff m s)) AP_ETH_RX_BUF_BYTES DMA_FROM_DEVICE m of
       (None, m) \<Rightarrow> (False, m)
     | (Some dma, m) \<Rightarrow>
        if \<not> ap_eth_dma_addr_valid dma 8
        then (False, call (Dma_unmap_single dma AP_ETH_RX_BUF_BYTES DMA_FROM_DEVICE) m)
        else (True, ap_eth_desc_set H Rx index dma (ucast AP_ETH_RX_BUF_BYTES)
                (m\<lparr>rx_skb := (rx_skb m)[index := Some s], rx_dma := (rx_dma m)[index := dma]\<rparr>)))"

definition free_tx_slot :: "nat \<Rightarrow> 'd ap_eth_priv \<Rightarrow> 'd ap_eth_priv" where
  "free_tx_slot index m =
    (let m = (case tx_skb m ! index of
                None \<Rightarrow> m
              | Some s \<Rightarrow>
                  (dev_kfree_skb_any (Some s)
                    (call (Dma_unmap_single (tx_dma m ! index) (skb_len (skbuff m s)) DMA_TO_DEVICE) m))
                  \<lparr>tx_skb := (tx_skb m)[index := None]\<rparr>)
     in (kfree (tx_bounce_alloc m ! index) m)
          \<lparr>tx_bounce_alloc := (tx_bounce_alloc m)[index := None], tx_bounce := (tx_bounce m)[index := None]\<rparr>)"

definition free_rx_slot :: "nat \<Rightarrow> 'd ap_eth_priv \<Rightarrow> 'd ap_eth_priv" where
  "free_rx_slot index m =
    (case rx_skb m ! index of
       None \<Rightarrow> m
     | Some s \<Rightarrow>
         (dev_kfree_skb_any (Some s)
           (call (Dma_unmap_single (rx_dma m ! index) AP_ETH_RX_BUF_BYTES DMA_FROM_DEVICE) m))
         \<lparr>rx_skb := (rx_skb m)[index := None]\<rparr>)"

definition ap_eth_free_rings :: "'d ap_eth_priv \<Rightarrow> 'd ap_eth_priv" where
  "ap_eth_free_rings m =
    (let m = fold (\<lambda>index m. free_rx_slot index (free_tx_slot index m)) [0..<AP_ETH_RING_SIZE] m;
         m = (case tx_ring m of None \<Rightarrow> m
              | Some p \<Rightarrow> (call (Dma_free_coherent p (tx_ring_dma m)) m)\<lparr>tx_ring := None\<rparr>)
     in case rx_ring m of None \<Rightarrow> m
        | Some p \<Rightarrow> (call (Dma_free_coherent p (rx_ring_dma m)) m)\<lparr>rx_ring := None\<rparr>)"

datatype eth_error = EIO | ENOMEM | EBUSY | ETIMEDOUT

text \<open>The buffers are posted one slot after the other; the first failure ends the loop.\<close>

fun post_rx_buffers ::
    "'d eth_hw \<Rightarrow> kernel \<Rightarrow> nat list \<Rightarrow> 'd ap_eth_priv \<Rightarrow> (eth_error + unit) \<times> 'd ap_eth_priv" where
  "post_rx_buffers H K [] m = (Inr (), m)"
| "post_rx_buffers H K (index # is) m =
    (case ap_eth_alloc_rx_skb K m of
       (None, m) \<Rightarrow> (Inl ENOMEM, m)
     | (Some s, m) \<Rightarrow>
        (case ap_eth_post_rx_buffer H K index s m of
           (True, m) \<Rightarrow> post_rx_buffers H K is m
         | (False, m) \<Rightarrow> (Inl EIO, dev_kfree_skb_any (Some s) m)))"

definition dma_alloc_coherent :: "kernel \<Rightarrow> 'd ap_eth_priv \<Rightarrow> (u64 \<times> u64) option \<times> 'd ap_eth_priv" where
  "dma_alloc_coherent K m = (k_coherent K (klog m), call (Dma_alloc_coherent (k_coherent K (klog m))) m)"

text \<open>A failed \<open>dma_alloc_coherent\<close> leaves the DMA address of the caller as it was.\<close>

definition ap_eth_alloc_rings :: "'d eth_hw \<Rightarrow> kernel \<Rightarrow> 'd ap_eth_priv \<Rightarrow> (eth_error + unit) \<times> 'd ap_eth_priv" where
  "ap_eth_alloc_rings H K m =
    (let (t, m) = dma_alloc_coherent K m;
         m = m\<lparr>tx_ring := map_option fst t, tx_ring_dma := (case t of None \<Rightarrow> tx_ring_dma m | Some x \<Rightarrow> snd x)\<rparr>;
         (r, m) = dma_alloc_coherent K m;
         m = m\<lparr>rx_ring := map_option fst r, rx_ring_dma := (case r of None \<Rightarrow> rx_ring_dma m | Some x \<Rightarrow> snd x)\<rparr>
     in if tx_ring m = None \<or> rx_ring m = None \<or> \<not> ap_eth_dma_addr_valid (tx_ring_dma m) 32 \<or>
           \<not> ap_eth_dma_addr_valid (rx_ring_dma m) 32
        then (Inl ENOMEM, ap_eth_free_rings m)
        else
          let m = call (Ring_zero Tx) (m\<lparr>hw := ring_zero H Tx (hw m)\<rparr>);
              m = call (Ring_zero Rx) (m\<lparr>hw := ring_zero H Rx (hw m)\<rparr>);
              m = m\<lparr>tx_prod := 0, tx_clean := 0, rx_cons := 0, rx_prod := of_nat (AP_ETH_RING_SIZE - 1)\<rparr>
          in case post_rx_buffers H K [0..<AP_ETH_RING_SIZE - 1] m of
               (Inr _, m) \<Rightarrow> (Inr (), m)
             | (Inl e, m) \<Rightarrow> (Inl e, ap_eth_free_rings m))"

section \<open>Starting and stopping the hardware\<close>

text \<open>
  The kernel's \<open>readl_poll_timeout\<close>: polls until the condition holds or the time is over, and then once more.
  \<open>n\<close> is the number of polls that fit.
\<close>

fun readl_poll_zero :: "'d eth_hw \<Rightarrow> u32 \<Rightarrow> nat \<Rightarrow> 'd ap_eth_priv \<Rightarrow> bool \<times> 'd ap_eth_priv" where
  "readl_poll_zero H reg 0 m = (let (v, m) = ap_eth_readl H reg m in (v = 0, m))"
| "readl_poll_zero H reg (Suc n) m =
    (let (v, m) = ap_eth_readl H reg m in if v = 0 then (True, m) else readl_poll_zero H reg n m)"

definition ap_eth_wait_idle :: "'d eth_hw \<Rightarrow> kernel \<Rightarrow> 'd ap_eth_priv \<Rightarrow> bool \<times> 'd ap_eth_priv" where
  "ap_eth_wait_idle H K m = readl_poll_zero H AP_ETH_REG_STATUS (k_polls K (klog m)) m"

definition ap_eth_hw_stop :: "'d eth_hw \<Rightarrow> kernel \<Rightarrow> 'd ap_eth_priv \<Rightarrow> (eth_error + unit) \<times> 'd ap_eth_priv" where
  "ap_eth_hw_stop H K m =
    (let m = ap_eth_writel H AP_ETH_REG_IRQ_ENABLE 0 m;
         m = ap_eth_writel H AP_ETH_REG_CTRL AP_ETH_CTRL_TX_ENABLE m;
         (idle, m) = ap_eth_wait_idle H K m
     in if \<not> idle then (Inl ETIMEDOUT, m)
        else (Inr (), ap_eth_writel H AP_ETH_REG_CTRL 0 m))"

definition ap_eth_hw_program :: "'d eth_hw \<Rightarrow> 'd ap_eth_priv \<Rightarrow> 'd ap_eth_priv" where
  "ap_eth_hw_program H m =
    (let tx_base = tx_ring_dma m; rx_base = rx_ring_dma m;
         m = call Dma_wmb m;
         m = ap_eth_writel H AP_ETH_REG_TX_BASE_LO (ucast tx_base) m;
         m = ap_eth_writel H AP_ETH_REG_TX_BASE_HI (ucast (drop_bit 32 tx_base)) m;
         m = ap_eth_writel H AP_ETH_REG_TX_COUNT (of_nat AP_ETH_RING_SIZE) m;
         m = ap_eth_writel H AP_ETH_REG_TX_TAIL 0 m;
         m = ap_eth_writel H AP_ETH_REG_RX_BASE_LO (ucast rx_base) m;
         m = ap_eth_writel H AP_ETH_REG_RX_BASE_HI (ucast (drop_bit 32 rx_base)) m;
         m = ap_eth_writel H AP_ETH_REG_RX_COUNT (of_nat AP_ETH_RING_SIZE) m;
         m = ap_eth_writel H AP_ETH_REG_RX_TAIL (ucast (rx_prod m)) m;
         m = ap_eth_writel H AP_ETH_REG_IRQ_STATUS AP_ETH_IRQ_ALL m;
         m = ap_eth_writel H AP_ETH_REG_CTRL (AP_ETH_CTRL_TX_ENABLE OR AP_ETH_CTRL_RX_ENABLE) m;
         m = ap_eth_writel H AP_ETH_REG_IRQ_ENABLE AP_ETH_IRQ_ALL m
     in ap_eth_writel H AP_ETH_REG_RX_DOORBELL 1 m)"

section \<open>Transmit\<close>

definition netif_stop_queue :: "'d ap_eth_priv \<Rightarrow> 'd ap_eth_priv" where
  "netif_stop_queue m = call Netif_stop_queue (m\<lparr>queue_stopped := True\<rparr>)"

definition netif_start_queue :: "'d ap_eth_priv \<Rightarrow> 'd ap_eth_priv" where
  "netif_start_queue m = call Netif_start_queue (m\<lparr>queue_stopped := False\<rparr>)"

definition netif_wake_queue :: "'d ap_eth_priv \<Rightarrow> 'd ap_eth_priv" where
  "netif_wake_queue m = call Netif_wake_queue (m\<lparr>queue_stopped := False\<rparr>)"

text \<open>The loop body of \<open>ap_eth_tx_reclaim\<close> for a finished descriptor with buffer \<open>s\<close>.\<close>

definition tx_reclaim_slot :: "'d eth_hw \<Rightarrow> u64 \<Rightarrow> u64 \<Rightarrow> 'd ap_eth_priv \<Rightarrow> 'd ap_eth_priv" where
  "tx_reclaim_slot H status s m =
    (let index = unat (tx_clean m);
         m = (if status AND AP_ETH_DESC_ERROR \<noteq> 0 then m\<lparr>ndev_stats := stats_add tx_errors_update 1 (ndev_stats m)\<rparr>
              else m\<lparr>ndev_stats := stats_add tx_packets_update 1 (ndev_stats m)\<rparr>);
         m = m\<lparr>ndev_stats := stats_add tx_bytes_update (ucast (skb_len (skbuff m s))) (ndev_stats m)\<rparr>;
         m = call (Dma_unmap_single (tx_dma m ! index) (skb_len (skbuff m s)) DMA_TO_DEVICE) m;
         m = dev_kfree_skb_any (Some s) m;
         m = kfree (tx_bounce_alloc m ! index) m;
         m = m\<lparr>tx_skb := (tx_skb m)[index := None], tx_bounce_alloc := (tx_bounce_alloc m)[index := None],
               tx_bounce := (tx_bounce m)[index := None]\<rparr>;
         m = status_write H Tx index 0 m
     in m\<lparr>tx_clean := ap_eth_ring_next (tx_clean m)\<rparr>)"

partial_function (option) tx_reclaim_loop :: "'d eth_hw \<Rightarrow> u16 \<Rightarrow> 'd ap_eth_priv \<Rightarrow> 'd ap_eth_priv option" where
  "tx_reclaim_loop H head m =
    (if tx_clean m = head then Some m
     else
       let (status, m) = desc_read H Tx (unat (tx_clean m)) m
       in if status AND AP_ETH_DESC_DONE = 0 then Some m
          else case tx_skb m ! unat (tx_clean m) of
                 None \<Rightarrow> None
               | Some s \<Rightarrow> tx_reclaim_loop H head (tx_reclaim_slot H status s m))"

definition ap_eth_tx_reclaim :: "'d eth_hw \<Rightarrow> 'd ap_eth_priv \<Rightarrow> 'd ap_eth_priv option" where
  "ap_eth_tx_reclaim H m =
    (let (head, m) = ap_eth_readl H AP_ETH_REG_TX_HEAD m
     in map_option (\<lambda>m.
          if queue_stopped m then
            let (head, m) = ap_eth_readl H AP_ETH_REG_TX_HEAD m
            in if \<not> ap_eth_tx_ring_full m (ucast head) then netif_wake_queue m else m
          else m)
        (tx_reclaim_loop H (ucast head) m))"

datatype netdev_tx = NETDEV_TX_OK | NETDEV_TX_BUSY

definition tx_drop :: "u64 \<Rightarrow> 'd ap_eth_priv \<Rightarrow> 'd ap_eth_priv" where
  "tx_drop s m = dev_kfree_skb_any (Some s) (m\<lparr>ndev_stats := stats_add tx_dropped_update 1 (ndev_stats m)\<rparr>)"

text \<open>The descriptor of \<open>tx_prod\<close> is filled and handed to the hardware.\<close>

definition tx_publish :: "'d eth_hw \<Rightarrow> u64 \<Rightarrow> u64 \<Rightarrow> u64 \<Rightarrow> 'd ap_eth_priv \<Rightarrow> 'd ap_eth_priv" where
  "tx_publish H s allocation dma m =
    (let index = unat (tx_prod m);
         m = m\<lparr>tx_skb := (tx_skb m)[index := Some s],
               tx_bounce_alloc := (tx_bounce_alloc m)[index := Some allocation],
               tx_bounce := (tx_bounce m)[index := Some (PTR_ALIGN8 allocation)],
               tx_dma := (tx_dma m)[index := dma]\<rparr>;
         m = ap_eth_desc_set H Tx index dma (ucast (skb_len (skbuff m s))) m;
         m = m\<lparr>tx_prod := ap_eth_ring_next (tx_prod m)\<rparr>;
         m = call Dma_wmb m;
         m = ap_eth_writel H AP_ETH_REG_TX_TAIL (ucast (tx_prod m)) m
     in ap_eth_writel H AP_ETH_REG_TX_DOORBELL 1 m)"

definition tx_enqueue :: "'d eth_hw \<Rightarrow> u64 \<Rightarrow> u64 \<Rightarrow> u64 \<Rightarrow> 'd ap_eth_priv \<Rightarrow> (netdev_tx \<times> 'd ap_eth_priv) option" where
  "tx_enqueue H s allocation dma m =
    map_option (\<lambda>m.
      let (head, m) = ap_eth_readl H AP_ETH_REG_TX_HEAD m
      in if ap_eth_tx_ring_full m (ucast head) then
           let m = call Spin_unlock_irqrestore (netif_stop_queue m);
               m = call (Dma_unmap_single dma (skb_len (skbuff m s)) DMA_TO_DEVICE) m
           in (NETDEV_TX_BUSY, kfree (Some allocation) m)
         else
           let m = tx_publish H s allocation dma m;
               (head, m) = ap_eth_readl H AP_ETH_REG_TX_HEAD m;
               m = (if ap_eth_tx_ring_full m (ucast head) then netif_stop_queue m else m)
           in (NETDEV_TX_OK, call Spin_unlock_irqrestore m))
      (ap_eth_tx_reclaim H (call Spin_lock_irqsave m))"

definition ap_eth_start_xmit ::
    "'d eth_hw \<Rightarrow> kernel \<Rightarrow> u64 \<Rightarrow> 'd ap_eth_priv \<Rightarrow> (netdev_tx \<times> 'd ap_eth_priv) option" where
  "ap_eth_start_xmit H K s m =
    (if skb_nonlinear (skbuff m s) \<or> AP_ETH_TX_MAX_BYTES < skb_len (skbuff m s)
     then Some (NETDEV_TX_OK, tx_drop s m)
     else
       let allocation = k_kmalloc K (klog m);
           m = call (Kmalloc (skb_len (skbuff m s) + 7) allocation) m
       in case allocation of
            None \<Rightarrow> Some (NETDEV_TX_BUSY, m)
          | Some a \<Rightarrow>
              let m = call (Memcpy (PTR_ALIGN8 a) (skb_data (skbuff m s)) (skb_len (skbuff m s))) m;
                  (dma, m) = dma_map_single K (PTR_ALIGN8 a) (skb_len (skbuff m s)) DMA_TO_DEVICE m
              in case dma of
                   None \<Rightarrow> Some (NETDEV_TX_OK, tx_drop s (kfree (Some a) m))
                 | Some dma \<Rightarrow>
                     if \<not> ap_eth_dma_addr_valid dma 8
                     then Some (NETDEV_TX_OK, tx_drop s (kfree (Some a)
                            (call (Dma_unmap_single dma (skb_len (skbuff m s)) DMA_TO_DEVICE) m)))
                     else tx_enqueue H s a dma m)"

section \<open>Receive\<close>

text \<open>What becomes of a finished frame and its slot's buffer: the buffer to post next, if there is one.\<close>

definition rx_take :: "kernel \<Rightarrow> u64 \<Rightarrow> 'd ap_eth_priv \<Rightarrow> (u64 option \<times> 'd ap_eth_priv) option" where
  "rx_take K status m =
    (let index = unat (rx_cons m);
         skb = rx_skb m ! index;
         m = m\<lparr>rx_skb := (rx_skb m)[index := None]\<rparr>;
         m = call (Dma_unmap_single (rx_dma m ! index) AP_ETH_RX_BUF_BYTES DMA_FROM_DEVICE) m;
         length = ucast (drop_bit AP_ETH_DESC_ACTUAL_SHIFT (status AND AP_ETH_DESC_ACTUAL_MASK)) :: u16;
         (replacement, m) = ap_eth_alloc_rx_skb K m
     in if status AND AP_ETH_DESC_ERROR \<noteq> 0 \<or> ucast AP_ETH_RX_BUF_BYTES < length then
          Some (replacement, dev_kfree_skb_any skb (m\<lparr>ndev_stats := stats_add rx_errors_update 1 (ndev_stats m)\<rparr>))
        else case skb of
          None \<Rightarrow> None
        | Some s \<Rightarrow>
            (case replacement of
               Some r \<Rightarrow>
                 let m = skb_put s (ucast length) m;
                     m = m\<lparr>ndev_stats := stats_add rx_bytes_update (ucast length) (stats_add rx_packets_update 1 (ndev_stats m))\<rparr>
                 in Some (Some r, call (Napi_gro_receive s (skb_len (skbuff m s))) m)
             | None \<Rightarrow> Some (Some s, skb_trim s 0 (m\<lparr>ndev_stats := stats_add rx_dropped_update 1 (ndev_stats m)\<rparr>))))"

text \<open>The slot \<open>rx_prod\<close> gets the buffer; \<open>False\<close> when there is none, and reception is switched off.\<close>

definition rx_refill :: "'d eth_hw \<Rightarrow> kernel \<Rightarrow> u64 option \<Rightarrow> 'd ap_eth_priv \<Rightarrow> bool \<times> 'd ap_eth_priv" where
  "rx_refill H K replacement m =
    (let (replacement, m) = (case replacement of None \<Rightarrow> ap_eth_alloc_rx_skb K m | Some r \<Rightarrow> (Some r, m));
         (posted, m) = (case replacement of None \<Rightarrow> (False, m)
                        | Some r \<Rightarrow> ap_eth_post_rx_buffer H K (unat (rx_prod m)) r m)
     in if posted then
          (True, m\<lparr>rx_cons := ap_eth_ring_next (rx_cons m), rx_prod := ap_eth_ring_next (rx_prod m)\<rparr>)
        else
          let m = dev_kfree_skb_any replacement (m\<lparr>ndev_stats := stats_add rx_dropped_update 1 (ndev_stats m)\<rparr>);
              m = m\<lparr>rx_cons := ap_eth_ring_next (rx_cons m)\<rparr>
          in (False, ap_eth_writel H AP_ETH_REG_CTRL 0 m))"

text \<open>The loop of \<open>ap_eth_rx_poll\<close> with \<open>n\<close> frames of the budget left.\<close>

fun rx_poll_loop ::
    "'d eth_hw \<Rightarrow> kernel \<Rightarrow> nat \<Rightarrow> nat \<times> bool \<Rightarrow> 'd ap_eth_priv \<Rightarrow> (nat \<times> bool \<times> 'd ap_eth_priv) option" where
  "rx_poll_loop H K 0 (work_done, tail_advanced) m = Some (work_done, tail_advanced, m)"
| "rx_poll_loop H K (Suc n) (work_done, tail_advanced) m =
    (let (status, m) = desc_read H Rx (unat (rx_cons m)) m
     in if status AND AP_ETH_DESC_DONE = 0 then Some (work_done, tail_advanced, m)
        else Option.bind (rx_take K status m) (\<lambda>(replacement, m).
          case rx_refill H K replacement m of
            (True, m) \<Rightarrow> rx_poll_loop H K n (Suc work_done, True) m
          | (False, m) \<Rightarrow> Some (Suc work_done, tail_advanced, m)))"

definition ap_eth_rx_poll :: "'d eth_hw \<Rightarrow> kernel \<Rightarrow> nat \<Rightarrow> 'd ap_eth_priv \<Rightarrow> (nat \<times> 'd ap_eth_priv) option" where
  "ap_eth_rx_poll H K budget m =
    map_option (\<lambda>(work_done, tail_advanced, m).
      if tail_advanced then
        let m = call Dma_wmb m;
            m = ap_eth_writel H AP_ETH_REG_RX_TAIL (ucast (rx_prod m)) m
        in (work_done, ap_eth_writel H AP_ETH_REG_RX_DOORBELL 1 m)
      else (work_done, m)) (rx_poll_loop H K budget (0, False) m)"

definition ap_eth_napi_poll :: "'d eth_hw \<Rightarrow> kernel \<Rightarrow> nat \<Rightarrow> 'd ap_eth_priv \<Rightarrow> (nat \<times> 'd ap_eth_priv) option" where
  "ap_eth_napi_poll H K budget m =
    Option.bind (ap_eth_tx_reclaim H (call Spin_lock_irqsave m)) (\<lambda>m.
    map_option (\<lambda>(work_done, m).
      if work_done < budget then
        let completed = k_napi_complete K (klog m);
            m = call (Napi_complete_done completed) m
        in if completed then
             let m = ap_eth_writel H AP_ETH_REG_IRQ_ENABLE AP_ETH_IRQ_ALL m;
                 (cause, m) = ap_eth_readl H AP_ETH_REG_IRQ_STATUS m
             in if cause \<noteq> 0 then (work_done, call Napi_schedule (ap_eth_writel H AP_ETH_REG_IRQ_ENABLE 0 m))
                else (work_done, m)
           else (work_done, m)
      else (work_done, m)) (ap_eth_rx_poll H K budget (call Spin_unlock_irqrestore m)))"

datatype irqreturn = IRQ_NONE | IRQ_HANDLED

definition ap_eth_irq :: "'d eth_hw \<Rightarrow> 'd ap_eth_priv \<Rightarrow> irqreturn \<times> 'd ap_eth_priv" where
  "ap_eth_irq H m =
    (let (cause, m) = ap_eth_readl H AP_ETH_REG_IRQ_STATUS m
     in if cause = 0 then (IRQ_NONE, m)
        else
          let m = ap_eth_writel H AP_ETH_REG_IRQ_STATUS cause m;
              m = ap_eth_writel H AP_ETH_REG_IRQ_ENABLE 0 m
          in (IRQ_HANDLED, call Napi_schedule m))"

section \<open>Opening and closing\<close>

definition ap_eth_open :: "'d eth_hw \<Rightarrow> kernel \<Rightarrow> 'd ap_eth_priv \<Rightarrow> (eth_error + unit) \<times> 'd ap_eth_priv" where
  "ap_eth_open H K m =
    (if tx_ring m \<noteq> None \<or> rx_ring m \<noteq> None then (Inl EBUSY, m)
     else
       case ap_eth_hw_stop H K (call Napi_enable m) of
         (Inl e, m) \<Rightarrow> (Inl e, call Napi_disable m)
       | (Inr _, m) \<Rightarrow>
          (case ap_eth_alloc_rings H K (ap_eth_writel H AP_ETH_REG_CTRL AP_ETH_CTRL_RING_RESET m) of
             (Inl e, m) \<Rightarrow> (Inl e, call Napi_disable m)
           | (Inr _, m) \<Rightarrow> (Inr (), netif_start_queue (call Netif_carrier_on (ap_eth_hw_program H m)))))"

definition ap_eth_stop :: "'d eth_hw \<Rightarrow> kernel \<Rightarrow> 'd ap_eth_priv \<Rightarrow> 'd ap_eth_priv" where
  "ap_eth_stop H K m =
    (case ap_eth_hw_stop H K (netif_stop_queue m) of
       (Inl _, m) \<Rightarrow> call Netif_carrier_off (call Napi_disable m)
     | (Inr _, m) \<Rightarrow>
        let m = ap_eth_writel H AP_ETH_REG_CTRL AP_ETH_CTRL_RING_RESET (call Napi_disable m)
        in call Netif_carrier_off (ap_eth_free_rings m))"

definition ap_eth_read_mac_address :: "'d eth_hw \<Rightarrow> 'd ap_eth_priv \<Rightarrow> u8 list \<times> 'd ap_eth_priv" where
  "ap_eth_read_mac_address H m =
    (let (low, m) = ap_eth_readl H AP_ETH_REG_MAC_LO m;
         (high, m) = ap_eth_readl H AP_ETH_REG_MAC_HI m
     in ([ucast (drop_bit 8 high), ucast high, ucast (drop_bit 24 low), ucast (drop_bit 16 low),
          ucast (drop_bit 8 low), ucast low], m))"

section \<open>Probe and remove\<close>

text \<open>\<open>alloc_etherdev\<close> gives the private structure filled with zeros.\<close>

definition priv_zeroed :: "'d ap_eth_priv \<Rightarrow> 'd ap_eth_priv" where
  "priv_zeroed m = m\<lparr>tx_ring := None, tx_ring_dma := 0, rx_ring := None, rx_ring_dma := 0,
     tx_skb := replicate AP_ETH_RING_SIZE None, tx_bounce_alloc := replicate AP_ETH_RING_SIZE None,
     tx_bounce := replicate AP_ETH_RING_SIZE None, tx_dma := replicate AP_ETH_RING_SIZE 0,
     rx_skb := replicate AP_ETH_RING_SIZE None, rx_dma := replicate AP_ETH_RING_SIZE 0,
     tx_prod := 0, tx_clean := 0, rx_cons := 0, rx_prod := 0,
     ndev_stats := \<lparr>tx_packets = 0, tx_errors = 0, tx_bytes = 0, tx_dropped = 0,
       rx_packets = 0, rx_bytes = 0, rx_errors = 0, rx_dropped = 0\<rparr>\<rparr>"

abbreviation (input) ENOMEM_ret :: int where "ENOMEM_ret \<equiv> - 12"

definition probe_mac :: "'d eth_hw \<Rightarrow> kernel \<Rightarrow> 'd ap_eth_priv \<Rightarrow> u8 list \<times> 'd ap_eth_priv" where
  "probe_mac H K m =
    (let (mac, m) = (case k_device_mac K (klog m) of Some mac \<Rightarrow> (mac, m) | None \<Rightarrow> ap_eth_read_mac_address H m)
     in (if k_valid_ether_addr K mac then mac else k_random_addr K (klog m), m))"

text \<open>From \<open>netif_napi_add\<close> on.\<close>

definition probe_register :: "'d eth_hw \<Rightarrow> kernel \<Rightarrow> 'd ap_eth_priv \<Rightarrow> int \<times> 'd ap_eth_priv" where
  "probe_register H K m =
    (let m = call Netif_napi_add m;
         m = ap_eth_writel H AP_ETH_REG_IRQ_ENABLE 0 m;
         m = ap_eth_writel H AP_ETH_REG_CTRL AP_ETH_CTRL_RING_RESET m;
         (mac, m) = probe_mac H K m;
         m = call (Eth_hw_addr_set mac) m;
         ret = k_request_irq K (klog m); m = call (Request_irq ret) m
     in if ret \<noteq> 0 then (ret, call Free_netdev (call Netif_napi_del m))
        else
          let ret = k_register K (klog m); m = call (Register_netdev ret) m
          in if ret \<noteq> 0 then (ret, call Free_netdev (call Netif_napi_del (call Free_irq m)))
             else (0, m))"

definition ap_eth_probe :: "'d eth_hw \<Rightarrow> kernel \<Rightarrow> 'd ap_eth_priv \<Rightarrow> int \<times> 'd ap_eth_priv" where
  "ap_eth_probe H K m =
    (let got = k_etherdev K (klog m); m = call (Alloc_etherdev got) m
     in if \<not> got then (ENOMEM_ret, m)
        else
          let m = priv_zeroed m; err = k_ioremap K (klog m); m = call (Ioremap (err = 0)) m
          in if err \<noteq> 0 then (err, call Free_netdev m)
          else
            let irq = k_irq K (klog m); m = call (Platform_get_irq irq) m
            in if irq < 0 then (irq, call Free_netdev m)
            else
              let ret = k_dma_mask K (klog m); m = call (Dma_set_mask ret) m
              in if ret \<noteq> 0 then (ret, call Free_netdev m)
              else probe_register H K m)"

definition ap_eth_remove :: "'d ap_eth_priv \<Rightarrow> int \<times> 'd ap_eth_priv" where
  "ap_eth_remove m = (0, call Free_netdev (call Netif_napi_del (call Free_irq (call Unregister_netdev m))))"

section \<open>What the driver owns\<close>

text \<open>
  Read off the history: each call takes a resource or gives one back. Giving back what is not owned (a
  double free, an unmap that does not match its map) has no result. Whether NAPI is enabled is no resource
  here: \<open>napi_enable\<close> and \<open>napi_disable\<close> are in the history, and nothing is said of their balance.
\<close>

datatype resource =
  Skb u64 | Mem u64 | Mapping u64 u32 dma_dir | Coherent u64 u64 | Netdev | Napi | Irq | Registered

fun takes :: "kcall \<Rightarrow> resource option" where
  "takes (Netdev_alloc_skb (Some s)) = Some (Skb s)"
| "takes (Skb_handed s) = Some (Skb s)"
| "takes (Kmalloc _ (Some a)) = Some (Mem a)"
| "takes (Dma_map_single _ n dir (Some dma)) = Some (Mapping dma n dir)"
| "takes (Dma_alloc_coherent (Some (p, dma))) = Some (Coherent p dma)"
| "takes (Alloc_etherdev True) = Some Netdev"
| "takes Netif_napi_add = Some Napi"
| "takes (Request_irq ret) = (if ret = 0 then Some Irq else None)"
| "takes (Register_netdev ret) = (if ret = 0 then Some Registered else None)"
| "takes _ = None"

fun gives :: "kcall \<Rightarrow> resource option" where
  "gives (Dev_kfree_skb_any s) = Some (Skb s)"
| "gives (Skb_returned s) = Some (Skb s)"
| "gives (Napi_gro_receive s _) = Some (Skb s)"
| "gives (Kfree a) = Some (Mem a)"
| "gives (Dma_unmap_single dma n dir) = Some (Mapping dma n dir)"
| "gives (Dma_free_coherent p dma) = Some (Coherent p dma)"
| "gives Free_netdev = Some Netdev"
| "gives Netif_napi_del = Some Napi"
| "gives Free_irq = Some Irq"
| "gives Unregister_netdev = Some Registered"
| "gives _ = None"

definition owned_step :: "resource multiset option \<Rightarrow> kcall \<Rightarrow> resource multiset option" where
  "owned_step r c =
    (case r of None \<Rightarrow> None
     | Some A \<Rightarrow>
        (case gives c of
           Some x \<Rightarrow> if x \<in># A then Some (A - {#x#}) else None
         | None \<Rightarrow> (case takes c of Some x \<Rightarrow> Some (add_mset x A) | None \<Rightarrow> Some A)))"

definition owned :: "kcall list \<Rightarrow> resource multiset option" where
  "owned log = foldl owned_step (Some {#}) log"

lemma owned_Nil [simp]: "owned [] = Some {#}" by (simp add: owned_def)

lemma owned_snoc: "owned (log @ [c]) = owned_step (owned log) c" by (simp add: owned_def)

lemma owned_take: "owned log = Some A \<Longrightarrow> gives c = None \<Longrightarrow> takes c = Some x \<Longrightarrow> owned (log @ [c]) = Some (add_mset x A)"
  by (simp add: owned_snoc owned_step_def)

lemma owned_give: "owned log = Some (add_mset x A) \<Longrightarrow> gives c = Some x \<Longrightarrow> owned (log @ [c]) = Some A"
  by (simp add: owned_snoc owned_step_def)

lemma owned_other: "owned log = Some A \<Longrightarrow> gives c = None \<Longrightarrow> takes c = None \<Longrightarrow> owned (log @ [c]) = Some A"
  by (simp add: owned_snoc owned_step_def)

end
