(* ===== verification/Eth_Owned.thy ===== *)
theory Eth_Owned
  imports Linux_Eth
begin

text \<open>
  Every resource the Ethernet driver takes is in one of its slots or in the hands of the function that
  runs: the accounting that the proofs of its operations share.
\<close>

section \<open>What the slots hold\<close>

definition tx_slot_res :: "'d ap_eth_priv \<Rightarrow> nat \<Rightarrow> resource multiset" where
  "tx_slot_res m i =
    (case tx_skb m ! i of None \<Rightarrow> {#}
     | Some s \<Rightarrow> {#Skb s, Mapping (tx_dma m ! i) (skb_len (skbuff m s)) DMA_TO_DEVICE#}) +
    (case tx_bounce_alloc m ! i of None \<Rightarrow> {#} | Some a \<Rightarrow> {#Mem a#})"

definition rx_slot_res :: "'d ap_eth_priv \<Rightarrow> nat \<Rightarrow> resource multiset" where
  "rx_slot_res m i =
    (case rx_skb m ! i of None \<Rightarrow> {#}
     | Some s \<Rightarrow> {#Skb s, Mapping (rx_dma m ! i) AP_ETH_RX_BUF_BYTES DMA_FROM_DEVICE#})"

definition ring_res :: "'d ap_eth_priv \<Rightarrow> resource multiset" where
  "ring_res m =
    (case tx_ring m of None \<Rightarrow> {#} | Some p \<Rightarrow> {#Coherent p (tx_ring_dma m)#}) +
    (case rx_ring m of None \<Rightarrow> {#} | Some p \<Rightarrow> {#Coherent p (rx_ring_dma m)#})"

definition priv_res :: "'d ap_eth_priv \<Rightarrow> resource multiset" where
  "priv_res m = (\<Sum>i<64. tx_slot_res m i) + (\<Sum>i<64. rx_slot_res m i) + ring_res m"

definition arrays_ok :: "'d ap_eth_priv \<Rightarrow> bool" where
  "arrays_ok m \<longleftrightarrow> length (tx_skb m) = 64 \<and> length (tx_bounce_alloc m) = 64 \<and> length (tx_bounce m) = 64 \<and>
     length (tx_dma m) = 64 \<and> length (rx_skb m) = 64 \<and> length (rx_dma m) = 64"

text \<open>
  \<open>acct R m\<close>: the driver owns exactly what its slots hold and the resources \<open>R\<close>, no buffer twice, and
  nothing was ever given back that was not owned.
\<close>

definition acct :: "resource multiset \<Rightarrow> 'd ap_eth_priv \<Rightarrow> bool" where
  "acct R m \<longleftrightarrow> arrays_ok m \<and> owned (klog m) = Some (priv_res m + R) \<and>
     (\<forall>s. count (priv_res m + R) (Skb s) \<le> 1)"

lemma priv_res_cong:
  assumes "tx_skb m' = tx_skb m" "tx_bounce_alloc m' = tx_bounce_alloc m" "tx_dma m' = tx_dma m"
    "rx_skb m' = rx_skb m" "rx_dma m' = rx_dma m" "tx_ring m' = tx_ring m" "tx_ring_dma m' = tx_ring_dma m"
    "rx_ring m' = rx_ring m" "rx_ring_dma m' = rx_ring_dma m" "skbuff m' = skbuff m"
  shows "priv_res m' = priv_res m"
  unfolding priv_res_def tx_slot_res_def rx_slot_res_def ring_res_def assms ..

text \<open>Steps that touch neither a slot nor the history.\<close>

definition same_slots :: "'d ap_eth_priv \<Rightarrow> 'd ap_eth_priv \<Rightarrow> bool" where
  "same_slots m m' \<longleftrightarrow> tx_skb m' = tx_skb m \<and> tx_bounce_alloc m' = tx_bounce_alloc m \<and> tx_dma m' = tx_dma m \<and>
    length (tx_bounce m') = length (tx_bounce m) \<and>
    rx_skb m' = rx_skb m \<and> rx_dma m' = rx_dma m \<and> tx_ring m' = tx_ring m \<and> tx_ring_dma m' = tx_ring_dma m \<and>
    rx_ring m' = rx_ring m \<and> rx_ring_dma m' = rx_ring_dma m \<and> skbuff m' = skbuff m"

lemma same_slots_res: "same_slots m m' \<Longrightarrow> priv_res m' = priv_res m \<and> (arrays_ok m' \<longleftrightarrow> arrays_ok m)"
  by (auto simp: same_slots_def arrays_ok_def intro!: priv_res_cong)

lemma acct_same: "acct R m \<Longrightarrow> same_slots m m' \<Longrightarrow> klog m' = klog m \<Longrightarrow> acct R m'"
  using same_slots_res [of m m'] by (simp add: acct_def)

lemma call_slots: "same_slots m (call c m)"
  by (simp add: same_slots_def call_def)

lemma call_res [simp]: "priv_res (call c m) = priv_res m" "arrays_ok (call c m) = arrays_ok m"
  using same_slots_res [OF call_slots [of m c]] by simp_all

lemma acct_other: "acct R m \<Longrightarrow> gives c = None \<Longrightarrow> takes c = None \<Longrightarrow> acct R (call c m)"
  by (simp add: acct_def) (simp add: call_def owned_other)

lemma acct_give:
  assumes "acct (add_mset x R) m" "gives c = Some x"
  shows "acct R (call c m)"
proof -
  have "owned (klog m) = Some (add_mset x (priv_res m + R))" using assms(1) by (simp add: acct_def)
  from owned_give [OF this assms(2)] have "owned (klog (call c m)) = Some (priv_res (call c m) + R)"
    by (simp add: call_def [of c m]) (metis call_res(1) call_def)
  moreover have "count (priv_res m + R) y \<le> count (priv_res m + add_mset x R) y" for y by simp
  ultimately show ?thesis using assms(1) unfolding acct_def call_res by (metis (no_types) order.trans)
qed

lemma acct_take:
  assumes "acct R m" "gives c = None" "takes c = Some x" "\<And>s. x = Skb s \<Longrightarrow> Skb s \<notin># priv_res m + R"
  shows "acct (add_mset x R) (call c m)"
  using assms by (auto simp: acct_def not_in_iff) (simp add: call_def owned_take)

section \<open>Moving a resource between a slot and the running function\<close>

lemma acct_move:
  assumes "acct R m" "priv_res m' + R' = priv_res m + R" "klog m' = klog m" "arrays_ok m'"
  shows "acct R' m'"
  using assms by (simp add: acct_def)

lemma sum_upd:
  fixes f g :: "nat \<Rightarrow> 'a multiset"
  assumes "i < n" "\<And>j. j < n \<Longrightarrow> j \<noteq> i \<Longrightarrow> f j = g j"
  shows "(\<Sum>j<n. f j) + g i = (\<Sum>j<n. g j) + f i"
proof -
  have "(\<Sum>j<n. h j) = h i + (\<Sum>j\<in>{..<n} - {i}. h j)" for h :: "nat \<Rightarrow> 'a multiset"
    using assms(1) by (simp add: sum.remove)
  moreover have "(\<Sum>j\<in>{..<n} - {i}. f j) = (\<Sum>j\<in>{..<n} - {i}. g j)" using assms(2) by (intro sum.cong) auto
  ultimately show ?thesis by (metis add.commute add.left_commute)
qed

lemma mset_shift:
  fixes A :: "'a multiset"
  assumes "A + x = B + y"
  shows "T + A + G + x = T + B + G + y" "A + T + G + x = B + T + G + y"
  using assms by (metis add.assoc add.commute)+

lemma slot_in_res: "i < 64 \<Longrightarrow> tx_slot_res m i \<subseteq># priv_res m" "i < 64 \<Longrightarrow> rx_slot_res m i \<subseteq># priv_res m"
proof -
  have "h i \<subseteq># (\<Sum>j<64. h j)" if "i < 64" for h :: "nat \<Rightarrow> resource multiset"
    using that by (simp add: sum.remove [of "{..<64}" i])
  then show "i < 64 \<Longrightarrow> tx_slot_res m i \<subseteq># priv_res m" "i < 64 \<Longrightarrow> rx_slot_res m i \<subseteq># priv_res m"
    unfolding priv_res_def by (metis subset_mset.add_increasing2 subset_mset.add_increasing subset_mset.zero_le)+
qed

lemma not_in_tx:
  assumes "Skb s \<notin># priv_res m" "i < 64"
  shows "tx_skb m ! i \<noteq> Some s"
proof
  assume "tx_skb m ! i = Some s"
  then have "Skb s \<in># tx_slot_res m i" by (simp add: tx_slot_res_def)
  then show False using mset_subset_eqD [OF slot_in_res(1) [OF assms(2)]] assms(1) by blast
qed

lemma skbuff_res:
  assumes "Skb s \<notin># priv_res m"
  shows "priv_res (m\<lparr>skbuff := (skbuff m)(s := x)\<rparr>) = priv_res m"
proof -
  have "tx_slot_res (m\<lparr>skbuff := (skbuff m)(s := x)\<rparr>) i = tx_slot_res m i" if "i < 64" for i
    using not_in_tx [OF assms that] by (cases "tx_skb m ! i") (auto simp: tx_slot_res_def)
  then have "(\<Sum>i<64. tx_slot_res (m\<lparr>skbuff := (skbuff m)(s := x)\<rparr>) i) = (\<Sum>i<64. tx_slot_res m i)"
    by (intro sum.cong) auto
  moreover have "rx_slot_res (m\<lparr>skbuff := (skbuff m)(s := x)\<rparr>) = rx_slot_res m"
    "ring_res (m\<lparr>skbuff := (skbuff m)(s := x)\<rparr>) = ring_res m"
    by (simp_all add: rx_slot_res_def ring_res_def fun_eq_iff cong: option.case_cong)
  ultimately show ?thesis unfolding priv_res_def by simp
qed

lemma acct_skb_out: "acct R m \<Longrightarrow> Skb s \<in># R \<Longrightarrow> Skb s \<notin># priv_res m"
proof
  assume "acct R m" "Skb s \<in># R" "Skb s \<in># priv_res m"
  then have "0 < count R (Skb s)" "0 < count (priv_res m) (Skb s)" "count (priv_res m) (Skb s) + count R (Skb s) \<le> 1"
    by (simp_all add: acct_def count_greater_zero_iff)
  then show False by linarith
qed

lemma acct_skbuff:
  assumes "acct R m" "Skb s \<notin># priv_res m"
  shows "acct R (m\<lparr>skbuff := (skbuff m)(s := x)\<rparr>)"
proof -
  have "arrays_ok (m\<lparr>skbuff := (skbuff m)(s := x)\<rparr>)" using assms(1) by (simp add: acct_def arrays_ok_def)
  then show ?thesis using assms(1) by (simp add: acct_def skbuff_res [OF assms(2)])
qed

lemma rx_upd_res:
  assumes "i < 64" "arrays_ok m"
  shows "priv_res (m\<lparr>rx_skb := (rx_skb m)[i := p], rx_dma := (rx_dma m)[i := a]\<rparr>) + rx_slot_res m i =
    priv_res m + (case p of None \<Rightarrow> {#} | Some s \<Rightarrow> {#Skb s, Mapping a AP_ETH_RX_BUF_BYTES DMA_FROM_DEVICE#})"
proof -
  let ?m = "m\<lparr>rx_skb := (rx_skb m)[i := p], rx_dma := (rx_dma m)[i := a]\<rparr>"
  have e1: "(\<Sum>j<64. rx_slot_res ?m j) + rx_slot_res m i = (\<Sum>j<64. rx_slot_res m j) + rx_slot_res ?m i"
    by (rule sum_upd [OF assms(1)]) (simp add: rx_slot_res_def cong: option.case_cong)
  have e2: "rx_slot_res ?m i = (case p of None \<Rightarrow> {#} | Some s \<Rightarrow> {#Skb s, Mapping a AP_ETH_RX_BUF_BYTES DMA_FROM_DEVICE#})"
    using assms by (simp add: rx_slot_res_def arrays_ok_def cong: option.case_cong)
  note eq = e1 [unfolded e2]
  have frame: "tx_slot_res ?m = tx_slot_res m" "ring_res ?m = ring_res m"
    by (simp_all add: tx_slot_res_def ring_res_def fun_eq_iff cong: option.case_cong)
  show ?thesis unfolding priv_res_def frame by (rule mset_shift(1) [OF eq])
qed

lemma tx_upd_res:
  assumes "i < 64" "arrays_ok m"
  shows "priv_res (m\<lparr>tx_skb := (tx_skb m)[i := p], tx_bounce_alloc := (tx_bounce_alloc m)[i := b],
      tx_bounce := c, tx_dma := (tx_dma m)[i := a]\<rparr>) + tx_slot_res m i =
    priv_res m +
      ((case p of None \<Rightarrow> {#} | Some s \<Rightarrow> {#Skb s, Mapping a (skb_len (skbuff m s)) DMA_TO_DEVICE#}) +
       (case b of None \<Rightarrow> {#} | Some a \<Rightarrow> {#Mem a#}))"
proof -
  let ?m = "m\<lparr>tx_skb := (tx_skb m)[i := p], tx_bounce_alloc := (tx_bounce_alloc m)[i := b],
      tx_bounce := c, tx_dma := (tx_dma m)[i := a]\<rparr>"
  have e1: "(\<Sum>j<64. tx_slot_res ?m j) + tx_slot_res m i = (\<Sum>j<64. tx_slot_res m j) + tx_slot_res ?m i"
    by (rule sum_upd [OF assms(1)]) (simp add: tx_slot_res_def cong: option.case_cong)
  have e2: "tx_slot_res ?m i = (case p of None \<Rightarrow> {#} | Some s \<Rightarrow> {#Skb s, Mapping a (skb_len (skbuff m s)) DMA_TO_DEVICE#}) +
       (case b of None \<Rightarrow> {#} | Some a \<Rightarrow> {#Mem a#})"
    using assms by (simp add: tx_slot_res_def arrays_ok_def cong: option.case_cong)
  note eq = e1 [unfolded e2]
  have frame: "rx_slot_res ?m = rx_slot_res m" "ring_res ?m = ring_res m"
    by (simp_all add: rx_slot_res_def ring_res_def fun_eq_iff cong: option.case_cong)
  show ?thesis unfolding priv_res_def frame by (rule mset_shift(2) [OF eq])
qed

section \<open>What an operation leaves alone\<close>

definition tx_same :: "'d ap_eth_priv \<Rightarrow> 'd ap_eth_priv \<Rightarrow> bool" where
  "tx_same m m' \<longleftrightarrow> tx_skb m' = tx_skb m \<and> tx_bounce_alloc m' = tx_bounce_alloc m \<and> tx_dma m' = tx_dma m \<and>
    tx_prod m' = tx_prod m \<and> tx_clean m' = tx_clean m"

definition rx_same :: "'d ap_eth_priv \<Rightarrow> 'd ap_eth_priv \<Rightarrow> bool" where
  "rx_same m m' \<longleftrightarrow> rx_skb m' = rx_skb m \<and> rx_cons m' = rx_cons m \<and> rx_prod m' = rx_prod m"

definition rings_same :: "'d ap_eth_priv \<Rightarrow> 'd ap_eth_priv \<Rightarrow> bool" where
  "rings_same m m' \<longleftrightarrow> tx_ring m' = tx_ring m \<and> rx_ring m' = rx_ring m \<and>
    tx_ring_dma m' = tx_ring_dma m \<and> rx_ring_dma m' = rx_ring_dma m"

lemmas same_defs = tx_same_def rx_same_def rings_same_def

lemma call_fields [simp]:
  "hw (call c m) = hw m" "klog (call c m) = klog m @ [c]" "skbuff (call c m) = skbuff m" "queue_stopped (call c m) = queue_stopped m"
  "tx_ring (call c m) = tx_ring m" "tx_ring_dma (call c m) = tx_ring_dma m"
  "rx_ring (call c m) = rx_ring m" "rx_ring_dma (call c m) = rx_ring_dma m"
  "tx_skb (call c m) = tx_skb m" "tx_bounce_alloc (call c m) = tx_bounce_alloc m" "tx_dma (call c m) = tx_dma m"
  "rx_skb (call c m) = rx_skb m" "rx_dma (call c m) = rx_dma m"
  "tx_prod (call c m) = tx_prod m" "tx_clean (call c m) = tx_clean m" "rx_cons (call c m) = rx_cons m" "rx_prod (call c m) = rx_prod m"
  "ndev_stats (call c m) = ndev_stats m"
  by (simp_all add: call_def)

lemma acct_upd [simp]:
  "acct R (m\<lparr>hw := d\<rparr>) = acct R m" "acct R (m\<lparr>queue_stopped := b\<rparr>) = acct R m"
  "acct R (m\<lparr>tx_prod := i\<rparr>) = acct R m" "acct R (m\<lparr>tx_clean := i\<rparr>) = acct R m"
  "acct R (m\<lparr>rx_cons := i\<rparr>) = acct R m" "acct R (m\<lparr>rx_prod := i\<rparr>) = acct R m"
  "acct R (m\<lparr>ndev_stats := st\<rparr>) = acct R m"
proof -
  have k: "klog (m\<lparr>hw := d\<rparr>) = klog m" "klog (m\<lparr>queue_stopped := b\<rparr>) = klog m" "klog (m\<lparr>tx_prod := i\<rparr>) = klog m"
    "klog (m\<lparr>tx_clean := i\<rparr>) = klog m" "klog (m\<lparr>rx_cons := i\<rparr>) = klog m" "klog (m\<lparr>rx_prod := i\<rparr>) = klog m"
    "klog (m\<lparr>ndev_stats := st\<rparr>) = klog m" by simp_all
  have s: "same_slots m (m\<lparr>hw := d\<rparr>)" "same_slots m (m\<lparr>queue_stopped := b\<rparr>)" "same_slots m (m\<lparr>tx_prod := i\<rparr>)"
    "same_slots m (m\<lparr>tx_clean := i\<rparr>)" "same_slots m (m\<lparr>rx_cons := i\<rparr>)" "same_slots m (m\<lparr>rx_prod := i\<rparr>)"
    "same_slots m (m\<lparr>ndev_stats := st\<rparr>)" by (simp_all add: same_slots_def)
  show "acct R (m\<lparr>hw := d\<rparr>) = acct R m" "acct R (m\<lparr>queue_stopped := b\<rparr>) = acct R m"
    "acct R (m\<lparr>tx_prod := i\<rparr>) = acct R m" "acct R (m\<lparr>tx_clean := i\<rparr>) = acct R m"
    "acct R (m\<lparr>rx_cons := i\<rparr>) = acct R m" "acct R (m\<lparr>rx_prod := i\<rparr>) = acct R m"
    "acct R (m\<lparr>ndev_stats := st\<rparr>) = acct R m"
    unfolding acct_def k using s [THEN same_slots_res] by simp_all
qed

lemma acct_read: "acct R m \<Longrightarrow> acct R (snd (ap_eth_readl H reg m))"
  by (simp add: ap_eth_readl_def acct_other split: prod.split)

lemma acct_write: "acct R m \<Longrightarrow> acct R (ap_eth_writel H reg v m)"
  by (simp add: ap_eth_writel_def acct_other)

section \<open>Receive buffers\<close>

text \<open>The frames given to the stack, in order, with their lengths.\<close>

fun received1 :: "kcall \<Rightarrow> (u64 \<times> u32) list" where
  "received1 (Napi_gro_receive s n) = [(s, n)]"
| "received1 _ = []"

definition received :: "kcall list \<Rightarrow> (u64 \<times> u32) list" where
  "received log = concat (map received1 log)"

lemma received_simps [simp]:
  "received (log @ log') = received log @ received log'" "received [] = []" "received (c # log) = received1 c @ received log"
  by (simp_all add: received_def)

text \<open>The kernel never hands out a buffer the driver still owns.\<close>

definition fresh_skbs :: "kernel \<Rightarrow> bool" where
  "fresh_skbs K \<longleftrightarrow> (\<forall>log A. owned log = Some A \<longrightarrow>
     (case k_handed K log of None \<Rightarrow> True | Some (s, _) \<Rightarrow> Skb s \<notin># A) \<and> (case k_alloc_skb K log of None \<Rightarrow> True | Some (s, _) \<Rightarrow> Skb s \<notin># A))"

definition hold_skb :: "u64 option \<Rightarrow> resource multiset \<Rightarrow> resource multiset" where
  "hold_skb p R = (case p of None \<Rightarrow> R | Some s \<Rightarrow> add_mset (Skb s) R)"

lemma hold_skb_simps [simp]: "hold_skb None R = R" "hold_skb (Some s) R = add_mset (Skb s) R"
  by (simp_all add: hold_skb_def)

lemma alloc_rx_acct:
  assumes "acct R m" "fresh_skbs K" "ap_eth_alloc_rx_skb K m = (p, m')"
  shows "acct (hold_skb p R) m'" "tx_same m m'" "rx_same m m'" "rings_same m m'" "hw m' = hw m" "rx_dma m' = rx_dma m"
    "\<And>q. p \<noteq> Some q \<Longrightarrow> skbuff m' q = skbuff m q" "\<And>q. p = Some q \<Longrightarrow> skb_len (skbuff m' q) = 0"
    "ndev_stats m' = ndev_stats m" "received (klog m') = received (klog m)"
proof -
  have "acct (hold_skb p R) m' \<and> tx_same m m' \<and> rx_same m m' \<and> rings_same m m' \<and> hw m' = hw m \<and> rx_dma m' = rx_dma m \<and>
    (\<forall>q. p \<noteq> Some q \<longrightarrow> skbuff m' q = skbuff m q) \<and> (\<forall>q. p = Some q \<longrightarrow> skb_len (skbuff m' q) = 0) \<and> ndev_stats m' = ndev_stats m \<and>
    received (klog m') = received (klog m)"
  proof (cases "k_alloc_skb K (klog m)")
    case None
    then show ?thesis using assms(1,3)
      by (auto simp: ap_eth_alloc_rx_skb_def netdev_alloc_skb_def acct_other same_defs)
  next
    case (Some x)
    then obtain s data where x: "k_alloc_skb K (klog m) = Some (s, data)" by (cases x) auto
    have new: "Skb s \<notin># priv_res m + R" using assms(1,2) x by (force simp: acct_def fresh_skbs_def)
    let ?m1 = "m\<lparr>skbuff := (skbuff m)(s := \<lparr>skb_data = data, skb_len = 0, skb_nonlinear = False\<rparr>)\<rparr>"
    let ?m2 = "call (Netdev_alloc_skb (Some s)) ?m1"
    have "Skb s \<notin># priv_res m" using new by simp
    then have "acct R ?m1" "priv_res ?m1 = priv_res m" using acct_skbuff [OF assms(1)] skbuff_res by blast+
    then have "acct (add_mset (Skb s) R) ?m2" using new by (intro acct_take) auto
    then have "acct (add_mset (Skb s) R) (?m2\<lparr>skbuff := (skbuff ?m2)(s := x)\<rparr>)" for x
      by (intro acct_skbuff acct_skb_out) auto
    then show ?thesis using assms(3) x
      by (auto simp: ap_eth_alloc_rx_skb_def netdev_alloc_skb_def skb_reserve_def same_defs Let_def split: if_splits)
  qed
  then show "acct (hold_skb p R) m'" "tx_same m m'" "rx_same m m'" "rings_same m m'" "hw m' = hw m" "rx_dma m' = rx_dma m"
    "\<And>q. p \<noteq> Some q \<Longrightarrow> skbuff m' q = skbuff m q" "\<And>q. p = Some q \<Longrightarrow> skb_len (skbuff m' q) = 0"
    "ndev_stats m' = ndev_stats m" "received (klog m') = received (klog m)" by blast+
qed

lemma arrays_acct: "acct R m \<Longrightarrow> arrays_ok m" by (simp add: acct_def)

lemma rx_insert:
  assumes "acct (add_mset (Mapping a AP_ETH_RX_BUF_BYTES DMA_FROM_DEVICE) (add_mset (Skb s) R)) m" "i < 64" "rx_skb m ! i = None"
  shows "acct R (m\<lparr>rx_skb := (rx_skb m)[i := Some s], rx_dma := (rx_dma m)[i := a]\<rparr>)"
proof (rule acct_move [OF assms(1)])
  show "arrays_ok (m\<lparr>rx_skb := (rx_skb m)[i := Some s], rx_dma := (rx_dma m)[i := a]\<rparr>)"
    using arrays_acct [OF assms(1)] by (simp add: arrays_ok_def)
  show "priv_res (m\<lparr>rx_skb := (rx_skb m)[i := Some s], rx_dma := (rx_dma m)[i := a]\<rparr>) + R =
      priv_res m + add_mset (Mapping a AP_ETH_RX_BUF_BYTES DMA_FROM_DEVICE) (add_mset (Skb s) R)"
    using rx_upd_res [OF assms(2) arrays_acct [OF assms(1)], where p = "Some s" and a = a] assms(3) by (simp add: rx_slot_res_def)
qed simp

lemma rx_remove:
  assumes "acct R m" "i < 64" "rx_skb m ! i = Some s"
  shows "acct (add_mset (Mapping (rx_dma m ! i) AP_ETH_RX_BUF_BYTES DMA_FROM_DEVICE) (add_mset (Skb s) R)) (m\<lparr>rx_skb := (rx_skb m)[i := None]\<rparr>)"
proof (rule acct_move [OF assms(1)])
  show "arrays_ok (m\<lparr>rx_skb := (rx_skb m)[i := None]\<rparr>)" using arrays_acct [OF assms(1)] by (simp add: arrays_ok_def)
  have "priv_res (m\<lparr>rx_skb := (rx_skb m)[i := None]\<rparr>) + rx_slot_res m i = priv_res m"
    using rx_upd_res [OF assms(2) arrays_acct [OF assms(1)], where p = None and a = "rx_dma m ! i"] by simp
  then show "priv_res (m\<lparr>rx_skb := (rx_skb m)[i := None]\<rparr>) +
      add_mset (Mapping (rx_dma m ! i) AP_ETH_RX_BUF_BYTES DMA_FROM_DEVICE) (add_mset (Skb s) R) = priv_res m + R"
    by (auto simp: assms(3) rx_slot_res_def)
qed simp

lemma post_rx_acct:
  assumes "acct (add_mset (Skb s) R) m" "i < 64" "rx_skb m ! i = None"
    and "ap_eth_post_rx_buffer H K i s m = (ok, m')"
  shows "acct (if ok then R else add_mset (Skb s) R) m'" "tx_same m m'" "rings_same m m'"
    "rx_skb m' = (if ok then (rx_skb m)[i := Some s] else rx_skb m)" "rx_cons m' = rx_cons m" "rx_prod m' = rx_prod m"
    "\<exists>dma. hw m' = (if ok then desc_wr H Rx i (ap_eth_desc_of dma 2048) (hw m) else hw m)"
    "skbuff m' = skbuff m" "ndev_stats m' = ndev_stats m" "received (klog m') = received (klog m)"
proof -
  let ?n = "AP_ETH_RX_BUF_BYTES"
  have "acct (if ok then R else add_mset (Skb s) R) m' \<and> tx_same m m' \<and> rings_same m m' \<and>
    rx_skb m' = (if ok then (rx_skb m)[i := Some s] else rx_skb m) \<and> rx_cons m' = rx_cons m \<and> rx_prod m' = rx_prod m \<and>
    (\<exists>dma. hw m' = (if ok then desc_wr H Rx i (ap_eth_desc_of dma 2048) (hw m) else hw m)) \<and>
    skbuff m' = skbuff m \<and> ndev_stats m' = ndev_stats m \<and> received (klog m') = received (klog m)"
  proof (cases "k_dma_map K DMA_FROM_DEVICE (klog m)")
    case None
    then show ?thesis using assms(1,4)
      by (auto simp: ap_eth_post_rx_buffer_def dma_map_single_def acct_other same_defs)
  next
    case (Some dma)
    let ?m1 = "call (Dma_map_single (skb_data (skbuff m s)) ?n DMA_FROM_DEVICE (Some dma)) m"
    have m1: "acct (add_mset (Mapping dma ?n DMA_FROM_DEVICE) (add_mset (Skb s) R)) ?m1"
      by (rule acct_take [OF assms(1)]) auto
    show ?thesis
    proof (cases "ap_eth_dma_addr_valid dma 8")
      case False
      have "acct (add_mset (Skb s) R) (call (Dma_unmap_single dma ?n DMA_FROM_DEVICE) ?m1)" by (rule acct_give [OF m1]) simp
      then show ?thesis using assms(4) Some False
        by (auto simp: ap_eth_post_rx_buffer_def dma_map_single_def same_defs)
    next
      case True
      have "acct R (?m1\<lparr>rx_skb := (rx_skb ?m1)[i := Some s], rx_dma := (rx_dma ?m1)[i := dma]\<rparr>)"
        using rx_insert [OF m1 assms(2)] assms(3) by simp
      then show ?thesis using assms(4) Some True
        by (auto simp: ap_eth_post_rx_buffer_def dma_map_single_def same_defs ap_eth_desc_set_def acct_other)
    qed
  qed
  then show "acct (if ok then R else add_mset (Skb s) R) m'" "tx_same m m'" "rings_same m m'"
    "rx_skb m' = (if ok then (rx_skb m)[i := Some s] else rx_skb m)" "rx_cons m' = rx_cons m" "rx_prod m' = rx_prod m"
    "\<exists>dma. hw m' = (if ok then desc_wr H Rx i (ap_eth_desc_of dma 2048) (hw m) else hw m)"
    "skbuff m' = skbuff m" "ndev_stats m' = ndev_stats m" "received (klog m') = received (klog m)" by blast+
qed

section \<open>Transmit slots\<close>

text \<open>A slot is filled or emptied as a whole, or its two parts are.\<close>

lemma tx_insert:
  assumes "acct (add_mset (Mapping a (skb_len (skbuff m s)) DMA_TO_DEVICE) (add_mset (Mem b) (add_mset (Skb s) R))) m"
    "i < 64" "tx_skb m ! i = None" "tx_bounce_alloc m ! i = None"
  shows "acct R (m\<lparr>tx_skb := (tx_skb m)[i := Some s], tx_bounce_alloc := (tx_bounce_alloc m)[i := Some b],
    tx_bounce := (tx_bounce m)[i := c], tx_dma := (tx_dma m)[i := a]\<rparr>)"
proof (rule acct_move [OF assms(1)])
  let ?m = "m\<lparr>tx_skb := (tx_skb m)[i := Some s], tx_bounce_alloc := (tx_bounce_alloc m)[i := Some b],
    tx_bounce := (tx_bounce m)[i := c], tx_dma := (tx_dma m)[i := a]\<rparr>"
  show "arrays_ok ?m" using arrays_acct [OF assms(1)] by (simp add: arrays_ok_def)
  have "priv_res ?m = priv_res m + {#Skb s, Mapping a (skb_len (skbuff m s)) DMA_TO_DEVICE, Mem b#}"
    using tx_upd_res [OF assms(2) arrays_acct [OF assms(1)], where p = "Some s" and b = "Some b" and c = "(tx_bounce m)[i := c]" and a = a]
    by (simp add: assms(3,4) tx_slot_res_def)
  then show "priv_res ?m + R = priv_res m + add_mset (Mapping a (skb_len (skbuff m s)) DMA_TO_DEVICE) (add_mset (Mem b) (add_mset (Skb s) R))"
    by (simp add: add_mset_commute)
qed simp

lemma tx_remove:
  assumes "acct R m" "i < 64"
  shows "acct (tx_slot_res m i + R) (m\<lparr>tx_skb := (tx_skb m)[i := None], tx_bounce_alloc := (tx_bounce_alloc m)[i := None],
    tx_bounce := (tx_bounce m)[i := None]\<rparr>)"
proof (rule acct_move [OF assms(1)])
  let ?m = "m\<lparr>tx_skb := (tx_skb m)[i := None], tx_bounce_alloc := (tx_bounce_alloc m)[i := None],
    tx_bounce := (tx_bounce m)[i := None]\<rparr>"
  show "arrays_ok ?m" using arrays_acct [OF assms(1)] by (simp add: arrays_ok_def)
  have "priv_res ?m + tx_slot_res m i = priv_res m"
    using tx_upd_res [OF assms(2) arrays_acct [OF assms(1)], where p = None and b = None and c = "(tx_bounce m)[i := None]" and a = "tx_dma m ! i"]
    by simp
  then show "priv_res ?m + (tx_slot_res m i + R) = priv_res m + R" by (simp only: add.assoc [symmetric])
qed simp

text \<open>The history does not see in which order the driver's fields and its calls change.\<close>

lemma call_upd:
  "call c (m\<lparr>tx_skb := x\<rparr>) = (call c m)\<lparr>tx_skb := x\<rparr>" "call c (m\<lparr>tx_bounce_alloc := x\<rparr>) = (call c m)\<lparr>tx_bounce_alloc := x\<rparr>"
  "call c (m\<lparr>tx_bounce := y\<rparr>) = (call c m)\<lparr>tx_bounce := y\<rparr>" "call c (m\<lparr>rx_skb := x\<rparr>) = (call c m)\<lparr>rx_skb := x\<rparr>"
  "call c (m\<lparr>tx_ring := z\<rparr>) = (call c m)\<lparr>tx_ring := z\<rparr>" "call c (m\<lparr>rx_ring := z\<rparr>) = (call c m)\<lparr>rx_ring := z\<rparr>"
  by (simp_all add: call_def)

lemma reclaim_slot_acct:
  assumes "acct R m" "unat (tx_clean m) < 64" "tx_skb m ! unat (tx_clean m) = Some s" "tx_bounce_alloc m ! unat (tx_clean m) = Some b"
    and m'_def: "m' = tx_reclaim_slot H status s m"
  shows "acct R m'" "tx_skb m' = (tx_skb m)[unat (tx_clean m) := None]"
    "tx_bounce_alloc m' = (tx_bounce_alloc m)[unat (tx_clean m) := None]" "tx_prod m' = tx_prod m"
    "tx_clean m' = ap_eth_ring_next (tx_clean m)" "rx_same m m'" "rings_same m m'"
    "hw m' = status_wr H Tx (unat (tx_clean m)) 0 (hw m)" "queue_stopped m' = queue_stopped m" "skbuff m' = skbuff m"
proof -
  let ?i = "unat (tx_clean m)"
  let ?dma = "Mapping (tx_dma m ! ?i) (skb_len (skbuff m s)) DMA_TO_DEVICE"
  let ?m = "m\<lparr>tx_skb := (tx_skb m)[?i := None], tx_bounce_alloc := (tx_bounce_alloc m)[?i := None], tx_bounce := (tx_bounce m)[?i := None]\<rparr>"
  let ?gone = "\<lambda>m'. call (Kfree b) (call (Dev_kfree_skb_any s) (call (Dma_unmap_single (tx_dma m ! ?i) (skb_len (skbuff m s)) DMA_TO_DEVICE) m'))"
  obtain st where m': "m' = (call (Status_write Tx ?i 0) ((?gone (?m\<lparr>ndev_stats := st\<rparr>))\<lparr>hw := status_wr H Tx ?i 0 (hw m)\<rparr>))
      \<lparr>tx_clean := ap_eth_ring_next (tx_clean m)\<rparr>"
  proof
    show "m' = (call (Status_write Tx ?i 0) ((?gone (?m\<lparr>ndev_stats := ndev_stats m'\<rparr>))\<lparr>hw := status_wr H Tx ?i 0 (hw m)\<rparr>))
      \<lparr>tx_clean := ap_eth_ring_next (tx_clean m)\<rparr>"
      unfolding m'_def tx_reclaim_slot_def
      by (rule ap_eth_priv.equality)
        (simp_all add: assms(4) dev_kfree_skb_any_def kfree_def status_write_def call_def Let_def)
  qed
  have "acct (tx_slot_res m ?i + R) ?m" by (rule tx_remove [OF assms(1,2)])
  then have "acct (add_mset ?dma (add_mset (Skb s) (add_mset (Mem b) R))) ?m"
    by (simp add: tx_slot_res_def assms(3,4) add_mset_commute)
  then have "acct (add_mset ?dma (add_mset (Skb s) (add_mset (Mem b) R))) (?m\<lparr>ndev_stats := st\<rparr>)" by simp
  from acct_give [OF acct_give [OF acct_give [OF this]], of "Dma_unmap_single (tx_dma m ! ?i) (skb_len (skbuff m s)) DMA_TO_DEVICE"
      "Dev_kfree_skb_any s" "Kfree b"]
  have "acct R (?gone (?m\<lparr>ndev_stats := st\<rparr>))" by simp
  then show "acct R m'" unfolding m' by (simp only: acct_upd acct_other gives.simps takes.simps)
  show "tx_skb m' = (tx_skb m)[?i := None]"
    "tx_bounce_alloc m' = (tx_bounce_alloc m)[?i := None]" "tx_prod m' = tx_prod m"
    "tx_clean m' = ap_eth_ring_next (tx_clean m)" "rx_same m m'" "rings_same m m'"
    "hw m' = status_wr H Tx ?i 0 (hw m)" "queue_stopped m' = queue_stopped m" "skbuff m' = skbuff m"
    unfolding m' by (simp_all add: same_defs)
qed

section \<open>Freeing the rings\<close>

lemma tx_remove_skb:
  assumes "acct R m" "i < 64" "tx_skb m ! i = Some s"
  shows "acct (add_mset (Mapping (tx_dma m ! i) (skb_len (skbuff m s)) DMA_TO_DEVICE) (add_mset (Skb s) R))
    (m\<lparr>tx_skb := (tx_skb m)[i := None]\<rparr>)"
proof (rule acct_move [OF assms(1)])
  show "arrays_ok (m\<lparr>tx_skb := (tx_skb m)[i := None]\<rparr>)" using arrays_acct [OF assms(1)] by (simp add: arrays_ok_def)
  have "priv_res (m\<lparr>tx_skb := (tx_skb m)[i := None]\<rparr>) + tx_slot_res m i =
      priv_res m + (case tx_bounce_alloc m ! i of None \<Rightarrow> {#} | Some a \<Rightarrow> {#Mem a#})"
    using tx_upd_res [OF assms(2) arrays_acct [OF assms(1)], where p = None and b = "tx_bounce_alloc m ! i"
      and c = "tx_bounce m" and a = "tx_dma m ! i"] by simp
  then show "priv_res (m\<lparr>tx_skb := (tx_skb m)[i := None]\<rparr>) +
      add_mset (Mapping (tx_dma m ! i) (skb_len (skbuff m s)) DMA_TO_DEVICE) (add_mset (Skb s) R) = priv_res m + R"
    by (auto simp: assms(3) tx_slot_res_def add_mset_commute)
qed simp

lemma mset_cancel_mid: "X + (A + B) = P + A \<Longrightarrow> X + B = (P :: 'a multiset)"
  by (simp add: add.commute add.left_commute)

lemma tx_remove_mem:
  assumes "acct R m" "i < 64"
  shows "acct ((case tx_bounce_alloc m ! i of None \<Rightarrow> {#} | Some a \<Rightarrow> {#Mem a#}) + R)
    (m\<lparr>tx_bounce_alloc := (tx_bounce_alloc m)[i := None], tx_bounce := (tx_bounce m)[i := None]\<rparr>)"
proof (rule acct_move [OF assms(1)])
  let ?m = "m\<lparr>tx_bounce_alloc := (tx_bounce_alloc m)[i := None], tx_bounce := (tx_bounce m)[i := None]\<rparr>"
  let ?b = "case tx_bounce_alloc m ! i of None \<Rightarrow> {#} | Some a \<Rightarrow> {#Mem a#}"
  show "arrays_ok ?m" using arrays_acct [OF assms(1)] by (simp add: arrays_ok_def)
  have "priv_res ?m + tx_slot_res m i = priv_res m +
      (case tx_skb m ! i of None \<Rightarrow> {#} | Some s \<Rightarrow> {#Skb s, Mapping (tx_dma m ! i) (skb_len (skbuff m s)) DMA_TO_DEVICE#})"
    using tx_upd_res [OF assms(2) arrays_acct [OF assms(1)], where p = "tx_skb m ! i" and b = None
      and c = "(tx_bounce m)[i := None]" and a = "tx_dma m ! i"] by simp
  then have "priv_res ?m + ?b = priv_res m" unfolding tx_slot_res_def by (rule mset_cancel_mid)
  then show "priv_res ?m + (?b + R) = priv_res m + R" by (simp only: add.assoc [symmetric])
qed simp

lemma free_tx_slot_acct:
  assumes "acct R m" "i < 64" and m': "m' = free_tx_slot i m"
  shows "acct R m'" "tx_skb m' = (tx_skb m)[i := None]" "tx_bounce_alloc m' = (tx_bounce_alloc m)[i := None]"
    "rx_same m m'" "rings_same m m'" "hw m' = hw m"
proof -
  define m1 where "m1 = (case tx_skb m ! i of None \<Rightarrow> m
     | Some s \<Rightarrow> (call (Dev_kfree_skb_any s) (call (Dma_unmap_single (tx_dma m ! i) (skb_len (skbuff m s)) DMA_TO_DEVICE) m))
        \<lparr>tx_skb := (tx_skb m)[i := None]\<rparr>)"
  have len: "length (tx_skb m) = 64" using assms(1) by (simp add: acct_def arrays_ok_def)
  have m1: "acct R m1 \<and> tx_skb m1 = (tx_skb m)[i := None] \<and> tx_bounce_alloc m1 = tx_bounce_alloc m \<and> rx_same m m1 \<and>
    rings_same m m1 \<and> hw m1 = hw m"
  proof (cases "tx_skb m ! i")
    case None
    then show ?thesis using assms(1) list_update_id [of "tx_skb m" i] by (simp add: m1_def same_defs)
  next
    case (Some s)
    from acct_give [OF acct_give [OF tx_remove_skb [OF assms(1,2) Some]],
        of "Dma_unmap_single (tx_dma m ! i) (skb_len (skbuff m s)) DMA_TO_DEVICE" "Dev_kfree_skb_any s"]
    show ?thesis by (simp add: m1_def Some call_upd same_defs)
  qed
  let ?m2 = "m1\<lparr>tx_bounce_alloc := (tx_bounce_alloc m1)[i := None], tx_bounce := (tx_bounce m1)[i := None]\<rparr>"
  have eq: "m' = (case tx_bounce_alloc m1 ! i of None \<Rightarrow> ?m2 | Some a \<Rightarrow> call (Kfree a) ?m2)"
    unfolding m' free_tx_slot_def dev_kfree_skb_any_def option.case m1_def [symmetric] Let_def
    by (cases "tx_bounce_alloc m1 ! i") (simp_all add: kfree_def call_def)
  show "acct R m'" using tx_remove_mem [OF conjunct1 [OF m1] assms(2)]
    unfolding eq by (cases "tx_bounce_alloc m1 ! i") (auto intro: acct_give)
  show "tx_skb m' = (tx_skb m)[i := None]" "tx_bounce_alloc m' = (tx_bounce_alloc m)[i := None]"
    "rx_same m m'" "rings_same m m'" "hw m' = hw m"
    using m1 unfolding eq by (cases "tx_bounce_alloc m1 ! i"; simp add: same_defs)+
qed

lemma free_rx_slot_acct:
  assumes "acct R m" "i < 64" and m': "m' = free_rx_slot i m"
  shows "acct R m'" "rx_skb m' = (rx_skb m)[i := None]" "tx_same m m'" "rings_same m m'" "hw m' = hw m"
proof -
  have "acct R m' \<and> rx_skb m' = (rx_skb m)[i := None] \<and> tx_same m m' \<and> rings_same m m' \<and> hw m' = hw m"
  proof (cases "rx_skb m ! i")
    case None
    then show ?thesis using assms(1) list_update_id [of "rx_skb m" i] by (simp add: m' free_rx_slot_def same_defs)
  next
    case (Some s)
    from acct_give [OF acct_give [OF rx_remove [OF assms(1,2) Some]],
        of "Dma_unmap_single (rx_dma m ! i) 2048 DMA_FROM_DEVICE" "Dev_kfree_skb_any s"]
    show ?thesis by (simp add: m' free_rx_slot_def dev_kfree_skb_any_def Some call_upd same_defs)
  qed
  then show "acct R m'" "rx_skb m' = (rx_skb m)[i := None]" "tx_same m m'" "rings_same m m'" "hw m' = hw m" by blast+
qed

lemma free_slots_acct:
  assumes "acct R m" "set is \<subseteq> {..<64}"
  shows "acct R (fold (\<lambda>i m. free_rx_slot i (free_tx_slot i m)) is m) \<and>
    rings_same m (fold (\<lambda>i m. free_rx_slot i (free_tx_slot i m)) is m) \<and>
    hw (fold (\<lambda>i m. free_rx_slot i (free_tx_slot i m)) is m) = hw m \<and>
    (\<forall>j<64. let m' = fold (\<lambda>i m. free_rx_slot i (free_tx_slot i m)) is m in
      (tx_skb m' ! j = (if j \<in> set is then None else tx_skb m ! j)) \<and>
      (tx_bounce_alloc m' ! j = (if j \<in> set is then None else tx_bounce_alloc m ! j)) \<and>
      (rx_skb m' ! j = (if j \<in> set is then None else rx_skb m ! j)))"
  using assms
proof (induction "is" arbitrary: m)
  case Nil
  then show ?case by (simp add: same_defs)
next
  case (Cons i "is")
  let ?m1 = "free_tx_slot i m" and ?m2 = "free_rx_slot i (free_tx_slot i m)"
  have i: "i < 64" using Cons.prems(2) by simp
  note t = free_tx_slot_acct [OF Cons.prems(1) i refl]
  note r = free_rx_slot_acct [OF t(1) i refl]
  have len: "length (tx_skb m) = 64" "length (tx_bounce_alloc m) = 64" "length (rx_skb m) = 64"
    using Cons.prems(1) by (simp_all add: acct_def arrays_ok_def)
  have "tx_skb ?m2 = (tx_skb m)[i := None]" "tx_bounce_alloc ?m2 = (tx_bounce_alloc m)[i := None]"
    "rx_skb ?m2 = (rx_skb m)[i := None]" "rings_same m ?m2" "hw ?m2 = hw m"
    using t(2-6) r(2-5) by (simp_all add: same_defs)
  moreover have "set is \<subseteq> {..<64}" using Cons.prems(2) by simp
  ultimately show ?case using Cons.IH [OF r(1)] len i
    by (auto simp: Let_def nth_list_update same_defs)
qed

text \<open>A closed device holds nothing.\<close>

definition closed :: "'d ap_eth_priv \<Rightarrow> bool" where
  "closed m \<longleftrightarrow> tx_ring m = None \<and> rx_ring m = None \<and>
     (\<forall>i<64. tx_skb m ! i = None \<and> tx_bounce_alloc m ! i = None \<and> rx_skb m ! i = None)"

lemma closed_res: "closed m \<Longrightarrow> priv_res m = {#}"
  by (simp add: closed_def priv_res_def ring_res_def tx_slot_res_def rx_slot_res_def)

lemma drop_coherent:
  assumes "acct R m"
  shows "tx_ring m = Some p \<Longrightarrow> acct R ((call (Dma_free_coherent p (tx_ring_dma m)) m)\<lparr>tx_ring := None\<rparr>)"
    "rx_ring m = Some p \<Longrightarrow> acct R ((call (Dma_free_coherent p (rx_ring_dma m)) m)\<lparr>rx_ring := None\<rparr>)"
proof -
  have slots: "tx_slot_res (m\<lparr>tx_ring := x\<rparr>) = tx_slot_res m" "rx_slot_res (m\<lparr>tx_ring := x\<rparr>) = rx_slot_res m"
    "tx_slot_res (m\<lparr>rx_ring := x\<rparr>) = tx_slot_res m" "rx_slot_res (m\<lparr>rx_ring := x\<rparr>) = rx_slot_res m" for x
    by (simp_all add: tx_slot_res_def rx_slot_res_def fun_eq_iff cong: option.case_cong)
  have ok: "arrays_ok (m\<lparr>tx_ring := None\<rparr>)" "arrays_ok (m\<lparr>rx_ring := None\<rparr>)"
    using arrays_acct [OF assms] by (simp_all add: arrays_ok_def)
  show "acct R ((call (Dma_free_coherent p (tx_ring_dma m)) m)\<lparr>tx_ring := None\<rparr>)" if "tx_ring m = Some p"
  proof -
    have "acct (add_mset (Coherent p (tx_ring_dma m)) R) (m\<lparr>tx_ring := None\<rparr>)"
      by (rule acct_move [OF assms _ _ ok(1)]) (simp_all add: priv_res_def ring_res_def slots that cong: option.case_cong)
    from acct_give [OF this, of "Dma_free_coherent p (tx_ring_dma m)"] show ?thesis by (simp add: call_upd)
  qed
  show "acct R ((call (Dma_free_coherent p (rx_ring_dma m)) m)\<lparr>rx_ring := None\<rparr>)" if "rx_ring m = Some p"
  proof -
    have "acct (add_mset (Coherent p (rx_ring_dma m)) R) (m\<lparr>rx_ring := None\<rparr>)"
      by (rule acct_move [OF assms _ _ ok(2)]) (simp_all add: priv_res_def ring_res_def slots that cong: option.case_cong)
    from acct_give [OF this, of "Dma_free_coherent p (rx_ring_dma m)"] show ?thesis by (simp add: call_upd)
  qed
qed

lemma free_rings_acct:
  assumes "acct R m"
  shows "acct R (ap_eth_free_rings m)" "closed (ap_eth_free_rings m)" "hw (ap_eth_free_rings m) = hw m"
proof -
  define m1 where "m1 = fold (\<lambda>i m. free_rx_slot i (free_tx_slot i m)) [0..<64] m"
  have m1: "acct R m1" "hw m1 = hw m" "\<forall>j<64. tx_skb m1 ! j = None \<and> tx_bounce_alloc m1 ! j = None \<and> rx_skb m1 ! j = None"
    using free_slots_acct [OF assms, of "[0..<64]", folded m1_def] by (simp_all add: Let_def lessThan_atLeast0 del: upt_rec_numeral)
  define m2 where "m2 = (case tx_ring m1 of None \<Rightarrow> m1 | Some p \<Rightarrow> (call (Dma_free_coherent p (tx_ring_dma m1)) m1)\<lparr>tx_ring := None\<rparr>)"
  have m2: "acct R m2" "tx_ring m2 = None" "hw m2 = hw m"
    "\<forall>j<64. tx_skb m2 ! j = None \<and> tx_bounce_alloc m2 ! j = None \<and> rx_skb m2 ! j = None"
    using m1 drop_coherent(1) [OF m1(1)] by (cases "tx_ring m1"; simp add: m2_def)+
  have eq: "ap_eth_free_rings m = (case rx_ring m2 of None \<Rightarrow> m2 | Some p \<Rightarrow> (call (Dma_free_coherent p (rx_ring_dma m2)) m2)\<lparr>rx_ring := None\<rparr>)"
    unfolding ap_eth_free_rings_def Let_def m1_def [symmetric] m2_def [symmetric] ..
  show "acct R (ap_eth_free_rings m)" "closed (ap_eth_free_rings m)" "hw (ap_eth_free_rings m) = hw m"
    using m2 drop_coherent(2) [OF m2(1)] unfolding eq by (cases "rx_ring m2"; simp add: closed_def)+
qed

end
