(* ===== verification/Eth_Open.thy ===== *)
theory Eth_Open
  imports Eth_Owned
begin

text \<open>
  Bringing the Ethernet driver up and down: \<open>open\<close>, \<open>stop\<close>, \<open>probe\<close> and \<open>remove\<close>, with every error path,
  against the accounting of \<^verbatim>\<open>Eth_Owned\<close>. The hardware may answer anything here.
\<close>

section \<open>Allocating the rings\<close>

lemma tx_coherent:
  assumes "acct R m" "tx_ring m = None"
  shows "acct R ((call (Dma_alloc_coherent t) m)\<lparr>tx_ring := map_option fst t,
    tx_ring_dma := (case t of None \<Rightarrow> tx_ring_dma m | Some x \<Rightarrow> snd x)\<rparr>)"
proof (cases t)
  case None
  have "acct R (call (Dma_alloc_coherent None) m)" by (rule acct_other [OF assms(1)]) simp_all
  moreover have "(call c m)\<lparr>tx_ring := None, tx_ring_dma := tx_ring_dma m\<rparr> = call c m" for c
    using assms(2) by (intro ap_eth_priv.equality) (simp_all add: call_def)
  ultimately show ?thesis by (simp add: None)
next
  case (Some x)
  obtain p dma where x: "x = (p, dma)" by fastforce
  let ?m1 = "call (Dma_alloc_coherent t) m"
  have "acct (add_mset (Coherent p dma) R) ?m1" by (rule acct_take [OF assms(1)]) (simp_all add: Some x)
  then show ?thesis
  proof (rule acct_move)
    show "arrays_ok (?m1\<lparr>tx_ring := map_option fst t, tx_ring_dma := case t of None \<Rightarrow> tx_ring_dma m | Some x \<Rightarrow> snd x\<rparr>)"
      using arrays_acct [OF assms(1)] by (simp add: arrays_ok_def call_def)
    show "priv_res (?m1\<lparr>tx_ring := map_option fst t, tx_ring_dma := case t of None \<Rightarrow> tx_ring_dma m | Some x \<Rightarrow> snd x\<rparr>) + R =
        priv_res ?m1 + add_mset (Coherent p dma) R"
      using assms(2) by (simp add: Some x priv_res_def tx_slot_res_def rx_slot_res_def ring_res_def cong: option.case_cong)
  qed simp
qed

lemma rx_coherent:
  assumes "acct R m" "rx_ring m = None"
  shows "acct R ((call (Dma_alloc_coherent t) m)\<lparr>rx_ring := map_option fst t,
    rx_ring_dma := (case t of None \<Rightarrow> rx_ring_dma m | Some x \<Rightarrow> snd x)\<rparr>)"
proof (cases t)
  case None
  have "acct R (call (Dma_alloc_coherent None) m)" by (rule acct_other [OF assms(1)]) simp_all
  moreover have "(call c m)\<lparr>rx_ring := None, rx_ring_dma := rx_ring_dma m\<rparr> = call c m" for c
    using assms(2) by (intro ap_eth_priv.equality) (simp_all add: call_def)
  ultimately show ?thesis by (simp add: None)
next
  case (Some x)
  obtain p dma where x: "x = (p, dma)" by fastforce
  let ?m1 = "call (Dma_alloc_coherent t) m"
  have "acct (add_mset (Coherent p dma) R) ?m1" by (rule acct_take [OF assms(1)]) (simp_all add: Some x)
  then show ?thesis
  proof (rule acct_move)
    show "arrays_ok (?m1\<lparr>rx_ring := map_option fst t, rx_ring_dma := case t of None \<Rightarrow> rx_ring_dma m | Some x \<Rightarrow> snd x\<rparr>)"
      using arrays_acct [OF assms(1)] by (simp add: arrays_ok_def call_def)
    show "priv_res (?m1\<lparr>rx_ring := map_option fst t, rx_ring_dma := case t of None \<Rightarrow> rx_ring_dma m | Some x \<Rightarrow> snd x\<rparr>) + R =
        priv_res ?m1 + add_mset (Coherent p dma) R"
      using assms(2) by (simp add: Some x priv_res_def tx_slot_res_def rx_slot_res_def ring_res_def cong: option.case_cong)
  qed simp
qed

lemma post_rx_buffers_acct:
  assumes "fresh_skbs K"
  shows "acct R m \<Longrightarrow> distinct is \<Longrightarrow> set is \<subseteq> {..<64} \<Longrightarrow> \<forall>i\<in>set is. rx_skb m ! i = None \<Longrightarrow>
    post_rx_buffers H K is m = (r, m') \<Longrightarrow>
    acct R m' \<and> tx_same m m' \<and> rings_same m m' \<and> rx_cons m' = rx_cons m \<and> rx_prod m' = rx_prod m \<and>
    (\<forall>i<64. i \<notin> set is \<longrightarrow> rx_skb m' ! i = rx_skb m ! i) \<and> (r = Inr () \<longrightarrow> (\<forall>i\<in>set is. rx_skb m' ! i \<noteq> None))"
proof (induction "is" arbitrary: m)
  case Nil
  then show ?case by (simp add: same_defs)
next
  case (Cons i "is")
  obtain p m1 where alloc: "ap_eth_alloc_rx_skb K m = (p, m1)" by fastforce
  note a = alloc_rx_acct [OF Cons.prems(1) assms alloc]
  show ?case
  proof (cases p)
    case None
    then show ?thesis using Cons.prems(5) a alloc by (auto simp: same_defs)
  next
    case (Some s)
    obtain ok m2 where post: "ap_eth_post_rx_buffer H K i s m1 = (ok, m2)" by fastforce
    have i: "i < 64" "rx_skb m1 ! i = None" using Cons.prems(3,4) a(3) by (simp_all add: rx_same_def)
    have "acct (add_mset (Skb s) R) m1" using a(1) Some by simp
    note b = post_rx_acct [OF this i post]
    show ?thesis
    proof (cases ok)
      case False
      have "acct R (call (Dev_kfree_skb_any s) m2)" using b(1) False by (auto intro: acct_give)
      then show ?thesis using Cons.prems(5) alloc post Some False a b
        by (auto simp: dev_kfree_skb_any_def same_defs)
    next
      case True
      have "\<forall>j\<in>set is. i \<noteq> j" using Cons.prems(2) by auto
      then have "acct R m2" "distinct is" "set is \<subseteq> {..<64}" "\<forall>j\<in>set is. rx_skb m2 ! j = None"
        using b(1,4) True Cons.prems(2-4) a(3) by (auto simp: rx_same_def)
      moreover have "post_rx_buffers H K is m2 = (r, m')" using Cons.prems(5) alloc post Some True by simp
      ultimately have ih: "acct R m' \<and> tx_same m2 m' \<and> rings_same m2 m' \<and> rx_cons m' = rx_cons m2 \<and> rx_prod m' = rx_prod m2 \<and>
        (\<forall>j<64. j \<notin> set is \<longrightarrow> rx_skb m' ! j = rx_skb m2 ! j) \<and> (r = Inr () \<longrightarrow> (\<forall>j\<in>set is. rx_skb m' ! j \<noteq> None))"
        by (rule Cons.IH)
      have "length (rx_skb m1) = 64" using a(1) by (simp add: acct_def arrays_ok_def)
      then have m2: "rx_skb m2 ! i = Some s" "\<forall>j<64. j \<noteq> i \<longrightarrow> rx_skb m2 ! j = rx_skb m ! j"
        using b(4) True i(1) a(3) by (simp_all add: rx_same_def)
      have "tx_same m m'" "rings_same m m'" "rx_cons m' = rx_cons m" "rx_prod m' = rx_prod m"
        using ih a b by (auto simp: same_defs)
      moreover have "\<forall>j<64. j \<notin> set (i # is) \<longrightarrow> rx_skb m' ! j = rx_skb m ! j" using ih m2(2) by simp
      moreover have "r = Inr () \<longrightarrow> (\<forall>j\<in>set (i # is). rx_skb m' ! j \<noteq> None)"
        using ih m2(1) Cons.prems(2) i(1) by auto
      ultimately show ?thesis using ih by blast
    qed
  qed
qed

text \<open>The device after a successful open.\<close>

definition opened :: "'d ap_eth_priv \<Rightarrow> bool" where
  "opened m \<longleftrightarrow> tx_ring m \<noteq> None \<and> rx_ring m \<noteq> None \<and>
     ap_eth_dma_addr_valid (tx_ring_dma m) 32 \<and> ap_eth_dma_addr_valid (rx_ring_dma m) 32 \<and>
     tx_prod m = 0 \<and> tx_clean m = 0 \<and> rx_cons m = 0 \<and> rx_prod m = 63 \<and>
     (\<forall>i<64. tx_skb m ! i = None \<and> tx_bounce_alloc m ! i = None \<and> (rx_skb m ! i = None \<longleftrightarrow> i = 63))"

lemma alloc_rings_acct:
  assumes "acct R m" "closed m" "fresh_skbs K" "ap_eth_alloc_rings H K m = (r, m')"
  shows "acct R m'" "r = Inr () \<Longrightarrow> opened m'" "r \<noteq> Inr () \<Longrightarrow> closed m'"
    "r = Inr () \<Longrightarrow> \<exists>m4. acct R m4 \<and> (\<forall>i<64. rx_skb m4 ! i = None) \<and>
       hw m4 = ring_zero H Rx (ring_zero H Tx (hw m)) \<and> post_rx_buffers H K [0..<AP_ETH_RING_SIZE - 1] m4 = (Inr (), m')"
proof -
  define t where "t = k_coherent K (klog m)"
  define m1 where "m1 = (call (Dma_alloc_coherent t) m)\<lparr>tx_ring := map_option fst t,
    tx_ring_dma := (case t of None \<Rightarrow> tx_ring_dma (call (Dma_alloc_coherent t) m) | Some x \<Rightarrow> snd x)\<rparr>"
  define t2 where "t2 = k_coherent K (klog m1)"
  define m2 where "m2 = (call (Dma_alloc_coherent t2) m1)\<lparr>rx_ring := map_option fst t2,
    rx_ring_dma := (case t2 of None \<Rightarrow> rx_ring_dma (call (Dma_alloc_coherent t2) m1) | Some x \<Rightarrow> snd x)\<rparr>"
  have "acct R m1" unfolding m1_def call_fields by (rule tx_coherent [OF assms(1)]) (use assms(2) in \<open>simp add: closed_def\<close>)
  moreover have "rx_ring m1 = None" using assms(2) by (simp add: m1_def closed_def)
  ultimately have m2: "acct R m2" unfolding m2_def call_fields by (rule rx_coherent)
  have slots: "\<forall>i<64. tx_skb m2 ! i = None \<and> tx_bounce_alloc m2 ! i = None \<and> rx_skb m2 ! i = None"
    using assms(2) by (simp add: m1_def m2_def closed_def)
  define bad where "bad \<longleftrightarrow> tx_ring m2 = None \<or> rx_ring m2 = None \<or> \<not> ap_eth_dma_addr_valid (tx_ring_dma m2) 32 \<or>
    \<not> ap_eth_dma_addr_valid (rx_ring_dma m2) 32"
  define m3 where "m3 = (call (Ring_zero Tx) (m2\<lparr>hw := ring_zero H Tx (hw m2)\<rparr>))"
  define m4 where "m4 = (call (Ring_zero Rx) (m3\<lparr>hw := ring_zero H Rx (hw m3)\<rparr>))\<lparr>tx_prod := 0, tx_clean := 0, rx_cons := 0,
    rx_prod := of_nat (AP_ETH_RING_SIZE - 1)\<rparr>"
  obtain r5 m5 where post: "post_rx_buffers H K [0..<AP_ETH_RING_SIZE - 1] m4 = (r5, m5)" by fastforce
  have m4: "acct R m4" "\<forall>i<64. tx_skb m4 ! i = None \<and> tx_bounce_alloc m4 ! i = None \<and> rx_skb m4 ! i = None"
    using m2 slots by (simp_all add: m4_def m3_def acct_other)
  have "set [0..<AP_ETH_RING_SIZE - 1] \<subseteq> {..<64}" "\<forall>i\<in>set [0..<AP_ETH_RING_SIZE - 1]. rx_skb m4 ! i = None" using m4(2) by auto
  from post_rx_buffers_acct [OF assms(3) m4(1) distinct_upt this post]
  have m5: "acct R m5" "tx_same m4 m5" "rings_same m4 m5" "rx_cons m5 = rx_cons m4" "rx_prod m5 = rx_prod m4"
    "rx_skb m5 ! 63 = rx_skb m4 ! 63" "r5 = Inr () \<longrightarrow> (\<forall>i<63. rx_skb m5 ! i \<noteq> None)" by auto
  have eq: "ap_eth_alloc_rings H K m = (if bad then (Inl ENOMEM, ap_eth_free_rings m2)
      else case r5 of Inr _ \<Rightarrow> (Inr (), m5) | Inl e \<Rightarrow> (Inl e, ap_eth_free_rings m5))"
    unfolding ap_eth_alloc_rings_def dma_alloc_coherent_def Let_def split_conv t_def [symmetric] m1_def [symmetric]
      t2_def [symmetric] m2_def [symmetric] bad_def [symmetric] m3_def [symmetric] m4_def [symmetric]
    unfolding post prod.case by (simp split: sum.split)
  show "acct R m'" "r \<noteq> Inr () \<Longrightarrow> closed m'"
    using assms(4) m5(1) free_rings_acct [OF m2] free_rings_acct [OF m5(1)] unfolding eq by (auto split: if_splits sum.splits)
  show "\<exists>m4. acct R m4 \<and> (\<forall>i<64. rx_skb m4 ! i = None) \<and>
      hw m4 = ring_zero H Rx (ring_zero H Tx (hw m)) \<and> post_rx_buffers H K [0..<AP_ETH_RING_SIZE - 1] m4 = (Inr (), m')" if "r = Inr ()"
  proof (intro exI [of _ m4] conjI)
    show "post_rx_buffers H K [0..<AP_ETH_RING_SIZE - 1] m4 = (Inr (), m')"
      using assms(4) that post unfolding eq by (auto split: if_splits sum.splits)
  qed (use m4 in \<open>simp_all add: m4_def m3_def m2_def m1_def\<close>)
  show "opened m'" if "r = Inr ()"
  proof -
    have "\<not> bad" "r5 = Inr ()" "m' = m5" using assms(4) that unfolding eq by (auto split: if_splits sum.splits)
    have "rx_skb m5 ! i = None \<longleftrightarrow> i = 63" if "i < 64" for i
      using that m5(6,7) m4(2) \<open>r5 = Inr ()\<close> by (cases "i = 63") auto
    then show ?thesis using m5(2-5) m4(2) \<open>\<not> bad\<close> \<open>m' = m5\<close>
      by (simp add: opened_def same_defs bad_def) (simp add: m4_def m3_def)
  qed
qed

section \<open>A kernel and a device to try it on\<close>

text \<open>
  This kernel hands out an address that grows with the history, unless the driver owns it already, and no
  coherent memory; the device reads as zero everywhere.
\<close>

definition demo_kernel :: kernel where
  "demo_kernel =
    \<lparr>k_alloc_skb = (\<lambda>log. let s = of_nat (0x1000 * Suc (length log)) in
        if (case owned log of None \<Rightarrow> False | Some A \<Rightarrow> Skb s \<in># A) then None else Some (s, s + 0x40)),
     k_kmalloc = (\<lambda>log. Some (of_nat (0x1000000 + 0x1000 * length log))),
     k_dma_map = (\<lambda>_ log. Some (of_nat (0x2000000 + 0x1000 * length log))),
     k_coherent = (\<lambda>_. None), k_polls = (\<lambda>_. 3), k_napi_complete = (\<lambda>_. True), k_etherdev = (\<lambda>_. True),
     k_ioremap = (\<lambda>_. 0), k_irq = (\<lambda>_. 5), k_dma_mask = (\<lambda>_. 0), k_request_irq = (\<lambda>_. 0), k_register = (\<lambda>_. 0),
     k_device_mac = (\<lambda>_. None), k_valid_ether_addr = (\<lambda>_. True), k_random_addr = (\<lambda>_. []),
     k_handed = (\<lambda>log. let s = of_nat (0x3000000 + 0x1000 * length log) in
        if (case owned log of None \<Rightarrow> False | Some A \<Rightarrow> Skb s \<in># A) then None
        else Some (s, \<lparr>skb_data = s + 0x40, skb_len = 60, skb_nonlinear = False\<rparr>))\<rparr>"

lemma demo_fresh: "fresh_skbs demo_kernel"
  by (auto simp: fresh_skbs_def demo_kernel_def Let_def split: option.splits if_splits)

definition null_hw :: "unit eth_hw" where
  "null_hw = \<lparr>bus_rd = (\<lambda>_ d. (0, d)), bus_wr = (\<lambda>_ _ d. d), desc_rd = (\<lambda>_ _ d. (0, d)), desc_wr = (\<lambda>_ _ _ d. d),
     status_wr = (\<lambda>_ _ _ d. d), ring_zero = (\<lambda>_ d. d)\<rparr>"

definition blank_priv :: "'d \<Rightarrow> 'd ap_eth_priv" where
  "blank_priv d = \<lparr>hw = d, klog = [], skbuff = (\<lambda>_. \<lparr>skb_data = 0, skb_len = 0, skb_nonlinear = False\<rparr>), queue_stopped = True,
     tx_ring = None, tx_ring_dma = 0, rx_ring = None, rx_ring_dma = 0,
     tx_skb = replicate 64 None, tx_bounce_alloc = replicate 64 None, tx_bounce = replicate 64 None, tx_dma = replicate 64 0,
     rx_skb = replicate 64 None, rx_dma = replicate 64 0, tx_prod = 0, tx_clean = 0, rx_cons = 0, rx_prod = 0,
     ndev_stats = \<lparr>tx_packets = 0, tx_errors = 0, tx_bytes = 0, tx_dropped = 0, rx_packets = 0, rx_bytes = 0, rx_errors = 0, rx_dropped = 0\<rparr>\<rparr>"

lemma blank_acct: "closed (blank_priv d)" "acct {#} (blank_priv d)" "klog (blank_priv d) = []" "tx_ring (blank_priv d) = None"
  "hw (blank_priv d) = d"
proof -
  show c: "closed (blank_priv d)" by (simp add: closed_def blank_priv_def)
  show "klog (blank_priv d) = []" "tx_ring (blank_priv d) = None" "hw (blank_priv d) = d" by (simp_all add: blank_priv_def)
  show "acct {#} (blank_priv d)" using closed_res [OF c] by (simp add: acct_def arrays_ok_def) (simp add: blank_priv_def)
qed

section \<open>Open and stop\<close>

lemma readl_same:
  "ap_eth_readl H reg m = (v, m') \<Longrightarrow> tx_same m m' \<and> rx_same m m' \<and> rings_same m m' \<and> same_slots m m' \<and>
    queue_stopped m' = queue_stopped m \<and> (acct R m \<longrightarrow> acct R m')"
  using acct_read [of R m H reg] by (auto simp: ap_eth_readl_def same_defs same_slots_def call_def split: prod.splits)

lemma writel_same:
  "tx_same m (ap_eth_writel H reg v m)" "rx_same m (ap_eth_writel H reg v m)" "rings_same m (ap_eth_writel H reg v m)"
  "same_slots m (ap_eth_writel H reg v m)" "queue_stopped (ap_eth_writel H reg v m) = queue_stopped m"
  by (simp_all add: ap_eth_writel_def same_defs same_slots_def call_def)

lemma same_trans:
  "tx_same a b \<Longrightarrow> tx_same b c \<Longrightarrow> tx_same a c" "rx_same a b \<Longrightarrow> rx_same b c \<Longrightarrow> rx_same a c"
  "rings_same a b \<Longrightarrow> rings_same b c \<Longrightarrow> rings_same a c" "same_slots a b \<Longrightarrow> same_slots b c \<Longrightarrow> same_slots a c"
  by (simp_all add: same_defs same_slots_def)

lemma same_call: "tx_same m (call c m)" "rx_same m (call c m)" "rings_same m (call c m)"
  by (simp_all add: same_defs)

lemma poll_zero_same:
  "acct R m \<Longrightarrow> readl_poll_zero H reg n m = (b, m') \<Longrightarrow>
    tx_same m m' \<and> rx_same m m' \<and> rings_same m m' \<and> same_slots m m' \<and> acct R m'"
proof (induction n arbitrary: m)
  case 0
  then show ?case using readl_same [of H reg m _ m' R] by (auto split: prod.splits)
next
  case (Suc n)
  obtain v m1 where rd: "ap_eth_readl H reg m = (v, m1)" by fastforce
  note s = readl_same [OF rd, of R]
  show ?case
  proof (cases "v = 0")
    case True
    then show ?thesis using Suc.prems s rd by auto
  next
    case False
    then have "readl_poll_zero H reg n m1 = (b, m')" using Suc.prems(2) rd by simp
    from Suc.IH [OF _ this] s Suc.prems(1) show ?thesis by (auto intro: same_trans)
  qed
qed

lemma hw_stop_same:
  assumes "acct R m" "ap_eth_hw_stop H K m = (r, m')"
  shows "tx_same m m' \<and> rx_same m m' \<and> rings_same m m' \<and> same_slots m m' \<and> acct R m'"
proof -
  let ?m2 = "ap_eth_writel H AP_ETH_REG_CTRL AP_ETH_CTRL_TX_ENABLE (ap_eth_writel H AP_ETH_REG_IRQ_ENABLE 0 m)"
  obtain b m3 where poll: "ap_eth_wait_idle H K ?m2 = (b, m3)" by fastforce
  have "acct R ?m2" using assms(1) by (intro acct_write)
  from poll_zero_same [OF this] poll have "tx_same ?m2 m3 \<and> rx_same ?m2 m3 \<and> rings_same ?m2 m3 \<and> same_slots ?m2 m3 \<and> acct R m3"
    by (simp add: ap_eth_wait_idle_def)
  then have "tx_same m m3 \<and> rx_same m m3 \<and> rings_same m m3 \<and> same_slots m m3 \<and> acct R m3"
    using writel_same(1-4) same_trans by metis
  moreover have "m' = (if b then ap_eth_writel H AP_ETH_REG_CTRL 0 m3 else m3)"
    using assms(2) poll by (auto simp: ap_eth_hw_stop_def Let_def split: if_splits)
  ultimately show ?thesis using writel_same(1-4) [of m3] by (auto intro: same_trans acct_write)
qed

lemma same_closed: "tx_same m m' \<Longrightarrow> rx_same m m' \<Longrightarrow> rings_same m m' \<Longrightarrow> closed m' = closed m"
  by (simp add: closed_def same_defs)

lemma hw_program_same:
  "acct R m \<Longrightarrow> acct R (ap_eth_hw_program H m)" "opened (ap_eth_hw_program H m) = opened m"
  by (simp_all add: ap_eth_hw_program_def acct_write acct_other Let_def)
    (simp add: ap_eth_writel_def opened_def)

text \<open>
  C9. \<open>open\<close> is all or nothing, whatever the kernel and the hardware answer: on success both rings are
  allocated at valid addresses, 63 receive buffers are posted and the transmit ring is empty; on every error,
  the failure of the n-th receive buffer included, everything taken on the way is given back, each thing once.
\<close>

theorem eth_open_all_or_nothing:
  assumes "acct R m" "closed m" "fresh_skbs K" "ap_eth_open H K m = (r, m')"
  shows "acct R m' \<and> (case r of Inr _ \<Rightarrow> opened m' | Inl _ \<Rightarrow> closed m' \<and> owned (klog m') = Some R)"
proof -
  have given: "acct R m' \<Longrightarrow> closed m' \<Longrightarrow> owned (klog m') = Some R" by (simp add: acct_def closed_res)
  have closed: "tx_ring m = None" "rx_ring m = None" using assms(2) by (simp_all add: closed_def)
  obtain r1 m1 where stop: "ap_eth_hw_stop H K (call Napi_enable m) = (r1, m1)" by fastforce
  have "acct R (call Napi_enable m)" using assms(1) by (simp add: acct_other)
  note s = hw_stop_same [OF this stop]
  then have m1: "acct R m1" "closed m1" using assms(2) same_closed [of m m1] by (simp_all add: same_defs)
  let ?m2 = "ap_eth_writel H AP_ETH_REG_CTRL AP_ETH_CTRL_RING_RESET m1"
  have m2: "acct R ?m2" "closed ?m2" using m1 same_closed [OF writel_same(1-3)] by (auto intro: acct_write)
  obtain r3 m3 where alloc: "ap_eth_alloc_rings H K ?m2 = (r3, m3)" by fastforce
  note a = alloc_rings_acct [OF m2 assms(3) alloc]
  consider e where "r1 = Inl e" | e where "r1 = Inr ()" "r3 = Inl e" | "r1 = Inr ()" "r3 = Inr ()"
    by (metis old.unit.exhaust sum.exhaust)
  then show ?thesis
  proof cases
    case 1
    then have "m' = call Napi_disable m1" "r = Inl e" using assms(4) stop closed by (simp_all add: ap_eth_open_def)
    then show ?thesis using m1 given by (simp add: acct_other closed_def)
  next
    case 2
    then have "m' = call Napi_disable m3" "r = Inl e" using assms(4) stop closed alloc by (simp_all add: ap_eth_open_def)
    moreover have "closed m3" using a(3) 2(2) by simp
    ultimately show ?thesis using a(1) given by (simp add: acct_other closed_def)
  next
    case 3
    then have "m' = netif_start_queue (call Netif_carrier_on (ap_eth_hw_program H m3))" "r = Inr ()"
      using assms(4) stop closed alloc by (simp_all add: ap_eth_open_def)
    moreover have "opened (ap_eth_hw_program H m3)" using a(2) 3(2) by (simp add: hw_program_same)
    ultimately show ?thesis using hw_program_same(1) [OF a(1)]
      by (simp add: netif_start_queue_def acct_other) (simp add: opened_def)
  qed
qed

theorem eth_open_all_or_nothing_witness:
  "\<exists>m'. ap_eth_open null_hw demo_kernel (blank_priv ()) = (Inl ENOMEM, m') \<and> closed m' \<and> owned (klog m') = Some {#}"
proof -
  obtain r m' where opn: "ap_eth_open null_hw demo_kernel (blank_priv ()) = (r, m')" by fastforce
  have "fst (ap_eth_open null_hw demo_kernel (blank_priv ())) = Inl ENOMEM"
    by (simp add: ap_eth_open_def blank_priv_def ap_eth_hw_stop_def ap_eth_wait_idle_def demo_kernel_def null_hw_def
        ap_eth_readl_def ap_eth_writel_def ap_eth_alloc_rings_def dma_alloc_coherent_def call_def numeral_3_eq_3 Let_def)
  then show ?thesis
    using eth_open_all_or_nothing [OF blank_acct(2,1) demo_fresh opn] opn by simp
qed

lemma stop_given:
  assumes "acct R m" "ap_eth_hw_stop H K (netif_stop_queue m) = (Inr (), m1)"
  shows "acct R (ap_eth_stop H K m)" "closed (ap_eth_stop H K m)" "owned (klog (ap_eth_stop H K m)) = Some R"
proof -
  have "acct R (netif_stop_queue m)" using assms(1) by (simp add: netif_stop_queue_def acct_other)
  note s = hw_stop_same [OF this assms(2)]
  let ?m2 = "ap_eth_writel H AP_ETH_REG_CTRL AP_ETH_CTRL_RING_RESET (call Napi_disable m1)"
  have eq: "ap_eth_stop H K m = call Netif_carrier_off (ap_eth_free_rings ?m2)" using assms(2) by (simp add: ap_eth_stop_def)
  have "acct R ?m2" using s by (intro acct_write acct_other) simp_all
  note f = free_rings_acct [OF this]
  show a: "acct R (ap_eth_stop H K m)" using f(1) by (simp add: eq acct_other)
  show c: "closed (ap_eth_stop H K m)" using f(2) by (simp add: eq closed_def)
  show "owned (klog (ap_eth_stop H K m)) = Some R" using a closed_res [OF c] by (simp add: acct_def)
qed

text \<open>
  What \<open>STATUS\<close> answers, reading after reading, and whether one of the readings a timeout has room for, or the
  last one after it, finds the DMA idle. \<open>stop_idle\<close> is this for the wait of a \<open>stop\<close>: after interrupts and
  reception have been switched off.
\<close>

primrec status_answer :: "'d eth_hw \<Rightarrow> 'd \<Rightarrow> nat \<Rightarrow> u32" where
  "status_answer H d 0 = fst (bus_rd H AP_ETH_REG_STATUS d)"
| "status_answer H d (Suc i) = status_answer H (snd (bus_rd H AP_ETH_REG_STATUS d)) i"

definition becomes_idle :: "'d eth_hw \<Rightarrow> nat \<Rightarrow> 'd \<Rightarrow> bool" where
  "becomes_idle H n d \<longleftrightarrow> list_ex (\<lambda>i. status_answer H d i = 0) [0..<Suc n]"

definition stop_polls :: "kernel \<Rightarrow> 'd ap_eth_priv \<Rightarrow> nat" where
  "stop_polls K m = k_polls K (klog m @ [Netif_stop_queue, Reg_write AP_ETH_REG_IRQ_ENABLE 0,
     Reg_write AP_ETH_REG_CTRL AP_ETH_CTRL_TX_ENABLE])"

definition stop_idle :: "'d eth_hw \<Rightarrow> kernel \<Rightarrow> 'd ap_eth_priv \<Rightarrow> bool" where
  "stop_idle H K m \<longleftrightarrow> becomes_idle H (stop_polls K m)
     (bus_wr H AP_ETH_REG_CTRL AP_ETH_CTRL_TX_ENABLE (bus_wr H AP_ETH_REG_IRQ_ENABLE 0 (hw m)))"

lemma becomes_idle_simps:
  "becomes_idle H 0 d \<longleftrightarrow> fst (bus_rd H AP_ETH_REG_STATUS d) = 0"
  "becomes_idle H (Suc n) d \<longleftrightarrow>
     fst (bus_rd H AP_ETH_REG_STATUS d) = 0 \<or> becomes_idle H n (snd (bus_rd H AP_ETH_REG_STATUS d))"
proof -
  show "becomes_idle H 0 d \<longleftrightarrow> fst (bus_rd H AP_ETH_REG_STATUS d) = 0" by (simp add: becomes_idle_def)
  have "list_ex P [0..<Suc (Suc n)] \<longleftrightarrow> P 0 \<or> list_ex (\<lambda>i. P (Suc i)) [0..<Suc n]" for P
    by (auto simp: list_ex_iff less_Suc_eq_0_disj simp del: upt_Suc)
  then show "becomes_idle H (Suc n) d \<longleftrightarrow>
     fst (bus_rd H AP_ETH_REG_STATUS d) = 0 \<or> becomes_idle H n (snd (bus_rd H AP_ETH_REG_STATUS d))"
    by (simp add: becomes_idle_def del: upt_Suc)
qed

lemma poll_zero_idle: "fst (readl_poll_zero H AP_ETH_REG_STATUS n m) \<longleftrightarrow> becomes_idle H n (hw m)"
proof (induction n arbitrary: m)
  case 0
  then show ?case by (simp add: becomes_idle_simps ap_eth_readl_def split: prod.split)
next
  case (Suc n)
  obtain v d where rd: "bus_rd H AP_ETH_REG_STATUS (hw m) = (v, d)" by fastforce
  show ?case using Suc.IH [of "call (Reg_read AP_ETH_REG_STATUS v) (m\<lparr>hw := d\<rparr>)"] rd
    by (simp add: becomes_idle_simps ap_eth_readl_def)
qed

lemma hw_stop_idle: "fst (ap_eth_hw_stop H K (netif_stop_queue m)) = Inr () \<longleftrightarrow> stop_idle H K m"
proof -
  let ?m = "ap_eth_writel H AP_ETH_REG_CTRL AP_ETH_CTRL_TX_ENABLE (ap_eth_writel H AP_ETH_REG_IRQ_ENABLE 0 (netif_stop_queue m))"
  have "klog ?m = klog m @ [Netif_stop_queue, Reg_write AP_ETH_REG_IRQ_ENABLE 0, Reg_write AP_ETH_REG_CTRL AP_ETH_CTRL_TX_ENABLE]"
    "hw ?m = bus_wr H AP_ETH_REG_CTRL AP_ETH_CTRL_TX_ENABLE (bus_wr H AP_ETH_REG_IRQ_ENABLE 0 (hw m))"
    by (simp_all add: ap_eth_writel_def netif_stop_queue_def call_def)
  then have "fst (ap_eth_wait_idle H K ?m) \<longleftrightarrow> stop_idle H K m"
    by (simp add: ap_eth_wait_idle_def stop_idle_def stop_polls_def poll_zero_idle)
  then show ?thesis
    by (cases "ap_eth_wait_idle H K ?m") (simp add: ap_eth_hw_stop_def)
qed

lemma stop_released:
  assumes "acct R m"
  shows "acct R (ap_eth_stop H K m) \<and>
    (if stop_idle H K m then closed (ap_eth_stop H K m) \<and> owned (klog (ap_eth_stop H K m)) = Some R
     else owned (klog (ap_eth_stop H K m)) = owned (klog m) \<and>
       (tx_ring m \<noteq> None \<longrightarrow> ap_eth_open H K (ap_eth_stop H K m) = (Inl EBUSY, ap_eth_stop H K m)))"
proof -
  obtain r m1 where stop: "ap_eth_hw_stop H K (netif_stop_queue m) = (r, m1)" by fastforce
  have "acct R (netif_stop_queue m)" using assms by (simp add: netif_stop_queue_def acct_other)
  note s = hw_stop_same [OF this stop]
  show ?thesis
  proof (cases r)
    case (Inl e)
    then have eq: "ap_eth_stop H K m = call Netif_carrier_off (call Napi_disable m1)" using stop by (simp add: ap_eth_stop_def)
    have m': "acct R (ap_eth_stop H K m)" using s by (simp add: eq acct_other)
    have "tx_skb m1 = tx_skb m" "tx_bounce_alloc m1 = tx_bounce_alloc m" "tx_ring m1 = tx_ring m"
      using s by (simp_all add: same_defs netif_stop_queue_def)
    moreover have "owned (klog (call Netif_carrier_off (call Napi_disable m1))) = owned (klog m1)"
      using s by (simp add: acct_def) (metis (no_types, lifting) append.assoc append_Cons append_Nil gives.simps takes.simps owned_other)
    moreover have "same_slots m m1" using s by (simp add: same_slots_def netif_stop_queue_def call_def)
    then have "owned (klog m1) = owned (klog m)" using s assms same_slots_res [of m m1] by (simp add: acct_def)
    moreover have "\<not> stop_idle H K m" using hw_stop_idle [of H K m] stop Inl by simp
    ultimately show ?thesis using m' by (simp add: ap_eth_open_def eq)
  next
    case (Inr u)
    then have "stop_idle H K m" using hw_stop_idle [of H K m] stop by simp
    then show ?thesis using stop_given [of R m H K m1] assms stop Inr by simp
  qed
qed

text \<open>
  C16. \<open>stop\<close> gives everything back, each thing once, if \<open>STATUS\<close> reads as 0 in one of the polls the timeout has
  room for or in the one after it, reception being off; if every reading is busy, no buffer, mapping or ring the
  hardware may still use is released, and the interface cannot be opened again.
\<close>

theorem eth_stop_releases_iff_idle:
  assumes "acct R m"
  shows "acct R (ap_eth_stop H K m) \<and>
    (if stop_idle H K m then closed (ap_eth_stop H K m) \<and> owned (klog (ap_eth_stop H K m)) = Some R
     else owned (klog (ap_eth_stop H K m)) = owned (klog m) \<and>
       (tx_ring m \<noteq> None \<longrightarrow> ap_eth_open H K (ap_eth_stop H K m) = (Inl EBUSY, ap_eth_stop H K m)))"
  using assms by (rule stop_released)

text \<open>A device with its transmit ring allocated: on hardware that is idle, and on hardware that never is.\<close>

definition ring_priv :: "unit ap_eth_priv" where
  "ring_priv = (call (Dma_alloc_coherent (Some (0x10000, 0x20000))) (blank_priv ()))\<lparr>tx_ring := Some 0x10000, tx_ring_dma := 0x20000\<rparr>"

lemma ring_priv_acct: "acct {#} ring_priv" "owned (klog ring_priv) = Some {#Coherent 0x10000 0x20000#}" "tx_ring ring_priv = Some 0x10000"
proof -
  show "acct {#} ring_priv" using tx_coherent [OF blank_acct(2,4), of "()" "Some (0x10000, 0x20000)"] by (simp add: ring_priv_def)
  show "owned (klog ring_priv) = Some {#Coherent 0x10000 0x20000#}"
    by (simp add: ring_priv_def blank_priv_def owned_def owned_step_def)
  show "tx_ring ring_priv = Some 0x10000" by (simp add: ring_priv_def)
qed

theorem eth_stop_releases_iff_idle_witness:
  "owned (klog ring_priv) = Some {#Coherent 0x10000 0x20000#} \<and>
   owned (klog (ap_eth_stop null_hw demo_kernel ring_priv)) = Some {#} \<and>
   (let H = null_hw\<lparr>bus_rd := (\<lambda>_ d. (1, d))\<rparr>; m = ap_eth_stop H demo_kernel ring_priv
    in owned (klog m) = Some {#Coherent 0x10000 0x20000#} \<and> fst (ap_eth_open H demo_kernel m) = Inl EBUSY)"
proof -
  let ?H = "null_hw\<lparr>bus_rd := (\<lambda>_ d. (1, d))\<rparr>"
  have "status_answer ?H d i = 1" for d i by (induction i arbitrary: d) simp_all
  then have "\<not> stop_idle ?H demo_kernel ring_priv" by (simp add: stop_idle_def becomes_idle_def list_ex_iff)
  moreover have "stop_polls demo_kernel ring_priv = 3" by (simp add: stop_polls_def demo_kernel_def)
  then have "stop_idle null_hw demo_kernel ring_priv"
    by (simp add: stop_idle_def becomes_idle_simps null_hw_def numeral_3_eq_3)
  ultimately show ?thesis
    using eth_stop_releases_iff_idle [OF ring_priv_acct(1), of null_hw demo_kernel] ring_priv_acct(2,3)
      eth_stop_releases_iff_idle [OF ring_priv_acct(1), of ?H demo_kernel]
    by (simp add: Let_def)
qed

section \<open>Probe and remove\<close>

lemma arrays_zeroed: "arrays_ok (priv_zeroed m)" "closed (priv_zeroed m)" "klog (priv_zeroed m) = klog m" "hw (priv_zeroed m) = hw m"
  by (simp_all add: arrays_ok_def closed_def priv_zeroed_def)

lemma probe_mac_same:
  assumes "probe_mac H K m = (mac, m')"
  shows "acct R m \<Longrightarrow> acct R m'" "closed m' = closed m"
proof -
  have "(acct R m \<longrightarrow> acct R m') \<and> tx_same m m' \<and> rx_same m m' \<and> rings_same m m'"
  proof (cases "k_device_mac K (klog m)")
    case (Some x)
    then show ?thesis using assms by (auto simp: probe_mac_def same_defs)
  next
    case None
    obtain v1 m1 where 1: "ap_eth_readl H AP_ETH_REG_MAC_LO m = (v1, m1)" by fastforce
    obtain v2 m2 where 2: "ap_eth_readl H AP_ETH_REG_MAC_HI m1 = (v2, m2)" by fastforce
    have "m' = m2" using assms None 1 2 by (auto simp: probe_mac_def ap_eth_read_mac_address_def Let_def)
    then show ?thesis using readl_same [OF 1, of R] readl_same [OF 2, of R] same_trans by blast
  qed
  then show "acct R m \<Longrightarrow> acct R m'" "closed m' = closed m" using same_closed [of m m'] by auto
qed

lemma probe_freed:
  assumes "acct (add_mset Netdev R) m" "closed m"
  shows "owned (klog (call Free_netdev m)) = Some R"
  using acct_give [OF assms(1), of Free_netdev] assms(2) by (simp add: acct_def closed_res closed_def)

lemma closed_call: "closed (call c m) = closed m"
  by (simp add: closed_def)

lemma probe_register_unwinds:
  assumes "acct (add_mset Netdev R) m" "closed m" "probe_register H K m = (ret, m')"
  shows "if ret = 0 then acct ({#Netdev, Napi, Irq, Registered#} + R) m' \<and> closed m' \<and> owned (klog (snd (ap_eth_remove m'))) = Some R
    else owned (klog m') = Some R"
proof -
  define m4 where "m4 = ap_eth_writel H AP_ETH_REG_CTRL AP_ETH_CTRL_RING_RESET (ap_eth_writel H AP_ETH_REG_IRQ_ENABLE 0 (call Netif_napi_add m))"
  obtain mac m5 where mac: "probe_mac H K m4 = (mac, m5)" by fastforce
  define m6 where "m6 = call (Eth_hw_addr_set mac) m5"
  define ri where "ri = k_request_irq K (klog m6)"
  define m7 where "m7 = call (Request_irq ri) m6"
  define rr where "rr = k_register K (klog m7)"
  define m8 where "m8 = call (Register_netdev rr) m7"
  have eq: "(ret, m') = (if ri \<noteq> 0 then (ri, call Free_netdev (call Netif_napi_del m7))
      else if rr \<noteq> 0 then (rr, call Free_netdev (call Netif_napi_del (call Free_irq m8))) else (0, m8))"
    unfolding assms(3) [symmetric] probe_register_def Let_def m4_def [symmetric] mac split_conv m6_def [symmetric] ri_def [symmetric]
      m7_def [symmetric] rr_def [symmetric] m8_def [symmetric] ..
  have "acct (add_mset Napi (add_mset Netdev R)) (call Netif_napi_add m)" by (rule acct_take [OF assms(1)]) simp_all
  then have m4: "acct (add_mset Napi (add_mset Netdev R)) m4" "closed m4"
    using assms(2) by (simp_all add: m4_def acct_write closed_call same_closed [OF writel_same(1-3)])
  then have m6: "acct (add_mset Napi (add_mset Netdev R)) m6" "closed m6"
    using probe_mac_same [OF mac] by (simp_all add: m6_def acct_other closed_call)
  have m7: "ri \<noteq> 0 \<Longrightarrow> acct (add_mset Napi (add_mset Netdev R)) m7"
    "ri = 0 \<Longrightarrow> acct (add_mset Irq (add_mset Napi (add_mset Netdev R))) m7" "closed m7"
    using m6 acct_take [OF m6(1), of "Request_irq 0" Irq] by (simp_all add: m7_def acct_other closed_call)
  have m8: "rr \<noteq> 0 \<Longrightarrow> ri = 0 \<Longrightarrow> acct (add_mset Irq (add_mset Napi (add_mset Netdev R))) m8"
    "rr = 0 \<Longrightarrow> ri = 0 \<Longrightarrow> acct (add_mset Registered (add_mset Irq (add_mset Napi (add_mset Netdev R)))) m8" "closed m8"
    using m7 acct_take [OF m7(2), of "Register_netdev 0" Registered] by (simp_all add: m8_def acct_other closed_call)
  have e7: "ri \<noteq> 0 \<Longrightarrow> owned (klog (call Free_netdev (call Netif_napi_del m7))) = Some R"
    using probe_freed [OF acct_give [OF m7(1), of Netif_napi_del]] m7(3) by (simp add: closed_call)
  have e8: "rr \<noteq> 0 \<Longrightarrow> ri = 0 \<Longrightarrow> owned (klog (call Free_netdev (call Netif_napi_del (call Free_irq m8)))) = Some R"
    using probe_freed [OF acct_give [OF acct_give [OF m8(1), of Free_irq], of Netif_napi_del]] m8(3) by (simp add: closed_call)
  have e0: "rr = 0 \<Longrightarrow> ri = 0 \<Longrightarrow> owned (klog (snd (ap_eth_remove m8))) = Some R"
    unfolding ap_eth_remove_def snd_conv
    using probe_freed [OF acct_give [OF acct_give [OF acct_give [OF m8(2), of Unregister_netdev], of Free_irq], of Netif_napi_del]] m8(3)
    by (simp add: closed_call)
  have "rr = 0 \<Longrightarrow> ri = 0 \<Longrightarrow> acct ({#Netdev, Napi, Irq, Registered#} + R) m8"
    using m8(2) by (simp add: add_mset_commute)
  then show ?thesis using eq e7 e8 e0 m8(3) by (cases "ri = 0"; cases "rr = 0") simp_all
qed

text \<open>
  C17. \<open>probe\<close> either succeeds, owning exactly the network device, its NAPI context, the interrupt and the
  registration, with a closed device, or reports the error of the step that failed and has undone every step
  before it; \<open>remove\<close> gives back what a successful \<open>probe\<close> took.
\<close>

theorem eth_probe_unwinds:
  assumes "owned (klog m) = Some R" "\<forall>s. count R (Skb s) \<le> 1" "ap_eth_probe H K m = (ret, m')"
  shows "(if ret = 0 then acct ({#Netdev, Napi, Irq, Registered#} + R) m' \<and> closed m' \<and>
            owned (klog (snd (ap_eth_remove m'))) = Some R
          else owned (klog m') = Some R)"
proof -
  define got where "got = k_etherdev K (klog m)"
  define m0 where "m0 = priv_zeroed (call (Alloc_etherdev got) m)"
  define m1 where "m1 = call (Ioremap (k_ioremap K (klog m0) = 0)) m0"
  define m2 where "m2 = call (Platform_get_irq (k_irq K (klog m1))) m1"
  define m3 where "m3 = call (Dma_set_mask (k_dma_mask K (klog m2))) m2"
  have eq: "ap_eth_probe H K m =
    (if \<not> got then (ENOMEM_ret, call (Alloc_etherdev got) m)
     else if k_ioremap K (klog m0) \<noteq> 0 then (k_ioremap K (klog m0), call Free_netdev m1)
     else if k_irq K (klog m1) < 0 then (k_irq K (klog m1), call Free_netdev m2)
     else if k_dma_mask K (klog m2) \<noteq> 0 then (k_dma_mask K (klog m2), call Free_netdev m3)
     else probe_register H K m3)"
    unfolding ap_eth_probe_def Let_def got_def [symmetric] m0_def [symmetric] m1_def [symmetric] m2_def [symmetric] m3_def [symmetric] ..
  show ?thesis
  proof (cases got)
    case False
    then show ?thesis using assms(3) owned_other [OF assms(1), of "Alloc_etherdev False"] by (auto simp: eq)
  next
    case True
    then have m0: "acct (add_mset Netdev R) m0" "closed m0" unfolding m0_def
      using arrays_zeroed [of "call (Alloc_etherdev True) m"] owned_take [OF assms(1), of "Alloc_etherdev True" Netdev] assms(2)
      by (simp_all add: acct_def closed_res)
    then have m123: "acct (add_mset Netdev R) m1" "acct (add_mset Netdev R) m2" "acct (add_mset Netdev R) m3" "closed m1" "closed m2" "closed m3"
      by (simp_all add: m1_def m2_def m3_def acct_other closed_call)
    note freed = probe_freed [OF m123(1,4)] probe_freed [OF m123(2,5)] probe_freed [OF m123(3,6)]
    show ?thesis
      using assms(3) True freed probe_register_unwinds [OF m123(3,6), of H K ret m'] by (auto simp: eq split: if_splits)
  qed
qed

theorem eth_probe_unwinds_witness:
  "\<exists>m'. ap_eth_probe null_hw demo_kernel (blank_priv ()) = (0, m') \<and> owned (klog m') = Some {#Netdev, Napi, Irq, Registered#} \<and>
    owned (klog (snd (ap_eth_remove m'))) = Some {#} \<and>
    (\<exists>m''. ap_eth_probe null_hw (demo_kernel\<lparr>k_request_irq := \<lambda>_. - 16\<rparr>) (blank_priv ()) = (- 16, m'') \<and> owned (klog m'') = Some {#})"
proof -
  obtain r m' where p: "ap_eth_probe null_hw demo_kernel (blank_priv ()) = (r, m')" by fastforce
  obtain r2 m2 where p2: "ap_eth_probe null_hw (demo_kernel\<lparr>k_request_irq := \<lambda>_. - 16\<rparr>) (blank_priv ()) = (r2, m2)" by fastforce
  have "fst (ap_eth_probe null_hw demo_kernel (blank_priv ())) = 0"
    "fst (ap_eth_probe null_hw (demo_kernel\<lparr>k_request_irq := \<lambda>_. - 16\<rparr>) (blank_priv ())) = - 16"
    by (simp_all add: ap_eth_probe_def probe_register_def probe_mac_def ap_eth_read_mac_address_def ap_eth_readl_def demo_kernel_def null_hw_def Let_def)
  then show ?thesis
    using eth_probe_unwinds [of "blank_priv ()" "{#}", OF _ _ p] eth_probe_unwinds [of "blank_priv ()" "{#}", OF _ _ p2] p p2
    by (auto simp: blank_acct acct_def closed_res)
qed

end
