(* ===== verification/Eth_Ring.thy ===== *)
theory Eth_Ring
  imports Eth_Open "HOL-Library.Sublist"
begin

text \<open>
  The two descriptor rings of the Ethernet driver against a device that finishes descriptors between the
  driver's calls: the invariant of the transmit ring and of the receive ring, and the operations on them.
\<close>

section \<open>The device\<close>

text \<open>
  What the driver can see of the device: the transmit head, the tail and count it was given, the status words, and
  whether the descriptor at the head is in transmission. \<open>step\<close> is what the device does by itself: it takes up the
  descriptor at its head, unless the head is at the tail, or finishes it.
\<close>

record eth_view =
  v_head :: nat
  v_tail :: nat
  v_count :: nat
  v_status :: "ring_id \<Rightarrow> nat \<Rightarrow> u64"
  v_busy :: bool

definition v_set_status :: "ring_id \<Rightarrow> nat \<Rightarrow> u64 \<Rightarrow> eth_view \<Rightarrow> eth_view" where
  "v_set_status r i x w = w\<lparr>v_status := (v_status w)(r := (v_status w r)(i := x))\<rparr>"

definition v_write :: "u32 \<Rightarrow> u32 \<Rightarrow> eth_view \<Rightarrow> eth_view" where
  "v_write a v w =
    (if a = AP_ETH_REG_CTRL then (if bit v 2 then w\<lparr>v_head := 0, v_busy := False\<rparr> else w)
     else if a = AP_ETH_REG_TX_TAIL then w\<lparr>v_tail := unat (ucast v :: u16)\<rparr>
     else if a = AP_ETH_REG_TX_COUNT then w\<lparr>v_count := unat (ucast v :: u16)\<rparr>
     else w)"

definition v_finish :: "eth_view \<Rightarrow> eth_view \<Rightarrow> bool" where
  "v_finish w w' \<longleftrightarrow>
     v_tail w' = v_tail w \<and> v_count w' = v_count w \<and>
     (v_head w' = v_head w \<and> v_status w' Tx = v_status w Tx \<and> (v_busy w' \<longrightarrow> v_head w \<noteq> v_tail w) \<or>
      \<not> v_busy w' \<and> v_head w \<noteq> v_tail w \<and> v_head w' = (if Suc (v_head w) = v_count w then 0 else Suc (v_head w)) \<and>
        (\<exists>x. bit x 0 \<and> v_status w' Tx = (v_status w Tx)(v_head w := x)))"

locale eth_device =
  fixes H :: "'d eth_hw" and view :: "'d \<Rightarrow> eth_view" and step :: "'ev \<Rightarrow> 'd \<Rightarrow> 'd"
  assumes rd_view: "a \<noteq> AP_ETH_REG_STATUS \<Longrightarrow> view (snd (bus_rd H a d)) = view d"
    and rd_head: "fst (bus_rd H AP_ETH_REG_TX_HEAD d) = of_nat (v_head (view d))"
    and wr_view: "view (bus_wr H a v d) = v_write a v (view d)"
    and desc_rd_view: "view (snd (desc_rd H r i d)) = view d"
    and desc_rd_status: "i < 64 \<Longrightarrow> fst (desc_rd H r i d) = v_status (view d) r i"
    and desc_wr_view: "i < 64 \<Longrightarrow> view (desc_wr H r i x d) = v_set_status r i (desc_status x) (view d)"
    and status_wr_view: "i < 64 \<Longrightarrow> view (status_wr H r i st d) = v_set_status r i st (view d)"
    and ring_zero_view: "view (ring_zero H r d) = (view d)\<lparr>v_status := (v_status (view d))(r := (\<lambda>_. 0))\<rparr>"
    and step_view: "v_head (view d) < v_count (view d) \<Longrightarrow> (v_busy (view d) \<longrightarrow> v_head (view d) \<noteq> v_tail (view d)) \<Longrightarrow>
      v_finish (view d) (view (step e d))"

lemma v_set_simps [simp]:
  "v_head (v_set_status r i x w) = v_head w" "v_tail (v_set_status r i x w) = v_tail w" "v_count (v_set_status r i x w) = v_count w"
  "v_busy (v_set_status r i x w) = v_busy w"
  "v_status (v_set_status r i x w) r' = (if r' = r then (v_status w r)(i := x) else v_status w r')"
  by (simp_all add: v_set_status_def)

section \<open>The rings\<close>

lemma eth_next: "unat (ap_eth_ring_next i) = Suc (unat i) mod 64"
proof -
  have "unat (ap_eth_ring_next i) = unat (i + 1) mod 64"
    using unat_and_mask [of "i + 1" 6] by (simp add: ap_eth_ring_next_def mask_eq_exp_minus_1)
  also have "\<dots> = Suc (unat i) mod 65536 mod 64" by (simp add: unat_word_ariths)
  also have "\<dots> = Suc (unat i) mod 64" by (rule mod_mod_cancel) simp
  finally show ?thesis .
qed

interpretation eth_ring: ring ap_eth_ring_next 64
  by unfold_locales (simp_all add: eth_next)

text \<open>The slots from \<open>clean\<close> to \<open>prod\<close> hold a frame each, and no other slot does.\<close>

definition tx_slots :: "'d ap_eth_priv \<Rightarrow> nat list" where
  "tx_slots m = ring_slots 64 (unat (tx_clean m)) (unat (tx_prod m))"

definition tx_frames :: "'d ap_eth_priv \<Rightarrow> u64 list" where
  "tx_frames m = map (\<lambda>i. the (tx_skb m ! i)) (tx_slots m)"

definition rx_slots :: "'d ap_eth_priv \<Rightarrow> nat list" where
  "rx_slots m = ring_slots 64 (unat (rx_cons m)) (unat (rx_prod m))"

definition tx_filled :: "'d ap_eth_priv \<Rightarrow> bool" where
  "tx_filled m \<longleftrightarrow> unat (tx_clean m) < 64 \<and> unat (tx_prod m) < 64 \<and>
     (\<forall>i<64. (tx_skb m ! i \<noteq> None \<longleftrightarrow> i \<in> set (tx_slots m)) \<and> (tx_bounce_alloc m ! i \<noteq> None \<longleftrightarrow> i \<in> set (tx_slots m)))"

definition rx_filled :: "'d ap_eth_priv \<Rightarrow> bool" where
  "rx_filled m \<longleftrightarrow> unat (rx_cons m) < 64 \<and> unat (rx_prod m) < 64 \<and>
     (\<forall>i<64. rx_skb m ! i \<noteq> None \<longleftrightarrow> i \<in> set (rx_slots m))"

text \<open>The hardware is between \<open>clean\<close> and \<open>prod\<close>, and has finished what is behind its head.\<close>

definition tx_hw :: "eth_view \<Rightarrow> nat \<Rightarrow> nat \<Rightarrow> bool" where
  "tx_hw w c p \<longleftrightarrow> v_count w = 64 \<and> v_tail w = p \<and> v_head w < 64 \<and> (v_busy w \<longrightarrow> v_head w \<noteq> p) \<and>
     ring_dist 64 c (v_head w) \<le> ring_dist 64 c p \<and>
     (\<forall>i\<in>set (ring_slots 64 c (v_head w)). bit (v_status w Tx i) 0)"

lemma tx_hw_empty: "v_count w = 64 \<Longrightarrow> v_tail w = p \<Longrightarrow> v_head w = c \<Longrightarrow> c < 64 \<Longrightarrow> \<not> v_busy w \<Longrightarrow> tx_hw w c p"
  by (simp add: tx_hw_def)

lemma ring_dist_cases: "a < 64 \<Longrightarrow> b < 64 \<Longrightarrow> ring_dist 64 a b = (if a \<le> b then b - a else b + 64 - a)"
  by (simp add: ring_dist_def mod_if)

lemma ring_dist_add:
  assumes "c < 64" "h < 64" "p < 64" "ring_dist 64 c h \<le> ring_dist 64 c p"
  shows "ring_dist 64 c p = ring_dist 64 c h + ring_dist 64 h p"
  using assms(4) unfolding ring_dist_cases [OF assms(1,2)] ring_dist_cases [OF assms(1,3)] ring_dist_cases [OF assms(2,3)]
  using assms(1-3) by (cases "c \<le> h"; cases "c \<le> p"; cases "h \<le> p") simp_all

lemma step_tx_hw:
  assumes "tx_hw w c p" "v_finish w w'" "c < 64" "p < 64"
  shows "tx_hw w' c p"
proof -
  have w: "v_count w = 64" "v_tail w = p" "v_head w < 64" "ring_dist 64 c (v_head w) \<le> ring_dist 64 c p"
    "\<forall>i\<in>set (ring_slots 64 c (v_head w)). bit (v_status w Tx i) 0" using assms(1) by (simp_all add: tx_hw_def)
  consider "v_head w' = v_head w" "v_status w' Tx = v_status w Tx" "v_busy w' \<longrightarrow> v_head w \<noteq> p"
    | x where "\<not> v_busy w'" "v_head w \<noteq> p" "v_head w' = Suc (v_head w) mod 64" "bit x 0" "v_status w' Tx = (v_status w Tx)(v_head w := x)"
    using assms(2) w(1-3) by (auto simp: v_finish_def mod_if split: if_splits)
  then show ?thesis
  proof cases
    case 1
    then show ?thesis using w assms(2) by (auto simp: tx_hw_def v_finish_def)
  next
    case (2 x)
    have "ring_dist 64 c (v_head w) \<noteq> ring_dist 64 c p"
      using 2(2) ring_slot_at_dist [OF assms(3) w(3)] ring_slot_at_dist [OF assms(3,4)] by metis
    then have less: "ring_dist 64 c (v_head w) < ring_dist 64 c p" using w(4) by simp
    then have "Suc (v_head w) mod 64 \<noteq> c"
      using ring_dist_full_iff [OF assms(3) w(3)] ring_dist_less [of 64 c p] by simp
    then have "ring_dist 64 c (v_head w') = Suc (ring_dist 64 c (v_head w))"
      "ring_slots 64 c (v_head w') = ring_slots 64 c (v_head w) @ [v_head w]"
      using 2(3) ring_dist_Suc_head [OF assms(3) w(3)] ring_slots_snoc [OF assms(3) w(3)] by simp_all
    then show ?thesis using 2 less w assms(2) by (auto simp: tx_hw_def v_finish_def)
  qed
qed

section \<open>Reclaiming\<close>

lemma ucast_u16_u32 [simp]: "ucast (ucast (x :: u16) :: u32) = x"
  by (rule bit_word_eqI) (auto simp: bit_simps dest: bit_imp_le_length)

lemma ucast_head: "h < 64 \<Longrightarrow> ucast (of_nat h :: u32) = (of_nat h :: u16)" "h < 64 \<Longrightarrow> unat (of_nat h :: u16) = h"
  by (simp_all add: word_unat_eq_iff unsigned_ucast_eq unat_of_nat take_bit_nat_eq_self)

text \<open>What the transmit path leaves of the rest: the receive side, the rings and the buffers' headers.\<close>

definition rest_same :: "'d ap_eth_priv \<Rightarrow> 'd ap_eth_priv \<Rightarrow> bool" where
  "rest_same m m' \<longleftrightarrow> rx_same m m' \<and> rings_same m m' \<and> skbuff m' = skbuff m"

lemma rest_trans: "rest_same a b \<Longrightarrow> rest_same b c \<Longrightarrow> rest_same a c"
  by (simp add: rest_same_def same_defs)

lemma filled_pop:
  assumes "tx_filled m" "tx_clean m \<noteq> tx_prod m" "arrays_ok m"
    and "tx_skb m' = (tx_skb m)[unat (tx_clean m) := None]" "tx_bounce_alloc m' = (tx_bounce_alloc m)[unat (tx_clean m) := None]"
    "tx_prod m' = tx_prod m" "tx_clean m' = ap_eth_ring_next (tx_clean m)"
  shows "tx_filled m'" "tx_slots m = unat (tx_clean m) # tx_slots m'"
    "tx_frames m = the (tx_skb m ! unat (tx_clean m)) # tx_frames m'"
proof -
  let ?c = "unat (tx_clean m)"
  have c: "?c < 64" "unat (tx_prod m) < 64" "?c \<noteq> unat (tx_prod m)"
    using assms(1,2) by (simp_all add: tx_filled_def word_unat_eq_iff)
  show slots: "tx_slots m = ?c # tx_slots m'"
    using ring_slots_Cons [OF c] by (simp add: tx_slots_def assms(6,7) eth_next)
  then have new: "?c \<notin> set (tx_slots m')"
    using ring_slots_distinct [of 64 ?c "unat (tx_prod m)"] by (simp add: tx_slots_def)
  have len: "length (tx_skb m) = 64" "length (tx_bounce_alloc m) = 64" using assms(3) by (simp_all add: arrays_ok_def)
  show "tx_filled m'"
    using assms(1) slots new len by (auto simp: tx_filled_def assms(4-7) eth_next nth_list_update)
  have "tx_skb m' ! i = tx_skb m ! i" if "i \<in> set (tx_slots m')" for i
    using that new by (metis assms(4) nth_list_update_neq)
  then show "tx_frames m = the (tx_skb m ! ?c) # tx_frames m'" by (simp add: tx_frames_def slots)
qed

context eth_device
begin

definition tx_ok :: "'d ap_eth_priv \<Rightarrow> bool" where
  "tx_ok m \<longleftrightarrow> tx_filled m \<and> tx_hw (view (hw m)) (unat (tx_clean m)) (unat (tx_prod m))"

definition view_same :: "'d ap_eth_priv \<Rightarrow> 'd ap_eth_priv \<Rightarrow> bool" where
  "view_same m m' \<longleftrightarrow> v_head (view (hw m')) = v_head (view (hw m)) \<and> v_tail (view (hw m')) = v_tail (view (hw m)) \<and>
     v_count (view (hw m')) = v_count (view (hw m)) \<and> v_busy (view (hw m')) = v_busy (view (hw m)) \<and>
     v_status (view (hw m')) Rx = v_status (view (hw m)) Rx"

lemma readl_view:
  assumes "ap_eth_readl H reg m = (v, m')"
  shows "reg \<noteq> AP_ETH_REG_STATUS \<Longrightarrow> view (hw m') = view (hw m)" "reg = AP_ETH_REG_TX_HEAD \<Longrightarrow> v = of_nat (v_head (view (hw m)))"
  using assms rd_view [of reg "hw m"] rd_head [of "hw m"] by (auto simp: ap_eth_readl_def split: prod.splits)

lemma writel_view: "view (hw (ap_eth_writel H reg v m)) = v_write reg v (view (hw m))"
  by (simp add: ap_eth_writel_def wr_view)

lemma tx_ok_same: "tx_ok m \<Longrightarrow> tx_same m m' \<Longrightarrow> view (hw m') = view (hw m) \<Longrightarrow> tx_ok m'"
  by (simp add: tx_ok_def tx_filled_def tx_slots_def same_defs)

lemma reclaim_loop_ok:
  "acct R m \<Longrightarrow> tx_ok m \<Longrightarrow> h = v_head (view (hw m)) \<Longrightarrow>
   \<exists>m' freed. tx_reclaim_loop H (of_nat h) m = Some m' \<and> acct R m' \<and> tx_ok m' \<and> tx_clean m' = of_nat h \<and>
     tx_prod m' = tx_prod m \<and> view_same m m' \<and> rest_same m m' \<and> queue_stopped m' = queue_stopped m \<and>
     tx_frames m = freed @ tx_frames m'"
proof (induction "ring_dist 64 (unat (tx_clean m)) h" arbitrary: m)
  case 0
  have lt: "unat (tx_clean m) < 64" "h < 64" using 0(3,4) by (simp_all add: tx_ok_def tx_filled_def tx_hw_def)
  then have "unat (tx_clean m) = h" using 0(1) ring_dist_eq_0_iff [of "unat (tx_clean m)" 64 h] by simp
  then have "tx_clean m = of_nat h" using lt(2) by (simp add: word_unat_eq_iff ucast_head(2))
  then show ?case using 0 by (subst tx_reclaim_loop.simps) (auto simp: view_same_def rest_same_def same_defs)
next
  case (Suc n)
  let ?c = "unat (tx_clean m)" and ?p = "unat (tx_prod m)"
  have lt: "?c < 64" "h < 64" "?p < 64" using Suc.prems by (simp_all add: tx_ok_def tx_filled_def tx_hw_def)
  have ch: "?c \<noteq> h" using Suc.hyps(2) by auto
  then have ne: "tx_clean m \<noteq> of_nat h" using lt(2) ucast_head(2) by metis
  have dist: "ring_dist 64 ?c h \<le> ring_dist 64 ?c ?p" using Suc.prems by (simp add: tx_ok_def tx_hw_def)
  then have cp: "tx_clean m \<noteq> tx_prod m" using Suc.hyps(2) by auto
  have slots: "ring_slots 64 ?c h = ?c # ring_slots 64 (Suc ?c mod 64) h" by (rule ring_slots_Cons [OF lt(1,2) ch])
  then have "bit (v_status (view (hw m)) Tx ?c) 0" using Suc.prems by (simp add: tx_ok_def tx_hw_def)
  moreover obtain st m1 where rd: "desc_read H Tx ?c m = (st, m1)" by fastforce
  moreover have st: "st = v_status (view (hw m)) Tx ?c" "view (hw m1) = view (hw m)" "tx_same m m1" "rest_same m m1" "queue_stopped m1 = queue_stopped m"
    "tx_clean m1 = tx_clean m"
    using rd desc_rd_status [OF lt(1), of Tx "hw m"] desc_rd_view [of Tx ?c "hw m"]
    by (auto simp: desc_read_def rest_same_def same_defs split: prod.splits)
  ultimately have finished: "st AND 1 \<noteq> 0" using and_exp_eq_0_iff [of st 0] by simp
  have m1: "acct R m1" "tx_ok m1" using Suc.prems(1,2) st rd tx_ok_same [OF Suc.prems(2) st(3,2)]
    by (auto simp: desc_read_def acct_other split: prod.splits)
  have "?c \<in> set (tx_slots m1)" using ring_slots_Cons [OF lt(1,3)] cp st(3) by (simp add: tx_slots_def same_defs word_unat_eq_iff)
  then obtain s b where s: "tx_skb m1 ! ?c = Some s" "tx_bounce_alloc m1 ! ?c = Some b"
    using m1(2) lt(1) by (auto simp: tx_ok_def tx_filled_def)
  define m2 where "m2 = tx_reclaim_slot H st s m1"
  have c1: "unat (tx_clean m1) < 64" "tx_skb m1 ! unat (tx_clean m1) = Some s" "tx_bounce_alloc m1 ! unat (tx_clean m1) = Some b"
    using lt(1) s st(6) by simp_all
  note r = reclaim_slot_acct [OF m1(1) c1 m2_def]
  have cp1: "tx_clean m1 \<noteq> tx_prod m1" using cp st(3) by (simp add: same_defs)
  have f1: "tx_filled m1" using m1(2) by (simp add: tx_ok_def)
  note pop = filled_pop [OF f1 cp1 arrays_acct [OF m1(1)] r(2-5)]
  have view2: "view (hw m2) = v_set_status Tx ?c 0 (view (hw m))" using status_wr_view [OF lt(1), of Tx 0 "hw m1"] st(2,6) r(8) by simp
  have c2: "unat (tx_clean m2) = Suc ?c mod 64" using r(5) st(6) by (simp add: eth_next)
  have d2: "Suc (ring_dist 64 (Suc ?c mod 64) h) = ring_dist 64 ?c h" "Suc (ring_dist 64 (Suc ?c mod 64) ?p) = ring_dist 64 ?c ?p"
    using ring_dist_Suc_tail [OF lt(1,2) ch] ring_dist_Suc_tail [OF lt(1,3)] cp by (simp_all add: word_unat_eq_iff)
  have "?c \<notin> set (ring_slots 64 (Suc ?c mod 64) h)" using ring_slots_distinct [of 64 ?c h] slots by simp
  then have "tx_hw (view (hw m2)) (unat (tx_clean m2)) (unat (tx_prod m2))"
    using Suc.prems(2,3) dist d2 slots st(3,6) r(4) unfolding view2 c2
    by (auto simp: tx_ok_def tx_hw_def same_defs)
  then have "tx_ok m2" using pop(1) by (simp add: tx_ok_def)
  moreover have "n = ring_dist 64 (unat (tx_clean m2)) h" using d2(1) Suc.hyps(2) c2 by simp
  moreover have "h = v_head (view (hw m2))" using view2 Suc.prems(3) by simp
  ultimately obtain m' freed where ih: "tx_reclaim_loop H (of_nat h) m2 = Some m'" "acct R m'" "tx_ok m'" "tx_clean m' = of_nat h"
    "tx_prod m' = tx_prod m2" "view_same m2 m'" "rest_same m2 m'" "queue_stopped m' = queue_stopped m2" "tx_frames m2 = freed @ tx_frames m'"
    using Suc.hyps(1) [of m2] r(1) by blast
  have "tx_reclaim_loop H (of_nat h) m = tx_reclaim_loop H (of_nat h) m2"
    using ne rd finished s st(6) by (subst tx_reclaim_loop.simps) (simp add: m2_def)
  moreover have "tx_frames m = tx_frames m1" using st(3) by (simp add: tx_frames_def tx_slots_def same_defs)
  then have "tx_frames m = (s # freed) @ tx_frames m'" using pop(3) ih(9) s(1) st(6) by simp
  moreover have "view_same m m'" using ih(6) view2 by (simp add: view_same_def)
  moreover have "rest_same m1 m2" using r(6,7,10) by (simp add: rest_same_def)
  then have "rest_same m m'" using rest_trans st(4) ih(7) by blast
  moreover have "tx_prod m' = tx_prod m" "queue_stopped m' = queue_stopped m" using ih(5,8) r(4,9) st(3,5) by (simp_all add: same_defs)
  ultimately show ?case using ih(1-4) by metis
qed

lemma same_view_same: "tx_same m m' \<Longrightarrow> view (hw m') = view (hw m) \<Longrightarrow> tx_frames m' = tx_frames m \<and> view_same m m'"
  by (simp add: tx_frames_def tx_slots_def same_defs view_same_def)

lemma view_trans: "view_same a b \<Longrightarrow> view_same b c \<Longrightarrow> view_same a c"
  by (simp add: view_same_def)

lemma readl_all:
  assumes "ap_eth_readl H reg m = (v, m')" "reg \<noteq> AP_ETH_REG_STATUS"
  shows "tx_same m m'" "rest_same m m'" "view (hw m') = view (hw m)" "queue_stopped m' = queue_stopped m" "acct R m \<Longrightarrow> acct R m'"
  using readl_same [OF assms(1), of R] readl_view(1) [OF assms] by (simp_all add: rest_same_def same_slots_def)

lemma reclaim_ok:
  assumes "acct R m" "tx_ok m"
  shows "\<exists>m' freed. ap_eth_tx_reclaim H m = Some m' \<and> acct R m' \<and> tx_ok m' \<and> tx_clean m' = of_nat (v_head (view (hw m))) \<and>
     tx_prod m' = tx_prod m \<and> view_same m m' \<and> rest_same m m' \<and> tx_frames m = freed @ tx_frames m'"
proof -
  let ?h = "v_head (view (hw m))"
  have h: "?h < 64" using assms(2) by (simp add: tx_ok_def tx_hw_def)
  obtain m1 where rd: "ap_eth_readl H AP_ETH_REG_TX_HEAD m = (of_nat ?h, m1)"
    using readl_view(2) [of AP_ETH_REG_TX_HEAD m] by (metis surj_pair)
  note r = readl_all [OF rd, simplified]
  have m1: "tx_ok m1" "tx_frames m1 = tx_frames m" "view_same m m1"
    using tx_ok_same [OF assms(2) r(1,3)] same_view_same [OF r(1,3)] by simp_all
  have h1: "?h = v_head (view (hw m1))" using r(3) by simp
  obtain m2 freed where loop: "tx_reclaim_loop H (of_nat ?h) m1 = Some m2" and m2: "acct R m2" "tx_ok m2" "tx_clean m2 = of_nat ?h"
    "tx_prod m2 = tx_prod m1" "view_same m1 m2" "rest_same m1 m2" "tx_frames m1 = freed @ tx_frames m2"
    using reclaim_loop_ok [OF r(5) [OF assms(1)] m1(1) h1] by blast
  obtain v m3 where rd2: "ap_eth_readl H AP_ETH_REG_TX_HEAD m2 = (v, m3)" by fastforce
  note r2 = readl_all [OF rd2, simplified]
  define m4 where "m4 = (if queue_stopped m2 then if \<not> ap_eth_tx_ring_full m3 (ucast v) then netif_wake_queue m3 else m3 else m2)"
  have "ap_eth_tx_reclaim H m = Some m4"
    using rd loop rd2 ucast_head(1) [OF h] by (simp add: ap_eth_tx_reclaim_def m4_def)
  moreover have "tx_same m2 m4" "rest_same m2 m4" "view (hw m4) = view (hw m2)" "acct R m4"
    using r2(1-3) r2(5) [OF m2(1)] m2(1)
    by (simp_all add: m4_def netif_wake_queue_def same_defs rest_same_def acct_other)
  moreover from this have "tx_ok m4" "tx_frames m4 = tx_frames m2" "view_same m2 m4"
    using tx_ok_same [OF m2(2)] same_view_same by blast+
  moreover have "tx_clean m4 = of_nat ?h" "tx_prod m4 = tx_prod m"
    using \<open>tx_same m2 m4\<close> m2(3,4) r(1) by (simp_all add: same_defs)
  moreover have "view_same m m4" "rest_same m m4" "tx_frames m = freed @ tx_frames m4"
    using m1 m2 r(2) \<open>rest_same m2 m4\<close> \<open>view_same m2 m4\<close> \<open>tx_frames m4 = tx_frames m2\<close> view_trans rest_trans by metis+
  ultimately show ?thesis by blast
qed

lemma publish_ok:
  assumes "acct (add_mset (Mapping dma (skb_len (skbuff m s)) DMA_TO_DEVICE) (add_mset (Mem a) (add_mset (Skb s) R))) m"
    and "tx_ok m" "ap_eth_ring_next (tx_prod m) \<noteq> tx_clean m"
  defines "m' \<equiv> tx_publish H s a dma m"
  shows "acct R m' \<and> tx_ok m' \<and> tx_frames m' = tx_frames m @ [s] \<and> tx_prod m' = ap_eth_ring_next (tx_prod m) \<and>
    rest_same m m' \<and> queue_stopped m' = queue_stopped m \<and> v_status (view (hw m')) Rx = v_status (view (hw m)) Rx"
proof -
  let ?p = "unat (tx_prod m)" and ?c = "unat (tx_clean m)" and ?d = "ap_eth_desc_of dma (ucast (skb_len (skbuff m s)))"
  have ok: "tx_filled m" "tx_hw (view (hw m)) ?c ?p" using assms(2) by (simp_all add: tx_ok_def)
  have lt: "?c < 64" "?p < 64" using ok(1) by (simp_all add: tx_filled_def)
  have next_prod: "Suc ?p mod 64 \<noteq> ?c" using assms(3) by (simp add: word_unat_eq_iff eth_next)
  have slots: "ring_slots 64 ?c (Suc ?p mod 64) = tx_slots m @ [?p]" using ring_slots_snoc [OF lt next_prod] by (simp add: tx_slots_def)
  then have free: "?p \<notin> set (tx_slots m)" using ring_slots_distinct [of 64 ?c "Suc ?p mod 64"] by simp
  then have none: "tx_skb m ! ?p = None" "tx_bounce_alloc m ! ?p = None" 
    using conjunct2 [OF conjunct2 [OF ok(1) [unfolded tx_filled_def]], rule_format, OF lt(2)] free by auto
  let ?m1 = "m\<lparr>tx_skb := (tx_skb m)[?p := Some s], tx_bounce_alloc := (tx_bounce_alloc m)[?p := Some a],
    tx_bounce := (tx_bounce m)[?p := Some (PTR_ALIGN8 a)], tx_dma := (tx_dma m)[?p := dma]\<rparr>"
  have "acct R ?m1" by (rule tx_insert [OF assms(1) lt(2) none])
  define m2 where "m2 = call (Desc_write Tx ?p ?d) (?m1\<lparr>hw := desc_wr H Tx ?p ?d (hw m)\<rparr>)"
  define m3 where "m3 = call Dma_wmb (m2\<lparr>tx_prod := ap_eth_ring_next (tx_prod m)\<rparr>)"
  have m': "m' = ap_eth_writel H AP_ETH_REG_TX_DOORBELL 1 (ap_eth_writel H AP_ETH_REG_TX_TAIL (ucast (ap_eth_ring_next (tx_prod m))) m3)"
    by (simp add: m'_def tx_publish_def Let_def ap_eth_desc_set_def m2_def m3_def)
  have "acct R m2" unfolding m2_def by (rule acct_other) (simp_all add: \<open>acct R ?m1\<close>)
  then have "acct R m3" unfolding m3_def by (intro acct_other) simp_all
  then have "acct R m'" unfolding m' by (intro acct_write)
  moreover have m3: "tx_skb m3 = (tx_skb m)[?p := Some s]" "tx_bounce_alloc m3 = (tx_bounce_alloc m)[?p := Some a]"
    "tx_prod m3 = ap_eth_ring_next (tx_prod m)" "tx_clean m3 = tx_clean m" "rest_same m m3" "queue_stopped m3 = queue_stopped m"
    "hw m3 = desc_wr H Tx ?p ?d (hw m)"
    by (simp_all add: m3_def m2_def rest_same_def same_defs)
  moreover have fields: "tx_skb m' = (tx_skb m)[?p := Some s]" "tx_bounce_alloc m' = (tx_bounce_alloc m)[?p := Some a]"
    "tx_prod m' = ap_eth_ring_next (tx_prod m)" "tx_clean m' = tx_clean m" "rest_same m m'" "queue_stopped m' = queue_stopped m"
    "view (hw m') = (v_set_status Tx ?p 0 (view (hw m)))\<lparr>v_tail := Suc ?p mod 64\<rparr>"
    using m3 desc_wr_view [OF lt(2), of Tx ?d "hw m"]
    by (simp_all add: m' ap_eth_writel_def rest_same_def same_defs wr_view v_write_def ap_eth_desc_of_def eth_next)
  have len: "length (tx_skb m) = 64" "length (tx_bounce_alloc m) = 64" using assms(1) by (simp_all add: acct_def arrays_ok_def)
  have slots': "tx_slots m' = tx_slots m @ [?p]" using slots by (simp add: tx_slots_def fields eth_next)
  have "tx_filled m'" using ok(1) len lt by (auto simp: tx_filled_def slots' fields(1-4) eth_next nth_list_update)
  moreover have "tx_hw (view (hw m')) ?c (Suc ?p mod 64)"
  proof -
    have "?p \<notin> set (ring_slots 64 ?c (v_head (view (hw m))))"
    proof -
      have "ring_dist 64 ?c (v_head (view (hw m))) \<le> ring_dist 64 ?c ?p" using ok(2) by (simp add: tx_hw_def)
      then have "set (ring_slots 64 ?c (v_head (view (hw m)))) \<subseteq> set (tx_slots m)" by (auto simp: ring_slots_def tx_slots_def)
      then show ?thesis using free by blast
    qed
    then show ?thesis using ok(2) ring_dist_Suc_head [OF lt next_prod] by (auto simp: tx_hw_def fields(7))
  qed
  then have "tx_ok m'" using \<open>tx_filled m'\<close> by (simp add: tx_ok_def fields(3,4) eth_next)
  moreover have "map (\<lambda>i. the (tx_skb m' ! i)) (tx_slots m) = map (\<lambda>i. the (tx_skb m ! i)) (tx_slots m)"
    using free by (intro map_cong refl) (metis fields(1) nth_list_update_neq)
  then have "tx_frames m' = tx_frames m @ [s]" using len lt by (simp add: tx_frames_def slots' fields(1))
  ultimately show ?thesis using fields(3,5,6,7) by simp
qed

text \<open>What happens to a handed buffer: sent (it is in the ring), dropped (freed), or left to the stack.\<close>

lemma enqueue_ok:
  assumes "acct (add_mset (Mapping dma (skb_len (skbuff m s)) DMA_TO_DEVICE) (add_mset (Mem a) (add_mset (Skb s) R))) m"
    and "tx_ok m"
  shows "\<exists>r m' freed. tx_enqueue H s a dma m = Some (r, m') \<and> tx_ok m' \<and> rest_same m m' \<and>
    v_status (view (hw m')) Rx = v_status (view (hw m)) Rx \<and>
    (case r of NETDEV_TX_OK \<Rightarrow> acct R m' \<and> tx_frames m @ [s] = freed @ tx_frames m' \<and> tx_prod m' = ap_eth_ring_next (tx_prod m)
     | NETDEV_TX_BUSY \<Rightarrow> acct (add_mset (Skb s) R) m' \<and> tx_frames m = freed @ tx_frames m' \<and> tx_prod m' = tx_prod m)"
proof -
  let ?R = "add_mset (Mapping dma (skb_len (skbuff m s)) DMA_TO_DEVICE) (add_mset (Mem a) (add_mset (Skb s) R))"
  let ?m0 = "call Spin_lock_irqsave m"
  have m0: "acct ?R ?m0" "tx_ok ?m0" "tx_frames ?m0 = tx_frames m" "rest_same m ?m0" "view_same m ?m0"
    using acct_other [OF assms(1)] tx_ok_same [OF assms(2) same_call(1)] same_view_same [OF same_call(1)]
    by (simp_all add: rest_same_def same_call)
  obtain m1 freed where rec: "ap_eth_tx_reclaim H ?m0 = Some m1" and m1: "acct ?R m1" "tx_ok m1"
    "tx_clean m1 = of_nat (v_head (view (hw ?m0)))" "tx_prod m1 = tx_prod m" "view_same ?m0 m1" "rest_same ?m0 m1" "tx_frames m = freed @ tx_frames m1"
    using reclaim_ok [OF m0(1,2)] m0(3) by auto
  have head: "tx_clean m1 = of_nat (v_head (view (hw m1)))" "v_head (view (hw m1)) < 64"
    using m1(2,3,5) by (simp_all add: view_same_def tx_ok_def tx_hw_def)
  obtain m2 where rd: "ap_eth_readl H AP_ETH_REG_TX_HEAD m1 = (of_nat (v_head (view (hw m1))), m2)"
    using readl_view(2) [of AP_ETH_REG_TX_HEAD m1] by (metis surj_pair)
  note r = readl_all [OF rd, simplified]
  have m2: "acct ?R m2" "tx_ok m2" "tx_frames m2 = tx_frames m1" "skbuff m2 = skbuff m" "tx_clean m2 = tx_clean m1" "tx_prod m2 = tx_prod m"
    "rest_same m m2" "v_status (view (hw m2)) Rx = v_status (view (hw m)) Rx"
    using r(5) [OF m1(1)] tx_ok_same [OF m1(2) r(1,3)] same_view_same [OF r(1,3)] r m1 m0(4,5)
    by (simp_all add: rest_same_def same_defs view_same_def)
  have full: "ap_eth_tx_ring_full m2 (ucast (of_nat (v_head (view (hw m1))) :: u32)) \<longleftrightarrow> ap_eth_ring_next (tx_prod m2) = tx_clean m2"
    using head ucast_head(1) [OF head(2)] m2(5) by (simp add: ap_eth_tx_ring_full_def)
  show ?thesis
  proof (cases "ap_eth_ring_next (tx_prod m2) = tx_clean m2")
    case True
    define m3 where "m3 = call Spin_unlock_irqrestore (netif_stop_queue m2)"
    define m4 where "m4 = call (Kfree a) (call (Dma_unmap_single dma (skb_len (skbuff m3 s)) DMA_TO_DEVICE) m3)"
    have enq: "tx_enqueue H s a dma m = Some (NETDEV_TX_BUSY, m4)"
      using rec rd full True by (simp add: tx_enqueue_def m3_def [symmetric] m4_def kfree_def Let_def)
    have "acct ?R m3" "skbuff m3 = skbuff m" using m2(1,4) by (simp_all add: m3_def netif_stop_queue_def acct_other)
    then have "acct (add_mset (Skb s) R) m4"
      unfolding m4_def by (intro acct_give [of "Mem a"] acct_give [of "Mapping dma (skb_len (skbuff m s)) DMA_TO_DEVICE"]) simp_all
    moreover have "tx_same m2 m4" "rest_same m2 m4" "view (hw m4) = view (hw m2)"
      by (simp_all add: m4_def m3_def netif_stop_queue_def same_defs rest_same_def)
    then have "tx_ok m4" "tx_frames m4 = tx_frames m1" "rest_same m m4" "tx_prod m4 = tx_prod m" "v_status (view (hw m4)) Rx = v_status (view (hw m)) Rx"
      using tx_ok_same [OF m2(2)] same_view_same [of m2 m4] m2 rest_trans [of m m2 m4] by (auto simp: same_defs)
    ultimately show ?thesis using enq m1(7) by auto
  next
    case False
    have "acct (add_mset (Mapping dma (skb_len (skbuff m2 s)) DMA_TO_DEVICE) (add_mset (Mem a) (add_mset (Skb s) R))) m2"
      using m2(1,4) by simp
    note p = publish_ok [OF this m2(2) False]
    let ?m3 = "tx_publish H s a dma m2"
    obtain v m4 where rd4: "ap_eth_readl H AP_ETH_REG_TX_HEAD ?m3 = (v, m4)" by fastforce
    note r4 = readl_all [OF rd4, simplified]
    define m5 where "m5 = call Spin_unlock_irqrestore (if ap_eth_tx_ring_full m4 (ucast v) then netif_stop_queue m4 else m4)"
    have enq: "tx_enqueue H s a dma m = Some (NETDEV_TX_OK, m5)"
      using rec rd full False rd4 by (simp add: tx_enqueue_def m5_def Let_def)
    have "acct R m4" using r4(5) p by blast
    then have acct5: "acct R m5" by (simp add: m5_def netif_stop_queue_def acct_other)
    have s5: "tx_same ?m3 m5" "rest_same ?m3 m5" "view (hw m5) = view (hw ?m3)"
      using r4 by (simp_all add: m5_def netif_stop_queue_def same_defs rest_same_def)
    have "tx_ok m5" using tx_ok_same [OF _ s5(1,3)] p by blast
    moreover have "tx_frames m5 = tx_frames m1 @ [s]" using same_view_same [OF s5(1,3)] p m2(3) by simp
    moreover have "rest_same m m5" using p s5(2) m2(7) rest_trans by blast
    moreover have "tx_prod m5 = ap_eth_ring_next (tx_prod m)" using s5(1) p m2(6) by (simp add: same_defs)
    moreover have "v_status (view (hw m5)) Rx = v_status (view (hw m)) Rx" using s5(3) p m2(8) by simp
    ultimately show ?thesis using enq acct5 m1(7) by auto
  qed
qed

lemma xmit_ok:
  assumes "acct (add_mset (Skb s) R) m" "tx_ok m"
  shows "\<exists>r m' freed. ap_eth_start_xmit H K s m = Some (r, m') \<and> tx_ok m' \<and> rest_same m m' \<and>
    v_status (view (hw m')) Rx = v_status (view (hw m)) Rx \<and>
    acct (case r of NETDEV_TX_OK \<Rightarrow> R | NETDEV_TX_BUSY \<Rightarrow> add_mset (Skb s) R) m' \<and>
    tx_frames m @ (if tx_prod m' = tx_prod m then [] else [s]) = freed @ tx_frames m' \<and>
    (r = NETDEV_TX_BUSY \<longrightarrow> tx_prod m' = tx_prod m)"
proof -
  let ?len = "skb_len (skbuff m s)" and ?R = "add_mset (Skb s) R"
  have simple: ?thesis if "ap_eth_start_xmit H K s m = Some (r, m')" "tx_same m m'" "rest_same m m'" "hw m' = hw m"
    "acct (case r of NETDEV_TX_OK \<Rightarrow> R | NETDEV_TX_BUSY \<Rightarrow> ?R) m'" for r m'
  proof -
    have "tx_ok m'" "tx_frames m' = tx_frames m" using tx_ok_same [OF assms(2) that(2)] same_view_same [OF that(2)] that(4) by simp_all
    moreover have "tx_prod m' = tx_prod m" using that(2) by (simp add: same_defs)
    ultimately show ?thesis using that by (intro exI [of _ r] exI [of _ m'] exI [of _ "[]"]) simp
  qed
  have drop: "acct ?R x \<Longrightarrow> acct R (tx_drop s x)" "tx_same x (tx_drop s x)" "rest_same x (tx_drop s x)" "hw (tx_drop s x) = hw x" for x :: "'d ap_eth_priv"
    by (auto simp: tx_drop_def dev_kfree_skb_any_def same_defs rest_same_def intro: acct_give)
  show ?thesis
  proof (cases "skb_nonlinear (skbuff m s) \<or> AP_ETH_TX_MAX_BYTES < ?len")
    case True
    then have "ap_eth_start_xmit H K s m = Some (NETDEV_TX_OK, tx_drop s m)" by (simp add: ap_eth_start_xmit_def)
    then show ?thesis by (rule simple) (simp_all add: drop assms(1))
  next
    case small: False
    show ?thesis
    proof (cases "k_kmalloc K (klog m)")
      case None
      have m1: "acct ?R (call (Kmalloc (?len + 7) None) m)" by (rule acct_other [OF assms(1)]) simp_all
      have "ap_eth_start_xmit H K s m = Some (NETDEV_TX_BUSY, call (Kmalloc (?len + 7) None) m)"
        using small None by (simp add: ap_eth_start_xmit_def Let_def)
      then show ?thesis by (rule simple) (simp_all add: same_defs rest_same_def m1)
    next
      case (Some a)
      let ?m1 = "call (Kmalloc (?len + 7) (Some a)) m"
      let ?m2 = "call (Memcpy (PTR_ALIGN8 a) (skb_data (skbuff m s)) ?len) ?m1"
      have "acct (add_mset (Mem a) ?R) ?m1" by (rule acct_take [OF assms(1)]) simp_all
      then have m2: "acct (add_mset (Mem a) ?R) ?m2" by (rule acct_other) simp_all
      define dma where "dma = k_dma_map K DMA_TO_DEVICE (klog ?m2)"
      let ?m3 = "call (Dma_map_single (PTR_ALIGN8 a) ?len DMA_TO_DEVICE dma) ?m2"
      have eq: "ap_eth_start_xmit H K s m = (case dma of None \<Rightarrow> Some (NETDEV_TX_OK, tx_drop s (call (Kfree a) ?m3))
         | Some d \<Rightarrow> if \<not> ap_eth_dma_addr_valid d 8 then Some (NETDEV_TX_OK, tx_drop s (call (Kfree a)
              (call (Dma_unmap_single d ?len DMA_TO_DEVICE) ?m3))) else tx_enqueue H s a d ?m3)"
        using small Some by (simp add: ap_eth_start_xmit_def Let_def dma_map_single_def dma_def kfree_def cong: option.case_cong if_cong)
      have same: "tx_same m (call c ?m3)" "rest_same m (call c ?m3)" "tx_same m ?m3" "rest_same m ?m3" for c
        by (simp_all add: same_defs rest_same_def)
      show ?thesis
      proof (cases dma)
        case None
        have "acct (add_mset (Mem a) ?R) ?m3" using None by (intro acct_other [OF m2]) simp_all
        then have m4: "acct ?R (call (Kfree a) ?m3)" by (rule acct_give) simp
        have "ap_eth_start_xmit H K s m = Some (NETDEV_TX_OK, tx_drop s (call (Kfree a) ?m3))" using eq None by simp
        then show ?thesis using drop [of "call (Kfree a) ?m3"] m4
          by (elim simple) (simp_all add: same_defs rest_same_def)
      next
        case (Some d)
        then have m3: "acct (add_mset (Mapping d ?len DMA_TO_DEVICE) (add_mset (Mem a) ?R)) ?m3" by (intro acct_take [OF m2]) simp_all
        show ?thesis
        proof (cases "ap_eth_dma_addr_valid d 8")
          case False
          let ?m4 = "call (Kfree a) (call (Dma_unmap_single d ?len DMA_TO_DEVICE) ?m3)"
          have m4: "acct ?R ?m4" by (intro acct_give [of "Mem a"] acct_give [OF m3]) simp_all
          have "ap_eth_start_xmit H K s m = Some (NETDEV_TX_OK, tx_drop s ?m4)" using eq Some False by simp
          then show ?thesis using drop [of ?m4] m4
            by (elim simple) (simp_all add: same_defs rest_same_def)
        next
          case True
          have ok3: "tx_ok ?m3" and eq3: "tx_frames ?m3 = tx_frames m" "view (hw ?m3) = view (hw m)" "tx_prod ?m3 = tx_prod m"
            using tx_ok_same [OF assms(2) same(3)] same_view_same [OF same(3)] by simp_all
          have acct3: "acct (add_mset (Mapping d (skb_len (skbuff ?m3 s)) DMA_TO_DEVICE) (add_mset (Mem a) (add_mset (Skb s) R))) ?m3"
            using m3 by simp
          obtain r m' freed where e: "tx_enqueue H s a d ?m3 = Some (r, m')" "tx_ok m'" "rest_same ?m3 m'"
            "v_status (view (hw m')) Rx = v_status (view (hw m)) Rx"
            "case r of NETDEV_TX_OK \<Rightarrow> acct R m' \<and> tx_frames m @ [s] = freed @ tx_frames m' \<and> tx_prod m' = ap_eth_ring_next (tx_prod m)
             | NETDEV_TX_BUSY \<Rightarrow> acct ?R m' \<and> tx_frames m = freed @ tx_frames m' \<and> tx_prod m' = tx_prod m"
            using enqueue_ok [OF acct3 ok3, unfolded eq3] by blast
          have "ap_eth_ring_next (tx_prod m) \<noteq> tx_prod m" using eth_ring.nxt_neq assms(2) by (simp add: tx_ok_def tx_filled_def)
          moreover have "ap_eth_start_xmit H K s m = Some (r, m')" using eq Some True e(1) by simp
          moreover have "rest_same m m'" using rest_trans [OF same(4) e(3)] .
          ultimately show ?thesis using e(2,4,5)
            by (intro exI [of _ r] exI [of _ m'] exI [of _ freed]) (cases r; simp)
        qed
      qed
    qed
  qed
qed

end

section \<open>Receiving\<close>

text \<open>A frame is good when the hardware reports no error and a length that fits the buffer.\<close>

definition rx_len :: "u64 \<Rightarrow> u16" where
  "rx_len status = ucast (drop_bit AP_ETH_DESC_ACTUAL_SHIFT (status AND AP_ETH_DESC_ACTUAL_MASK))"

definition rx_good :: "u64 \<Rightarrow> bool" where
  "rx_good status \<longleftrightarrow> status AND AP_ETH_DESC_ERROR = 0 \<and> rx_len status \<le> 2048"

definition rx_ok :: "'d ap_eth_priv \<Rightarrow> bool" where
  "rx_ok m \<longleftrightarrow> rx_filled m \<and> (\<forall>i<64. \<forall>s. rx_skb m ! i = Some s \<longrightarrow> skb_len (skbuff m s) = 0)"

lemma rx_take_ok:
  assumes "acct R m" "fresh_skbs K" "unat (rx_cons m) < 64" "rx_skb m ! unat (rx_cons m) = Some s" "skb_len (skbuff m s) = 0"
  shows "\<exists>repl m' rs d. rx_take K st m = Some (repl, m') \<and> acct (hold_skb repl R) m' \<and> tx_same m m' \<and> rings_same m m' \<and>
    hw m' = hw m \<and> rx_skb m' = (rx_skb m)[unat (rx_cons m) := None] \<and> rx_cons m' = rx_cons m \<and> rx_prod m' = rx_prod m \<and>
    (\<forall>q. q \<noteq> s \<longrightarrow> repl \<noteq> Some q \<longrightarrow> skbuff m' q = skbuff m q) \<and> (\<forall>q. repl = Some q \<longrightarrow> skb_len (skbuff m' q) = 0) \<and>
    received (klog m') = received (klog m) @ rs \<and> rx_dropped (ndev_stats m') = rx_dropped (ndev_stats m) + of_nat d \<and>
    (rs = [] \<and> (rx_good st \<longrightarrow> d = 1) \<and> d \<le> 1 \<or> rs = [(s, ucast (rx_len st))] \<and> rx_good st \<and> d = 0)"
proof -
  let ?c = "unat (rx_cons m)"
  let ?m1 = "m\<lparr>rx_skb := (rx_skb m)[?c := None]\<rparr>"
  let ?m2 = "call (Dma_unmap_single (rx_dma m ! ?c) AP_ETH_RX_BUF_BYTES DMA_FROM_DEVICE) ?m1"
  have m2: "acct (add_mset (Skb s) R) ?m2" by (rule acct_give [OF rx_remove [OF assms(1,3,4)]]) simp
  obtain repl m3 where alloc: "ap_eth_alloc_rx_skb K ?m2 = (repl, m3)" by fastforce
  note a = alloc_rx_acct [OF m2 assms(2) alloc]
  have f: "tx_same m m3" "rings_same m m3" "hw m3 = hw m" "rx_skb m3 = (rx_skb m)[?c := None]" "rx_cons m3 = rx_cons m"
    "rx_prod m3 = rx_prod m" "received (klog m3) = received (klog m)" "ndev_stats m3 = ndev_stats m"
    using a(2-5,9,10) by (simp_all add: same_defs)
  have repl_s: "repl \<noteq> Some s"
  proof
    assume "repl = Some s"
    then have "acct (add_mset (Skb s) (add_mset (Skb s) R)) m3" using a(1) by simp
    then have "count (priv_res m3 + add_mset (Skb s) (add_mset (Skb s) R)) (Skb s) \<le> 1" unfolding acct_def by blast
    then show False by simp
  qed
  have s3: "skbuff m3 s = skbuff m s" "\<And>q. repl \<noteq> Some q \<Longrightarrow> skbuff m3 q = skbuff m q" using a(7) repl_s by simp_all
  have acct3: "acct (add_mset (Skb s) (hold_skb repl R)) m3" using a(1) by (cases repl) (simp_all add: add_mset_commute)
  have rx_take_eq: "rx_take K st m = (if \<not> rx_good st then Some (repl, call (Dev_kfree_skb_any s) (m3\<lparr>ndev_stats := stats_add rx_errors_update 1 (ndev_stats m3)\<rparr>))
     else case repl of
       None \<Rightarrow> Some (Some s, skb_trim s 0 (m3\<lparr>ndev_stats := stats_add rx_dropped_update 1 (ndev_stats m3)\<rparr>))
     | Some r \<Rightarrow> (let m4 = (skb_put s (ucast (rx_len st)) m3)\<lparr>ndev_stats :=
           stats_add rx_bytes_update (ucast (rx_len st)) (stats_add rx_packets_update 1 (ndev_stats (skb_put s (ucast (rx_len st)) m3)))\<rparr>
         in Some (Some r, call (Napi_gro_receive s (skb_len (skbuff m4 s))) m4)))"
    using alloc assms(4)
    by (simp add: rx_take_def Let_def rx_good_def rx_len_def dev_kfree_skb_any_def not_le cong: option.case_cong if_cong)
  show ?thesis
  proof (cases "rx_good st")
    case False
    let ?m4 = "call (Dev_kfree_skb_any s) (m3\<lparr>ndev_stats := stats_add rx_errors_update 1 (ndev_stats m3)\<rparr>)"
    have "acct (hold_skb repl R) ?m4" using acct3 by (intro acct_give [of "Skb s"]) simp_all
    then show ?thesis using False rx_take_eq f s3 a(8)
      by (intro exI [of _ repl] exI [of _ ?m4] exI [of _ "[]"] exI [of _ 0]) (simp add: same_defs stats_add_def)
  next
    case True
    show ?thesis
    proof (cases repl)
      case None
      let ?m4 = "m3\<lparr>ndev_stats := stats_add rx_dropped_update 1 (ndev_stats m3)\<rparr>"
      have "skb_len (skbuff ?m4 s) = 0" using s3(1) assms(5) by simp
      then have "skb_trim s 0 ?m4 = ?m4" by (simp add: skb_trim_def)
      then have "rx_take K st m = Some (Some s, ?m4)" using True None rx_take_eq by simp
      then show ?thesis using True None f s3 a(8) acct3 assms(5)
        by (intro exI [of _ "Some s"] exI [of _ ?m4] exI [of _ "[]"] exI [of _ 1]) (simp add: same_defs stats_add_def)
    next
      case (Some r)
      let ?st = "stats_add rx_bytes_update (ucast (rx_len st)) (stats_add rx_packets_update 1 (ndev_stats m3))"
      define m4 where "m4 = (skb_put s (ucast (rx_len st)) m3)\<lparr>ndev_stats := ?st\<rparr>"
      have "Skb s \<notin># priv_res m3" by (rule acct_skb_out [OF acct3]) simp
      then have "acct (add_mset (Skb s) (hold_skb repl R)) m4" using acct_skbuff [OF acct3] by (simp add: m4_def skb_put_def)
      then have acct5: "acct (hold_skb repl R) (call (Napi_gro_receive s (ucast (rx_len st))) m4)" by (rule acct_give) simp
      have m4: "skb_len (skbuff m4 s) = ucast (rx_len st)" "\<And>q. q \<noteq> s \<Longrightarrow> skbuff m4 q = skbuff m3 q"
        using s3(1) assms(5) by (simp_all add: m4_def skb_put_def)
      have "rx_take K st m = Some (Some r, call (Napi_gro_receive s (ucast (rx_len st))) m4)"
        using True Some rx_take_eq m4(1) by (simp add: Let_def m4_def skb_put_def)
      moreover have "tx_same m m4" "rings_same m m4" "hw m4 = hw m" "rx_skb m4 = (rx_skb m)[?c := None]" "rx_cons m4 = rx_cons m"
        "rx_prod m4 = rx_prod m" "received (klog m4) = received (klog m)" "rx_dropped (ndev_stats m4) = rx_dropped (ndev_stats m)"
        using f by (simp_all add: m4_def skb_put_def same_defs stats_add_def)
      moreover have "\<forall>q. q \<noteq> s \<longrightarrow> Some r \<noteq> Some q \<longrightarrow> skbuff m4 q = skbuff m q" "\<forall>q. Some r = Some q \<longrightarrow> skb_len (skbuff m4 q) = 0"
        using m4(2) s3(2) a(8) Some repl_s by auto
      ultimately show ?thesis using True Some acct5
        by (intro exI [of _ "Some r"] exI [of _ "call (Napi_gro_receive s (ucast (rx_len st))) m4"] exI [of _ "[(s, ucast (rx_len st))]"] exI [of _ 0])
          (simp add: same_defs)
    qed
  qed
qed

lemma rx_refill_ok:
  assumes "acct (hold_skb repl R) m" "fresh_skbs K" "unat (rx_prod m) < 64" "rx_skb m ! unat (rx_prod m) = None"
    "\<forall>q. repl = Some q \<longrightarrow> skb_len (skbuff m q) = 0"
    and "\<forall>i<64. \<forall>q. rx_skb m ! i = Some q \<longrightarrow> skb_len (skbuff m q) = 0"
    and refill: "rx_refill H K repl m = (ok, m')"
  shows "acct R m' \<and> tx_same m m' \<and> rings_same m m' \<and> received (klog m') = received (klog m) \<and>
    rx_cons m' = ap_eth_ring_next (rx_cons m) \<and> (\<forall>i<64. \<forall>q. rx_skb m' ! i = Some q \<longrightarrow> skb_len (skbuff m' q) = 0) \<and>
    (if ok then rx_prod m' = ap_eth_ring_next (rx_prod m) \<and> rx_dropped (ndev_stats m') = rx_dropped (ndev_stats m) \<and>
        (\<exists>r dma. rx_skb m' = (rx_skb m)[unat (rx_prod m) := Some r] \<and> hw m' = desc_wr H Rx (unat (rx_prod m)) (ap_eth_desc_of dma 2048) (hw m))
     else rx_prod m' = rx_prod m \<and> rx_skb m' = rx_skb m \<and> hw m' = bus_wr H AP_ETH_REG_CTRL 0 (hw m) \<and>
        rx_dropped (ndev_stats m') = rx_dropped (ndev_stats m) + 1)"
proof -
  obtain r1 m1 where get: "(case repl of None \<Rightarrow> ap_eth_alloc_rx_skb K m | Some r \<Rightarrow> (Some r, m)) = (r1, m1)" by fastforce
  have m1: "acct (hold_skb r1 R) m1" "tx_same m m1" "rx_same m m1" "rings_same m m1" "hw m1 = hw m" "ndev_stats m1 = ndev_stats m"
    "received (klog m1) = received (klog m)" "\<forall>q. r1 = Some q \<longrightarrow> skb_len (skbuff m1 q) = 0"
    "\<forall>i<64. \<forall>q. rx_skb m1 ! i = Some q \<longrightarrow> skb_len (skbuff m1 q) = 0"
  proof -
    have "acct (hold_skb r1 R) m1 \<and> tx_same m m1 \<and> rx_same m m1 \<and> rings_same m m1 \<and> hw m1 = hw m \<and> ndev_stats m1 = ndev_stats m \<and>
      received (klog m1) = received (klog m) \<and> (\<forall>q. r1 = Some q \<longrightarrow> skb_len (skbuff m1 q) = 0) \<and>
      (\<forall>i<64. \<forall>q. rx_skb m1 ! i = Some q \<longrightarrow> skb_len (skbuff m1 q) = 0)"
    proof (cases repl)
      case (Some r)
      then show ?thesis using get assms(1,5,6) by (auto simp: same_defs)
    next
      case None
      then have alloc: "ap_eth_alloc_rx_skb K m = (r1, m1)" "acct R m" using get assms(1) by simp_all
      note a = alloc_rx_acct [OF alloc(2) assms(2) alloc(1)]
      have "skb_len (skbuff m1 q) = 0" if "i < 64" "rx_skb m1 ! i = Some q" for i q
        using that a(3) a(7) [of q] a(8) [of q] assms(6) by (cases "r1 = Some q") (auto simp: rx_same_def)
      then show ?thesis using a by blast
    qed
    then show "acct (hold_skb r1 R) m1" "tx_same m m1" "rx_same m m1" "rings_same m m1" "hw m1 = hw m" "ndev_stats m1 = ndev_stats m"
      "received (klog m1) = received (klog m)" "\<forall>q. r1 = Some q \<longrightarrow> skb_len (skbuff m1 q) = 0"
      "\<forall>i<64. \<forall>q. rx_skb m1 ! i = Some q \<longrightarrow> skb_len (skbuff m1 q) = 0" by blast+
  qed
  have same1: "rx_skb m1 = rx_skb m" "rx_cons m1 = rx_cons m" "rx_prod m1 = rx_prod m" using m1(3) by (simp_all add: rx_same_def)
  obtain posted m2 where post: "(case r1 of None \<Rightarrow> (False, m1) | Some r \<Rightarrow> ap_eth_post_rx_buffer H K (unat (rx_prod m1)) r m1) = (posted, m2)"
    by fastforce
  have fail: "acct R m' \<and> tx_same m m' \<and> rings_same m m' \<and> received (klog m') = received (klog m) \<and> rx_skb m' = rx_skb m \<and>
      rx_cons m' = ap_eth_ring_next (rx_cons m) \<and> rx_prod m' = rx_prod m \<and> hw m' = bus_wr H AP_ETH_REG_CTRL 0 (hw m) \<and>
      rx_dropped (ndev_stats m') = rx_dropped (ndev_stats m) + 1 \<and> skbuff m' = skbuff m2"
    if "\<not> ok" "acct (hold_skb r1 R) m2" "tx_same m1 m2" "rings_same m1 m2" "received (klog m2) = received (klog m1)" "rx_skb m2 = rx_skb m1"
      "rx_cons m2 = rx_cons m1" "rx_prod m2 = rx_prod m1" "hw m2 = hw m1" "ndev_stats m2 = ndev_stats m1" "\<not> posted"
  proof -
    define m3 where "m3 = dev_kfree_skb_any r1 (m2\<lparr>ndev_stats := stats_add rx_dropped_update 1 (ndev_stats m2)\<rparr>)"
    have "acct R m3" using that(2) by (cases r1) (auto simp: m3_def dev_kfree_skb_any_def intro: acct_give)
    moreover have "m' = ap_eth_writel H AP_ETH_REG_CTRL 0 (m3\<lparr>rx_cons := ap_eth_ring_next (rx_cons m3)\<rparr>)"
      using refill get post that(11) by (simp add: rx_refill_def m3_def Let_def)
    moreover have "tx_same m m3" "rings_same m m3" "received (klog m3) = received (klog m)" "rx_skb m3 = rx_skb m" "rx_cons m3 = rx_cons m"
      "rx_prod m3 = rx_prod m" "hw m3 = hw m" "rx_dropped (ndev_stats m3) = rx_dropped (ndev_stats m) + 1" "skbuff m3 = skbuff m2"
      using that m1 by (cases r1; simp add: m3_def dev_kfree_skb_any_def same_defs stats_add_def)+
    ultimately show ?thesis by (simp add: acct_write ap_eth_writel_def same_defs acct_other)
  qed
  have ok_posted: "ok = posted" using refill get post by (auto simp: rx_refill_def Let_def split: if_splits prod.splits)
  show ?thesis
  proof (cases r1)
    case None
    then have "\<not> posted" "m2 = m1" using post by auto
    then show ?thesis using fail ok_posted m1 same1 None by (simp add: same_defs)
  next
    case (Some r)
    have p: "unat (rx_prod m1) < 64" "rx_skb m1 ! unat (rx_prod m1) = None" using assms(3,4) same1 by simp_all
    have "acct (add_mset (Skb r) R) m1" using m1(1) Some by simp
    moreover have post': "ap_eth_post_rx_buffer H K (unat (rx_prod m1)) r m1 = (posted, m2)" using post Some by simp
    ultimately have b: "acct (if posted then R else add_mset (Skb r) R) m2" "tx_same m1 m2" "rings_same m1 m2"
      "rx_skb m2 = (if posted then (rx_skb m1)[unat (rx_prod m1) := Some r] else rx_skb m1)" "rx_cons m2 = rx_cons m1" "rx_prod m2 = rx_prod m1"
      "\<exists>dma. hw m2 = (if posted then desc_wr H Rx (unat (rx_prod m1)) (ap_eth_desc_of dma 2048) (hw m1) else hw m1)"
      "skbuff m2 = skbuff m1" "ndev_stats m2 = ndev_stats m1" "received (klog m2) = received (klog m1)"
      using post_rx_acct [OF _ p post'] by blast+
    show ?thesis
    proof (cases posted)
      case False
      then show ?thesis using fail ok_posted b m1 same1 Some by (simp add: same_defs)
    next
      case True
      then have m': "m' = m2\<lparr>rx_cons := ap_eth_ring_next (rx_cons m2), rx_prod := ap_eth_ring_next (rx_prod m2)\<rparr>" and ok
        using refill get post by (auto simp: rx_refill_def Let_def)
      have "length (rx_skb m) = 64" using m1(1) same1(1) by (simp add: acct_def arrays_ok_def)
      then have "skb_len (skbuff m' q) = 0" if "i < 64" "rx_skb m' ! i = Some q" for i q
        using that b(4,8) True m1(8,9) Some same1 assms(3) by (auto simp: m' nth_list_update split: if_splits)
      then show ?thesis using b True m1 same1 \<open>ok\<close> by (auto simp: m' same_defs)
    qed
  qed
qed

lemma rx_slots_step:
  assumes "rx_filled m" "rx_cons m \<noteq> rx_prod m"
  shows "rx_slots m = unat (rx_cons m) # ring_slots 64 (Suc (unat (rx_cons m)) mod 64) (unat (rx_prod m))"
    "unat (rx_prod m) \<notin> set (rx_slots m)" "unat (rx_cons m) < 64" "unat (rx_prod m) < 64"
proof -
  show lt: "unat (rx_cons m) < 64" "unat (rx_prod m) < 64" using assms(1) by (simp_all add: rx_filled_def)
  show "rx_slots m = unat (rx_cons m) # ring_slots 64 (Suc (unat (rx_cons m)) mod 64) (unat (rx_prod m))"
    using ring_slots_Cons [OF lt] assms(2) by (simp add: rx_slots_def word_unat_eq_iff)
  show "unat (rx_prod m) \<notin> set (rx_slots m)"
  proof
    assume "unat (rx_prod m) \<in> set (rx_slots m)"
    then obtain k where k: "k < ring_dist 64 (unat (rx_cons m)) (unat (rx_prod m))" "unat (rx_prod m) = (unat (rx_cons m) + k) mod 64"
      by (auto simp: rx_slots_def ring_slots_def)
    then have "(unat (rx_cons m) + k) mod 64 = (unat (rx_cons m) + ring_dist 64 (unat (rx_cons m)) (unat (rx_prod m))) mod 64"
      using ring_slot_at_dist [OF lt] by simp
    from mod_add_cancel_nat [OF this] show False
      using k(1) ring_dist_less [of 64 "unat (rx_cons m)" "unat (rx_prod m)"] by simp
  qed
qed

text \<open>One frame taken and its slot's successor filled: the ring of buffers turns by one; or a buffer is lost.\<close>

lemma rx_turn:
  assumes "rx_filled m" "rx_cons m \<noteq> rx_prod m" "length (rx_skb m) = 64" "rx_cons m' = ap_eth_ring_next (rx_cons m)"
  shows "rx_skb m' = (rx_skb m)[unat (rx_cons m) := None, unat (rx_prod m) := Some r] \<Longrightarrow>
      rx_prod m' = ap_eth_ring_next (rx_prod m) \<Longrightarrow>
      rx_filled m' \<and> rx_slots m' = tl (rx_slots m) @ [unat (rx_prod m)] \<and> rx_cons m' \<noteq> rx_prod m'"
    "rx_skb m' = (rx_skb m)[unat (rx_cons m) := None] \<Longrightarrow> rx_prod m' = rx_prod m \<Longrightarrow>
      rx_filled m' \<and> rx_slots m' = tl (rx_slots m)"
proof -
  let ?c = "unat (rx_cons m)" and ?p = "unat (rx_prod m)"
  note s = rx_slots_step [OF assms(1,2)]
  have d: "distinct (rx_slots m)" by (simp add: rx_slots_def ring_slots_distinct)
  have cp: "?c \<noteq> ?p" using assms(2) by (simp add: word_unat_eq_iff)
  have c': "unat (rx_cons m') = Suc ?c mod 64" using assms(4) by (simp add: eth_next)
  have occ: "\<forall>i<64. rx_skb m ! i \<noteq> None \<longleftrightarrow> i \<in> set (rx_slots m)" using assms(1) by (simp add: rx_filled_def)
  {
    assume m': "rx_skb m' = (rx_skb m)[?c := None, ?p := Some r]" "rx_prod m' = ap_eth_ring_next (rx_prod m)"
    have "Suc ?p mod 64 \<noteq> Suc ?c mod 64" using cp s(3,4) by (auto simp: mod_Suc split: if_splits)
    then have slots: "rx_slots m' = tl (rx_slots m) @ [?p]"
      using ring_slots_snoc [of "Suc ?c mod 64" 64 ?p] s by (simp add: rx_slots_def c' m'(2) eth_next)
    have "rx_filled m'" using occ s d assms(3) cp
      by (auto simp: rx_filled_def slots m' c' eth_next nth_list_update)
    moreover have "rx_cons m' \<noteq> rx_prod m'" using \<open>Suc ?p mod 64 \<noteq> Suc ?c mod 64\<close> by (metis c' m'(2) eth_next)
    ultimately show "rx_filled m' \<and> rx_slots m' = tl (rx_slots m) @ [?p] \<and> rx_cons m' \<noteq> rx_prod m'" using slots by simp
  }
  {
    assume m': "rx_skb m' = (rx_skb m)[?c := None]" "rx_prod m' = rx_prod m"
    have slots: "rx_slots m' = tl (rx_slots m)" using s by (simp add: rx_slots_def c' m'(2))
    have "rx_filled m'" using occ s d assms(3)
      by (auto simp: rx_filled_def slots m' c' nth_list_update)
    then show "rx_filled m' \<and> rx_slots m' = tl (rx_slots m)" using slots by simp
  }
qed

text \<open>The frames in the first \<open>k\<close> of the given slots, as their descriptors describe them.\<close>

definition good_frames :: "(nat \<Rightarrow> u64) \<Rightarrow> u64 option list \<Rightarrow> nat list \<Rightarrow> (u64 \<times> u32) list" where
  "good_frames st skbs is = map (\<lambda>i. (the (skbs ! i), ucast (rx_len (st i)))) (filter (\<lambda>i. rx_good (st i)) is)"

lemma good_frames_cong: "(\<And>i. i \<in> set is \<Longrightarrow> st i = st' i \<and> skbs ! i = skbs' ! i) \<Longrightarrow> good_frames st skbs is = good_frames st' skbs' is"
  unfolding good_frames_def by (intro map_cong filter_cong) auto

lemma takeWhile_snoc_stop: "\<not> P x \<Longrightarrow> takeWhile P (xs @ [x]) = takeWhile P xs"
  by (induction xs) auto

definition tx_view_same :: "eth_view \<Rightarrow> eth_view \<Rightarrow> bool" where
  "tx_view_same w w' \<longleftrightarrow> v_head w' = v_head w \<and> v_tail w' = v_tail w \<and> v_count w' = v_count w \<and> v_busy w' = v_busy w \<and>
     v_status w' Tx = v_status w Tx"

lemma tx_view_trans: "tx_view_same a b \<Longrightarrow> tx_view_same b c \<Longrightarrow> tx_view_same a c"
  by (simp add: tx_view_same_def)

context eth_device
begin

lemma tx_ok_rx: "tx_ok m \<Longrightarrow> tx_same m m' \<Longrightarrow> tx_view_same (view (hw m)) (view (hw m')) \<Longrightarrow> tx_ok m'"
  by (simp add: tx_ok_def tx_filled_def tx_slots_def same_defs tx_hw_def tx_view_same_def)

lemma rx_one:
  assumes "fresh_skbs K" "acct R m" "rx_ok m" "rx_cons m \<noteq> rx_prod m"
  shows "\<exists>ok repl m1 m' rs d. rx_take K st m = Some (repl, m1) \<and> rx_refill H K repl m1 = (ok, m') \<and>
    acct R m' \<and> rx_ok m' \<and> tx_same m m' \<and> rings_same m m' \<and> tx_view_same (view (hw m)) (view (hw m')) \<and>
    received (klog m') = received (klog m) @ rs \<and> rx_dropped (ndev_stats m') = rx_dropped (ndev_stats m) + of_nat d \<and>
    subseq rs (if rx_good st then [(the (rx_skb m ! unat (rx_cons m)), ucast (rx_len st))] else []) \<and>
    (if rx_good st then 1 \<le> length rs + d else True) \<and>
    (if ok then d \<le> 1 \<and> rx_slots m' = tl (rx_slots m) @ [unat (rx_prod m)] \<and> rx_cons m' \<noteq> rx_prod m' \<and>
        v_status (view (hw m')) Rx = (v_status (view (hw m)) Rx)(unat (rx_prod m) := 0) \<and>
        (\<forall>i. i \<noteq> unat (rx_cons m) \<longrightarrow> i \<noteq> unat (rx_prod m) \<longrightarrow> rx_skb m' ! i = rx_skb m ! i)
     else d \<le> 2 \<and> rx_slots m' = tl (rx_slots m) \<and> 0 < d)"
proof -
  let ?c = "unat (rx_cons m)" and ?p = "unat (rx_prod m)"
  have filled: "rx_filled m" using assms(3) by (simp add: rx_ok_def)
  note s = rx_slots_step [OF filled assms(4)]
  have len: "length (rx_skb m) = 64" using assms(2) by (simp add: acct_def arrays_ok_def)
  have occ: "\<forall>i<64. rx_skb m ! i \<noteq> None \<longleftrightarrow> i \<in> set (rx_slots m)" using filled by (simp add: rx_filled_def)
  then obtain sk where sk: "rx_skb m ! ?c = Some sk" using s(1,3) by auto
  have empty: "\<And>i q. i < 64 \<Longrightarrow> rx_skb m ! i = Some q \<Longrightarrow> skb_len (skbuff m q) = 0" using assms(3) by (simp add: rx_ok_def)
  obtain repl m1 rs d where take: "rx_take K st m = Some (repl, m1)" and m1: "acct (hold_skb repl R) m1" "tx_same m m1" "rings_same m m1"
    "hw m1 = hw m" "rx_skb m1 = (rx_skb m)[?c := None]" "rx_cons m1 = rx_cons m" "rx_prod m1 = rx_prod m"
    "\<forall>q. q \<noteq> sk \<longrightarrow> repl \<noteq> Some q \<longrightarrow> skbuff m1 q = skbuff m q" "\<forall>q. repl = Some q \<longrightarrow> skb_len (skbuff m1 q) = 0"
    "received (klog m1) = received (klog m) @ rs" "rx_dropped (ndev_stats m1) = rx_dropped (ndev_stats m) + of_nat d"
    "rs = [] \<and> (rx_good st \<longrightarrow> d = 1) \<and> d \<le> 1 \<or> rs = [(sk, ucast (rx_len st))] \<and> rx_good st \<and> d = 0"
    using rx_take_ok [OF assms(2,1) s(3) sk empty [OF s(3) sk], of st] by blast
  have none: "rx_skb m1 ! unat (rx_prod m1) = None" "unat (rx_prod m1) < 64"
    using m1(5,7) s(2-4) occ len by (auto simp: nth_list_update)
  have empty1: "skb_len (skbuff m1 q) = 0" if "i < 64" "rx_skb m1 ! i = Some q" for i q
  proof (cases "repl = Some q")
    case True
    then show ?thesis using m1(9) by simp
  next
    case False
    have i: "i \<noteq> ?c" "rx_skb m ! i = Some q" using that m1(5) len s(3) by (auto simp: nth_list_update split: if_splits)
    have "q \<noteq> sk"
    proof
      assume "q = sk"
      have "Skb sk \<in># rx_slot_res m1 i" using that(2) \<open>q = sk\<close> by (simp add: rx_slot_res_def)
      moreover have "acct (add_mset (Skb sk) R) (call (Dma_unmap_single (rx_dma m ! ?c) 2048 DMA_FROM_DEVICE) (m\<lparr>rx_skb := (rx_skb m)[?c := None]\<rparr>))"
        by (rule acct_give [OF rx_remove [OF assms(2) s(3) sk]]) simp
      from acct_skb_out [OF this] have "Skb sk \<notin># priv_res (m\<lparr>rx_skb := (rx_skb m)[?c := None]\<rparr>)" by simp
      then have "Skb sk \<notin># rx_slot_res (m\<lparr>rx_skb := (rx_skb m)[?c := None]\<rparr>) i"
        using mset_subset_eqD [OF slot_in_res(2) [OF that(1)]] by blast
      then have "rx_skb m ! i \<noteq> Some sk" using i(1) by (auto simp: rx_slot_res_def)
      ultimately show False using i(2) \<open>q = sk\<close> by simp
    qed
    then show ?thesis using m1(8) False empty [OF that(1) i(2)] by simp
  qed
  then have empty2: "\<forall>i<64. \<forall>q. rx_skb m1 ! i = Some q \<longrightarrow> skb_len (skbuff m1 q) = 0" by blast
  obtain ok m' where refill: "rx_refill H K repl m1 = (ok, m')" by fastforce
  note r = rx_refill_ok [OF m1(1) assms(1) none(2,1) m1(9) empty2 refill]
  have cons': "rx_cons m' = ap_eth_ring_next (rx_cons m)" using r m1(6) by simp
  have frames: "subseq rs (if rx_good st then [(the (rx_skb m ! ?c), ucast (rx_len st))] else [])"
    "if rx_good st then 1 \<le> length rs + d else True" using m1(12) sk by auto
  have kept: "acct R m'" "tx_same m m'" "rings_same m m'" "received (klog m') = received (klog m) @ rs"
    using r m1(2,3,10) by (auto simp: same_defs)
  show ?thesis
  proof (cases ok)
    case True
    obtain q dma where ok: "rx_skb m' = (rx_skb m)[?c := None, ?p := Some q]" "hw m' = desc_wr H Rx ?p (ap_eth_desc_of dma 2048) (hw m)"
      "rx_prod m' = ap_eth_ring_next (rx_prod m)" "rx_dropped (ndev_stats m') = rx_dropped (ndev_stats m1)"
      using r True m1(4,5,7) by auto
    note t = rx_turn(1) [OF filled assms(4) len cons' ok(1,3)]
    have v: "view (hw m') = v_set_status Rx ?p 0 (view (hw m))" using desc_wr_view [OF s(4)] ok(2) by (simp add: ap_eth_desc_of_def)
    have "rx_ok m'" using t r by (simp add: rx_ok_def)
    moreover have "tx_view_same (view (hw m)) (view (hw m'))" "v_status (view (hw m')) Rx = (v_status (view (hw m)) Rx)(?p := 0)"
      by (simp_all add: v tx_view_same_def)
    moreover have "\<forall>i. i \<noteq> ?c \<longrightarrow> i \<noteq> ?p \<longrightarrow> rx_skb m' ! i = rx_skb m ! i" by (simp add: ok(1))
    moreover have "rx_dropped (ndev_stats m') = rx_dropped (ndev_stats m) + of_nat d" using ok(4) m1(11) by simp
    moreover have "d \<le> 1" using m1(12) by auto
    ultimately show ?thesis using t True take refill frames kept
      by (intro exI [of _ ok] exI [of _ repl] exI [of _ m1] exI [of _ m'] exI [of _ rs] exI [of _ d] conjI) simp_all
  next
    case False
    have f: "rx_skb m' = (rx_skb m)[?c := None]" "rx_prod m' = rx_prod m" "hw m' = bus_wr H 0 0 (hw m)"
      "rx_dropped (ndev_stats m') = rx_dropped (ndev_stats m1) + 1"
      using r False m1(4,5,7) by auto
    note t = rx_turn(2) [OF filled assms(4) len cons' f(1,2)]
    have v: "view (hw m') = view (hw m)" using wr_view [of 0 0 "hw m"] f(3) by (simp add: v_write_def)
    have "rx_ok m'" using t r by (simp add: rx_ok_def)
    moreover have "tx_view_same (view (hw m)) (view (hw m'))" by (simp add: v tx_view_same_def)
    moreover have "rx_dropped (ndev_stats m') = rx_dropped (ndev_stats m) + of_nat (Suc d)" using f(4) m1(11) by simp
    moreover have "if rx_good st then 1 \<le> length rs + Suc d else True" by simp
    moreover have "d \<le> 1" using m1(12) by auto
    ultimately show ?thesis using t False take refill frames(1) kept
      by (intro exI [of _ ok] exI [of _ repl] exI [of _ m1] exI [of _ m'] exI [of _ rs] exI [of _ "Suc d"] conjI) simp_all
  qed
qed

lemma rx_loop_ok:
  assumes K: "fresh_skbs K"
  shows "acct R m \<Longrightarrow> rx_ok m \<Longrightarrow> rx_cons m \<noteq> rx_prod m \<Longrightarrow>
    \<exists>k t' m' rs d. rx_poll_loop H K n (w, t) m = Some (w + k, t', m') \<and> acct R m' \<and> rx_ok m' \<and> tx_same m m' \<and> rings_same m m' \<and>
      tx_view_same (view (hw m)) (view (hw m')) \<and> received (klog m') = received (klog m) @ rs \<and>
      rx_dropped (ndev_stats m') = rx_dropped (ndev_stats m) + of_nat d \<and>
      k \<le> min n (length (takeWhile (\<lambda>i. bit (v_status (view (hw m)) Rx i) 0) (rx_slots m))) \<and>
      subseq rs (good_frames (v_status (view (hw m)) Rx) (rx_skb m) (take k (rx_slots m))) \<and>
      length (good_frames (v_status (view (hw m)) Rx) (rx_skb m) (take k (rx_slots m))) \<le> length rs + d \<and>
      (d = 0 \<longrightarrow> k = min n (length (takeWhile (\<lambda>i. bit (v_status (view (hw m)) Rx i) 0) (rx_slots m)))) \<and>
      (d = 0 \<longrightarrow> rx_cons m' \<noteq> rx_prod m') \<and> d \<le> Suc k"
proof (induction n arbitrary: m w t)
  case 0
  then show ?case
    by (intro exI [of _ 0] exI [of _ t] exI [of _ m] exI [of _ "[]"]) (simp add: same_defs tx_view_same_def good_frames_def)
next
  case (Suc n)
  let ?c = "unat (rx_cons m)" and ?p = "unat (rx_prod m)" and ?st = "v_status (view (hw m)) Rx"
  have filled: "rx_filled m" using Suc.prems(2) by (simp add: rx_ok_def)
  note s = rx_slots_step [OF filled Suc.prems(3)]
  obtain st m0 where rd: "desc_read H Rx ?c m = (st, m0)" by fastforce
  then have m0: "st = ?st ?c" "acct R m0" "rx_ok m0" "tx_same m m0" "rings_same m m0" "rx_same m m0" "view (hw m0) = view (hw m)"
    "received (klog m0) = received (klog m)" "ndev_stats m0 = ndev_stats m"
    using Suc.prems(1,2) desc_rd_status [OF s(3), of Rx "hw m"] desc_rd_view [of Rx ?c "hw m"]
    by (auto simp: desc_read_def same_defs rx_ok_def rx_filled_def rx_slots_def acct_other split: prod.splits)
  have same0: "rx_cons m0 = rx_cons m" "rx_prod m0 = rx_prod m" "rx_skb m0 = rx_skb m" "rx_slots m0 = rx_slots m"
    using m0(6) by (simp_all add: same_defs rx_slots_def)
  show ?case
  proof (cases "bit (?st ?c) 0")
    case False
    then have "st AND 1 = 0" using m0(1) and_exp_eq_0_iff [of st 0] by simp
    then have "rx_poll_loop H K (Suc n) (w, t) m = Some (w, t, m0)" using rd by simp
    then show ?thesis using m0 s(1) False Suc.prems(3) same0
      by (intro exI [of _ 0] exI [of _ t] exI [of _ m0] exI [of _ "[]"]) (simp add: tx_view_same_def good_frames_def)
  next
    case True
    then have done1: "st AND 1 \<noteq> 0" using m0(1) and_exp_eq_0_iff [of st 0] by simp
    have ne: "rx_cons m0 \<noteq> rx_prod m0" using Suc.prems(3) same0 by simp
    obtain ok repl m1 m2 rs d where one: "rx_take K st m0 = Some (repl, m1)" "rx_refill H K repl m1 = (ok, m2)"
      and m2: "acct R m2" "rx_ok m2" "tx_same m0 m2" "rings_same m0 m2" "tx_view_same (view (hw m0)) (view (hw m2))"
      "received (klog m2) = received (klog m0) @ rs" "rx_dropped (ndev_stats m2) = rx_dropped (ndev_stats m0) + of_nat d"
      "subseq rs (if rx_good st then [(the (rx_skb m0 ! unat (rx_cons m0)), ucast (rx_len st))] else [])"
      "if rx_good st then 1 \<le> length rs + d else True"
      and cases: "if ok then d \<le> 1 \<and> rx_slots m2 = tl (rx_slots m0) @ [unat (rx_prod m0)] \<and> rx_cons m2 \<noteq> rx_prod m2 \<and>
        v_status (view (hw m2)) Rx = (v_status (view (hw m0)) Rx)(unat (rx_prod m0) := 0) \<and>
        (\<forall>i. i \<noteq> unat (rx_cons m0) \<longrightarrow> i \<noteq> unat (rx_prod m0) \<longrightarrow> rx_skb m2 ! i = rx_skb m0 ! i)
       else d \<le> 2 \<and> rx_slots m2 = tl (rx_slots m0) \<and> 0 < d"
      using rx_one [OF K m0(2,3) ne, of st] by blast
    define F1 where "F1 = good_frames ?st (rx_skb m) [?c]"
    have F1: "F1 = (if rx_good st then [(the (rx_skb m0 ! unat (rx_cons m0)), ucast (rx_len st))] else [])"
      by (simp add: F1_def good_frames_def m0(1) same0)
    have base: "tx_same m m2" "rings_same m m2" "tx_view_same (view (hw m)) (view (hw m2))" "received (klog m2) = received (klog m) @ rs"
      "rx_dropped (ndev_stats m2) = rx_dropped (ndev_stats m) + of_nat d"
      using m0 m2 by (simp_all add: same_defs tx_view_same_def)
    define rest where "rest = tl (rx_slots m)"
    have slots: "rx_slots m = ?c # rest" using s(1) by (simp add: rest_def)
    have tW: "takeWhile (\<lambda>i. bit (?st i) 0) (rx_slots m) = ?c # takeWhile (\<lambda>i. bit (?st i) 0) rest" using slots True by simp
    have F_Cons: "good_frames ?st (rx_skb m) (take (Suc k) (rx_slots m)) = F1 @ good_frames ?st (rx_skb m) (take k rest)" for k
      by (simp add: slots F1_def good_frames_def)
    show ?thesis
    proof (cases ok)
      case False
      then have "rx_poll_loop H K (Suc n) (w, t) m = Some (w + 1, t, m2)" using rd done1 one by simp
      then show ?thesis using m2 base cases False F_Cons [of 0] F1 tW
        by (intro exI [of _ 1] exI [of _ t] exI [of _ m2] exI [of _ rs] exI [of _ d] conjI) (simp_all add: good_frames_def)
    next
      case True
      have c2: "rx_slots m2 = rest @ [?p]" "rx_cons m2 \<noteq> rx_prod m2" "v_status (view (hw m2)) Rx = ?st(?p := 0)"
        "\<forall>i. i \<noteq> ?c \<longrightarrow> i \<noteq> ?p \<longrightarrow> rx_skb m2 ! i = rx_skb m ! i" "d \<le> 1"
        using cases True same0 m0(7) by (simp_all add: rest_def)
      have notin: "?p \<notin> set rest" "?c \<notin> set rest"
        using s(2) slots ring_slots_distinct [of 64 ?c ?p] by (simp_all add: rx_slots_def)
      have tW2: "takeWhile (\<lambda>i. bit ((?st(?p := 0)) i) 0) (rest @ [?p]) = takeWhile (\<lambda>i. bit (?st i) 0) rest"
      proof -
        have "takeWhile (\<lambda>i. bit ((?st(?p := 0)) i) 0) rest = takeWhile (\<lambda>i. bit (?st i) 0) rest"
          using notin(1) by (intro takeWhile_cong refl) auto
        then show ?thesis by (subst takeWhile_snoc_stop) simp_all
      qed
      obtain k t' m' rs2 d2 where ih: "rx_poll_loop H K n (Suc w, True) m2 = Some (Suc w + k, t', m')" "acct R m'" "rx_ok m'"
        "tx_same m2 m'" "rings_same m2 m'" "tx_view_same (view (hw m2)) (view (hw m'))" "received (klog m') = received (klog m2) @ rs2"
        "rx_dropped (ndev_stats m') = rx_dropped (ndev_stats m2) + of_nat d2"
        "k \<le> min n (length (takeWhile (\<lambda>i. bit (?st i) 0) rest))"
        "subseq rs2 (good_frames (?st(?p := 0)) (rx_skb m2) (take k (rest @ [?p])))"
        "length (good_frames (?st(?p := 0)) (rx_skb m2) (take k (rest @ [?p]))) \<le> length rs2 + d2"
        "d2 = 0 \<longrightarrow> k = min n (length (takeWhile (\<lambda>i. bit (?st i) 0) rest))" "d2 = 0 \<longrightarrow> rx_cons m' \<noteq> rx_prod m'" "d2 \<le> Suc k"
        using Suc.IH [OF m2(1,2) c2(2), of "Suc w" True, unfolded c2(1,3) tW2] by blast
      have "k \<le> length rest" using ih(9) length_takeWhile_le [of "\<lambda>i. bit (?st i) 0" rest] by simp
      then have take: "take k (rest @ [?p]) = take k rest" by simp
      have F2: "good_frames (?st(?p := 0)) (rx_skb m2) (take k (rest @ [?p])) = good_frames ?st (rx_skb m) (take k rest)"
        unfolding take
      proof (rule good_frames_cong)
        fix i assume "i \<in> set (take k rest)"
        then have "i \<in> set rest" by (rule in_set_takeD)
        then have "i \<noteq> ?p" "i \<noteq> ?c" using notin by auto
        then show "(?st(?p := 0)) i = ?st i \<and> rx_skb m2 ! i = rx_skb m ! i" using c2(4) by simp
      qed
      have "rx_poll_loop H K (Suc n) (w, t) m = Some (w + Suc k, t', m')" using rd done1 one True ih(1) by simp
      moreover have "tx_same m m'" "rings_same m m'" "tx_view_same (view (hw m)) (view (hw m'))"
        "received (klog m') = received (klog m) @ (rs @ rs2)" "rx_dropped (ndev_stats m') = rx_dropped (ndev_stats m) + of_nat (d + d2)"
        using base ih(4-8) by (simp_all add: same_defs tx_view_same_def)
      moreover have "subseq (rs @ rs2) (good_frames ?st (rx_skb m) (take (Suc k) (rx_slots m)))"
        unfolding F_Cons using list_emb_append_mono [OF m2(8) [folded F1] ih(10) [unfolded F2]] .
      moreover have "length F1 \<le> length rs + d" using F1 m2(9) by (auto split: if_splits)
      then have "length (good_frames ?st (rx_skb m) (take (Suc k) (rx_slots m))) \<le> length (rs @ rs2) + (d + d2)"
        unfolding F_Cons using ih(11) [unfolded F2] by simp
      moreover have "Suc k \<le> min (Suc n) (length (takeWhile (\<lambda>i. bit (?st i) 0) (rx_slots m)))"
        "d + d2 = 0 \<longrightarrow> Suc k = min (Suc n) (length (takeWhile (\<lambda>i. bit (?st i) 0) (rx_slots m)))" "d + d2 = 0 \<longrightarrow> rx_cons m' \<noteq> rx_prod m'" "d + d2 \<le> Suc (Suc k)"
        using ih(9,12-14) c2(5) unfolding tW by simp_all
      ultimately show ?thesis using ih(2,3)
        by (intro exI [of _ "Suc k"] exI [of _ t'] exI [of _ m'] exI [of _ "rs @ rs2"] exI [of _ "d + d2"] conjI) assumption+
    qed
  qed
qed

end

section \<open>When the receive ring runs out of buffers\<close>

text \<open>The kernel refuses a receive buffer, or a mapping of it that the hardware can use.\<close>

definition refused :: "kcall \<Rightarrow> bool" where
  "refused c \<longleftrightarrow> (case c of
     Netdev_alloc_skb s \<Rightarrow> s = None
   | Dma_map_single _ _ DMA_FROM_DEVICE dma \<Rightarrow> (case dma of None \<Rightarrow> True | Some a \<Rightarrow> \<not> ap_eth_dma_addr_valid a 8)
   | _ \<Rightarrow> False)"

lemma alloc_rx_idx:
  assumes "ap_eth_alloc_rx_skb K m = (p, m1)"
  shows "rx_cons m1 = rx_cons m" "rx_prod m1 = rx_prod m" "p = None \<Longrightarrow> \<exists>c\<in>set (klog m1). refused c"
  using assms by (auto simp: ap_eth_alloc_rx_skb_def netdev_alloc_skb_def skb_reserve_def refused_def call_def split: option.splits prod.splits)

lemma rx_take_idx:
  assumes "rx_take K st m = Some (repl, m1)"
  shows "rx_cons m1 = rx_cons m \<and> rx_prod m1 = rx_prod m"
proof -
  define m0 where "m0 = call (Dma_unmap_single (rx_dma m ! unat (rx_cons m)) AP_ETH_RX_BUF_BYTES DMA_FROM_DEVICE)
    (m\<lparr>rx_skb := (rx_skb m)[unat (rx_cons m) := None]\<rparr>)"
  obtain r m2 where a: "ap_eth_alloc_rx_skb K m0 = (r, m2)" by fastforce
  have "rx_cons m2 = rx_cons m" "rx_prod m2 = rx_prod m" using alloc_rx_idx [OF a] by (simp_all add: m0_def)
  then show ?thesis using assms a
    by (auto simp: rx_take_def m0_def [symmetric] Let_def dev_kfree_skb_any_def skb_put_def skb_trim_def split: if_splits option.splits)
qed

lemma post_rx_idx:
  assumes "ap_eth_post_rx_buffer H K i s m = (ok, m1)"
  shows "rx_cons m1 = rx_cons m" "rx_prod m1 = rx_prod m" "\<not> ok \<Longrightarrow> \<exists>c\<in>set (klog m1). refused c"
  using assms by (auto simp: ap_eth_post_rx_buffer_def dma_map_single_def ap_eth_desc_set_def refused_def call_def split: option.splits if_splits)

lemma rx_refill_idx:
  assumes "rx_refill H K repl m = (ok, m1)"
  shows "if ok then rx_cons m1 = ap_eth_ring_next (rx_cons m) \<and> rx_prod m1 = ap_eth_ring_next (rx_prod m)
    else \<exists>c\<in>set (klog m1). refused c"
proof -
  obtain r m2 where a: "(case repl of None \<Rightarrow> ap_eth_alloc_rx_skb K m | Some r \<Rightarrow> (Some r, m)) = (r, m2)" by fastforce
  obtain posted m3 where p: "(case r of None \<Rightarrow> (False, m2) | Some r \<Rightarrow> ap_eth_post_rx_buffer H K (unat (rx_prod m2)) r m2) = (posted, m3)"
    by fastforce
  have 2: "rx_cons m2 = rx_cons m" "rx_prod m2 = rx_prod m" "r = None \<Longrightarrow> \<exists>c\<in>set (klog m2). refused c"
    using a alloc_rx_idx [of K m r m2] by (auto split: option.splits)
  have 3: "rx_cons m3 = rx_cons m2" "rx_prod m3 = rx_prod m2" "\<not> posted \<Longrightarrow> \<exists>c\<in>set (klog m3). refused c"
    using p 2(3) post_rx_idx [of H K "unat (rx_prod m2)" _ m2 posted m3] by (auto split: option.splits)
  have "rx_refill H K repl m =
    (if posted then (True, m3\<lparr>rx_cons := ap_eth_ring_next (rx_cons m3), rx_prod := ap_eth_ring_next (rx_prod m3)\<rparr>)
     else let m4 = dev_kfree_skb_any r (m3\<lparr>ndev_stats := stats_add rx_dropped_update 1 (ndev_stats m3)\<rparr>)
       in (False, ap_eth_writel H AP_ETH_REG_CTRL 0 (m4\<lparr>rx_cons := ap_eth_ring_next (rx_cons m4)\<rparr>)))"
    unfolding rx_refill_def a Let_def split_conv p ..
  moreover have "set (klog m3) \<subseteq> set (klog (dev_kfree_skb_any r (m3\<lparr>ndev_stats := x\<rparr>)))" for x
    by (cases r) (auto simp: dev_kfree_skb_any_def)
  ultimately show ?thesis using assms 2 3 by (cases posted) (force simp: ap_eth_writel_def Let_def)+
qed

lemma rx_loop_idx:
  assumes "rx_poll_loop H K n (w, t) m = Some (w', t', m')" "rx_cons m \<noteq> rx_prod m" "unat (rx_cons m) < 64" "unat (rx_prod m) < 64"
  shows "rx_cons m' \<noteq> rx_prod m' \<or> (\<exists>c\<in>set (klog m'). refused c)"
  using assms
proof (induction n arbitrary: w t m)
  case 0
  then show ?case by simp
next
  case (Suc n)
  obtain st m0 where rd: "desc_read H Rx (unat (rx_cons m)) m = (st, m0)" by fastforce
  then have m0: "rx_cons m0 = rx_cons m" "rx_prod m0 = rx_prod m" by (auto simp: desc_read_def split: prod.splits)
  show ?case
  proof (cases "st AND 1 = 0")
    case True
    then show ?thesis using Suc.prems rd m0 by simp
  next
    case False
    then obtain repl m1 where t: "rx_take K st m0 = Some (repl, m1)" using Suc.prems(1) rd by (auto simp: bind_eq_Some_conv)
    note m1 = rx_take_idx [OF t]
    obtain ok m2 where r: "rx_refill H K repl m1 = (ok, m2)" by fastforce
    note m2 = rx_refill_idx [OF r]
    show ?thesis
    proof (cases ok)
      case True
      have "unat (rx_cons m) \<noteq> unat (rx_prod m)" using Suc.prems(2) by (simp add: word_unat_eq_iff)
      then have "rx_cons m2 \<noteq> rx_prod m2" "unat (rx_cons m2) < 64" "unat (rx_prod m2) < 64"
        using m2 m1 m0 True Suc.prems(3,4) by (auto simp: word_unat_eq_iff eth_next mod_if)
      then show ?thesis using Suc.IH [of "Suc w" True m2] Suc.prems(1) rd False t r True by simp
    next
      case False
      then show ?thesis using m2 Suc.prems(1) rd \<open>st AND 1 \<noteq> 0\<close> t r by simp
    qed
  qed
qed

lemma rx_poll_idx:
  assumes "ap_eth_rx_poll H K n m = Some (k, m')" "rx_cons m \<noteq> rx_prod m" "unat (rx_cons m) < 64" "unat (rx_prod m) < 64"
  shows "rx_cons m' \<noteq> rx_prod m' \<or> (\<exists>c\<in>set (klog m'). refused c)"
proof -
  obtain w t m1 where l: "rx_poll_loop H K n (0, False) m = Some (w, t, m1)" using assms(1) by (auto simp: ap_eth_rx_poll_def)
  show ?thesis using rx_loop_idx [OF l assms(2-4)] assms(1) l
    by (auto simp: ap_eth_rx_poll_def ap_eth_writel_def Let_def call_def split: if_splits)
qed

end
