(* ===== verification/Eth_Run.thy ===== *)
theory Eth_Run
  imports Eth_Ring
begin

text \<open>
  The Ethernet driver running: any sequence of transmissions, polls and interrupts from an open device. Each call
  runs as a whole: the device works between the calls, and inside one only where the device given says so (in
  \<^verbatim>\<open>Rtl_Eth\<close>, while a call waits for \<open>STATUS\<close>); no interrupt comes inside a call. \<open>eth_full_test_race\<close> of
  \<^verbatim>\<open>Eth_Life\<close> shows what a device that moves inside a transmission can do.
\<close>

section \<open>Polling\<close>

context eth_device
begin

text \<open>Register writes that do not restart a ring leave the transmit ring as it is.\<close>

lemma writel_rx:
  assumes "reg \<noteq> AP_ETH_REG_TX_TAIL" "reg \<noteq> AP_ETH_REG_TX_COUNT" "reg \<noteq> AP_ETH_REG_CTRL"
  shows "view (hw (ap_eth_writel H reg v m)) = view (hw m)"
  using assms by (simp add: writel_view v_write_def)

text \<open>The invariant of an open device.\<close>

definition eth_ok :: "resource multiset \<Rightarrow> 'd ap_eth_priv \<Rightarrow> bool" where
  "eth_ok R m \<longleftrightarrow> acct R m \<and> tx_ok m \<and> rx_ok m"

lemma rx_ok_same: "rx_ok m \<Longrightarrow> rx_same m m' \<Longrightarrow> skbuff m' = skbuff m \<Longrightarrow> rx_ok m'"
  by (simp add: rx_ok_def rx_filled_def rx_slots_def same_defs)

lemma eth_ok_same:
  "eth_ok R m \<Longrightarrow> acct R m' \<Longrightarrow> tx_same m m' \<Longrightarrow> rx_same m m' \<Longrightarrow> skbuff m' = skbuff m \<Longrightarrow> view (hw m') = view (hw m) \<Longrightarrow> eth_ok R m'"
  using tx_ok_same rx_ok_same by (auto simp: eth_ok_def)

lemma writel_ok:
  assumes "eth_ok R m" "reg \<noteq> AP_ETH_REG_TX_TAIL" "reg \<noteq> AP_ETH_REG_TX_COUNT" "reg \<noteq> AP_ETH_REG_CTRL"
  shows "eth_ok R (ap_eth_writel H reg v m)" "tx_frames (ap_eth_writel H reg v m) = tx_frames m"
    "received (klog (ap_eth_writel H reg v m)) = received (klog m)"
    "rx_cons (ap_eth_writel H reg v m) = rx_cons m" "rx_prod (ap_eth_writel H reg v m) = rx_prod m"
    "ndev_stats (ap_eth_writel H reg v m) = ndev_stats m"
proof -
  have "acct R m" using assms(1) by (simp add: eth_ok_def)
  then show "eth_ok R (ap_eth_writel H reg v m)"
    using eth_ok_same [OF assms(1) acct_write writel_same(1,2) _ writel_rx [OF assms(2-4)]] writel_same(4) [of m H reg v]
    by (simp add: same_slots_def)
  show "tx_frames (ap_eth_writel H reg v m) = tx_frames m"
    using writel_same(1) [of m H reg v] by (simp add: tx_frames_def tx_slots_def same_defs)
  show "received (klog (ap_eth_writel H reg v m)) = received (klog m)" "rx_cons (ap_eth_writel H reg v m) = rx_cons m"
    "rx_prod (ap_eth_writel H reg v m) = rx_prod m" "ndev_stats (ap_eth_writel H reg v m) = ndev_stats m"
    by (simp_all add: ap_eth_writel_def)
qed

lemma readl_ok:
  assumes "eth_ok R m" "ap_eth_readl H reg m = (v, m')" "reg \<noteq> AP_ETH_REG_STATUS"
  shows "eth_ok R m'" "tx_frames m' = tx_frames m" "received (klog m') = received (klog m)"
    "rx_cons m' = rx_cons m" "rx_prod m' = rx_prod m"
proof -
  note r = readl_all [OF assms(2,3)]
  have "acct R m" using assms(1) by (simp add: eth_ok_def)
  then show "eth_ok R m'" using eth_ok_same [OF assms(1) r(5)] r(1-3) by (simp add: rest_same_def)
  show "tx_frames m' = tx_frames m" using same_view_same [OF r(1,3)] by simp
  show "received (klog m') = received (klog m)" using assms(2) by (auto simp: ap_eth_readl_def split: prod.splits)
  show "rx_cons m' = rx_cons m" "rx_prod m' = rx_prod m" using r(2) by (simp_all add: rest_same_def rx_same_def)
qed

lemma call_ok:
  assumes "eth_ok R m" "gives c = None" "takes c = None" "received1 c = []"
  shows "eth_ok R (call c m)" "tx_frames (call c m) = tx_frames m" "received (klog (call c m)) = received (klog m)"
proof -
  have "acct R (call c m)" using assms(1-3) by (simp add: eth_ok_def acct_other)
  then show "eth_ok R (call c m)" by (rule eth_ok_same [OF assms(1) _ same_call(1,2)]) simp_all
  show "tx_frames (call c m) = tx_frames m" by (simp add: tx_frames_def tx_slots_def)
  show "received (klog (call c m)) = received (klog m)" using assms(4) by simp
qed

text \<open>A poll: what it delivers and what it leaves.\<close>

lemma rx_poll_ok:
  assumes K: "fresh_skbs K" and m: "eth_ok R m" "rx_cons m \<noteq> rx_prod m"
  defines "st \<equiv> v_status (view (hw m)) Rx"
  shows "\<exists>k m' rs d. ap_eth_rx_poll H K n m = Some (k, m') \<and> eth_ok R m' \<and> tx_frames m' = tx_frames m \<and>
    received (klog m') = received (klog m) @ rs \<and>
    rx_dropped (ndev_stats m') = rx_dropped (ndev_stats m) + of_nat d \<and>
    k \<le> min n (length (takeWhile (\<lambda>i. bit (st i) 0) (rx_slots m))) \<and>
    subseq rs (good_frames st (rx_skb m) (take k (rx_slots m))) \<and>
    length (good_frames st (rx_skb m) (take k (rx_slots m))) \<le> length rs + d \<and>
    (d = 0 \<longrightarrow> k = min n (length (takeWhile (\<lambda>i. bit (st i) 0) (rx_slots m)))) \<and> (d = 0 \<longrightarrow> rx_cons m' \<noteq> rx_prod m') \<and> d \<le> Suc k"
proof -
  have "acct R m" "tx_ok m" "rx_ok m" using m(1) by (simp_all add: eth_ok_def)
  obtain k t' m1 rs d where l: "rx_poll_loop H K n (0, False) m = Some (k, t', m1)" "acct R m1" "rx_ok m1" "tx_same m m1"
    "tx_view_same (view (hw m)) (view (hw m1))" "received (klog m1) = received (klog m) @ rs"
    "rx_dropped (ndev_stats m1) = rx_dropped (ndev_stats m) + of_nat d"
    "k \<le> min n (length (takeWhile (\<lambda>i. bit (st i) 0) (rx_slots m)))"
    "subseq rs (good_frames st (rx_skb m) (take k (rx_slots m)))"
    "length (good_frames st (rx_skb m) (take k (rx_slots m))) \<le> length rs + d"
    "d = 0 \<longrightarrow> k = min n (length (takeWhile (\<lambda>i. bit (st i) 0) (rx_slots m)))" "d = 0 \<longrightarrow> rx_cons m1 \<noteq> rx_prod m1" "d \<le> Suc k"
    using rx_loop_ok [OF K \<open>acct R m\<close> \<open>rx_ok m\<close> m(2), of n 0 False] unfolding st_def by auto
  have m1: "eth_ok R m1" "tx_frames m1 = tx_frames m"
    using l(2,3) tx_ok_rx [OF \<open>tx_ok m\<close> l(4,5)] l(4) by (simp_all add: eth_ok_def tx_frames_def tx_slots_def same_defs)
  define m2 where "m2 = ap_eth_writel H AP_ETH_REG_RX_TAIL (ucast (rx_prod m1)) (call Dma_wmb m1)"
  define m3 where "m3 = ap_eth_writel H AP_ETH_REG_RX_DOORBELL 1 m2"
  have c1: "eth_ok R (call Dma_wmb m1)" "tx_frames (call Dma_wmb m1) = tx_frames m" using call_ok [OF m1(1), of Dma_wmb] m1(2) by simp_all
  have m2: "eth_ok R m2" "tx_frames m2 = tx_frames m" "received (klog m2) = received (klog m1)" "rx_cons m2 = rx_cons m1" "rx_prod m2 = rx_prod m1"
    "ndev_stats m2 = ndev_stats m1"
    using writel_ok [OF c1(1), of AP_ETH_REG_RX_TAIL "ucast (rx_prod m1)"] c1(2) by (simp_all add: m2_def)
  have m3: "eth_ok R m3" "tx_frames m3 = tx_frames m" "received (klog m3) = received (klog m1)" "rx_cons m3 = rx_cons m1" "rx_prod m3 = rx_prod m1"
    "ndev_stats m3 = ndev_stats m1"
    using writel_ok [OF m2(1), of AP_ETH_REG_RX_DOORBELL 1] m2 by (simp_all add: m3_def)
  have "ap_eth_rx_poll H K n m = Some (k, if t' then m3 else m1)"
    using l(1) by (simp add: ap_eth_rx_poll_def m2_def m3_def)
  then show ?thesis using l(6-13) m1 m3
    by (intro exI [of _ k] exI [of _ "if t' then m3 else m1"] exI [of _ rs] exI [of _ d]) (cases t'; simp)
qed

lemma rest_ok: "rest_same m m' \<Longrightarrow> rx_ok m \<Longrightarrow> rx_ok m'"
  using rx_ok_same by (auto simp: rest_same_def)

lemma napi_poll_ok:
  assumes K: "fresh_skbs K" and m: "eth_ok R m" "rx_cons m \<noteq> rx_prod m"
  shows "\<exists>k m' freed. ap_eth_napi_poll H K n m = Some (k, m') \<and> eth_ok R m' \<and> tx_frames m = freed @ tx_frames m' \<and>
    (rx_cons m' \<noteq> rx_prod m' \<or> (\<exists>c\<in>set (klog m'). refused c))"
proof -
  have m0: "eth_ok R (call Spin_lock_irqsave m)" "tx_frames (call Spin_lock_irqsave m) = tx_frames m"
    using call_ok [OF m(1), of Spin_lock_irqsave] by simp_all
  then have a0: "acct R (call Spin_lock_irqsave m)" "tx_ok (call Spin_lock_irqsave m)" "rx_ok (call Spin_lock_irqsave m)"
    by (simp_all add: eth_ok_def)
  obtain m1 freed where rec: "ap_eth_tx_reclaim H (call Spin_lock_irqsave m) = Some m1" and m1: "acct R m1" "tx_ok m1"
    "rest_same (call Spin_lock_irqsave m) m1" "tx_frames m = freed @ tx_frames m1"
    using reclaim_ok [OF a0(1,2)] m0(2) by auto
  have ok1: "eth_ok R m1" using m1 rest_ok [OF m1(3) a0(3)] by (simp add: eth_ok_def)
  note c = call_ok [OF ok1, of Spin_unlock_irqrestore]
  have ne: "rx_cons (call Spin_unlock_irqrestore m1) \<noteq> rx_prod (call Spin_unlock_irqrestore m1)"
    using m(2) m1(3) by (simp add: rest_same_def rx_same_def)
  have ok2: "eth_ok R (call Spin_unlock_irqrestore m1)" using c by simp
  obtain k m2 where poll: "ap_eth_rx_poll H K n (call Spin_unlock_irqrestore m1) = Some (k, m2)" and m2: "eth_ok R m2"
    "tx_frames m2 = tx_frames m1"
    using rx_poll_ok [OF K ok2 ne, of n] c(2) by auto
  have "unat (rx_cons (call Spin_unlock_irqrestore m1)) < 64" "unat (rx_prod (call Spin_unlock_irqrestore m1)) < 64"
    using ok2 by (simp_all add: eth_ok_def rx_ok_def rx_filled_def)
  note idx2 = rx_poll_idx [OF poll ne this]
  define b where "b = k_napi_complete K (klog m2)"
  define m3 where "m3 = call (Napi_complete_done b) m2"
  have m3: "eth_ok R m3" "tx_frames m3 = tx_frames m1" using call_ok [OF m2(1), of "Napi_complete_done b"] m2(2) by (simp_all add: m3_def)
  define m4 where "m4 = ap_eth_writel H AP_ETH_REG_IRQ_ENABLE AP_ETH_IRQ_ALL m3"
  have m4: "eth_ok R m4" "tx_frames m4 = tx_frames m1" using writel_ok [OF m3(1), of AP_ETH_REG_IRQ_ENABLE] m3(2) by (simp_all add: m4_def)
  obtain v m5 where rd: "ap_eth_readl H AP_ETH_REG_IRQ_STATUS m4 = (v, m5)" by fastforce
  have idx5: "rx_cons m5 = rx_cons m2" "rx_prod m5 = rx_prod m2" "set (klog m2) \<subseteq> set (klog m5)"
    using rd by (auto simp: m4_def m3_def ap_eth_readl_def ap_eth_writel_def split: prod.splits)
  have m5: "eth_ok R m5" "tx_frames m5 = tx_frames m1" using readl_ok [OF m4(1) rd, simplified] m4(2) by simp_all
  define m6 where "m6 = ap_eth_writel H AP_ETH_REG_IRQ_ENABLE 0 m5"
  have m6: "eth_ok R m6" "tx_frames m6 = tx_frames m1" using writel_ok [OF m5(1), of AP_ETH_REG_IRQ_ENABLE] m5(2) by (simp_all add: m6_def)
  have m7: "eth_ok R (call Napi_schedule m6)" "tx_frames (call Napi_schedule m6) = tx_frames m1"
    using call_ok [OF m6(1), of Napi_schedule] m6(2) by simp_all
  define m8 where "m8 = (if k < n then if b then if v \<noteq> 0 then call Napi_schedule m6 else m5 else m3 else m2)"
  have "eth_ok R m8" "tx_frames m8 = tx_frames m1" using m2 m3 m5 m7 by (simp_all add: m8_def)
  moreover have "ap_eth_napi_poll H K n m = Some (k, m8)"
    using rec poll rd m3_def
    by (cases "k < n"; cases b) (simp_all add: ap_eth_napi_poll_def b_def [symmetric] m3_def m4_def m6_def m8_def Let_def)
  moreover have "rx_cons m8 = rx_cons m2 \<and> rx_prod m8 = rx_prod m2 \<and> set (klog m2) \<subseteq> set (klog m8)"
    using idx5 by (auto simp: m8_def m6_def m3_def ap_eth_writel_def)
  then have "rx_cons m8 \<noteq> rx_prod m8 \<or> (\<exists>c\<in>set (klog m8). refused c)" using idx2 by auto
  ultimately show ?thesis using m1(4) by auto
qed

lemma irq_ok:
  assumes "eth_ok R m"
  shows "eth_ok R (snd (ap_eth_irq H m))" "tx_frames (snd (ap_eth_irq H m)) = tx_frames m"
    "rx_cons (snd (ap_eth_irq H m)) = rx_cons m" "rx_prod (snd (ap_eth_irq H m)) = rx_prod m"
proof -
  obtain v m1 where rd: "ap_eth_readl H AP_ETH_REG_IRQ_STATUS m = (v, m1)" by fastforce
  note r = readl_ok [OF assms rd, simplified]
  define m2 where "m2 = ap_eth_writel H AP_ETH_REG_IRQ_STATUS v m1"
  have m2: "eth_ok R m2" "tx_frames m2 = tx_frames m" using writel_ok [OF r(1), of AP_ETH_REG_IRQ_STATUS] r(2) by (simp_all add: m2_def)
  define m3 where "m3 = ap_eth_writel H AP_ETH_REG_IRQ_ENABLE 0 m2"
  have m3: "eth_ok R m3" "tx_frames m3 = tx_frames m" using writel_ok [OF m2(1), of AP_ETH_REG_IRQ_ENABLE] m2(2) by (simp_all add: m3_def)
  have "snd (ap_eth_irq H m) = (if v = 0 then m1 else call Napi_schedule m3)"
    using rd by (simp add: ap_eth_irq_def m2_def m3_def Let_def)
  then show "eth_ok R (snd (ap_eth_irq H m))" "tx_frames (snd (ap_eth_irq H m)) = tx_frames m"
    using r m3 call_ok [OF m3(1), of Napi_schedule] by simp_all
  show "rx_cons (snd (ap_eth_irq H m)) = rx_cons m" "rx_prod (snd (ap_eth_irq H m)) = rx_prod m"
    using r(4,5) by (simp_all add: \<open>snd (ap_eth_irq H m) = _\<close> m3_def m2_def ap_eth_writel_def)
qed

lemma hw_ok:
  assumes "eth_ok R m"
  shows "eth_ok R (m\<lparr>hw := step e (hw m)\<rparr>)" "tx_frames (m\<lparr>hw := step e (hw m)\<rparr>) = tx_frames m"
proof -
  have "tx_filled m" "tx_hw (view (hw m)) (unat (tx_clean m)) (unat (tx_prod m))" using assms by (simp_all add: eth_ok_def tx_ok_def)
  moreover from this have "tx_hw (view (step e (hw m))) (unat (tx_clean m)) (unat (tx_prod m))"
    by (intro step_tx_hw [OF _ step_view]) (simp_all add: tx_filled_def tx_hw_def)
  moreover have "tx_filled (m\<lparr>hw := step e (hw m)\<rparr>) = tx_filled m" by (simp add: tx_filled_def tx_slots_def)
  moreover have "rx_ok (m\<lparr>hw := step e (hw m)\<rparr>) = rx_ok m" by (simp add: rx_ok_def rx_filled_def rx_slots_def)
  ultimately show "eth_ok R (m\<lparr>hw := step e (hw m)\<rparr>)" using assms by (simp add: eth_ok_def tx_ok_def)
  show "tx_frames (m\<lparr>hw := step e (hw m)\<rparr>) = tx_frames m" by (simp add: tx_frames_def tx_slots_def)
qed

end

section \<open>A run\<close>

text \<open>
  What can happen to an open device. For a transmission the stack hands over the buffer the kernel parameter
  names, if it has one, and gets it back on \<open>NETDEV_TX_BUSY\<close>.
\<close>

datatype 'ev eth_call = Xmit | Poll nat | Interrupt | Hw 'ev

definition stack_xmit :: "'d eth_hw \<Rightarrow> kernel \<Rightarrow> 'd ap_eth_priv \<Rightarrow> (u64 list \<times> 'd ap_eth_priv) option" where
  "stack_xmit H K m =
    (case k_handed K (klog m) of
       None \<Rightarrow> Some ([], m)
     | Some (s, b) \<Rightarrow>
        let m1 = call (Skb_handed s) (m\<lparr>skbuff := (skbuff m)(s := b)\<rparr>)
        in map_option (\<lambda>(r, m'). (if tx_prod m' = tx_prod m1 then [] else [s],
               case r of NETDEV_TX_OK \<Rightarrow> m' | NETDEV_TX_BUSY \<Rightarrow> call (Skb_returned s) m'))
             (ap_eth_start_xmit H K s m1))"

fun eth_run ::
    "'d eth_hw \<Rightarrow> kernel \<Rightarrow> ('ev \<Rightarrow> 'd \<Rightarrow> 'd) \<Rightarrow> 'ev eth_call list \<Rightarrow> 'd ap_eth_priv \<Rightarrow> (u64 list \<times> 'd ap_eth_priv) option" where
  "eth_run H K step [] m = Some ([], m)"
| "eth_run H K step (Xmit # cs) m =
    Option.bind (stack_xmit H K m) (\<lambda>(ss, m). map_option (\<lambda>(ss', m). (ss @ ss', m)) (eth_run H K step cs m))"
| "eth_run H K step (Poll n # cs) m = Option.bind (ap_eth_napi_poll H K n m) (\<lambda>(_, m). eth_run H K step cs m)"
| "eth_run H K step (Interrupt # cs) m = eth_run H K step cs (snd (ap_eth_irq H m))"
| "eth_run H K step (Hw e # cs) m = eth_run H K step cs (m\<lparr>hw := step e (hw m)\<rparr>)"

context eth_device
begin

lemma stack_xmit_ok:
  assumes K: "fresh_skbs K" and m: "eth_ok R m"
  shows "\<exists>ss m' freed. stack_xmit H K m = Some (ss, m') \<and> eth_ok R m' \<and> tx_frames m @ ss = freed @ tx_frames m' \<and>
    rx_cons m' = rx_cons m \<and> rx_prod m' = rx_prod m"
proof (cases "k_handed K (klog m)")
  case None
  then show ?thesis using m by (auto simp: stack_xmit_def)
next
  case (Some x)
  obtain s b where x: "k_handed K (klog m) = Some (s, b)" using Some by (cases x) auto
  have parts: "acct R m" "tx_ok m" "rx_ok m" using m by (simp_all add: eth_ok_def)
  have new: "Skb s \<notin># priv_res m + R" using parts(1) K x by (force simp: acct_def fresh_skbs_def)
  let ?m0 = "m\<lparr>skbuff := (skbuff m)(s := b)\<rparr>"
  let ?m1 = "call (Skb_handed s) ?m0"
  have out: "Skb s \<notin># priv_res m" using new by simp
  have "acct R ?m0" "priv_res ?m0 = priv_res m" using acct_skbuff [OF parts(1) out] skbuff_res [OF out] by blast+
  then have m1: "acct (add_mset (Skb s) R) ?m1" using new by (intro acct_take) auto
  have same: "tx_same m ?m1" "rx_same m ?m1" "view (hw ?m1) = view (hw m)" by (simp_all add: same_defs)
  have ok1: "tx_ok ?m1" "tx_frames ?m1 = tx_frames m" using tx_ok_same [OF parts(2) same(1,3)] same_view_same [OF same(1,3)] by simp_all
  have "skb_len (skbuff ?m1 q) = 0" if "i < 64" "rx_skb ?m1 ! i = Some q" for i q
  proof -
    have "rx_skb m ! i = Some q" using that(2) by simp
    then have "Skb q \<in># priv_res m" using mset_subset_eqD [OF slot_in_res(2) [OF that(1)], of "Skb q" m] by (simp add: rx_slot_res_def)
    then have "q \<noteq> s" using out by auto
    then show ?thesis using parts(3) that(1) \<open>rx_skb m ! i = Some q\<close> by (simp add: rx_ok_def)
  qed
  then have rx1: "rx_ok ?m1" using parts(3) by (simp add: rx_ok_def rx_filled_def rx_slots_def)
  obtain r m2 freed where xm: "ap_eth_start_xmit H K s ?m1 = Some (r, m2)" and m2: "tx_ok m2" "rest_same ?m1 m2"
    "acct (case r of NETDEV_TX_OK \<Rightarrow> R | NETDEV_TX_BUSY \<Rightarrow> add_mset (Skb s) R) m2"
    "tx_frames ?m1 @ (if tx_prod m2 = tx_prod ?m1 then [] else [s]) = freed @ tx_frames m2"
    using xmit_ok [OF m1 ok1(1)] by blast
  have rx2: "rx_ok m2" by (rule rest_ok [OF m2(2) rx1])
  define m3 where "m3 = (case r of NETDEV_TX_OK \<Rightarrow> m2 | NETDEV_TX_BUSY \<Rightarrow> call (Skb_returned s) m2)"
  have "acct R m3" using m2(3) by (cases r) (auto simp: m3_def intro: acct_give)
  moreover have "tx_same m2 m3" "rx_same m2 m3" "skbuff m3 = skbuff m2" "view (hw m3) = view (hw m2)"
    by (cases r; simp add: m3_def same_defs)+
  then have "tx_ok m3" "rx_ok m3" "tx_frames m3 = tx_frames m2" using tx_ok_same [OF m2(1)] rx_ok_same [OF rx2] same_view_same by blast+
  moreover have "stack_xmit H K m = Some (if tx_prod m2 = tx_prod ?m1 then [] else [s], m3)"
    using x xm by (simp add: stack_xmit_def m3_def Let_def)
  moreover have "rx_cons m3 = rx_cons m" "rx_prod m3 = rx_prod m"
    using m2(2) \<open>rx_same m2 m3\<close> same(2) by (simp_all add: rest_same_def rx_same_def)
  ultimately show ?thesis using m2(4) ok1(2) by (auto simp: eth_ok_def)
qed

text \<open>A run gets through, or the receive ring runs out of buffers after the kernel has refused one.\<close>

lemma run_ok:
  assumes K: "fresh_skbs K"
  shows "eth_ok R m \<Longrightarrow> rx_cons m \<noteq> rx_prod m \<Longrightarrow>
    (\<exists>sent freed m'. eth_run H K step cs m = Some (sent, m') \<and> eth_ok R m' \<and> tx_frames m @ sent = freed @ tx_frames m') \<or>
    (\<exists>cs1 cs2 sent m1. cs = cs1 @ cs2 \<and> eth_run H K step cs1 m = Some (sent, m1) \<and> eth_ok R m1 \<and>
       rx_cons m1 = rx_prod m1 \<and> (\<exists>c\<in>set (klog m1). refused c))"
    (is "_ \<Longrightarrow> _ \<Longrightarrow> ?A cs m \<or> ?B cs m")
proof (induction cs arbitrary: m)
  case Nil
  then show ?case by auto
next
  case (Cons c cs)
  have go: "?A (c # cs) m \<or> ?B (c # cs) m"
    if run: "\<And>ds. eth_run H K step (c # ds) m = map_option (\<lambda>(ss', m). (ss @ ss', m)) (eth_run H K step ds m1)"
      and m1: "eth_ok R m1" "tx_frames m @ ss = freed @ tx_frames m1" "rx_cons m1 \<noteq> rx_prod m1 \<or> (\<exists>c\<in>set (klog m1). refused c)"
      for ss m1 freed
  proof (cases "rx_cons m1 = rx_prod m1")
    case True
    then show ?thesis using run [of "[]"] m1(1,3)
      by (intro disjI2 exI [of _ "[c]"] exI [of _ cs] exI [of _ ss] exI [of _ m1]) simp
  next
    case False
    from Cons.IH [OF m1(1) False] show ?thesis
    proof
      assume "?A cs m1"
      then obtain sent f2 m' where "eth_run H K step cs m1 = Some (sent, m')" "eth_ok R m'" "tx_frames m1 @ sent = f2 @ tx_frames m'" by blast
      moreover from this m1(2) have "tx_frames m @ (ss @ sent) = (freed @ f2) @ tx_frames m'"
        by (metis append.assoc)
      ultimately show ?thesis using run [of cs] by auto
    next
      assume "?B cs m1"
      then obtain cs1 cs2 sent m' where b: "cs = cs1 @ cs2" "eth_run H K step cs1 m1 = Some (sent, m')" "eth_ok R m'"
        "rx_cons m' = rx_prod m'" "\<exists>c\<in>set (klog m'). refused c" by blast
      then show ?thesis using run [of cs1]
        by (intro disjI2 exI [of _ "c # cs1"] exI [of _ cs2] exI [of _ "ss @ sent"] exI [of _ m']) simp
    qed
  qed
  show ?case
  proof (cases c)
    case Xmit
    obtain ss m1 freed where x: "stack_xmit H K m = Some (ss, m1)" "eth_ok R m1" "tx_frames m @ ss = freed @ tx_frames m1"
      "rx_cons m1 = rx_cons m" "rx_prod m1 = rx_prod m"
      using stack_xmit_ok [OF K Cons.prems(1)] by blast
    show ?thesis by (rule go [OF _ x(2,3)]) (use Cons.prems(2) x in \<open>simp_all add: Xmit\<close>)
  next
    case (Poll n)
    obtain k m1 freed where x: "ap_eth_napi_poll H K n m = Some (k, m1)" "eth_ok R m1" "tx_frames m = freed @ tx_frames m1"
      "rx_cons m1 \<noteq> rx_prod m1 \<or> (\<exists>c\<in>set (klog m1). refused c)"
      using napi_poll_ok [OF K Cons.prems] by blast
    show ?thesis by (rule go [of "[]" m1, OF _ x(2) _ x(4)]) (simp_all add: Poll x(1) option.map_id x(3))
  next
    case Interrupt
    note x = irq_ok [OF Cons.prems(1)]
    show ?thesis by (rule go [of "[]", OF _ x(1), of "[]"]) (use Cons.prems(2) in \<open>simp_all add: Interrupt option.map_id x\<close>)
  next
    case (Hw e)
    note x = hw_ok [OF Cons.prems(1), of e]
    show ?thesis by (rule go [of "[]", OF _ x(1), of "[]"]) (use Cons.prems(2) in \<open>simp_all add: Hw option.map_id x(2)\<close>)
  qed
qed

end

end
