(* ===== verification/Rtl_Eth.thy ===== *)
theory Rtl_Eth
  imports Eth_Run
begin

text \<open>
  The Ethernet DMA itself: its registers (\<^verbatim>\<open>rtl/soc/ethernet/apb/ap_eth_dma_regs.sv\<close>), its ring engine
  (\<^verbatim>\<open>rtl/soc/ethernet/axi/ap_eth_ring_engine.sv\<close>) and the start and end of a payload transfer
  (\<^verbatim>\<open>rtl/soc/ethernet/ap_ethernet_subsystem.sv\<close>), by transactions. One event takes the engine from its idle state
  back to it: the fetch of a descriptor up to its launch, or the completion of a payload with its write of the
  status word. A descriptor is active from its launch to its completion, and \<open>STATUS\<close> reads as busy meanwhile. When
  events happen, and with which result, is left open. Descriptor writes on AXI are answered \<open>OKAY\<close>, no register access
  falls into a transaction of the engine, and the rings are where the base registers say.
\<close>

section \<open>State\<close>

record eth_dev =
  tx_enable :: bool
  rx_enable :: bool
  tx_base_lo :: u32
  tx_base_hi :: u16
  tx_count :: u16
  tx_tail :: u16
  tx_head :: u16
  tx_wait_owner :: bool
  tx_active :: bool
  tx_active_len :: u16
  tx_active_ioc :: bool
  rx_base_lo :: u32
  rx_base_hi :: u16
  rx_count :: u16
  rx_tail :: u16
  rx_head :: u16
  rx_wait_owner :: bool
  rx_active :: bool
  rx_active_ioc :: bool
  rx_desc_issued :: bool     \<comment> \<open>a received frame is being written to its buffer\<close>
  irq_status :: u32     \<comment> \<open>four bits: receive error, receive done, transmit error, transmit done\<close>
  irq_enable :: u32
  eth_mem :: "ring_id \<Rightarrow> nat \<Rightarrow> ap_eth_desc"

definition eth_reset :: eth_dev where
  "eth_reset = \<lparr>tx_enable = False, rx_enable = False, tx_base_lo = 0, tx_base_hi = 0, tx_count = 0, tx_tail = 0, tx_head = 0,
     tx_wait_owner = False, tx_active = False, tx_active_len = 0, tx_active_ioc = False,
     rx_base_lo = 0, rx_base_hi = 0, rx_count = 0, rx_tail = 0, rx_head = 0,
     rx_wait_owner = False, rx_active = False, rx_active_ioc = False, rx_desc_issued = False,
     irq_status = 0, irq_enable = 0, eth_mem = (\<lambda>_ _. \<lparr>buffer_addr = 0, length_flags = 0, desc_status = 0, desc_cookie = 0\<rparr>)\<rparr>"

definition ring_valid :: "u32 \<Rightarrow> u16 \<Rightarrow> u16 \<Rightarrow> bool" where
  "ring_valid base_lo n tail \<longleftrightarrow>
     base_lo AND 31 = 0 \<and> 2 \<le> n \<and> n \<le> 256 \<and> n AND (n - 1) = 0 \<and> tail < n"

definition ring_next :: "u16 \<Rightarrow> u16 \<Rightarrow> u16" where
  "ring_next index n = (if index = n - 1 then 0 else index + 1)"

section \<open>Registers\<close>

definition eth_rd :: "u32 \<Rightarrow> eth_dev \<Rightarrow> u32" where
  "eth_rd a d =
    (if a = AP_ETH_REG_CTRL then of_bool (tx_enable d) OR push_bit 1 (of_bool (rx_enable d))
     else if a = AP_ETH_REG_IRQ_STATUS then irq_status d
     else if a = AP_ETH_REG_IRQ_ENABLE then irq_enable d
     else if a = AP_ETH_REG_STATUS then of_bool (tx_active d) OR push_bit 1 (of_bool (rx_active d))
     else if a = AP_ETH_REG_TX_BASE_LO then tx_base_lo d
     else if a = AP_ETH_REG_TX_BASE_HI then ucast (tx_base_hi d)
     else if a = AP_ETH_REG_TX_COUNT then ucast (tx_count d)
     else if a = AP_ETH_REG_TX_TAIL then ucast (tx_tail d)
     else if a = AP_ETH_REG_TX_HEAD then ucast (tx_head d)
     else if a = AP_ETH_REG_RX_BASE_LO then rx_base_lo d
     else if a = AP_ETH_REG_RX_BASE_HI then ucast (rx_base_hi d)
     else if a = AP_ETH_REG_RX_COUNT then ucast (rx_count d)
     else if a = AP_ETH_REG_RX_TAIL then ucast (rx_tail d)
     else if a = AP_ETH_REG_RX_HEAD then ucast (rx_head d)
     else if a = AP_ETH_REG_CAPS then 0x00012020
     else if a = AP_ETH_REG_MAC_LO then 0x00000001
     else if a = AP_ETH_REG_MAC_HI then 0x00000200
     else 0)"

text \<open>
  Switching reception off makes the engine forget the armed receive descriptor, not the transfer that may be
  writing its buffer. A reset of the rings leaves the interrupt status and the registers alone.
\<close>

definition eth_wr :: "u32 \<Rightarrow> u32 \<Rightarrow> eth_dev \<Rightarrow> eth_dev" where
  "eth_wr a v d =
    (if a = AP_ETH_REG_CTRL then
       let d = d\<lparr>tx_enable := bit v 0, rx_enable := bit v 1\<rparr>;
           d = (if bit v 1 then d else d\<lparr>rx_active := False, rx_wait_owner := False\<rparr>)
       in if bit v 2 then
            d\<lparr>tx_head := 0, rx_head := 0, tx_active := False, rx_active := False, tx_wait_owner := False, rx_wait_owner := False\<rparr>
          else d
     else if a = AP_ETH_REG_IRQ_STATUS then d\<lparr>irq_status := irq_status d AND NOT (v AND 0xf)\<rparr>
     else if a = AP_ETH_REG_IRQ_ENABLE then d\<lparr>irq_enable := v AND 0xf\<rparr>
     else if a = AP_ETH_REG_TX_BASE_LO then d\<lparr>tx_base_lo := v\<rparr>
     else if a = AP_ETH_REG_TX_BASE_HI then d\<lparr>tx_base_hi := ucast v\<rparr>
     else if a = AP_ETH_REG_TX_COUNT then d\<lparr>tx_count := ucast v\<rparr>
     else if a = AP_ETH_REG_TX_TAIL then d\<lparr>tx_tail := ucast v\<rparr>
     else if a = AP_ETH_REG_TX_DOORBELL then
       if bit v 0 then
         d\<lparr>tx_wait_owner := False,
           irq_status := irq_status d OR (if ring_valid (tx_base_lo d) (tx_count d) (tx_tail d) then 0 else 2)\<rparr>
       else d
     else if a = AP_ETH_REG_RX_BASE_LO then d\<lparr>rx_base_lo := v\<rparr>
     else if a = AP_ETH_REG_RX_BASE_HI then d\<lparr>rx_base_hi := ucast v\<rparr>
     else if a = AP_ETH_REG_RX_COUNT then d\<lparr>rx_count := ucast v\<rparr>
     else if a = AP_ETH_REG_RX_TAIL then d\<lparr>rx_tail := ucast v\<rparr>
     else if a = AP_ETH_REG_RX_DOORBELL then
       if bit v 0 then
         d\<lparr>rx_wait_owner := False,
           irq_status := irq_status d OR (if ring_valid (rx_base_lo d) (rx_count d) (rx_tail d) then 0 else 8)\<rparr>
       else d
     else d)"

definition mem_set :: "ring_id \<Rightarrow> nat \<Rightarrow> ap_eth_desc \<Rightarrow> eth_dev \<Rightarrow> eth_dev" where
  "mem_set r i x d = d\<lparr>eth_mem := (eth_mem d)(r := (eth_mem d r)(i := x))\<rparr>"

definition eth_rtl :: "eth_dev eth_hw" where
  "eth_rtl = \<lparr>bus_rd = (\<lambda>a d. (eth_rd a d, d)), bus_wr = eth_wr,
     desc_rd = (\<lambda>r i d. (desc_status (eth_mem d r i), d)), desc_wr = mem_set,
     status_wr = (\<lambda>r i x d. mem_set r i ((eth_mem d r i)\<lparr>desc_status := x\<rparr>) d),
     ring_zero = (\<lambda>r d. d\<lparr>eth_mem := (eth_mem d)(r :=
       (\<lambda>_. \<lparr>buffer_addr = 0, length_flags = 0, desc_status = 0, desc_cookie = 0\<rparr>))\<rparr>)\<rparr>"

section \<open>The engine\<close>

abbreviation (input) DESC_ERR_AXI :: u64 where "DESC_ERR_AXI \<equiv> 1"
abbreviation (input) DESC_ERR_FORMAT :: u64 where "DESC_ERR_FORMAT \<equiv> 2"
abbreviation (input) DESC_ERR_PAYLOAD :: u64 where "DESC_ERR_PAYLOAD \<equiv> 3"

text \<open>
  A transmit or a receive descriptor is fetched, with an AXI error or without; the transmission ends; a received
  frame begins to be written to its buffer; the reception ends, with an error or with so many bytes.
\<close>

datatype eth_event = Fetch_tx bool | Sent bool | Fetch_rx bool | Rx_write | Received bool u16

definition desc_format_valid :: "u64 \<Rightarrow> ap_eth_desc \<Rightarrow> bool" where
  "desc_format_valid max_bytes x \<longleftrightarrow>
     buffer_addr x AND 7 = 0 \<and> bit (length_flags x) 18 \<and>
     length_flags x AND 0xffff \<noteq> 0 \<and> length_flags x AND 0xffff \<le> max_bytes"

definition completion_status_word :: "u16 \<Rightarrow> u64 \<Rightarrow> u64" where
  "completion_status_word len error =
     push_bit 16 (ucast len) OR push_bit 2 error OR (if error \<noteq> 0 then 2 else 0) OR 1"

text \<open>The bit of the interrupt status a completion sets, of the pair starting at bit \<open>n\<close>.\<close>

definition completion_irq :: "nat \<Rightarrow> bool \<Rightarrow> u64 \<Rightarrow> u32" where
  "completion_irq n ioc error = push_bit n (if error \<noteq> 0 then 2 else if ioc then 1 else 0)"

definition tx_complete :: "u16 \<Rightarrow> u64 \<Rightarrow> bool \<Rightarrow> eth_dev \<Rightarrow> eth_dev" where
  "tx_complete len error ioc d =
    (let i = unat (tx_head d)
     in (mem_set Tx i ((eth_mem d Tx i)\<lparr>desc_status := completion_status_word len error\<rparr>) d)
          \<lparr>tx_head := ring_next (tx_head d) (tx_count d), irq_status := irq_status d OR completion_irq 0 ioc error\<rparr>)"

definition rx_complete :: "u16 \<Rightarrow> u64 \<Rightarrow> bool \<Rightarrow> eth_dev \<Rightarrow> eth_dev" where
  "rx_complete len error ioc d =
    (let i = unat (rx_head d)
     in (mem_set Rx i ((eth_mem d Rx i)\<lparr>desc_status := completion_status_word len error\<rparr>) d)
          \<lparr>rx_head := ring_next (rx_head d) (rx_count d), irq_status := irq_status d OR completion_irq 2 ioc error\<rparr>)"

text \<open>
  With reception disabled the engine is held in its idle state: it fetches nothing for transmission either, and of
  a transmission that ends it takes no more than that it has ended.
\<close>

fun eth_step :: "eth_event \<Rightarrow> eth_dev \<Rightarrow> eth_dev" where
  "eth_step (Fetch_tx fetch_error) d =
    (if tx_enable d \<and> rx_enable d \<and> \<not> tx_active d \<and> \<not> tx_wait_owner d \<and> ring_valid (tx_base_lo d) (tx_count d) (tx_tail d) \<and>
        tx_head d \<noteq> tx_tail d then
       let x = eth_mem d Tx (unat (tx_head d)); ioc = bit (length_flags x) 17
       in if \<not> bit (length_flags x) 16 then d\<lparr>tx_wait_owner := True\<rparr>
          else if fetch_error \<or> \<not> desc_format_valid 1536 x
          then tx_complete 0 (if fetch_error then DESC_ERR_AXI else DESC_ERR_FORMAT) ioc d
          else d\<lparr>tx_active := True, tx_active_len := ucast (length_flags x), tx_active_ioc := ioc\<rparr>
     else d)"
| "eth_step (Sent payload_error) d =
    (if \<not> tx_active d then d
     else if \<not> rx_enable d then d\<lparr>tx_active := False\<rparr>
     else tx_complete (tx_active_len d) (if payload_error then DESC_ERR_PAYLOAD else 0) (tx_active_ioc d) (d\<lparr>tx_active := False\<rparr>))"
| "eth_step (Fetch_rx fetch_error) d =
    (if rx_enable d \<and> \<not> rx_active d \<and> \<not> rx_desc_issued d \<and> \<not> rx_wait_owner d \<and>
        ring_valid (rx_base_lo d) (rx_count d) (rx_tail d) \<and> rx_head d \<noteq> rx_tail d then
       let x = eth_mem d Rx (unat (rx_head d)); ioc = bit (length_flags x) 17
       in if \<not> bit (length_flags x) 16 then d\<lparr>rx_wait_owner := True\<rparr>
          else if fetch_error \<or> \<not> desc_format_valid 2048 x
          then rx_complete 0 (if fetch_error then DESC_ERR_AXI else DESC_ERR_FORMAT) ioc d
          else d\<lparr>rx_active := True, rx_active_ioc := ioc\<rparr>
     else d)"
| "eth_step Rx_write d = (if rx_active d \<and> \<not> rx_desc_issued d then d\<lparr>rx_desc_issued := True\<rparr> else d)"
| "eth_step (Received payload_error n) d =
    (if rx_active d \<and> (rx_desc_issued d \<or> payload_error) then
       rx_complete n (if payload_error then DESC_ERR_PAYLOAD else 0) (rx_active_ioc d) (d\<lparr>rx_active := False, rx_desc_issued := False\<rparr>)
     else if rx_active d then d
     else d\<lparr>rx_desc_issued := False\<rparr>)"

section \<open>The interface\<close>

definition dev_view :: "eth_dev \<Rightarrow> eth_view" where
  "dev_view d = \<lparr>v_head = unat (tx_head d), v_tail = unat (tx_tail d), v_count = unat (tx_count d),
     v_status = (\<lambda>r i. desc_status (eth_mem d r i)), v_busy = tx_active d\<rparr>"

lemma status_word_done: "bit (completion_status_word len error) 0"
  by (simp add: completion_status_word_def bit_simps)

text \<open>The error code sits in bits 9 to 2 of the word; the comment at the head of the RTL file says 15 to 8.\<close>

lemma status_word_error_code:
  assumes "error < 256"
  shows "take_bit 8 (drop_bit 2 (completion_status_word len error)) = error"
proof (rule bit_word_eqI)
  fix n assume "n < LENGTH(64)"
  have "unat error < 2 ^ 8" using assms by (simp add: word_less_nat_alt)
  then have "take_bit 8 error = error" by (simp add: word_unat_eq_iff unsigned_take_bit_eq take_bit_nat_eq_self)
  then have small: "bit error n \<Longrightarrow> n < 8" by (metis bit_take_bit_iff)
  have "\<not> bit (if error \<noteq> 0 then 2 else 0 :: u64) (n + 2)" "\<not> bit (1 :: u64) (n + 2)"
    by (simp_all add: bit_numeral_rec)
  then show "bit (take_bit 8 (drop_bit 2 (completion_status_word len error))) n = bit error n"
    using small \<open>n < LENGTH(64)\<close> by (auto simp: completion_status_word_def bit_simps)
qed

lemma ring_next_unat:
  assumes "unat i < unat n" "2 \<le> n"
  shows "unat (ring_next i n) = (if Suc (unat i) = unat n then 0 else Suc (unat i))"
proof -
  have "unat (n - 1) = unat n - 1" using assms(2) by (subst unat_sub) (simp_all add: word_le_nat_alt)
  moreover have "unat (i + 1) = Suc (unat i)" if "Suc (unat i) \<noteq> unat n"
    using that assms(1) unsigned_less [of n, where 'a = nat] by (simp add: unat_word_ariths)
  ultimately show ?thesis using assms(1) by (auto simp: ring_next_def word_unat_eq_iff)
qed

lemma dev_view_simps:
  "v_head (dev_view d) = unat (tx_head d)" "v_tail (dev_view d) = unat (tx_tail d)" "v_count (dev_view d) = unat (tx_count d)"
  "v_status (dev_view d) r i = desc_status (eth_mem d r i)" "v_busy (dev_view d) = tx_active d"
  by (simp_all add: dev_view_def)

lemma tx_complete_view:
  assumes "tx_head d < tx_count d" "tx_head d \<noteq> tx_tail d" "\<not> tx_active d"
  shows "v_finish (dev_view d) (dev_view (tx_complete len error ioc d))"
proof -
  have "unat (ring_next (tx_head d) (tx_count d)) = (if Suc (unat (tx_head d)) = unat (tx_count d) then 0 else Suc (unat (tx_head d)))"
  proof (cases "tx_count d = 1")
    case True
    then have "tx_head d = 0" using assms(1) by (simp add: word_less_nat_alt word_unat_eq_iff)
    then show ?thesis using True by (simp add: ring_next_def)
  next
    case False
    then show ?thesis using assms(1) by (intro ring_next_unat) (auto simp: word_less_nat_alt word_le_nat_alt word_unat_eq_iff)
  qed
  then show ?thesis using assms(2,3) status_word_done [of len error]
    by (auto simp: tx_complete_def mem_set_def v_finish_def dev_view_def word_unat_eq_iff fun_eq_iff Let_def)
qed

lemma rx_complete_view: "tx_head (rx_complete len error ioc d) = tx_head d" "tx_tail (rx_complete len error ioc d) = tx_tail d"
  "tx_count (rx_complete len error ioc d) = tx_count d" "tx_active (rx_complete len error ioc d) = tx_active d"
  "eth_mem (rx_complete len error ioc d) Tx = eth_mem d Tx"
  by (simp_all add: rx_complete_def mem_set_def Let_def)

lemma eth_step_view:
  assumes "v_head (dev_view d) < v_count (dev_view d)" "v_busy (dev_view d) \<longrightarrow> v_head (dev_view d) \<noteq> v_tail (dev_view d)"
  shows "v_finish (dev_view d) (dev_view (eth_step e d))"
proof -
  have lt: "tx_head d < tx_count d" and busy: "tx_active d \<Longrightarrow> tx_head d \<noteq> tx_tail d"
    using assms by (simp_all add: dev_view_simps word_less_nat_alt word_unat_eq_iff)
  have same: "v_finish (dev_view d) (dev_view d')"
    if "tx_head d' = tx_head d" "tx_tail d' = tx_tail d" "tx_count d' = tx_count d" "eth_mem d' Tx = eth_mem d Tx"
      "tx_active d' \<longrightarrow> tx_head d \<noteq> tx_tail d" for d'
    using that by (auto simp: v_finish_def dev_view_def word_unat_eq_iff)
  show ?thesis
  proof (cases e)
    case (Fetch_tx f)
    then show ?thesis
      using same [of d] same [of "d\<lparr>tx_wait_owner := True\<rparr>"] busy tx_complete_view [OF lt] same [of "d\<lparr>tx_active := True, tx_active_len := l, tx_active_ioc := i\<rparr>" for l i]
      by (simp add: Let_def)
  next
    case (Sent p)
    let ?d = "d\<lparr>tx_active := False\<rparr>"
    have "tx_active d \<Longrightarrow> v_finish (dev_view ?d) (dev_view (tx_complete len error ioc ?d))" for len error ioc
      using tx_complete_view [of ?d] lt busy by simp
    moreover have "v_finish (dev_view ?d) w = v_finish (dev_view d) w" for w
    proof -
      have "v_head (dev_view ?d) = v_head (dev_view d)" "v_tail (dev_view ?d) = v_tail (dev_view d)"
        "v_count (dev_view ?d) = v_count (dev_view d)" "v_status (dev_view ?d) = v_status (dev_view d)" by (simp_all add: dev_view_def)
      then show ?thesis by (simp only: v_finish_def)
    qed
    ultimately show ?thesis using same [of d] same [of ?d] busy by (simp add: Sent)
  next
    case (Fetch_rx f)
    then show ?thesis using busy by (intro same) (simp_all add: rx_complete_view Let_def)
  next
    case Rx_write
    then show ?thesis using busy by (intro same) simp_all
  next
    case (Received p n)
    then show ?thesis using busy by (intro same) (simp_all add: rx_complete_view)
  qed
qed

interpretation ap_eth: eth_device eth_rtl dev_view eth_step
proof
  show "dev_view (bus_wr eth_rtl a v d) = v_write a v (dev_view d)" for a v d
    by (simp add: eth_rtl_def eth_wr_def v_write_def dev_view_def Let_def)
  show "v_head (dev_view d) < v_count (dev_view d) \<Longrightarrow> (v_busy (dev_view d) \<longrightarrow> v_head (dev_view d) \<noteq> v_tail (dev_view d)) \<Longrightarrow>
    v_finish (dev_view d) (dev_view (eth_step e d))" for d e
    by (rule eth_step_view)
qed (simp_all add: eth_rtl_def eth_rd_def dev_view_def v_set_status_def mem_set_def fun_eq_iff)

text \<open>
  The same device on a bus where it goes on working while the driver runs: a script of events, one before
  each read of the registers \<open>live\<close> names.
\<close>

definition live_turn :: "eth_dev \<times> eth_event list \<Rightarrow> eth_dev \<times> eth_event list" where
  "live_turn x = (case x of (d, []) \<Rightarrow> (d, []) | (d, e # es) \<Rightarrow> (eth_step e d, es))"

definition eth_live :: "(u32 \<Rightarrow> bool) \<Rightarrow> (eth_dev \<times> eth_event list) eth_hw" where
  "eth_live live =
    \<lparr>bus_rd = (\<lambda>a x. let x = (if live a then live_turn x else x) in (eth_rd a (fst x), x)),
     bus_wr = (\<lambda>a v. apfst (eth_wr a v)),
     desc_rd = (\<lambda>r i x. (desc_status (eth_mem (fst x) r i), x)), desc_wr = (\<lambda>r i y. apfst (mem_set r i y)),
     status_wr = (\<lambda>r i s. apfst (\<lambda>d. mem_set r i ((eth_mem d r i)\<lparr>desc_status := s\<rparr>) d)),
     ring_zero = (\<lambda>r. apfst (ring_zero eth_rtl r))\<rparr>"

text \<open>While the driver waits for \<open>STATUS\<close>, the device works, and so it does between the driver's calls.\<close>

abbreviation eth_waiting :: "(eth_dev \<times> eth_event list) eth_hw" where
  "eth_waiting \<equiv> eth_live (\<lambda>a. a = AP_ETH_REG_STATUS)"

interpretation ap_eth_wait: eth_device eth_waiting "\<lambda>x. dev_view (fst x)" "\<lambda>e. apfst (eth_step e)"
proof
  show "dev_view (fst (bus_wr eth_waiting a v x)) = v_write a v (dev_view (fst x))" for a v x
    using ap_eth.wr_view [of a v "fst x"] by (simp add: eth_live_def eth_rtl_def)
  show "v_head (dev_view (fst x)) < v_count (dev_view (fst x)) \<Longrightarrow>
    (v_busy (dev_view (fst x)) \<longrightarrow> v_head (dev_view (fst x)) \<noteq> v_tail (dev_view (fst x))) \<Longrightarrow>
    v_finish (dev_view (fst x)) (dev_view (fst (apfst (eth_step e) x)))" for x e
    using eth_step_view [of "fst x" e] by simp
qed (simp_all add: eth_live_def eth_rtl_def eth_rd_def dev_view_def v_set_status_def mem_set_def fun_eq_iff)

end
