(* ===== verification/Eth_Life.thy ===== *)
theory Eth_Life
  imports Rtl_Eth
begin

text \<open>
  The life of the Ethernet interface on its own hardware: \<open>open\<close> establishes the invariant of \<^verbatim>\<open>Eth_Run\<close>,
  every run keeps it, \<open>stop\<close> gives everything back, even while the hardware writes a received frame to its
  buffer; what a poll delivers; the station address; and the one assumption of all this that the driver cannot
  rely on.
\<close>

section \<open>Open\<close>

definition rx_empty :: "'d ap_eth_priv \<Rightarrow> bool" where
  "rx_empty m \<longleftrightarrow> (\<forall>i<64. \<forall>s. rx_skb m ! i = Some s \<longrightarrow> skb_len (skbuff m s) = 0)"

lemma ring_slots_low: "h < N \<Longrightarrow> ring_slots N 0 h = [0..<h]"
  using map_idI [of "[0..<h]" "\<lambda>k. k mod N"] by (simp add: ring_slots_def ring_dist_def)

context eth_device
begin

lemma post_rx_buffers_rest:
  assumes "fresh_skbs K"
  shows "acct R m \<Longrightarrow> distinct is \<Longrightarrow> set is \<subseteq> {..<64} \<Longrightarrow> \<forall>i\<in>set is. rx_skb m ! i = None \<Longrightarrow> rx_empty m \<Longrightarrow>
    post_rx_buffers H K is m = (r, m') \<Longrightarrow>
    rx_empty m' \<and> tx_view_same (view (hw m)) (view (hw m'))"
proof (induction "is" arbitrary: m)
  case Nil
  then show ?case by (simp add: tx_view_same_def)
next
  case (Cons i "is")
  obtain p m1 where alloc: "ap_eth_alloc_rx_skb K m = (p, m1)" by fastforce
  note a = alloc_rx_acct [OF Cons.prems(1) assms alloc]
  have i: "i < 64" "rx_skb m1 ! i = None" "rx_skb m1 = rx_skb m" using Cons.prems(3,4) a(3) by (simp_all add: rx_same_def)
  have "skb_len (skbuff m1 q) = 0" if "skb_len (skbuff m q) = 0" for q
    using that a(7,8) [of q] by (cases "p = Some q") simp_all
  then have e1: "rx_empty m1" using Cons.prems(5) i(3) by (auto simp: rx_empty_def)
  show ?case
  proof (cases p)
    case None
    then show ?thesis using Cons.prems(6) e1 a(5) alloc by (simp add: tx_view_same_def)
  next
    case (Some s)
    obtain ok m2 where post: "ap_eth_post_rx_buffer H K i s m1 = (ok, m2)" by fastforce
    have "acct (add_mset (Skb s) R) m1" using a(1) Some by simp
    note b = post_rx_acct [OF this i(1,2) post]
    have len: "length (rx_skb m1) = 64" using a(1) by (simp add: acct_def arrays_ok_def)
    have e2: "rx_empty m2" using e1 b(4,8) a(8) [OF Some] i(1) len by (auto simp: rx_empty_def nth_list_update)
    have v2: "tx_view_same (view (hw m)) (view (hw m2))"
      using b(7) a(5) i(1) by (cases ok) (auto simp: tx_view_same_def desc_wr_view)
    show ?thesis
    proof (cases ok)
      case False
      then show ?thesis using Cons.prems(6) e2 v2 alloc post Some by (auto simp: dev_kfree_skb_any_def rx_empty_def)
    next
      case True
      have "\<forall>j\<in>set is. i \<noteq> j" using Cons.prems(2) by auto
      then have "acct R m2" "distinct is" "set is \<subseteq> {..<64}" "\<forall>j\<in>set is. rx_skb m2 ! j = None"
        using b(1,4) True Cons.prems(2-4) i(3) by auto
      moreover have "post_rx_buffers H K is m2 = (r, m')" using Cons.prems(6) alloc post Some True by simp
      ultimately have "rx_empty m' \<and> tx_view_same (view (hw m2)) (view (hw m'))" using e2 Cons.IH by blast
      then show ?thesis using v2 by (simp add: tx_view_same_def)
    qed
  qed
qed

lemma open_ok:
  assumes "acct R m" "closed m" "fresh_skbs K" "ap_eth_open H K m = (Inr (), m')"
  shows "eth_ok R m' \<and> tx_frames m' = [] \<and> opened m'"
proof -
  have closed: "tx_ring m = None" "rx_ring m = None" using assms(2) by (simp_all add: closed_def)
  obtain r1 m1 where stop: "ap_eth_hw_stop H K (call Napi_enable m) = (r1, m1)" by fastforce
  have "acct R (call Napi_enable m)" using assms(1) by (simp add: acct_other)
  note s = hw_stop_same [OF this stop]
  let ?m2 = "ap_eth_writel H AP_ETH_REG_CTRL AP_ETH_CTRL_RING_RESET m1"
  have m2: "acct R ?m2" "closed ?m2"
    using s assms(2) same_closed [OF writel_same(1-3)] same_closed [of m m1] by (auto intro: acct_write simp: same_defs)
  obtain r3 m3 where alloc: "ap_eth_alloc_rings H K ?m2 = (r3, m3)" by fastforce
  have r: "r1 = Inr ()" "r3 = Inr ()" "m' = netif_start_queue (call Netif_carrier_on (ap_eth_hw_program H m3))"
    using assms(4) stop closed alloc by (auto simp: ap_eth_open_def split: sum.splits)
  note a = alloc_rings_acct [OF m2 assms(3) alloc]
  obtain m4 where m4: "acct R m4" "\<forall>i<64. rx_skb m4 ! i = None" "hw m4 = ring_zero H Rx (ring_zero H Tx (hw ?m2))"
    "post_rx_buffers H K [0..<AP_ETH_RING_SIZE - 1] m4 = (Inr (), m3)" using a(4) [OF r(2)] by blast
  have "set [0..<AP_ETH_RING_SIZE - 1] \<subseteq> {..<64}" "\<forall>i\<in>set [0..<AP_ETH_RING_SIZE - 1]. rx_skb m4 ! i = None" "rx_empty m4"
    using m4(2) by (auto simp: rx_empty_def)
  from post_rx_buffers_rest [OF assms(3) m4(1) distinct_upt this m4(4)]
  have m3: "rx_empty m3" "v_head (view (hw m3)) = 0" "\<not> v_busy (view (hw m3))"
    using m4(3) by (simp_all add: tx_view_same_def ring_zero_view writel_view v_write_def bit_numeral_rec)
  have o: "opened m'" using a(2) [OF r(2)] hw_program_same(2) [of H m3] unfolding r(3) by (simp add: netif_start_queue_def opened_def)
  have e: "rx_empty m'" using m3(1) by (simp add: r(3) netif_start_queue_def ap_eth_hw_program_def Let_def ap_eth_writel_def rx_empty_def)
  have "acct R m'" unfolding r(3) using hw_program_same(1) [OF a(1)] by (simp add: netif_start_queue_def acct_other)
  moreover have "view (hw m') = view (hw (ap_eth_hw_program H m3))" by (simp add: r(3) netif_start_queue_def)
  then have "tx_hw (view (hw m')) 0 0"
    using m3(2,3) by (intro tx_hw_empty) (simp_all add: ap_eth_hw_program_def Let_def writel_view v_write_def bit_numeral_rec)
  then have "tx_ok m'" using o by (simp add: opened_def tx_ok_def tx_filled_def tx_slots_def)
  moreover have "rx_ok m'" using o e by (auto simp: opened_def rx_ok_def rx_empty_def rx_filled_def rx_slots_def ring_slots_low)
  moreover have "tx_frames m' = []" using o by (simp add: opened_def tx_frames_def tx_slots_def)
  ultimately show ?thesis using o by (simp add: eth_ok_def)
qed

end

section \<open>From open to stop\<close>

text \<open>
  After \<open>stop\<close> has switched reception off, \<open>STATUS\<close> is busy as long as the frame in transmission, if there is
  one, is: \<open>tx_ends\<close> says that it ends while the driver polls.
\<close>

definition tx_ends :: "nat \<Rightarrow> eth_dev \<times> eth_event list \<Rightarrow> bool" where
  "tx_ends n x \<longleftrightarrow> \<not> tx_active (fst x) \<or> list_ex (\<lambda>e. case e of Sent _ \<Rightarrow> True | _ \<Rightarrow> False) (take (Suc n) (snd x))"

lemma rx_off_step:
  assumes "\<not> rx_enable d" "\<not> rx_active d"
  shows "\<not> rx_enable (eth_step e d)" "\<not> rx_active (eth_step e d)"
    "tx_active (eth_step e d) \<longleftrightarrow> tx_active d \<and> (case e of Sent _ \<Rightarrow> False | _ \<Rightarrow> True)"
  using assms by (cases e; simp)+

lemma waiting_idle: "\<not> rx_enable d \<Longrightarrow> \<not> rx_active d \<Longrightarrow> becomes_idle eth_waiting n (d, es) \<longleftrightarrow> tx_ends n (d, es)"
proof (induction n arbitrary: d es)
  case 0
  then show ?case
    by (cases es) (auto simp: becomes_idle_simps eth_live_def live_turn_def eth_rd_def rx_off_step tx_ends_def split: eth_event.splits)
next
  case (Suc n)
  show ?case
  proof (cases es)
    case Nil
    then show ?thesis using Suc.IH [OF Suc.prems, of "[]"] Suc.prems
      by (auto simp: becomes_idle_simps eth_live_def live_turn_def eth_rd_def tx_ends_def)
  next
    case (Cons e es')
    note st = rx_off_step [OF Suc.prems, of e]
    show ?thesis using Suc.IH [OF st(1,2), of es'] st Suc.prems
      by (auto simp: Cons becomes_idle_simps eth_live_def live_turn_def eth_rd_def tx_ends_def split: eth_event.splits)
  qed
qed

lemma waiting_stop_idle: "stop_idle eth_waiting K m \<longleftrightarrow> tx_ends (stop_polls K m) (hw m)"
  using waiting_idle [of "eth_wr AP_ETH_REG_CTRL AP_ETH_CTRL_TX_ENABLE (eth_wr AP_ETH_REG_IRQ_ENABLE 0 (fst (hw m)))" "stop_polls K m" "snd (hw m)"]
  by (cases "hw m") (simp add: stop_idle_def eth_live_def eth_wr_def tx_ends_def Let_def bit_numeral_rec)

text \<open>
  C2. Once opened, the interface runs: for every kernel and every sequence of transmissions, polls and interrupts,
  each a whole call, with any work of the hardware between the calls and while a call waits for \<open>STATUS\<close>, the
  driver returns, the frames it has accepted are those it has released, in order, followed by those in the transmit
  ring, and a \<open>stop\<close> then gives back everything that was ever taken, each thing once, if no frame is in
  transmission or the one that is ends within the polls of the timeout, and nothing otherwise. This is said of runs
  in which the receive ring does not run out of buffers; it can only after the kernel has refused the driver a
  buffer or its mapping.
\<close>

theorem eth_lifecycle:
  assumes "acct R m" "closed m" "fresh_skbs K" "ap_eth_open eth_waiting K m = (Inr (), m1)"
  shows "(\<exists>sent freed m2. eth_run eth_waiting K (\<lambda>e. apfst (eth_step e)) cs m1 = Some (sent, m2) \<and> sent = freed @ tx_frames m2 \<and>
      (let m3 = ap_eth_stop eth_waiting K m2
       in if tx_ends (stop_polls K m2) (hw m2) then closed m3 \<and> owned (klog m3) = Some R
          else owned (klog m3) = owned (klog m2))) \<or>
    (\<exists>cs1 cs2 sent m2. cs = cs1 @ cs2 \<and> eth_run eth_waiting K (\<lambda>e. apfst (eth_step e)) cs1 m1 = Some (sent, m2) \<and>
       rx_cons m2 = rx_prod m2 \<and> (\<exists>c\<in>set (klog m2). refused c))"
proof -
  have m1: "ap_eth_wait.eth_ok R m1" "tx_frames m1 = []" "rx_cons m1 \<noteq> rx_prod m1"
    using ap_eth_wait.open_ok [OF assms] by (simp_all add: opened_def)
  show ?thesis
    using ap_eth_wait.run_ok [OF assms(3) m1(1,3), of cs]
  proof (elim disjE exE conjE)
    fix sent freed m2
    assume r: "eth_run eth_waiting K (\<lambda>e. apfst (eth_step e)) cs m1 = Some (sent, m2)" "ap_eth_wait.eth_ok R m2"
      "tx_frames m1 @ sent = freed @ tx_frames m2"
    have "acct R m2" using r(2) by (simp add: ap_eth_wait.eth_ok_def)
    from stop_released [OF this, of eth_waiting K] show ?thesis
      using r(1,3) m1(2) by (auto simp: waiting_stop_idle Let_def)
  qed blast
qed

text \<open>
  A kernel that always has memory: a new buffer at an address that grows with the history, every mapping at
  the same aligned address.
\<close>

definition life_kernel :: kernel where
  "life_kernel = demo_kernel\<lparr>k_coherent := (\<lambda>_. Some (0x10000, 0x10000)), k_dma_map := (\<lambda>_ _. Some 0x2000000)\<rparr>"

lemma life_fresh: "fresh_skbs life_kernel"
  using demo_fresh by (simp add: fresh_skbs_def life_kernel_def)

text \<open>The buffers it has handed out are below the next one.\<close>

definition skbs_below :: "kcall list \<Rightarrow> bool" where
  "skbs_below log \<longleftrightarrow> (\<exists>A. owned log = Some A \<and> (\<forall>s. Skb s \<in># A \<longrightarrow> (\<exists>i<length log. s = of_nat (0x1000 * Suc i))))"

lemma below_other: "skbs_below log \<Longrightarrow> gives c = None \<Longrightarrow> (\<forall>s. takes c \<noteq> Some (Skb s)) \<Longrightarrow> skbs_below (log @ [c])"
  by (cases "takes c") (fastforce simp: skbs_below_def owned_snoc owned_step_def less_Suc_eq)+

lemma addr_inj:
  assumes "i < 2 ^ 40" "j < 2 ^ 40" "(of_nat (0x1000 * Suc i) :: u64) = of_nat (0x1000 * Suc j)"
  shows "i = j"
proof -
  have "unat (of_nat (0x1000 * Suc k) :: u64) = 0x1000 * Suc k" if "k < 2 ^ 40" for k
    using that by (subst unat_of_nat) (simp add: mod_less)
  from this [OF assms(1)] this [OF assms(2)] show ?thesis using assms(3) by (metis Suc_inject nat_mult_eq_cancel1 zero_less_numeral)
qed

lemma life_alloc:
  assumes "skbs_below (klog m)" "length (klog m) < 2 ^ 40"
  shows "\<exists>s m'. ap_eth_alloc_rx_skb life_kernel m = (Some s, m') \<and> skbs_below (klog m') \<and> length (klog m') = Suc (length (klog m))"
proof -
  let ?s = "of_nat (0x1000 * Suc (length (klog m))) :: u64"
  obtain A where A: "owned (klog m) = Some A" "\<forall>s. Skb s \<in># A \<longrightarrow> (\<exists>i<length (klog m). s = of_nat (0x1000 * Suc i))"
    using assms(1) by (auto simp: skbs_below_def)
  have new: "Skb ?s \<notin># A"
  proof
    assume "Skb ?s \<in># A"
    then obtain i where "i < length (klog m)" "?s = of_nat (0x1000 * Suc i)" using A(2) by blast
    then show False using addr_inj [of "length (klog m)" i] assms(2) by simp
  qed
  then have "k_alloc_skb life_kernel (klog m) = Some (?s, ?s + 0x40)" using A(1) by (simp add: life_kernel_def demo_kernel_def Let_def)
  moreover have "skbs_below (klog m @ [Netdev_alloc_skb (Some ?s)])"
    using A unfolding skbs_below_def
    by (intro exI [of _ "add_mset (Skb ?s) A"]) (auto simp: owned_take less_Suc_eq)
  ultimately show ?thesis
    by (auto simp: ap_eth_alloc_rx_skb_def netdev_alloc_skb_def skb_reserve_def simp del: of_nat_mult of_nat_Suc)
qed

lemma life_post:
  "skbs_below (klog m) \<Longrightarrow> length (klog m) + 3 * length is < 2 ^ 40 \<Longrightarrow> fst (post_rx_buffers H life_kernel is m) = Inr ()"
proof (induction "is" arbitrary: m)
  case Nil
  then show ?case by simp
next
  case (Cons i "is")
  obtain s m1 where a: "ap_eth_alloc_rx_skb life_kernel m = (Some s, m1)" "skbs_below (klog m1)" "length (klog m1) = Suc (length (klog m))"
    using life_alloc [OF Cons.prems(1)] Cons.prems(2) by auto
  obtain m2 c d where p: "ap_eth_post_rx_buffer H life_kernel i s m1 = (True, m2)"
      "klog m2 = (klog m1 @ [Dma_map_single c 2048 DMA_FROM_DEVICE (Some 0x2000000)]) @ [Desc_write Rx i d]"
    by (force simp: ap_eth_post_rx_buffer_def dma_map_single_def life_kernel_def ap_eth_dma_addr_valid_def ap_eth_desc_set_def
        mask_eq_exp_minus_1)
  have "skbs_below (klog m1 @ [Dma_map_single c 2048 DMA_FROM_DEVICE (Some 0x2000000)])" by (rule below_other [OF a(2)]) simp_all
  from below_other [OF this, of "Desc_write Rx i d"] p(2)
  have "skbs_below (klog m2)" "length (klog m2) = Suc (Suc (length (klog m1)))" by simp_all
  then show ?case using Cons.IH [of m2] Cons.prems(2) a(1,3) p(1) by simp
qed

lemma life_alloc_rings:
  assumes "skbs_below (klog m)" "length (klog m) < 100"
  shows "fst (ap_eth_alloc_rings H life_kernel m) = Inr ()"
proof -
  define c where "c = Dma_alloc_coherent (Some (0x10000, 0x10000))"
  define l where "l = (((klog m @ [c]) @ [c]) @ [Ring_zero Tx]) @ [Ring_zero Rx]"
  have "length l < 200" using assms(2) by (simp add: l_def)
  moreover have "skbs_below l" unfolding l_def by (intro below_other assms(1)) (simp_all add: c_def)
  ultimately have post: "klog m4 = l \<Longrightarrow> fst (post_rx_buffers H life_kernel [0..<63] m4) = Inr ()" for m4
    using life_post [of m4 "[0..<63]" H] by simp
  have last: "fst (case p of (Inl e, m) \<Rightarrow> (Inl e, F m) | (Inr u, m) \<Rightarrow> (Inr (), m)) = fst p" for F and p :: "(eth_error + unit) \<times> 'a ap_eth_priv"
    by (auto split: prod.split sum.split)
  show ?thesis
    by (simp add: ap_eth_alloc_rings_def dma_alloc_coherent_def last post l_def c_def life_kernel_def [THEN arg_cong [of _ _ k_coherent]]
        ap_eth_dma_addr_valid_def mask_eq_exp_minus_1 Let_def del: upt_rec_numeral)
qed

lemma life_open:
  assumes "fst (bus_rd H AP_ETH_REG_STATUS (bus_wr H AP_ETH_REG_CTRL AP_ETH_CTRL_TX_ENABLE (bus_wr H AP_ETH_REG_IRQ_ENABLE 0 d))) = 0"
  shows "\<exists>m1. ap_eth_open H life_kernel (blank_priv d) = (Inr (), m1)"
proof -
  obtain r1 m1 where stop: "ap_eth_hw_stop H life_kernel (call Napi_enable (blank_priv d)) = (r1, m1)" by fastforce
  obtain x where rd: "bus_rd H AP_ETH_REG_STATUS (bus_wr H AP_ETH_REG_CTRL AP_ETH_CTRL_TX_ENABLE (bus_wr H AP_ETH_REG_IRQ_ENABLE 0 d)) = (0, x)"
    using assms by (metis prod.collapse)
  have r1: "r1 = Inr ()" and "klog m1 = [Napi_enable, Reg_write AP_ETH_REG_IRQ_ENABLE 0, Reg_write AP_ETH_REG_CTRL AP_ETH_CTRL_TX_ENABLE,
      Reg_read AP_ETH_REG_STATUS 0, Reg_write AP_ETH_REG_CTRL 0]"
    using stop rd by (auto simp: ap_eth_hw_stop_def ap_eth_wait_idle_def life_kernel_def demo_kernel_def numeral_3_eq_3 ap_eth_readl_def
        ap_eth_writel_def blank_priv_def call_def Let_def)
  then have "fst (ap_eth_alloc_rings H life_kernel (ap_eth_writel H AP_ETH_REG_CTRL AP_ETH_CTRL_RING_RESET m1)) = Inr ()"
    by (intro life_alloc_rings) (simp_all add: ap_eth_writel_def skbs_below_def owned_def owned_step_def)
  then obtain m2 where "ap_eth_alloc_rings H life_kernel (ap_eth_writel H AP_ETH_REG_CTRL AP_ETH_CTRL_RING_RESET m1) = (Inr (), m2)"
    by (metis prod.collapse)
  then show ?thesis using stop r1 by (simp add: ap_eth_open_def blank_acct) (simp add: blank_priv_def)
qed

lemma life_open_rtl: "\<exists>m1. ap_eth_open eth_rtl life_kernel (blank_priv eth_reset) = (Inr (), m1)"
  by (rule life_open) (simp add: eth_rtl_def eth_rd_def eth_wr_def eth_reset_def)

text \<open>A frame is taken up by the hardware, and is sent while \<open>stop\<close> waits for it.\<close>

theorem eth_lifecycle_witness:
  "\<exists>m1. ap_eth_open eth_waiting life_kernel (blank_priv (eth_reset, [Rx_write, Rx_write, Sent False])) = (Inr (), m1) \<and>
    (let cs = [Xmit, Hw (Fetch_tx False), Interrupt, Poll 16]
     in (\<exists>sent freed m2. eth_run eth_waiting life_kernel (\<lambda>e. apfst (eth_step e)) cs m1 = Some (sent, m2) \<and>
          sent = freed @ tx_frames m2 \<and>
          (let m3 = ap_eth_stop eth_waiting life_kernel m2
           in if tx_ends (stop_polls life_kernel m2) (hw m2) then closed m3 \<and> owned (klog m3) = Some {#}
              else owned (klog m3) = owned (klog m2))) \<or>
       (\<exists>cs1 cs2 sent m2. cs = cs1 @ cs2 \<and>
          eth_run eth_waiting life_kernel (\<lambda>e. apfst (eth_step e)) cs1 m1 = Some (sent, m2) \<and> rx_cons m2 = rx_prod m2 \<and>
          (\<exists>c\<in>set (klog m2). refused c)))"
proof -
  have "\<exists>m1. ap_eth_open eth_waiting life_kernel (blank_priv (eth_reset, [Rx_write, Rx_write, Sent False])) = (Inr (), m1)"
    by (rule life_open) (simp add: eth_live_def live_turn_def eth_rd_def eth_wr_def eth_reset_def)
  then obtain m1 where o: "ap_eth_open eth_waiting life_kernel (blank_priv (eth_reset, [Rx_write, Rx_write, Sent False])) = (Inr (), m1)" by blast
  show ?thesis unfolding Let_def [of "[Xmit, Hw (Fetch_tx False), Interrupt, Poll 16]"]
    by (intro exI [of _ m1] conjI o eth_lifecycle [OF blank_acct(2,1) life_fresh o])
qed

section \<open>Stopping while a frame arrives\<close>

lemma issued_step:
  "rx_desc_issued d \<Longrightarrow> (case e of Received _ _ \<Rightarrow> False | _ \<Rightarrow> True) \<Longrightarrow> rx_desc_issued (eth_step e d)"
  by (cases e) (auto simp: tx_complete_def rx_complete_def mem_set_def Let_def)

lemma issued_wr: "rx_desc_issued (eth_wr a v d) = rx_desc_issued d"
  by (simp add: eth_wr_def Let_def)

text \<open>The transfer into a receive buffer goes on: its end is not among the device's next events.\<close>

definition receiving :: "eth_dev \<times> eth_event list \<Rightarrow> bool" where
  "receiving x \<longleftrightarrow> rx_desc_issued (fst x) \<and> list_all (\<lambda>e. case e of Received _ _ \<Rightarrow> False | _ \<Rightarrow> True) (snd x)"

lemma receiving_wr: "receiving (hw m) \<Longrightarrow> receiving (hw (ap_eth_writel eth_waiting a v m))"
  by (simp add: receiving_def ap_eth_writel_def eth_live_def issued_wr)

lemma receiving_turn: "receiving x \<Longrightarrow> receiving (live_turn x)"
  by (cases x; cases "snd x") (simp_all add: receiving_def live_turn_def issued_step)

lemma receiving_rd: "receiving (hw m) \<Longrightarrow> ap_eth_readl eth_waiting a m = (v, m') \<Longrightarrow> receiving (hw m')"
  using receiving_turn [of "hw m"] by (auto simp: ap_eth_readl_def eth_live_def Let_def split: if_splits)

lemma receiving_poll: "receiving (hw m) \<Longrightarrow> readl_poll_zero eth_waiting a n m = (b, m') \<Longrightarrow> receiving (hw m')"
  by (induction n arbitrary: m) (auto split: prod.splits if_splits dest: receiving_rd)

lemma free_rings_hw: "hw (ap_eth_free_rings m) = hw m"
proof -
  have slot: "hw (free_rx_slot i (free_tx_slot i m)) = hw m" for i and m :: "'a ap_eth_priv"
    by (simp add: free_rx_slot_def free_tx_slot_def dev_kfree_skb_any_def kfree_def Let_def split: option.split)
  have "hw (fold (\<lambda>i m. free_rx_slot i (free_tx_slot i m)) is m) = hw m" for "is" and m :: "'a ap_eth_priv"
    by (induction "is" arbitrary: m) (simp_all add: slot)
  then show ?thesis by (simp add: ap_eth_free_rings_def Let_def split: option.split)
qed

text \<open>
  C33. A frame is being written into a receive buffer when the interface is stopped: disabling reception makes the
  ring engine forget the descriptor, \<open>STATUS\<close> reads as idle, and \<open>stop\<close> unmaps and frees every buffer, the one the
  hardware is still writing to among them.
\<close>

theorem eth_stop_frees_under_dma:
  assumes "acct R m" "receiving (hw m)" "tx_ends (stop_polls K m) (hw m)"
  defines "m' \<equiv> ap_eth_stop eth_waiting K m"
  shows "closed m' \<and> owned (klog m') = Some R \<and> rx_desc_issued (fst (hw m'))"
proof -
  have idle: "stop_idle eth_waiting K m" using assms(3) by (simp add: waiting_stop_idle)
  obtain r m1 where stop: "ap_eth_hw_stop eth_waiting K (netif_stop_queue m) = (r, m1)" by fastforce
  have "receiving (hw (netif_stop_queue m))" using assms(2) by (simp add: netif_stop_queue_def)
  then have "receiving (hw m1)"
    using stop by (auto simp: ap_eth_hw_stop_def ap_eth_wait_idle_def Let_def split: prod.splits if_splits
        dest!: receiving_poll [rotated] intro!: receiving_wr)
  moreover have "r = Inr ()" using hw_stop_idle [of eth_waiting K m] idle stop by simp
  ultimately have "receiving (hw m')"
    using receiving_wr [of "call Napi_disable m1"] stop by (simp add: m'_def ap_eth_stop_def free_rings_hw)
  then show ?thesis using stop_released [OF assms(1), of eth_waiting K] idle by (simp add: m'_def receiving_def)
qed

text \<open>The first buffer of the ring, and the device writing to it.\<close>

definition receiving_priv :: "(eth_dev \<times> eth_event list) ap_eth_priv" where
  "receiving_priv = snd (ap_eth_post_rx_buffer eth_waiting life_kernel 0 0x1000
     (snd (ap_eth_alloc_rx_skb life_kernel (blank_priv (eth_reset\<lparr>rx_enable := True, rx_active := True, rx_desc_issued := True\<rparr>, [])))))"

theorem eth_stop_frees_under_dma_witness:
  "owned (klog receiving_priv) = Some {#Mapping 0x2000000 2048 DMA_FROM_DEVICE, Skb 0x1000#} \<and>
   (let m' = ap_eth_stop eth_waiting life_kernel receiving_priv
    in owned (klog m') = Some {#} \<and> rx_desc_issued (fst (hw m')))"
proof -
  let ?d = "eth_reset\<lparr>rx_enable := True, rx_active := True, rx_desc_issued := True\<rparr>"
  obtain p m1 where a: "ap_eth_alloc_rx_skb life_kernel (blank_priv (?d, [] :: eth_event list)) = (p, m1)" by fastforce
  have p: "p = Some 0x1000" and log1: "klog m1 = [Netdev_alloc_skb (Some 0x1000)]" and hw1: "hw m1 = (?d, [])"
    using a by (auto simp: ap_eth_alloc_rx_skb_def netdev_alloc_skb_def life_kernel_def demo_kernel_def blank_priv_def skb_reserve_def)
  note m1 = alloc_rx_acct [OF blank_acct(2) life_fresh a]
  obtain ok m2 where post: "ap_eth_post_rx_buffer eth_waiting life_kernel 0 0x1000 m1 = (ok, m2)" by fastforce
  have ok: "ok" "\<exists>c. klog m2 = klog m1 @ [Dma_map_single c 2048 DMA_FROM_DEVICE (Some 0x2000000), Desc_write Rx 0 (ap_eth_desc_of 0x2000000 2048)]"
    "fst (hw m2) = mem_set Rx 0 (ap_eth_desc_of 0x2000000 2048) ?d" "snd (hw m2) = []"
    using post hw1 by (auto simp: ap_eth_post_rx_buffer_def dma_map_single_def life_kernel_def ap_eth_dma_addr_valid_def ap_eth_desc_set_def
        mask_eq_exp_minus_1 eth_live_def)
  have "rx_skb m1 ! 0 = None" using m1(3) by (simp add: rx_same_def blank_priv_def)
  then have acct: "acct {#} m2" using post_rx_acct(1) [OF _ _ _ post, of "{#}"] m1(1) p ok(1) by simp
  have m2: "receiving_priv = m2" using a post by (simp add: receiving_priv_def)
  have "receiving (hw m2)" "tx_ends n (hw m2)" for n
    using ok(3,4) by (simp_all add: receiving_def tx_ends_def mem_set_def eth_reset_def)
  note t = eth_stop_frees_under_dma [OF acct this]
  have "owned (klog m2) = Some {#Mapping 0x2000000 2048 DMA_FROM_DEVICE, Skb 0x1000#}"
    using ok(2) log1 by (auto simp: owned_def owned_step_def)
  then show ?thesis using t [of life_kernel] by (simp add: m2 Let_def)
qed

section \<open>What a poll delivers\<close>

lemma take_takeWhile_min: "take (min n (length (takeWhile P xs))) xs = take n (takeWhile P xs)"
  by (metis min.commute take_take takeWhile_eq_take)

text \<open>
  C8. A poll of an open interface hands the stack the frames the hardware has finished without an error, in
  the order it finished them, each with the length the hardware gave, and no other; a frame is missing only if the
  kernel had no buffer to replace it, and is then counted as dropped; without such a drop the poll handles
  everything finished, up to its budget.
\<close>

theorem eth_rx_poll_delivers:
  assumes "fresh_skbs K" "acct R m" "tx_filled m" "tx_hw (dev_view (hw m)) (unat (tx_clean m)) (unat (tx_prod m))" "rx_ok m"
    "rx_cons m \<noteq> rx_prod m"
  defines "st \<equiv> \<lambda>i. desc_status (eth_mem (hw m) Rx i)"
  shows "\<exists>k m' rs. ap_eth_rx_poll eth_rtl K n m = Some (k, m') \<and> acct R m' \<and>
    received (klog m') = received (klog m) @ rs \<and> k \<le> n \<and> subseq rs (good_frames st (rx_skb m) (take k (rx_slots m))) \<and>
    length (good_frames st (rx_skb m) (take k (rx_slots m))) \<le>
      length rs + unat (rx_dropped (ndev_stats m') - rx_dropped (ndev_stats m)) \<and>
    (rx_dropped (ndev_stats m') = rx_dropped (ndev_stats m) \<longrightarrow>
      rs = good_frames st (rx_skb m) (take n (takeWhile (\<lambda>i. bit (st i) 0) (rx_slots m))))"
proof -
  have ok: "ap_eth.eth_ok R m" using assms(2-5) by (simp add: ap_eth.eth_ok_def ap_eth.tx_ok_def)
  have st: "v_status (dev_view (hw m)) Rx = st" by (simp add: st_def dev_view_def)
  obtain k m' rs d where p: "ap_eth_rx_poll eth_rtl K n m = Some (k, m')" "ap_eth.eth_ok R m'"
    "received (klog m') = received (klog m) @ rs" "rx_dropped (ndev_stats m') = rx_dropped (ndev_stats m) + of_nat d"
    "k \<le> min n (length (takeWhile (\<lambda>i. bit (st i) 0) (rx_slots m)))" "subseq rs (good_frames st (rx_skb m) (take k (rx_slots m)))"
    "length (good_frames st (rx_skb m) (take k (rx_slots m))) \<le> length rs + d"
    "d = 0 \<longrightarrow> k = min n (length (takeWhile (\<lambda>i. bit (st i) 0) (rx_slots m)))" "d \<le> Suc k"
    using ap_eth.rx_poll_ok [OF assms(1) ok assms(6), of n] unfolding st by auto
  have "k < 64" using p(5) length_takeWhile_le [of "\<lambda>i. bit (st i) 0" "rx_slots m"] ring_dist_less [of 64 "unat (rx_cons m)" "unat (rx_prod m)"]
    by (simp add: rx_slots_def)
  then have "unat (of_nat d :: u64) = d" using p(9) by (subst unat_of_nat) (simp add: mod_less)
  then have d: "unat (rx_dropped (ndev_stats m') - rx_dropped (ndev_stats m)) = d" using p(4) by simp
  have "rs = good_frames st (rx_skb m) (take n (takeWhile (\<lambda>i. bit (st i) 0) (rx_slots m)))"
    if "rx_dropped (ndev_stats m') = rx_dropped (ndev_stats m)"
  proof -
    have "d = 0" using d that by simp
    then have "length rs = length (good_frames st (rx_skb m) (take k (rx_slots m)))"
      using p(6,7) list_emb_length [OF p(6)] by simp
    then have "rs = good_frames st (rx_skb m) (take k (rx_slots m))" using p(6) subseq_same_length by blast
    moreover have "take k (rx_slots m) = take n (takeWhile (\<lambda>i. bit (st i) 0) (rx_slots m))"
      using p(8) \<open>d = 0\<close> by (simp add: take_takeWhile_min)
    ultimately show ?thesis by simp
  qed
  then show ?thesis using p d by (intro exI [of _ k] exI [of _ m'] exI [of _ rs]) (simp add: ap_eth.eth_ok_def)
qed

theorem eth_rx_poll_delivers_witness:
  "\<exists>m k m' rs. ap_eth_rx_poll eth_rtl life_kernel 16 m = Some (k, m') \<and> received (klog m') = received (klog m) @ rs \<and>
    (rx_dropped (ndev_stats m') = rx_dropped (ndev_stats m) \<longrightarrow>
     rs = good_frames (\<lambda>i. desc_status (eth_mem (hw m) Rx i)) (rx_skb m)
       (take 16 (takeWhile (\<lambda>i. bit (desc_status (eth_mem (hw m) Rx i)) 0) (rx_slots m))))"
proof -
  obtain m1 where o: "ap_eth_open eth_rtl life_kernel (blank_priv eth_reset) = (Inr (), m1)" using life_open_rtl by blast
  note k = ap_eth.open_ok [OF blank_acct(2,1) life_fresh o]
  define m where "m = m1\<lparr>hw := eth_step (Received False 60) (eth_step Rx_write (eth_step (Fetch_rx False) (hw m1)))\<rparr>"
  have ok: "ap_eth.eth_ok {#} m" using k ap_eth.hw_ok(1) [of "{#}" m1 "Fetch_rx False"]
      ap_eth.hw_ok(1) [of "{#}" "m1\<lparr>hw := eth_step (Fetch_rx False) (hw m1)\<rparr>" Rx_write]
      ap_eth.hw_ok(1) [of "{#}" "m1\<lparr>hw := eth_step Rx_write (eth_step (Fetch_rx False) (hw m1))\<rparr>" "Received False 60"]
    by (simp add: m_def)
  have h: "acct {#} m" "tx_filled m" "tx_hw (dev_view (hw m)) (unat (tx_clean m)) (unat (tx_prod m))" "rx_ok m" "rx_cons m \<noteq> rx_prod m"
    using ok k by (simp_all add: ap_eth.eth_ok_def ap_eth.tx_ok_def opened_def) (simp add: m_def)
  show ?thesis using eth_rx_poll_delivers [OF life_fresh h, of 16] by blast
qed

section \<open>The station address\<close>

definition mac_lo :: "u8 list \<Rightarrow> u32" where
  "mac_lo mac = push_bit 24 (ucast (mac ! 2)) OR push_bit 16 (ucast (mac ! 3)) OR push_bit 8 (ucast (mac ! 4)) OR ucast (mac ! 5)"

definition mac_hi :: "u8 list \<Rightarrow> u32" where
  "mac_hi mac = push_bit 8 (ucast (mac ! 0)) OR ucast (mac ! 1)"

lemma mac_bytes:
  "ucast (drop_bit 8 (mac_hi mac)) = mac ! 0" "ucast (mac_hi mac) = mac ! 1" "ucast (drop_bit 24 (mac_lo mac)) = mac ! 2"
  "ucast (drop_bit 16 (mac_lo mac)) = mac ! 3" "ucast (drop_bit 8 (mac_lo mac)) = mac ! 4" "ucast (mac_lo mac) = mac ! 5"
  by (rule bit_word_eqI; auto simp: mac_lo_def mac_hi_def bit_simps dest: bit_imp_le_length)+

text \<open>
  C40. The driver reads back the station address that the two registers of the hardware hold, in network byte
  order: of the low register the last four bytes, of the high one the first two.
\<close>

theorem eth_mac_roundtrip:
  assumes "length mac = 6" "\<And>d. fst (bus_rd H AP_ETH_REG_MAC_LO d) = mac_lo mac" "\<And>d. fst (bus_rd H AP_ETH_REG_MAC_HI d) = mac_hi mac"
  shows "fst (ap_eth_read_mac_address H m) = mac"
proof -
  obtain v m1 where lo: "ap_eth_readl H AP_ETH_REG_MAC_LO m = (v, m1)" by fastforce
  obtain w m2 where hi: "ap_eth_readl H AP_ETH_REG_MAC_HI m1 = (w, m2)" by fastforce
  have "v = mac_lo mac" "w = mac_hi mac"
    using lo hi assms(2) [of "hw m"] assms(3) [of "hw m1"] by (auto simp: ap_eth_readl_def split: prod.splits)
  then have "fst (ap_eth_read_mac_address H m) = [mac ! 0, mac ! 1, mac ! 2, mac ! 3, mac ! 4, mac ! 5]"
    using lo hi by (simp add: ap_eth_read_mac_address_def mac_bytes)
  also have "\<dots> = mac" using assms(1) by (intro nth_equalityI) (auto simp: less_Suc_eq nth_Cons' numeral_eq_Suc)
  finally show ?thesis .
qed

theorem eth_mac_roundtrip_witness:
  "fst (ap_eth_read_mac_address eth_rtl (blank_priv eth_reset)) = [2, 0, 0, 0, 0, 1]"
  by (rule eth_mac_roundtrip) (simp_all add: eth_rtl_def eth_rd_def mac_lo_def mac_hi_def)

section \<open>The full ring, while the hardware moves\<close>

text \<open>
  C18. The driver reclaims up to one reading of the hardware's head and then tests for a full ring with another:
  if the hardware finishes a frame between the two, a transmit into a ring with 63 frames is accepted, and the
  ring of 64 frames looks empty from then on, \<open>tx_clean\<close> and \<open>tx_prod\<close> being equal; when the hardware has finished
  them all, reclaiming frees none of them.
\<close>

theorem eth_full_test_race:
  assumes "ap_eth_tx_reclaim H (call Spin_lock_irqsave m) = Some m1" "length (tx_skb m1) = 64" "unat (tx_prod m1) < 64"
    "ap_eth_ring_next (tx_prod m1) = tx_clean m1"
    "ucast (fst (bus_rd H AP_ETH_REG_TX_HEAD (hw m1))) \<noteq> tx_clean m1"
  shows "\<exists>m'. tx_enqueue H s a dma m = Some (NETDEV_TX_OK, m') \<and> tx_prod m' = tx_clean m1 \<and> tx_clean m' = tx_clean m1 \<and>
    tx_slots m' = [] \<and> tx_skb m' = (tx_skb m1)[unat (tx_prod m1) := Some s] \<and>
    (\<forall>d. ucast (fst (bus_rd H AP_ETH_REG_TX_HEAD d)) = tx_clean m1 \<longrightarrow>
       (\<exists>m''. ap_eth_tx_reclaim H (m'\<lparr>hw := d\<rparr>) = Some m'' \<and> tx_skb m'' = tx_skb m' \<and> tx_clean m'' = tx_prod m''))"
proof -
  obtain v m2 where rd: "ap_eth_readl H AP_ETH_REG_TX_HEAD m1 = (v, m2)" by fastforce
  have v: "ucast v \<noteq> ap_eth_ring_next (tx_prod m1)" using rd assms(4,5) by (auto simp: ap_eth_readl_def split: prod.splits)
  define m3 where "m3 = tx_publish H s a dma m2"
  obtain w m4 where rd4: "ap_eth_readl H AP_ETH_REG_TX_HEAD m3 = (w, m4)" by fastforce
  define m' where "m' = call Spin_unlock_irqrestore (if ap_eth_tx_ring_full m4 (ucast w) then netif_stop_queue m4 else m4)"
  have m2: "tx_prod m2 = tx_prod m1" "tx_clean m2 = tx_clean m1" "tx_skb m2 = tx_skb m1" using rd by (auto simp: ap_eth_readl_def split: prod.splits)
  have "tx_prod m3 = tx_clean m1" "tx_clean m3 = tx_clean m1" "tx_skb m3 = (tx_skb m1)[unat (tx_prod m1) := Some s]"
    using m2 assms(4) by (simp_all add: m3_def tx_publish_def ap_eth_desc_set_def ap_eth_writel_def Let_def)
  then have "tx_prod m4 = tx_clean m1" "tx_clean m4 = tx_clean m1" "tx_skb m4 = (tx_skb m1)[unat (tx_prod m1) := Some s]"
    using rd4 by (auto simp: ap_eth_readl_def split: prod.splits)
  then have m': "tx_prod m' = tx_clean m1" "tx_clean m' = tx_clean m1" "tx_skb m' = (tx_skb m1)[unat (tx_prod m1) := Some s]"
    by (simp_all add: m'_def netif_stop_queue_def)
  have "tx_enqueue H s a dma m = Some (NETDEV_TX_OK, m')"
    using assms(1) rd rd4 v m2 by (simp add: tx_enqueue_def ap_eth_tx_ring_full_def m3_def [symmetric] m'_def Let_def)
  moreover have "\<exists>m''. ap_eth_tx_reclaim H (m'\<lparr>hw := d\<rparr>) = Some m'' \<and> tx_skb m'' = tx_skb m' \<and> tx_clean m'' = tx_prod m''"
    if "ucast (fst (bus_rd H AP_ETH_REG_TX_HEAD d)) = tx_clean m1" for d
  proof -
    obtain h m5 where rd5: "ap_eth_readl H AP_ETH_REG_TX_HEAD (m'\<lparr>hw := d\<rparr>) = (h, m5)" by fastforce
    have m5: "ucast h = tx_clean m5" "tx_prod m5 = tx_clean m5" "tx_skb m5 = tx_skb m'"
      using rd5 that m' by (auto simp: ap_eth_readl_def split: prod.splits)
    then have loop: "tx_reclaim_loop H (ucast h) m5 = Some m5" by (subst tx_reclaim_loop.simps) simp
    obtain x m6 where rd6: "ap_eth_readl H AP_ETH_REG_TX_HEAD m5 = (x, m6)" by fastforce
    have m6: "tx_prod m6 = tx_clean m6" "tx_skb m6 = tx_skb m'" using rd6 m5 by (auto simp: ap_eth_readl_def split: prod.splits)
    show ?thesis using rd5 loop rd6 m5 m6 by (simp add: ap_eth_tx_reclaim_def netif_wake_queue_def Let_def)
  qed
  ultimately show ?thesis using m' by (intro exI [of _ m']) (simp add: tx_slots_def)
qed

definition race_dev :: eth_dev where
  "race_dev = eth_reset\<lparr>tx_enable := True, rx_enable := True, tx_count := 64, tx_tail := 63,
     tx_active := True, tx_active_len := 60, tx_active_ioc := True, eth_mem := (\<lambda>_ _. ap_eth_desc_of 0x2000000 60)\<rparr>"

definition race_priv :: "(eth_dev \<times> eth_event list) ap_eth_priv" where
  "race_priv = (blank_priv (race_dev, [Rx_write, Sent False]))
     \<lparr>queue_stopped := False, tx_prod := 63, tx_skb := map (\<lambda>i. Some (of_nat (0x1000 * i))) [0..<63] @ [None]\<rparr>"

abbreviation eth_racing :: "(eth_dev \<times> eth_event list) eth_hw" where
  "eth_racing \<equiv> eth_live (\<lambda>a. a = AP_ETH_REG_TX_HEAD)"

theorem eth_full_test_race_witness:
  "\<exists>m'. tx_enqueue eth_racing 0x63000 0x1000000 0x2000000 race_priv = Some (NETDEV_TX_OK, m') \<and> tx_slots m' = [] \<and>
    (\<forall>i<64. tx_skb m' ! i \<noteq> None)"
proof -
  let ?m1 = "call (Reg_read AP_ETH_REG_TX_HEAD 0) ((call Spin_lock_irqsave race_priv)\<lparr>hw := (race_dev, [Sent False])\<rparr>)"
  have fields: "tx_prod ?m1 = 63" "tx_clean ?m1 = 0" "hw ?m1 = (race_dev, [Sent False])" "\<not> queue_stopped ?m1"
    "tx_skb ?m1 = map (\<lambda>i. Some (of_nat (0x1000 * i))) [0..<63] @ [None]"
    by (simp_all add: race_priv_def blank_priv_def del: upt_rec_numeral)
  have rd: "ap_eth_readl eth_racing AP_ETH_REG_TX_HEAD (call Spin_lock_irqsave race_priv) = (0, ?m1)"
    by (simp add: ap_eth_readl_def eth_live_def live_turn_def race_priv_def race_dev_def eth_reset_def eth_rd_def blank_priv_def)
  have "tx_reclaim_loop eth_racing 0 ?m1 = Some ?m1" using fields(2) by (subst tx_reclaim_loop.simps) simp
  then have reclaim: "ap_eth_tx_reclaim eth_racing (call Spin_lock_irqsave race_priv) = Some ?m1"
    using fields(4) by (simp add: ap_eth_tx_reclaim_def rd)
  have "tx_head (eth_step (Sent False) race_dev) = 1"
    by (simp add: race_dev_def eth_reset_def tx_complete_def ring_next_def Let_def)
  then have head: "ucast (fst (bus_rd eth_racing AP_ETH_REG_TX_HEAD (hw ?m1))) \<noteq> tx_clean ?m1"
    unfolding fields by (simp add: eth_live_def live_turn_def eth_rd_def)
  have "length (tx_skb ?m1) = 64" "unat (tx_prod ?m1) < 64" "ap_eth_ring_next (tx_prod ?m1) = tx_clean ?m1"
    unfolding fields by (simp_all add: ap_eth_ring_next_def)
  from eth_full_test_race [OF reclaim this head, of "0x63000" "0x1000000" "0x2000000"]
  obtain m' where m': "tx_enqueue eth_racing 0x63000 0x1000000 0x2000000 race_priv = Some (NETDEV_TX_OK, m')" "tx_slots m' = []"
    "tx_skb m' = (tx_skb ?m1)[unat (tx_prod ?m1) := Some 0x63000]" by blast
  have "tx_skb m' ! i \<noteq> None" if "i < 64" for i
    using that unfolding m'(3) fields by (cases "i = 63") (simp_all add: nth_append del: upt_rec_numeral)
  then show ?thesis using m' by blast
qed

end
