(* ===== verification/Umode_Pmp.thy ===== *)
theory Umode_Pmp
  imports Machine
begin

text \<open>
  The memory protection of the FreeRTOS user-mode profile (\<^verbatim>\<open>sw/rtos/freertos_umode/pmp_context.c\<close>): the
  templates of the tasks, and what they make of the two PMP entries. The PMP belongs to the CPU core, which is
  not in the repository: it is the parameter \<open>pmp\<close>, under the hypothesis \<open>pmp_spec\<close>, the rule of the RISC-V
  privileged architecture for two naturally aligned entries. A failed assertion does not return: \<open>Inl\<close> is the
  state in which the code stops.
\<close>

section \<open>The protection unit\<close>

datatype access_kind = Load | Store | Fetch

record pmp_regs =
  pmpcfg0 :: u32
  pmpaddr0 :: u32
  pmpaddr1 :: u32

text \<open>An entry in NAPOT mode: the address is below the lowest zero bit of the address register.\<close>

definition napot_matches :: "u32 \<Rightarrow> u32 \<Rightarrow> bool" where
  "napot_matches y x \<longleftrightarrow> (drop_bit 2 x XOR y) AND NOT (y XOR (y + 1)) = 0"

definition pmp_permits :: "u32 \<Rightarrow> access_kind \<Rightarrow> bool" where
  "pmp_permits cfg k \<longleftrightarrow> bit cfg (case k of Load \<Rightarrow> 0 | Store \<Rightarrow> 1 | Fetch \<Rightarrow> 2)"

text \<open>
  With entries 0 and 1 in NAPOT mode and entries 2 and 3 off, and the later ones, which the code never writes, off as
  after reset: the first entry that matches decides; in user mode an address no entry matches is refused.
\<close>

definition pmp_spec :: "(pmp_regs \<Rightarrow> access_kind \<Rightarrow> u32 \<Rightarrow> bool) \<Rightarrow> bool" where
  "pmp_spec pmp \<longleftrightarrow> (\<forall>r k x. pmpcfg0 r AND 0x18181818 = 0x1818 \<longrightarrow>
     pmp r k x =
      (if napot_matches (pmpaddr0 r) x then pmp_permits (pmpcfg0 r) k
       else if napot_matches (pmpaddr1 r) x then pmp_permits (drop_bit 8 (pmpcfg0 r)) k
       else False))"

section \<open>Templates\<close>

abbreviation (input) PMP_A_NAPOT :: u32 where "PMP_A_NAPOT \<equiv> 0x18"
abbreviation (input) PMP_R :: u32 where "PMP_R \<equiv> 0x01"
abbreviation (input) PMP_W :: u32 where "PMP_W \<equiv> 0x02"
abbreviation (input) PMP_X :: u32 where "PMP_X \<equiv> 0x04"
abbreviation (input) USER_DMEM_SIZE :: u32 where "USER_DMEM_SIZE \<equiv> 0x1000"
abbreviation (input) ERISCV_UMODE_MAX_TASKS :: nat where "ERISCV_UMODE_MAX_TASKS \<equiv> 4"

record pmp_template_t =
  tmpl_task :: u32          \<comment> \<open>0 is the null handle\<close>
  tmpl_pmpaddr1 :: u32

record pmp_state = pmp_regs +
  templates :: "pmp_template_t list"
  umode_result :: u32       \<comment> \<open>\<open>eriscv_freertos_umode_result\<close> of \<^verbatim>\<open>main.c\<close>\<close>

definition vAssertCalled :: "'e pmp_state_scheme \<Rightarrow> 'e pmp_state_scheme + 'e pmp_state_scheme" where
  "vAssertCalled s = Inl (s\<lparr>umode_result := 0xdead0001\<rparr>)"

definition napot_4k :: "u32 \<Rightarrow> u32" where
  "napot_4k base = drop_bit 2 base OR 0x1ff"

text \<open>The first index below 4 with a property, as the loops look for it.\<close>

definition find_template :: "u32 \<Rightarrow> pmp_template_t list \<Rightarrow> nat option" where
  "find_template task ts = List.find (\<lambda>i. tmpl_task (ts ! i) = task) [0..<ERISCV_UMODE_MAX_TASKS]"

definition eriscv_umode_pmp_register :: "u32 \<Rightarrow> u32 \<Rightarrow> 'e pmp_state_scheme \<Rightarrow> 'e pmp_state_scheme + 'e pmp_state_scheme" where
  "eriscv_umode_pmp_register task user_dmem_base s =
    (if task = 0 \<or> user_dmem_base AND (USER_DMEM_SIZE - 1) \<noteq> 0 then vAssertCalled s
     else if find_template task (templates s) \<noteq> None then vAssertCalled s
     else case find_template 0 (templates s) of
            Some i \<Rightarrow> Inr (s\<lparr>templates := (templates s)[i := \<lparr>tmpl_task = task, tmpl_pmpaddr1 = napot_4k user_dmem_base\<rparr>]\<rparr>)
          | None \<Rightarrow> vAssertCalled s)"

definition eriscv_umode_pmp_load :: "u32 \<Rightarrow> 'e pmp_state_scheme \<Rightarrow> 'e pmp_state_scheme" where
  "eriscv_umode_pmp_load task s =
    (case find_template task (templates s) of
       Some i \<Rightarrow>
         s\<lparr>pmpaddr0 := 0x04001fff, pmpaddr1 := tmpl_pmpaddr1 (templates s ! i),
           pmpcfg0 := (PMP_A_NAPOT OR PMP_R OR PMP_X) OR push_bit 8 (PMP_A_NAPOT OR PMP_R OR PMP_W)\<rparr>
     | None \<Rightarrow> s)"

text \<open>The kernel's \<open>xTaskGetCurrentTaskHandle\<close> gives the handle; the real switch is the kernel's.\<close>

definition eriscv_umode_pmp_load_current :: "u32 \<Rightarrow> 'e pmp_state_scheme \<Rightarrow> 'e pmp_state_scheme" where
  "eriscv_umode_pmp_load_current current s = eriscv_umode_pmp_load current s"

definition wrap_vTaskSwitchContext :: "u32 \<Rightarrow> 'e pmp_state_scheme \<Rightarrow> 'e pmp_state_scheme" where
  "wrap_vTaskSwitchContext current s = eriscv_umode_pmp_load current s"

section \<open>What the registers admit\<close>

lemma and_not_mask_0: "w AND NOT (mask n) = 0 \<longleftrightarrow> drop_bit n w = (0 :: u32)"
proof
  assume l: "w AND NOT (mask n) = 0"
  show "drop_bit n w = 0"
  proof (rule bit_word_eqI)
    fix k
    have "\<not> bit (w AND NOT (mask n)) (n + k)" using l by simp
    then show "bit (drop_bit n w) k = bit 0 k" by (auto simp: bit_simps dest: bit_imp_le_length)
  qed
next
  assume r: "drop_bit n w = 0"
  show "w AND NOT (mask n) = 0"
  proof (rule bit_word_eqI)
    fix k
    have "\<not> bit (drop_bit n w) (k - n)" using r by simp
    then show "bit (w AND NOT (mask n)) k = bit 0 k" by (cases "k < n") (simp_all add: bit_simps)
  qed
qed

lemma xor_0_iff: "a XOR b = 0 \<longleftrightarrow> a = (b :: u32)"
  by (auto simp: bit_eq_iff bit_xor_iff)

lemma napot_itcm: "napot_matches 0x04001fff x \<longleftrightarrow> drop_bit 16 x = 0x1000"
proof -
  have "napot_matches 0x04001fff x \<longleftrightarrow> (drop_bit 2 x XOR 0x04001fff) AND NOT (mask 14) = 0"
    by (simp add: napot_matches_def mask_eq_exp_minus_1)
  also have "\<dots> \<longleftrightarrow> drop_bit 14 (drop_bit 2 x XOR 0x04001fff) = 0" by (rule and_not_mask_0)
  also have "drop_bit 14 (drop_bit 2 x XOR 0x04001fff) = drop_bit 16 x XOR 0x1000" by (simp add: drop_bit_xor)
  finally show ?thesis by (simp add: xor_0_iff)
qed

text \<open>The address register of an aligned region of 4 KiB matches exactly that region.\<close>

lemma napot_region:
  assumes "base AND 0xfff = 0"
  shows "napot_matches (napot_4k base) x \<longleftrightarrow> drop_bit 12 x = drop_bit 12 base"
proof -
  have low: "\<not> bit base n" if "n < 12" for n
  proof -
    have "\<not> bit (base AND mask 12) n" using assms by (simp add: mask_eq_exp_minus_1)
    then show ?thesis using that by (auto simp: bit_simps)
  qed
  let ?b = "drop_bit 2 base"
  have y: "napot_4k base = ?b OR mask 9" by (simp add: napot_4k_def mask_eq_exp_minus_1)
  have b: "bit ?b n \<Longrightarrow> 10 \<le> n" for n using low [of "n + 2"] by (cases "n < 10") (auto simp: bit_simps)
  have nine: "bit (0x200 :: u32) n \<longleftrightarrow> n = 9" for n using bit_exp_u32 [of 9 n] by auto
  have nb: "n < 10 \<Longrightarrow> \<not> bit ?b n" for n using b by fastforce
  have "napot_4k base = ?b + mask 9" unfolding y by (rule sym, rule disjunctive_add) (use b in \<open>force simp: bit_simps\<close>)
  then have "napot_4k base + 1 = ?b + 0x200" by (simp add: mask_eq_exp_minus_1)
  also have "\<dots> = ?b OR 0x200" by (rule disjunctive_add) (use nb [of 9] nine in auto)
  finally have "napot_4k base XOR (napot_4k base + 1) = (?b OR mask 9) XOR (?b OR 0x200)" by (simp add: y)
  also have "\<dots> = mask 10"
  proof (rule bit_word_eqI)
    fix n assume "n < LENGTH(32)"
    then show "bit ((?b OR mask 9) XOR (?b OR 0x200)) n = bit (mask 10 :: u32) n"
      using nb [of n] nine [of n] by (cases "n < 10") (auto simp: bit_xor_iff bit_or_iff bit_mask_iff)
  qed
  finally have "napot_4k base XOR (napot_4k base + 1) = mask 10" .
  then have "napot_matches (napot_4k base) x \<longleftrightarrow> (drop_bit 2 x XOR napot_4k base) AND NOT (mask 10) = 0"
    by (simp add: napot_matches_def)
  also have "\<dots> \<longleftrightarrow> drop_bit 10 (drop_bit 2 x XOR napot_4k base) = 0" by (rule and_not_mask_0)
  also have "drop_bit 10 (drop_bit 2 x XOR napot_4k base) = drop_bit 12 x XOR drop_bit 12 base"
    by (simp add: drop_bit_xor napot_4k_def drop_bit_or)
  finally show ?thesis by (simp add: xor_0_iff)
qed

section \<open>The table of templates\<close>

definition template_of :: "u32 \<times> u32 \<Rightarrow> pmp_template_t" where
  "template_of r = \<lparr>tmpl_task = fst r, tmpl_pmpaddr1 = napot_4k (snd r)\<rparr>"

definition no_template :: pmp_template_t where "no_template = \<lparr>tmpl_task = 0, tmpl_pmpaddr1 = 0\<rparr>"

text \<open>The table after the registrations \<open>regs\<close>, and when these are acceptable.\<close>

definition table_of :: "(u32 \<times> u32) list \<Rightarrow> pmp_template_t list" where
  "table_of regs = map template_of regs @ replicate (4 - length regs) no_template"

definition regs_ok :: "(u32 \<times> u32) list \<Rightarrow> bool" where
  "regs_ok regs \<longleftrightarrow> length regs \<le> 4 \<and> distinct (map fst regs) \<and> (\<forall>(t, b)\<in>set regs. t \<noteq> 0 \<and> b AND 0xfff = 0)"

fun register_all :: "(u32 \<times> u32) list \<Rightarrow> 'e pmp_state_scheme \<Rightarrow> 'e pmp_state_scheme + 'e pmp_state_scheme" where
  "register_all [] s = Inr s"
| "register_all ((t, b) # regs) s =
    (case eriscv_umode_pmp_register t b s of Inl s \<Rightarrow> Inl s | Inr s \<Rightarrow> register_all regs s)"

lemma table_nth:
  assumes "length regs \<le> 4" "i < 4"
  shows "tmpl_task (table_of regs ! i) = (if i < length regs then fst (regs ! i) else 0)"
    "i < length regs \<Longrightarrow> tmpl_pmpaddr1 (table_of regs ! i) = napot_4k (snd (regs ! i))"
  using assms by (simp_all add: table_of_def nth_append template_of_def no_template_def)

lemma find_template_iff:
  assumes "regs_ok regs" "t \<noteq> 0"
  shows "find_template t (table_of regs) = None \<longleftrightarrow> t \<notin> fst ` set regs"
    "find_template t (table_of regs) = Some i \<Longrightarrow> i < length regs \<and> fst (regs ! i) = t"
proof -
  have le: "length regs \<le> 4" using assms(1) by (simp add: regs_ok_def)
  have "find_template t (table_of regs) = None \<longleftrightarrow> (\<forall>i<4. tmpl_task (table_of regs ! i) \<noteq> t)"
    by (simp add: find_template_def find_None_iff del: upt_rec_numeral)
  also have "\<dots> \<longleftrightarrow> (\<forall>i<length regs. fst (regs ! i) \<noteq> t)" using le table_nth(1) [OF le] assms(2) by (auto dest: order_less_le_trans)
  also have "\<dots> \<longleftrightarrow> t \<notin> set (map fst regs)" by (auto simp: in_set_conv_nth simp del: set_map)
  also have "\<dots> \<longleftrightarrow> t \<notin> fst ` set regs" by simp
  finally show "find_template t (table_of regs) = None \<longleftrightarrow> t \<notin> fst ` set regs" .
  assume "find_template t (table_of regs) = Some i"
  then have "i < 4" "tmpl_task (table_of regs ! i) = t"
    by (auto simp: find_template_def find_Some_iff simp del: upt_rec_numeral)
  then show "i < length regs \<and> fst (regs ! i) = t" using table_nth(1) [OF le] assms(2) by (auto split: if_splits)
qed

lemma find_free:
  assumes "regs_ok regs"
  shows "find_template 0 (table_of regs) = (if length regs < 4 then Some (length regs) else None)"
proof -
  have le: "length regs \<le> 4" using assms by (simp add: regs_ok_def)
  have nz: "fst (regs ! i) \<noteq> 0" if "i < length regs" for i
    using assms nth_mem [OF that] by (force simp: regs_ok_def)
  show ?thesis
  proof (cases "length regs < 4")
    case True
    then show ?thesis using table_nth(1) [OF le] nz unfolding find_template_def
      by (simp add: find_Some_iff del: upt_rec_numeral) (intro exI [of _ "length regs"], simp)
  next
    case False
    then show ?thesis using table_nth(1) [OF le] nz le by (simp add: find_template_def find_None_iff del: upt_rec_numeral)
  qed
qed

lemma regs_ok_snoc:
  "regs_ok (regs @ [(t, b)]) \<longleftrightarrow> regs_ok regs \<and> length regs < 4 \<and> t \<noteq> 0 \<and> b AND 0xfff = 0 \<and> t \<notin> fst ` set regs"
  by (auto simp: regs_ok_def)

lemma regs_ok_prefix: "regs_ok (xs @ ys) \<Longrightarrow> regs_ok xs"
  by (auto simp: regs_ok_def)

lemma register_one:
  assumes "templates s = table_of regs" "regs_ok regs"
  shows "if regs_ok (regs @ [(t, b)])
    then eriscv_umode_pmp_register t b s = Inr (s\<lparr>templates := table_of (regs @ [(t, b)])\<rparr>)
    else eriscv_umode_pmp_register t b s = Inl (s\<lparr>umode_result := 0xdead0001\<rparr>)"
proof (cases "t = 0 \<or> b AND 0xfff \<noteq> 0")
  case True
  then show ?thesis by (auto simp: regs_ok_snoc eriscv_umode_pmp_register_def vAssertCalled_def)
next
  case False
  have "(table_of regs)[length regs := template_of (t, b)] = table_of (regs @ [(t, b)])" if "length regs < 4"
    using that by (cases "4 - length regs") (auto simp: table_of_def list_update_append)
  then show ?thesis using False find_template_iff(1) [OF assms(2), of t] find_free [OF assms(2)] assms
    by (auto simp: regs_ok_snoc eriscv_umode_pmp_register_def vAssertCalled_def template_of_def)
qed

lemma register_all_spec:
  assumes "templates s = table_of pre" "regs_ok pre"
  shows "if regs_ok (pre @ regs) then register_all regs s = Inr (s\<lparr>templates := table_of (pre @ regs)\<rparr>)
    else \<exists>s'. register_all regs s = Inl s' \<and> umode_result s' = 0xdead0001"
  using assms
proof (induction regs arbitrary: pre s)
  case Nil
  then show ?case by simp
next
  case (Cons r regs)
  obtain t b where r: "r = (t, b)" by fastforce
  note one = register_one [OF Cons.prems, of t b]
  show ?case
  proof (cases "regs_ok (pre @ [(t, b)])")
    case True
    then show ?thesis using one Cons.IH [of "s\<lparr>templates := table_of (pre @ [(t, b)])\<rparr>" "pre @ [(t, b)]"] by (simp add: r split: if_splits)
  next
    case False
    then have "\<not> regs_ok (pre @ r # regs)" using regs_ok_prefix [of "pre @ [(t, b)]" regs] r by auto
    then show ?thesis using one False by (simp add: r)
  qed
qed

lemma load_registered:
  assumes "pmp_spec pmp" "templates s = table_of regs" "regs_ok regs" "(t, b) \<in> set regs"
  shows "pmp (pmp_regs.truncate (eriscv_umode_pmp_load t s)) k x \<longleftrightarrow>
    (if drop_bit 16 x = 0x1000 then k \<noteq> Store else drop_bit 12 x = drop_bit 12 b \<and> k \<noteq> Fetch)"
proof -
  have t: "t \<noteq> 0" "b AND 0xfff = 0" "t \<in> fst ` set regs" using assms(3,4) by (force simp: regs_ok_def)+
  obtain i where i: "find_template t (table_of regs) = Some i"
    using find_template_iff(1) [OF assms(3) t(1)] t(3) by (cases "find_template t (table_of regs)") auto
  note j = find_template_iff(2) [OF assms(3) t(1) i]
  obtain n where n: "n < length regs" "regs ! n = (t, b)" using assms(4) by (auto simp: in_set_conv_nth)
  have "distinct (map fst regs)" using assms(3) by (simp add: regs_ok_def)
  from nth_eq_iff_index_eq [OF this, of i n] have "i = n" using j n by simp
  then have "tmpl_pmpaddr1 (templates s ! i) = napot_4k b"
    using assms(2,3) n by (simp add: table_nth(2) regs_ok_def)
  then show ?thesis using assms(1,2) i napot_region [OF t(2)]
    by (cases k) (simp_all add: pmp_spec_def eriscv_umode_pmp_load_def pmp_regs.truncate_def napot_itcm pmp_permits_def bit_numeral_rec)
qed

text \<open>The region of \<open>n\<close> bytes at an address.\<close>

definition in_region :: "u32 \<Rightarrow> nat \<Rightarrow> u32 \<Rightarrow> bool" where
  "in_region b n x \<longleftrightarrow> unat b \<le> unat x \<and> unat x < unat b + n"

lemma in_region_iff:
  assumes "b AND mask n = 0" "n < 32"
  shows "in_region b (2 ^ n) x \<longleftrightarrow> drop_bit n x = drop_bit n b"
proof -
  have "unat b mod 2 ^ n = 0" using assms unat_and_mask [of b n] by simp
  then obtain q where q: "unat b = 2 ^ n * q" by blast
  have "drop_bit n x = drop_bit n b \<longleftrightarrow> unat x div 2 ^ n = q"
    by (simp only: word_unat_eq_iff unat_drop_bit_eq drop_bit_eq_div [where 'a = nat] q) simp
  also have "\<dots> \<longleftrightarrow> 2 ^ n * q \<le> unat x \<and> unat x < 2 ^ n * q + 2 ^ n"
  proof
    assume "unat x div 2 ^ n = q"
    then have "2 ^ n * q + unat x mod 2 ^ n = unat x" using mult_div_mod_eq [of "2 ^ n" "unat x"] by simp
    moreover have "unat x mod 2 ^ n < 2 ^ n" by simp
    ultimately show "2 ^ n * q \<le> unat x \<and> unat x < 2 ^ n * q + 2 ^ n" by linarith
  next
    assume "2 ^ n * q \<le> unat x \<and> unat x < 2 ^ n * q + 2 ^ n"
    then show "unat x div 2 ^ n = q" by (intro div_nat_eqI) (simp_all add: mult.commute)
  qed
  finally show ?thesis by (simp add: in_region_def q)
qed

lemma switch_registered:
  assumes "pmp_spec pmp" "templates s = table_of regs" "regs_ok regs" "(t, b) \<in> set regs"
  shows "pmp (pmp_regs.truncate (wrap_vTaskSwitchContext t s)) k x \<longleftrightarrow>
    (if in_region 0x10000000 0x10000 x then k \<noteq> Store else in_region b 0x1000 x \<and> k \<noteq> Fetch)"
proof -
  have "b AND 0xfff = 0" using assms(3,4) by (auto simp: regs_ok_def)
  then show ?thesis using load_registered [OF assms] in_region_iff [of "0x10000000" 16 x] in_region_iff [of b 12 x]
    by (simp add: wrap_vTaskSwitchContext_def mask_eq_exp_minus_1)
qed

text \<open>
  C10. Registration accepts at most four tasks, with distinct handles other than the null handle and regions aligned
  to 4 KiB, and stops the system at the first that is not so; when the scheduler then switches to a registered
  task, user mode can read and execute the instruction memory, read and write that task's own 4 KiB, and
  nothing else.
\<close>

theorem umode_pmp_isolates:
  assumes "pmp_spec pmp" "templates s = replicate 4 no_template"
  shows "case register_all regs s of
      Inl s' \<Rightarrow> \<not> regs_ok regs \<and> umode_result s' = 0xdead0001
    | Inr s' \<Rightarrow> regs_ok regs \<and> (\<forall>(t, b)\<in>set regs. \<forall>k x.
        pmp (pmp_regs.truncate (wrap_vTaskSwitchContext t s')) k x =
          (if in_region 0x10000000 0x10000 x then k \<noteq> Store else in_region b 0x1000 x \<and> k \<noteq> Fetch))"
proof -
  have s: "templates s = table_of []" "regs_ok []" by (simp_all add: assms(2) table_of_def regs_ok_def)
  show ?thesis
  proof (cases "regs_ok regs")
    case True
    let ?s = "s\<lparr>templates := table_of regs\<rparr>"
    have "templates ?s = table_of regs" by simp
    note this = switch_registered [OF assms(1) this True]
    moreover have "register_all regs s = Inr ?s" using register_all_spec [OF s, where regs = regs] True by simp
    ultimately show ?thesis using True by auto
  next
    case False
    then show ?thesis using register_all_spec [OF s, where regs = regs] by auto
  qed
qed

definition pmp_demo :: "pmp_regs \<Rightarrow> access_kind \<Rightarrow> u32 \<Rightarrow> bool" where
  "pmp_demo r k x =
    (if napot_matches (pmpaddr0 r) x then pmp_permits (pmpcfg0 r) k
     else napot_matches (pmpaddr1 r) x \<and> pmp_permits (drop_bit 8 (pmpcfg0 r)) k)"

definition pmp_boot :: pmp_state where
  "pmp_boot = \<lparr>pmpcfg0 = 0, pmpaddr0 = 0, pmpaddr1 = 0, templates = replicate 4 no_template, umode_result = 0\<rparr>"

theorem umode_pmp_isolates_witness:
  "\<exists>s'. register_all [(7, 0x11000000), (8, 0x11001000)] pmp_boot = Inr s' \<and>
    pmp_demo (pmp_regs.truncate (wrap_vTaskSwitchContext 7 s')) Store 0x11000ffc \<and>
    \<not> pmp_demo (pmp_regs.truncate (wrap_vTaskSwitchContext 8 s')) Store 0x11000ffc"
proof -
  have "pmp_spec pmp_demo" "templates pmp_boot = replicate 4 no_template" by (simp_all add: pmp_spec_def pmp_demo_def pmp_boot_def)
  note t = umode_pmp_isolates [OF this, of "[(7, 0x11000000), (8, 0x11001000)]"]
  have "regs_ok [(7, 0x11000000), (8, 0x11001000)]" by (simp add: regs_ok_def)
  then show ?thesis using t by (auto simp: in_region_def split: sum.splits)
qed

end
