(* ===== verification/Umode_Tasks.thy ===== *)
theory Umode_Tasks
  imports Umode_Pmp "HOL-Library.Sublist"
begin

text \<open>
  The FreeRTOS user-mode profile (\<^verbatim>\<open>sw/rtos/freertos_umode/main.c\<close>): the start-up, the system calls, and the four
  tasks under any scheduler. FreeRTOS is the parameter \<open>rtos\<close>, a function of the history of calls: the handles it
  gives, the cycle counter, and when a task that waits for a notification returns. A task is the list of what it
  does; its last system call is not followed by anything but an endless loop.
\<close>

section \<open>State\<close>

abbreviation (input) MSTATUS_MPP_MASK :: u32 where "MSTATUS_MPP_MASK \<equiv> 0x1800"
abbreviation (input) MCAUSE_ECALL_FROM_UMODE :: u32 where "MCAUSE_ECALL_FROM_UMODE \<equiv> 8"
abbreviation (input) USER0_DMEM_BASE :: u32 where "USER0_DMEM_BASE \<equiv> 0x11000000"
abbreviation (input) USER1_DMEM_BASE :: u32 where "USER1_DMEM_BASE \<equiv> 0x11001000"
abbreviation (input) USER2_DMEM_BASE :: u32 where "USER2_DMEM_BASE \<equiv> 0x11002000"
abbreviation (input) USER3_DMEM_BASE :: u32 where "USER3_DMEM_BASE \<equiv> 0x11003000"
abbreviation (input) USER_PROGRESS_STARTED :: u32 where "USER_PROGRESS_STARTED \<equiv> 0x53544152"
abbreviation (input) USER_PROGRESS_RESUMED :: u32 where "USER_PROGRESS_RESUMED \<equiv> 0x52455355"
abbreviation (input) USER_NOTIFY_CHAIN_MASK :: u32 where "USER_NOTIFY_CHAIN_MASK \<equiv> 14"
abbreviation (input) UMODE_SYSCALL_YIELD :: u32 where "UMODE_SYSCALL_YIELD \<equiv> 1"
abbreviation (input) UMODE_SYSCALL_EXIT :: u32 where "UMODE_SYSCALL_EXIT \<equiv> 2"
abbreviation (input) UMODE_SYSCALL_DELAY :: u32 where "UMODE_SYSCALL_DELAY \<equiv> 3"
abbreviation (input) UMODE_SYSCALL_NOTIFY_GIVE :: u32 where "UMODE_SYSCALL_NOTIFY_GIVE \<equiv> 4"
abbreviation (input) UMODE_SYSCALL_NOTIFY_WAIT :: u32 where "UMODE_SYSCALL_NOTIFY_WAIT \<equiv> 5"
abbreviation (input) UMODE_SYSCALL_RECORD_MCYCLE :: u32 where "UMODE_SYSCALL_RECORD_MCYCLE \<equiv> 6"
abbreviation (input) UMODE_TIMING_MAGIC :: u32 where "UMODE_TIMING_MAGIC \<equiv> 0x554d5431"
abbreviation (input) TIMING_YIELD_A_BEFORE :: u32 where "TIMING_YIELD_A_BEFORE \<equiv> 0"
abbreviation (input) TIMING_YIELD_B_ENTRY :: u32 where "TIMING_YIELD_B_ENTRY \<equiv> 1"
abbreviation (input) TIMING_YIELD_B_BEFORE :: u32 where "TIMING_YIELD_B_BEFORE \<equiv> 2"
abbreviation (input) TIMING_YIELD_A_RESUME :: u32 where "TIMING_YIELD_A_RESUME \<equiv> 3"
abbreviation (input) TIMING_DELAY_BEFORE :: u32 where "TIMING_DELAY_BEFORE \<equiv> 4"
abbreviation (input) TIMING_DELAY_AFTER :: u32 where "TIMING_DELAY_AFTER \<equiv> 5"
abbreviation (input) TIMING_NOTIFY_BEFORE :: u32 where "TIMING_NOTIFY_BEFORE \<equiv> 6"
abbreviation (input) TIMING_NOTIFY_AFTER :: u32 where "TIMING_NOTIFY_AFTER \<equiv> 7"
abbreviation (input) TIMING_WAIT_BEFORE :: u32 where "TIMING_WAIT_BEFORE \<equiv> 8"
abbreviation (input) TIMING_WAIT_AFTER :: u32 where "TIMING_WAIT_AFTER \<equiv> 9"

record umode_timing_report =
  timing_magic :: u32
  yield_a_before :: u32
  yield_b_entry :: u32
  yield_b_before :: u32
  yield_a_resume :: u32
  delay_before :: u32
  delay_after :: u32
  notify_before :: u32
  notify_after :: u32
  wait_before :: u32
  wait_after :: u32

text \<open>The calls to FreeRTOS; \<open>Notify_taken\<close> is the return of \<open>ulTaskNotifyTake\<close>.\<close>

datatype ucall =
    Set_mtvec | Task_create nat u32 | Task_delay u32 | Notify_give u32 | Notify_take u32 | Notify_taken u32
  | Switch_context | Task_delete u32

record umode = pmp_state +
  user_progress :: "nat \<Rightarrow> u32"
  user_complete :: "nat \<Rightarrow> u32"
  user_task_handle :: "nat \<Rightarrow> u32"
  umode_task_table :: "nat \<Rightarrow> u32"      \<comment> \<open>0 is the null handle\<close>
  task_mstatus :: "nat \<Rightarrow> u32"          \<comment> \<open>the status word of the saved context of each task\<close>
  notify_given_mask :: u32
  notify_woken_mask :: u32
  kernel_secret :: u32
  timing_report :: umode_timing_report
  ulog :: "ucall list"

record rtos =
  r_handle :: "nat \<Rightarrow> u32"
  r_mstatus :: "nat \<Rightarrow> u32"
  r_mcycle :: "ucall list \<Rightarrow> u32"
  r_wakes :: "ucall list \<Rightarrow> u32 \<Rightarrow> bool"

definition ulog_call :: "ucall \<Rightarrow> 'e umode_scheme \<Rightarrow> 'e umode_scheme" where
  "ulog_call c s = s\<lparr>ulog := ulog s @ [c]\<rparr>"

section \<open>System calls\<close>

definition record_mcycle :: "u32 \<Rightarrow> u32 \<Rightarrow> umode_timing_report \<Rightarrow> umode_timing_report" where
  "record_mcycle timing_id v t =
    (if timing_id = TIMING_YIELD_A_BEFORE then t\<lparr>yield_a_before := v\<rparr>
     else if timing_id = TIMING_YIELD_B_ENTRY then t\<lparr>yield_b_entry := v\<rparr>
     else if timing_id = TIMING_YIELD_B_BEFORE then t\<lparr>yield_b_before := v\<rparr>
     else if timing_id = TIMING_YIELD_A_RESUME then t\<lparr>yield_a_resume := v\<rparr>
     else if timing_id = TIMING_DELAY_BEFORE then t\<lparr>delay_before := v\<rparr>
     else if timing_id = TIMING_DELAY_AFTER then t\<lparr>delay_after := v\<rparr>
     else if timing_id = TIMING_NOTIFY_BEFORE then t\<lparr>notify_before := v\<rparr>
     else if timing_id = TIMING_NOTIFY_AFTER then t\<lparr>notify_after := v\<rparr>
     else if timing_id = TIMING_WAIT_BEFORE then t\<lparr>wait_before := v\<rparr>
     else if timing_id = TIMING_WAIT_AFTER then t\<lparr>wait_after := v\<rparr>
     else t)"

text \<open>
  How a system call leaves the task: it returns, waits for a notification (and continues with \<open>notify_wait_return\<close>),
  or deletes the task. \<open>Inl\<close>: an assertion failed.
\<close>

datatype syscall_end = Returns | Waits | Deleted

definition user_exit :: "u32 \<Rightarrow> 'e umode_scheme \<Rightarrow> 'e umode_scheme + (syscall_end \<times> 'e umode_scheme)" where
  "user_exit current s =
    (if current = user_task_handle s 0 then
       Inr (Deleted, ulog_call (Task_delete current) (s\<lparr>user_complete := (user_complete s)(0 := 1)\<rparr>))
     else if current = user_task_handle s 1 then
       Inr (Deleted, ulog_call (Task_delete current) (s\<lparr>user_complete := (user_complete s)(1 := 1)\<rparr>))
     else if current = user_task_handle s 2 then
       Inr (Deleted, ulog_call (Task_delete current) (s\<lparr>user_complete := (user_complete s)(2 := 1)\<rparr>))
     else if current = user_task_handle s 3 then
       Inr (Deleted, ulog_call (Task_delete current)
         (s\<lparr>umode_result :=
             (if user_complete s 0 = 1 \<and> user_complete s 1 = 1 \<and> user_complete s 2 = 1 \<and>
                 user_progress s 1 = USER_PROGRESS_RESUMED \<and> user_progress s 2 = USER_PROGRESS_RESUMED \<and>
                 user_progress s 3 = USER_PROGRESS_RESUMED \<and> notify_given_mask s = USER_NOTIFY_CHAIN_MASK \<and>
                 notify_woken_mask s = USER_NOTIFY_CHAIN_MASK \<and> wait_after (timing_report s) \<noteq> 0
              then 1 else 0xdead0001)\<rparr>))
     else map_sum id (\<lambda>s. (Returns, s)) (vAssertCalled s))"

definition application_exception_handler ::
    "rtos \<Rightarrow> u32 \<Rightarrow> u32 \<Rightarrow> u32 \<Rightarrow> u32 \<Rightarrow> 'e umode_scheme \<Rightarrow> 'e umode_scheme + (syscall_end \<times> 'e umode_scheme)" where
  "application_exception_handler K mcause service a0 current s =
    (if mcause = MCAUSE_ECALL_FROM_UMODE then
       if service = UMODE_SYSCALL_DELAY then Inr (Returns, ulog_call (Task_delay a0) s)
       else if service = UMODE_SYSCALL_NOTIFY_GIVE then
         (if a0 < 4 \<and> umode_task_table s (unat a0) \<noteq> 0
          then Inr (Returns, (ulog_call (Notify_give (umode_task_table s (unat a0))) s)
                 \<lparr>notify_given_mask := notify_given_mask s OR push_bit (unat a0) 1\<rparr>)
          else Inr (Returns, s))
       else if service = UMODE_SYSCALL_NOTIFY_WAIT then Inr (Waits, ulog_call (Notify_take current) s)
       else if service = UMODE_SYSCALL_RECORD_MCYCLE then
         Inr (Returns, s\<lparr>timing_report := record_mcycle a0 (r_mcycle K (ulog s)) (timing_report s)\<rparr>)
       else if service = UMODE_SYSCALL_YIELD then Inr (Returns, ulog_call Switch_context s)
       else if service = UMODE_SYSCALL_EXIT then user_exit current s
       else map_sum id (\<lambda>s. (Returns, s)) (vAssertCalled s)
     else map_sum id (\<lambda>s. (Returns, s)) (vAssertCalled s))"

definition application_interrupt_handler :: "'e umode_scheme \<Rightarrow> 'e umode_scheme + 'e umode_scheme" where
  "application_interrupt_handler s = vAssertCalled s"

definition vApplicationStackOverflowHook :: "'e umode_scheme \<Rightarrow> 'e umode_scheme + 'e umode_scheme" where
  "vApplicationStackOverflowHook s = vAssertCalled s"

definition notify_wait_return :: "u32 \<Rightarrow> 'e umode_scheme \<Rightarrow> 'e umode_scheme" where
  "notify_wait_return task s =
    (let s = ulog_call (Notify_taken task) s
     in case List.find (\<lambda>task_id. task = umode_task_table s task_id) [1, 2, 3] of
          None \<Rightarrow> s
        | Some task_id \<Rightarrow> s\<lparr>notify_woken_mask := notify_woken_mask s OR push_bit task_id 1\<rparr>)"

section \<open>Tasks\<close>

datatype uaction = Progress u32 | User_syscall1 u32 u32

definition user0_task_entry :: "bool \<Rightarrow> uaction list" where
  "user0_task_entry bad_syscall_test =
    [Progress USER_PROGRESS_STARTED] @ (if bad_syscall_test then [User_syscall1 0x7f 0] else []) @
    [User_syscall1 UMODE_SYSCALL_RECORD_MCYCLE TIMING_YIELD_A_BEFORE,
     User_syscall1 UMODE_SYSCALL_YIELD 0,
     User_syscall1 UMODE_SYSCALL_RECORD_MCYCLE TIMING_YIELD_A_RESUME,
     User_syscall1 UMODE_SYSCALL_RECORD_MCYCLE TIMING_DELAY_BEFORE,
     User_syscall1 UMODE_SYSCALL_DELAY 3,
     User_syscall1 UMODE_SYSCALL_RECORD_MCYCLE TIMING_DELAY_AFTER,
     User_syscall1 UMODE_SYSCALL_RECORD_MCYCLE TIMING_NOTIFY_BEFORE,
     User_syscall1 UMODE_SYSCALL_NOTIFY_GIVE 1,
     User_syscall1 UMODE_SYSCALL_RECORD_MCYCLE TIMING_NOTIFY_AFTER,
     User_syscall1 UMODE_SYSCALL_EXIT 0]"

definition user1_task_entry :: "uaction list" where
  "user1_task_entry =
    [Progress USER_PROGRESS_STARTED,
     User_syscall1 UMODE_SYSCALL_RECORD_MCYCLE TIMING_YIELD_B_ENTRY,
     User_syscall1 UMODE_SYSCALL_RECORD_MCYCLE TIMING_YIELD_B_BEFORE,
     User_syscall1 UMODE_SYSCALL_YIELD 0,
     User_syscall1 UMODE_SYSCALL_RECORD_MCYCLE TIMING_WAIT_BEFORE,
     User_syscall1 UMODE_SYSCALL_NOTIFY_WAIT 0,
     Progress USER_PROGRESS_RESUMED,
     User_syscall1 UMODE_SYSCALL_RECORD_MCYCLE TIMING_WAIT_AFTER,
     User_syscall1 UMODE_SYSCALL_NOTIFY_GIVE 2,
     User_syscall1 UMODE_SYSCALL_EXIT 0]"

definition user2_task_entry :: "uaction list" where
  "user2_task_entry =
    [Progress USER_PROGRESS_STARTED, User_syscall1 UMODE_SYSCALL_NOTIFY_WAIT 0, Progress USER_PROGRESS_RESUMED,
     User_syscall1 UMODE_SYSCALL_NOTIFY_GIVE 3, User_syscall1 UMODE_SYSCALL_EXIT 0]"

definition user3_task_entry :: "uaction list" where
  "user3_task_entry =
    [Progress USER_PROGRESS_STARTED, User_syscall1 UMODE_SYSCALL_NOTIFY_WAIT 0, Progress USER_PROGRESS_RESUMED,
     User_syscall1 UMODE_SYSCALL_EXIT 0]"

definition user_entry :: "bool \<Rightarrow> nat \<Rightarrow> uaction list" where
  "user_entry bad i = (if i = 0 then user0_task_entry bad else if i = 1 then user1_task_entry
     else if i = 2 then user2_task_entry else if i = 3 then user3_task_entry else [])"

section \<open>Start-up\<close>

definition set_initial_task_to_umode :: "rtos \<Rightarrow> nat \<Rightarrow> 'e umode_scheme \<Rightarrow> 'e umode_scheme" where
  "set_initial_task_to_umode K i s = s\<lparr>task_mstatus := (task_mstatus s)(i := r_mstatus K i AND NOT MSTATUS_MPP_MASK)\<rparr>"

text \<open>The five lines of \<open>main\<close> for one task.\<close>

definition main_task :: "rtos \<Rightarrow> nat \<Rightarrow> u32 \<Rightarrow> 'e umode_scheme \<Rightarrow> 'e umode_scheme + 'e umode_scheme" where
  "main_task K i base s =
    (let h = r_handle K i;
         s = ulog_call (Task_create i h) (s\<lparr>user_task_handle := (user_task_handle s)(i := h)\<rparr>)
     in if h = 0 then vAssertCalled s
        else
          let s = set_initial_task_to_umode K i (s\<lparr>umode_task_table := (umode_task_table s)(i := h)\<rparr>)
          in map_sum id (eriscv_umode_pmp_load h) (eriscv_umode_pmp_register h base s))"

definition sum_bind :: "'a + 'b \<Rightarrow> ('b \<Rightarrow> 'a + 'c) \<Rightarrow> 'a + 'c" where
  "sum_bind r f = (case r of Inl e \<Rightarrow> Inl e | Inr x \<Rightarrow> f x)"

text \<open>\<open>main\<close> up to the start of the scheduler.\<close>

definition umode_main :: "bool \<Rightarrow> rtos \<Rightarrow> 'e umode_scheme \<Rightarrow> 'e umode_scheme + 'e umode_scheme" where
  "umode_main pmp_negative_test K s =
    (let s = ulog_call Set_mtvec s;
         s = s\<lparr>kernel_secret := 0, umode_result := 0,
               timing_report := \<lparr>timing_magic = UMODE_TIMING_MAGIC, yield_a_before = 0, yield_b_entry = 0, yield_b_before = 0,
                 yield_a_resume = 0, delay_before = 0, delay_after = 0, notify_before = 0, notify_after = 0,
                 wait_before = 0, wait_after = 0\<rparr>,
               user_complete := (user_complete s)(0 := 0, 1 := 0, 2 := 0), notify_given_mask := 0, notify_woken_mask := 0\<rparr>
     in sum_bind (main_task K 0 USER0_DMEM_BASE s) (\<lambda>s.
        sum_bind (main_task K 1 USER1_DMEM_BASE s) (\<lambda>s.
        sum_bind (main_task K 2 USER2_DMEM_BASE s) (\<lambda>s.
        sum_bind (main_task K 3 USER3_DMEM_BASE s) (\<lambda>s.
        if pmp_negative_test then eriscv_umode_pmp_register (user_task_handle s 1) USER1_DMEM_BASE s else Inr s)))))"

section \<open>Running\<close>

record usystem = umode +
  upc :: "nat \<Rightarrow> nat"
  uwaiting :: "nat \<Rightarrow> bool"
  uhalted :: bool

text \<open>
  The scheduler picks task \<open>i\<close>: the wrapper of the context switch loads its protection, and the task goes on by one
  action, or by the rest of the system call it waits in.
\<close>

definition ustep :: "rtos \<Rightarrow> bool \<Rightarrow> nat \<Rightarrow> usystem \<Rightarrow> usystem" where
  "ustep K bad i s =
    (if uhalted s then s
     else
       let h = user_task_handle s i;
           s = wrap_vTaskSwitchContext h s
       in if uwaiting s i then
            (if r_wakes K (ulog s) h
             then (notify_wait_return h s)\<lparr>uwaiting := (uwaiting s)(i := False), upc := (upc s)(i := Suc (upc s i))\<rparr>
             else s)
          else if upc s i < length (user_entry bad i) then
            (case user_entry bad i ! upc s i of
               Progress v \<Rightarrow> s\<lparr>user_progress := (user_progress s)(i := v), upc := (upc s)(i := Suc (upc s i))\<rparr>
             | User_syscall1 service arg \<Rightarrow>
                 (case application_exception_handler K MCAUSE_ECALL_FROM_UMODE service arg h s of
                    Inl s \<Rightarrow> s\<lparr>uhalted := True\<rparr>
                  | Inr (Waits, s) \<Rightarrow> s\<lparr>uwaiting := (uwaiting s)(i := True)\<rparr>
                  | Inr (_, s) \<Rightarrow> s\<lparr>upc := (upc s)(i := Suc (upc s i))\<rparr>))
          else s)"

fun urun :: "rtos \<Rightarrow> bool \<Rightarrow> nat list \<Rightarrow> usystem \<Rightarrow> usystem" where
  "urun K bad [] s = s"
| "urun K bad (i # is) s = urun K bad is (ustep K bad i s)"

end
