(* ===== verification/Umode_Run.thy ===== *)
theory Umode_Run
  imports Umode_Tasks
begin

text \<open>
  The four user-mode tasks under an arbitrary scheduler: what the verdict of the profile means, and when it is wrong.
\<close>

section \<open>Notifications\<close>

text \<open>Notifications given to a task and not yet taken; taking clears them all (\<open>pdTRUE\<close>).\<close>

definition pending_step :: "u32 \<Rightarrow> nat \<Rightarrow> ucall \<Rightarrow> nat" where
  "pending_step h n c = (case c of Notify_give h' \<Rightarrow> if h' = h then Suc n else n | Notify_taken h' \<Rightarrow> if h' = h then 0 else n | _ \<Rightarrow> n)"

definition pending :: "u32 \<Rightarrow> ucall list \<Rightarrow> nat" where
  "pending h log = foldl (pending_step h) 0 log"

lemma pending_simps [simp]: "pending h [] = 0" "pending h (log @ [c]) = pending_step h (pending h log) c"
  by (simp_all add: pending_def)

text \<open>
  What the code relies on: handles are distinct and not null, and waiting for a notification ends only when there is
  one. That the cycle counter does not read 0 is no documented promise: the code takes a recorded 0 for a measurement
  that was not made, so that the verdict depends only on the exits needs it.
\<close>

definition rtos_ok :: "rtos \<Rightarrow> bool" where
  "rtos_ok K \<longleftrightarrow> distinct [0, r_handle K 0, r_handle K 1, r_handle K 2, r_handle K 3] \<and> (\<forall>log. r_mcycle K log \<noteq> 0) \<and>
     (\<forall>log h. r_wakes K log h \<longrightarrow> 0 < pending h log)"

text \<open>The events the profile is about, in order.\<close>

definition notify_chain :: "rtos \<Rightarrow> ucall list" where
  "notify_chain K = [Notify_give (r_handle K 1), Notify_taken (r_handle K 1), Notify_give (r_handle K 2),
     Notify_taken (r_handle K 2), Notify_give (r_handle K 3), Notify_taken (r_handle K 3)]"

lemma subseq_snoc: "subseq xs log \<Longrightarrow> subseq xs (log @ [c])" "subseq xs log \<Longrightarrow> subseq (xs @ [c]) (log @ [c])"
  using list_emb_append_mono [of "(=)" xs log "[]" "[c]"] list_emb_append_mono [of "(=)" xs log "[c]" "[c]"] by simp_all

definition chain_mask :: "bool \<Rightarrow> bool \<Rightarrow> bool \<Rightarrow> u32" where
  "chain_mask a b c = (if a then 2 else 0) OR (if b then 4 else 0) OR (if c then 8 else 0)"

section \<open>The invariant\<close>

definition tasks_ok :: "rtos \<Rightarrow> usystem \<Rightarrow> bool" where
  "tasks_ok K s \<longleftrightarrow> \<not> uhalted s \<and> (\<forall>i<4. user_task_handle s i = r_handle K i \<and> umode_task_table s i = r_handle K i) \<and>
     (\<forall>i<4. upc s i \<le> length (user_entry False i)) \<and>
     (\<forall>i. uwaiting s i \<longrightarrow> i = 1 \<and> upc s i = 5 \<or> (i = 2 \<or> i = 3) \<and> upc s i = 1)"

text \<open>The variables of the profile as functions of how far the tasks are.\<close>

definition globals_ok :: "usystem \<Rightarrow> bool" where
  "globals_ok s \<longleftrightarrow>
     (6 < upc s 1 \<longrightarrow> user_progress s 1 = USER_PROGRESS_RESUMED) \<and> (2 < upc s 2 \<longrightarrow> user_progress s 2 = USER_PROGRESS_RESUMED) \<and>
     (2 < upc s 3 \<longrightarrow> user_progress s 3 = USER_PROGRESS_RESUMED) \<and>
     user_complete s 0 = (if upc s 0 = 11 then 1 else 0) \<and> user_complete s 1 = (if upc s 1 = 10 then 1 else 0) \<and>
     user_complete s 2 = (if upc s 2 = 5 then 1 else 0) \<and>
     notify_given_mask s = chain_mask (8 < upc s 0) (8 < upc s 1) (3 < upc s 2) \<and>
     notify_woken_mask s = chain_mask (5 < upc s 1) (1 < upc s 2) (1 < upc s 3) \<and>
     (7 < upc s 1 \<longrightarrow> wait_after (timing_report s) \<noteq> 0)"

text \<open>No task is past its wait before the task that wakes it has given the notification.\<close>

definition chain_ok :: "rtos \<Rightarrow> usystem \<Rightarrow> bool" where
  "chain_ok K s \<longleftrightarrow>
     (0 < pending (r_handle K 1) (ulog s) \<longrightarrow> 8 < upc s 0) \<and> (0 < pending (r_handle K 2) (ulog s) \<longrightarrow> 8 < upc s 1) \<and>
     (0 < pending (r_handle K 3) (ulog s) \<longrightarrow> 3 < upc s 2) \<and>
     (5 < upc s 1 \<longrightarrow> 8 < upc s 0) \<and> (1 < upc s 2 \<longrightarrow> 8 < upc s 1) \<and> (1 < upc s 3 \<longrightarrow> 3 < upc s 2)"

definition order_ok :: "rtos \<Rightarrow> usystem \<Rightarrow> bool" where
  "order_ok K s \<longleftrightarrow>
     (8 < upc s 0 \<longrightarrow> subseq (take 1 (notify_chain K)) (ulog s)) \<and> (5 < upc s 1 \<longrightarrow> subseq (take 2 (notify_chain K)) (ulog s)) \<and>
     (8 < upc s 1 \<longrightarrow> subseq (take 3 (notify_chain K)) (ulog s)) \<and> (1 < upc s 2 \<longrightarrow> subseq (take 4 (notify_chain K)) (ulog s)) \<and>
     (3 < upc s 2 \<longrightarrow> subseq (take 5 (notify_chain K)) (ulog s)) \<and> (1 < upc s 3 \<longrightarrow> subseq (notify_chain K) (ulog s))"

definition verdict_ok :: "usystem \<Rightarrow> bool" where
  "verdict_ok s \<longleftrightarrow> (upc s 3 < 4 \<longrightarrow> umode_result s = 0) \<and>
     (upc s 3 = 4 \<longrightarrow> umode_result s = 0xdead0001 \<or> umode_result s = 1 \<and> upc s 0 = 11 \<and> upc s 1 = 10 \<and> upc s 2 = 5)"

definition uinv :: "rtos \<Rightarrow> usystem \<Rightarrow> bool" where
  "uinv K s \<longleftrightarrow> tasks_ok K s \<and> globals_ok s \<and> chain_ok K s \<and> order_ok K s \<and> verdict_ok s"

lemma wrap_same [simp]:
  "uhalted (wrap_vTaskSwitchContext h s) = uhalted s" "upc (wrap_vTaskSwitchContext h s) = upc s"
  "uwaiting (wrap_vTaskSwitchContext h s) = uwaiting s" 
  by (simp_all add: wrap_vTaskSwitchContext_def eriscv_umode_pmp_load_def split: option.split)

lemma wrap_same_umode [simp]:
  "user_progress (wrap_vTaskSwitchContext h s) = user_progress s" "user_complete (wrap_vTaskSwitchContext h s) = user_complete s"
  "user_task_handle (wrap_vTaskSwitchContext h s) = user_task_handle s" "umode_task_table (wrap_vTaskSwitchContext h s) = umode_task_table s"
  "notify_given_mask (wrap_vTaskSwitchContext h s) = notify_given_mask s" "notify_woken_mask (wrap_vTaskSwitchContext h s) = notify_woken_mask s"
  "timing_report (wrap_vTaskSwitchContext h s) = timing_report s" "ulog (wrap_vTaskSwitchContext h s) = ulog s"
  "umode_result (wrap_vTaskSwitchContext h s) = umode_result s"
  by (simp_all add: wrap_vTaskSwitchContext_def eriscv_umode_pmp_load_def split: option.split)

lemma entry_lengths [simp]:
  "length (user_entry False 0) = 11" "length (user_entry False 1) = 10" "length (user_entry False (Suc 0)) = 10"
  "length (user_entry False 2) = 5" "length (user_entry False 3) = 4"
  by (simp_all add: user_entry_def user0_task_entry_def user1_task_entry_def user2_task_entry_def user3_task_entry_def)

lemma entry_length: "i < 4 \<Longrightarrow> length (user_entry False i) \<le> 11"
  by (auto simp: user_entry_def user0_task_entry_def user1_task_entry_def user2_task_entry_def user3_task_entry_def)

lemma tasks_ok_at:
  assumes "tasks_ok K s" "i < 4"
  shows "\<not> uhalted s" "user_task_handle s i = r_handle K i" "umode_task_table s i = r_handle K i" "upc s i \<le> length (user_entry False i)"
    "uwaiting s i \<Longrightarrow> i = 1 \<and> upc s i = 5 \<or> (i = 2 \<or> i = 3) \<and> upc s i = 1"
  using assms by (simp_all add: tasks_ok_def)

text \<open>The step of a task that does not wait, as an update of the state after the context switch.\<close>

lemma ustep_act:
  assumes "tasks_ok K s" "i < 4" "\<not> uwaiting s i" "upc s i < length (user_entry False i)"
  defines "w \<equiv> wrap_vTaskSwitchContext (r_handle K i) s"
  shows "user_entry False i ! upc s i = Progress v \<Longrightarrow>
      ustep K False i s = w\<lparr>user_progress := (user_progress w)(i := v), upc := (upc w)(i := Suc (upc w i))\<rparr>"
    "user_entry False i ! upc s i = User_syscall1 service arg \<Longrightarrow>
      application_exception_handler K MCAUSE_ECALL_FROM_UMODE service arg (r_handle K i) w = Inr (Returns, s') \<Longrightarrow>
      ustep K False i s = s'\<lparr>upc := (upc s')(i := Suc (upc s' i))\<rparr>"
    "user_entry False i ! upc s i = User_syscall1 service arg \<Longrightarrow>
      application_exception_handler K MCAUSE_ECALL_FROM_UMODE service arg (r_handle K i) w = Inr (Deleted, s') \<Longrightarrow>
      ustep K False i s = s'\<lparr>upc := (upc s')(i := Suc (upc s' i))\<rparr>"
    "user_entry False i ! upc s i = User_syscall1 service arg \<Longrightarrow>
      application_exception_handler K MCAUSE_ECALL_FROM_UMODE service arg (r_handle K i) w = Inr (Waits, s') \<Longrightarrow>
      ustep K False i s = s'\<lparr>uwaiting := (uwaiting s')(i := True)\<rparr>"
  using tasks_ok_at [OF assms(1,2)] assms(3,4) by (simp_all add: ustep_def w_def Let_def)

section \<open>Steps that concern one task alone\<close>

definition quiet_action :: "uaction \<Rightarrow> bool" where
  "quiet_action a \<longleftrightarrow> (case a of Progress _ \<Rightarrow> True | User_syscall1 service _ \<Rightarrow>
     service \<in> {UMODE_SYSCALL_YIELD, UMODE_SYSCALL_DELAY, UMODE_SYSCALL_RECORD_MCYCLE})"

text \<open>What such a step leaves alone.\<close>

definition quiet_step :: "nat \<Rightarrow> uaction \<Rightarrow> usystem \<Rightarrow> usystem \<Rightarrow> bool" where
  "quiet_step i a s s' \<longleftrightarrow> uhalted s' = uhalted s \<and> upc s' = (upc s)(i := Suc (upc s i)) \<and> uwaiting s' = uwaiting s \<and>
     user_task_handle s' = user_task_handle s \<and> umode_task_table s' = umode_task_table s \<and> user_complete s' = user_complete s \<and>
     notify_given_mask s' = notify_given_mask s \<and> notify_woken_mask s' = notify_woken_mask s \<and> umode_result s' = umode_result s \<and>
     (\<forall>h. pending h (ulog s') = pending h (ulog s)) \<and> (\<forall>xs. subseq xs (ulog s) \<longrightarrow> subseq xs (ulog s')) \<and>
     user_progress s' = (case a of Progress v \<Rightarrow> (user_progress s)(i := v) | _ \<Rightarrow> user_progress s) \<and>
     (wait_after (timing_report s) \<noteq> 0 \<or> a = User_syscall1 UMODE_SYSCALL_RECORD_MCYCLE TIMING_WAIT_AFTER \<longrightarrow> wait_after (timing_report s') \<noteq> 0)"

lemma record_wait_after:
  "wait_after (record_mcycle t v r) = (if t = 9 then v else wait_after r)"
  by (simp add: record_mcycle_def)

lemma ustep_quiet:
  assumes "rtos_ok K" "tasks_ok K s" "i < 4" "\<not> uwaiting s i" "upc s i < length (user_entry False i)"
    and "quiet_action (user_entry False i ! upc s i)"
  shows "quiet_step i (user_entry False i ! upc s i) s (ustep K False i s)"
proof (cases "user_entry False i ! upc s i")
  case (Progress v)
  show ?thesis unfolding ustep_act(1) [OF assms(2-5) Progress] Progress by (simp add: quiet_step_def)
next
  case (User_syscall1 service arg)
  let ?w = "wrap_vTaskSwitchContext (r_handle K i) s"
  have mc: "r_mcycle K (ulog s) \<noteq> 0" using assms(1) by (simp add: rtos_ok_def)
  consider "service = UMODE_SYSCALL_YIELD" | "service = UMODE_SYSCALL_DELAY" | "service = UMODE_SYSCALL_RECORD_MCYCLE"
    using assms(6) User_syscall1 by (auto simp: quiet_action_def)
  then show ?thesis
  proof cases
    case 1
    have "application_exception_handler K MCAUSE_ECALL_FROM_UMODE service arg (r_handle K i) ?w = Inr (Returns, ulog_call Switch_context ?w)"
      by (simp add: 1 application_exception_handler_def)
    from ustep_act(2) [OF assms(2-5) User_syscall1 this] show ?thesis unfolding User_syscall1
      by (simp add: 1 quiet_step_def ulog_call_def pending_step_def subseq_snoc)
  next
    case 2
    have "application_exception_handler K MCAUSE_ECALL_FROM_UMODE service arg (r_handle K i) ?w = Inr (Returns, ulog_call (Task_delay arg) ?w)"
      by (simp add: 2 application_exception_handler_def)
    from ustep_act(2) [OF assms(2-5) User_syscall1 this] show ?thesis unfolding User_syscall1
      by (simp add: 2 quiet_step_def ulog_call_def pending_step_def subseq_snoc)
  next
    case 3
    have "application_exception_handler K MCAUSE_ECALL_FROM_UMODE service arg (r_handle K i) ?w =
        Inr (Returns, ?w\<lparr>timing_report := record_mcycle arg (r_mcycle K (ulog ?w)) (timing_report ?w)\<rparr>)"
      by (simp add: 3 application_exception_handler_def)
    from ustep_act(2) [OF assms(2-5) User_syscall1 this] mc show ?thesis unfolding User_syscall1
      by (simp add: 3 quiet_step_def record_wait_after)
  qed
qed

lemma quiet_map:
  "map quiet_action (user_entry False 0) = [True, True, True, True, True, True, True, True, False, True, False]"
  "map quiet_action (user_entry False 1) = [True, True, True, True, True, False, True, True, False, False]"
  "map quiet_action (user_entry False 2) = [True, False, True, False, False]" "map quiet_action (user_entry False 3) = [True, False, True, False]"
  by (simp_all add: quiet_action_def user_entry_def user0_task_entry_def user1_task_entry_def user2_task_entry_def user3_task_entry_def)

lemma quiet_places:
  assumes "i < 4" "n < length (user_entry False i)"
  shows "quiet_action (user_entry False i ! n) \<longleftrightarrow>
    \<not> (i = 0 \<and> (n = 8 \<or> n = 10) \<or> i = 1 \<and> (n = 5 \<or> n = 8 \<or> n = 9) \<or> i = 2 \<and> (n = 1 \<or> n = 3 \<or> n = 4) \<or> i = 3 \<and> (n = 1 \<or> n = 3))"
proof -
  have q: "quiet_action (user_entry False i ! n) = map quiet_action (user_entry False i) ! n" using assms(2) by simp
  have "i = 0 \<or> i = 1 \<or> i = 2 \<or> i = 3" using assms(1) by auto
  then show ?thesis
  proof (elim disjE)
    assume i: "i = 0"
    then have "n < 11" using assms(2) by simp
    then show ?thesis unfolding q unfolding i quiet_map by (auto simp: numeral_eq_Suc less_Suc_eq)
  next
    assume i: "i = 1"
    then have "n < 10" using assms(2) by simp
    then show ?thesis unfolding q unfolding i quiet_map by (auto simp: numeral_eq_Suc less_Suc_eq)
  next
    assume i: "i = 2"
    then have "n < 5" using assms(2) by simp
    then show ?thesis unfolding q unfolding i quiet_map by (auto simp: numeral_eq_Suc less_Suc_eq)
  next
    assume i: "i = 3"
    then have "n < 4" using assms(2) by simp
    then show ?thesis unfolding q unfolding i quiet_map by (auto simp: numeral_eq_Suc less_Suc_eq)
  qed
qed

lemma quiet_marks:
  "user_entry False 1 ! 6 = Progress USER_PROGRESS_RESUMED" "user_entry False 2 ! 2 = Progress USER_PROGRESS_RESUMED"
  "user_entry False 3 ! 2 = Progress USER_PROGRESS_RESUMED" "user_entry False 1 ! 7 = User_syscall1 UMODE_SYSCALL_RECORD_MCYCLE TIMING_WAIT_AFTER"
  by (simp_all add: user_entry_def user1_task_entry_def user2_task_entry_def user3_task_entry_def)

lemma quiet_uinv:
  assumes "uinv K s" "i < 4" "\<not> uwaiting s i" "upc s i < length (user_entry False i)"
    and q: "quiet_action (user_entry False i ! upc s i)" "quiet_step i (user_entry False i ! upc s i) s s'"
  shows "uinv K s'"
proof -
  note places = quiet_places [OF assms(2,4)]
  have i: "i = 0 \<or> i = 1 \<or> i = 2 \<or> i = 3" using assms(2) by auto
  have s: "tasks_ok K s" "globals_ok s" "chain_ok K s" "order_ok K s" "verdict_ok s" using assms(1) by (simp_all add: uinv_def)
  have pc: "upc s' = (upc s)(i := Suc (upc s i))" using q(2) by (simp add: quiet_step_def)
  have away: "i = 0 \<Longrightarrow> upc s 0 \<noteq> 8 \<and> upc s 0 \<noteq> 10 \<and> upc s 0 < 11" "i = 1 \<Longrightarrow> upc s 1 \<noteq> 5 \<and> upc s 1 \<noteq> 8 \<and> upc s 1 < 9"
      "i = 2 \<Longrightarrow> upc s 2 \<noteq> 1 \<and> upc s 2 < 3" "i = 3 \<Longrightarrow> upc s 3 \<noteq> 1 \<and> upc s 3 < 3"
    using places q(1) assms(4) by auto
  have at0: "8 < upc s' 0 \<longleftrightarrow> 8 < upc s 0" "upc s' 0 = 11 \<longleftrightarrow> upc s 0 = 11"
    using away(1) by (cases "i = 0"; simp add: pc; linarith)+
  have at1: "5 < upc s' 1 \<longleftrightarrow> 5 < upc s 1" "8 < upc s' 1 \<longleftrightarrow> 8 < upc s 1" "upc s' 1 = 10 \<longleftrightarrow> upc s 1 = 10"
    using away(2) by (cases "i = 1"; simp add: pc; linarith)+
  have at2: "1 < upc s' 2 \<longleftrightarrow> 1 < upc s 2" "3 < upc s' 2 \<longleftrightarrow> 3 < upc s 2" "upc s' 2 = 5 \<longleftrightarrow> upc s 2 = 5"
    using away(3) by (cases "i = 2"; simp add: pc; linarith)+
  have at3: "1 < upc s' 3 \<longleftrightarrow> 1 < upc s 3" "upc s' 3 < 4 \<longleftrightarrow> upc s 3 < 4" "upc s' 3 = 4 \<longleftrightarrow> upc s 3 = 4"
    using away(4) by (cases "i = 3"; simp add: pc; linarith)+
  note at = at0 at1 at2 at3
  have "tasks_ok K s'" using s(1) q(2) assms(2-4) by (simp add: tasks_ok_def quiet_step_def)
  moreover have "globals_ok s'"
  proof -
    have p: "j \<noteq> i \<Longrightarrow> user_progress s' j = user_progress s j" "user_entry False i ! upc s i = Progress v \<Longrightarrow> user_progress s' i = v" for j v
      using q(2) by (auto simp: quiet_step_def split: uaction.splits)
    have p3: "user_entry False i ! upc s i = User_syscall1 x y \<Longrightarrow> user_progress s' i = user_progress s i" for x y
      using q(2) by (simp add: quiet_step_def)
    have w: "wait_after (timing_report s) \<noteq> 0 \<Longrightarrow> wait_after (timing_report s') \<noteq> 0"
        "user_entry False i ! upc s i = User_syscall1 6 9 \<Longrightarrow> wait_after (timing_report s') \<noteq> 0"
      and g: "user_complete s' = user_complete s" "notify_given_mask s' = notify_given_mask s" "notify_woken_mask s' = notify_woken_mask s"
      using q(2) by (simp_all add: quiet_step_def)
    have "user_progress s' 1 = USER_PROGRESS_RESUMED" if "6 < upc s' 1"
    proof (cases "i = 1")
      case True
      then have "upc s 1 = 6 \<or> upc s 1 = 7" using away(2) that by (simp add: pc) linarith
      then show ?thesis using True p(2) p3 quiet_marks(1,4) s(2) by (auto simp: globals_ok_def)
    qed (use that s(2) p(1) in \<open>simp add: pc globals_ok_def\<close>)
    moreover have "user_progress s' 2 = USER_PROGRESS_RESUMED" if "2 < upc s' 2"
    proof (cases "i = 2")
      case True
      then have "upc s 2 = 2" using away(3) that by (simp add: pc)
      then show ?thesis using True p(2) quiet_marks(2) by simp
    qed (use that s(2) p(1) in \<open>simp add: pc globals_ok_def\<close>)
    moreover have "user_progress s' 3 = USER_PROGRESS_RESUMED" if "2 < upc s' 3"
    proof (cases "i = 3")
      case True
      then have "upc s 3 = 2" using away(4) that by (simp add: pc)
      then show ?thesis using True p(2) quiet_marks(3) by simp
    qed (use that s(2) p(1) in \<open>simp add: pc globals_ok_def\<close>)
    moreover have "wait_after (timing_report s') \<noteq> 0" if "7 < upc s' 1"
    proof (cases "i = 1")
      case True
      then have "upc s 1 = 7" using away(2) that by (simp add: pc)
      then show ?thesis using True w(2) quiet_marks(4) by simp
    qed (use that s(2) w(1) in \<open>simp add: pc globals_ok_def\<close>)
    ultimately show ?thesis using s(2) g unfolding globals_ok_def at by simp
  qed
  moreover have "chain_ok K s'" using s(3) q(2) unfolding chain_ok_def at by (simp add: quiet_step_def)
  moreover have "order_ok K s'" using s(4) q(2) unfolding order_ok_def at by (simp add: quiet_step_def)
  moreover have "verdict_ok s'" using s(5) q(2) unfolding verdict_ok_def at by (simp add: quiet_step_def)
  ultimately show ?thesis by (simp add: uinv_def)
qed

section \<open>Notifying\<close>

lemma chain_snoc:
  assumes "subseq (take k (notify_chain K)) log" "k < 6" "c = notify_chain K ! k"
  shows "subseq (take (Suc k) (notify_chain K)) (log @ [c])"
proof -
  have "length (notify_chain K) = 6" by (simp add: notify_chain_def)
  then show ?thesis using subseq_snoc(2) [OF assms(1), of c] assms(2,3) by (simp add: take_Suc_conv_app_nth)
qed

lemma chain_nth:
  "notify_chain K ! 0 = Notify_give (r_handle K 1)" "notify_chain K ! 1 = Notify_taken (r_handle K 1)"
  "notify_chain K ! Suc 0 = Notify_taken (r_handle K 1)"
  "notify_chain K ! 2 = Notify_give (r_handle K 2)" "notify_chain K ! 3 = Notify_taken (r_handle K 2)"
  "notify_chain K ! 4 = Notify_give (r_handle K 3)" "notify_chain K ! 5 = Notify_taken (r_handle K 3)"
  "take 6 (notify_chain K) = notify_chain K"
  by (simp_all add: notify_chain_def)

lemma mask_give: "chain_mask False b c OR 2 = chain_mask True b c" "chain_mask a False c OR 4 = chain_mask a True c"
  "chain_mask a b False OR 8 = chain_mask a b True"
  by (simp_all add: chain_mask_def or.assoc or.commute or.left_commute)

lemma give_effect:
  assumes "rtos_ok K" "tasks_ok K s" "i < 4" "\<not> uwaiting s i" "upc s i < length (user_entry False i)"
    and "user_entry False i ! upc s i = User_syscall1 UMODE_SYSCALL_NOTIFY_GIVE (of_nat j)" "1 \<le> j" "j < 4"
  shows "\<exists>w. ustep K False i s = w\<lparr>upc := (upc s)(i := Suc (upc s i)), ulog := ulog s @ [Notify_give (r_handle K j)],
      notify_given_mask := notify_given_mask s OR push_bit j 1\<rparr> \<and> w = wrap_vTaskSwitchContext (r_handle K i) s"
proof -
  have j: "unat (of_nat j :: u32) = j" using assms(8) by (simp add: unat_of_nat)
  then have j4: "(of_nat j :: u32) < 4" using assms(8) by (simp add: word_less_nat_alt)
  have h: "umode_task_table s j = r_handle K j" using assms(2,8) by (simp add: tasks_ok_def)
  have "j = 1 \<or> j = 2 \<or> j = 3" using assms(7,8) by linarith
  then have nz: "r_handle K j \<noteq> 0" using assms(1) by (auto simp: rtos_ok_def)
  let ?w = "wrap_vTaskSwitchContext (r_handle K i) s"
  have "application_exception_handler K MCAUSE_ECALL_FROM_UMODE UMODE_SYSCALL_NOTIFY_GIVE (of_nat j) (r_handle K i) ?w =
      Inr (Returns, (ulog_call (Notify_give (r_handle K j)) ?w)\<lparr>notify_given_mask := notify_given_mask s OR push_bit j 1\<rparr>)"
    using j4 nz by (simp add: application_exception_handler_def j h)
  from ustep_act(2) [OF assms(2-6) this] show ?thesis
    by (intro exI [of _ ?w] conjI refl) (simp add: ulog_call_def)
qed

lemma give_uinv:
  assumes "rtos_ok K" "uinv K s" "i = 0 \<and> upc s i = 8 \<or> i = 1 \<and> upc s i = 8 \<or> i = 2 \<and> upc s i = 3"
  shows "uinv K (ustep K False i s)"
proof -
  have s: "tasks_ok K s" "globals_ok s" "chain_ok K s" "order_ok K s" "verdict_ok s" using assms(2) by (simp_all add: uinv_def)
  have i: "i < 4" "\<not> uwaiting s i" "upc s i < length (user_entry False i)" using assms(3) s(1) by (auto simp: tasks_ok_def)
  have act: "user_entry False i ! upc s i = User_syscall1 UMODE_SYSCALL_NOTIFY_GIVE (of_nat (Suc i))"
    using assms(3) by (auto simp: user_entry_def user0_task_entry_def user1_task_entry_def user2_task_entry_def)
  obtain w where w: "ustep K False i s = w\<lparr>upc := (upc s)(i := Suc (upc s i)), ulog := ulog s @ [Notify_give (r_handle K (Suc i))],
      notify_given_mask := notify_given_mask s OR push_bit (Suc i) 1\<rparr>" "w = wrap_vTaskSwitchContext (r_handle K i) s"
    using give_effect [OF assms(1) s(1) i act] assms(3) by auto
  have k: "subseq (take 0 (notify_chain K)) (ulog s)" by simp
  have hs: "r_handle K 1 \<noteq> r_handle K 2" "r_handle K 1 \<noteq> r_handle K 3" "r_handle K 2 \<noteq> r_handle K 3"
    using assms(1) by (auto simp: rtos_ok_def)
  define s' where "s' = ustep K False i s"
  have s': "uhalted s' = uhalted s" "upc s' = (upc s)(i := Suc (upc s i))" "uwaiting s' = uwaiting s" "user_task_handle s' = user_task_handle s"
    "umode_task_table s' = umode_task_table s" "user_complete s' = user_complete s" "user_progress s' = user_progress s"
    "timing_report s' = timing_report s" "notify_given_mask s' = notify_given_mask s OR push_bit (Suc i) 1"
    "notify_woken_mask s' = notify_woken_mask s" "umode_result s' = umode_result s" "ulog s' = ulog s @ [Notify_give (r_handle K (Suc i))]"
    by (simp_all add: s'_def w)
  have "tasks_ok K s'" using s(1) i by (simp add: tasks_ok_def s')
  moreover have "globals_ok s'" using assms(3) s(2) mask_give by (elim disjE conjE) (simp_all add: globals_ok_def s')
  moreover have "chain_ok K s'" using assms(3) s(3) hs by (elim disjE conjE) (simp_all add: chain_ok_def s' pending_step_def numeral_2_eq_2 [symmetric])
  moreover have "order_ok K s'"
  proof -
    have old: "subseq xs (ulog s) \<Longrightarrow> subseq xs (ulog s')" for xs by (simp add: s' subseq_snoc)
    have "i = 0 \<Longrightarrow> subseq (take 1 (notify_chain K)) (ulog s')" using chain_snoc [OF k, of "Notify_give (r_handle K 1)"] by (simp add: s' chain_nth)
    moreover have "i = 1 \<Longrightarrow> subseq (take 3 (notify_chain K)) (ulog s')"
      using chain_snoc [of 2 K "ulog s" "Notify_give (r_handle K 2)"] s(4) assms(3) by (simp add: s' chain_nth order_ok_def numeral_2_eq_2 [symmetric])
    moreover have "i = 2 \<Longrightarrow> subseq (take 5 (notify_chain K)) (ulog s')"
      using chain_snoc [of 4 K "ulog s" "Notify_give (r_handle K 3)"] s(4) assms(3) by (simp add: s' chain_nth order_ok_def)
    ultimately show ?thesis using assms(3) s(4) old by (elim disjE conjE) (simp_all add: order_ok_def s'(2))
  qed
  moreover have "verdict_ok s'" using assms(3) s(5) by (elim disjE conjE) (simp_all add: verdict_ok_def s')
  ultimately show ?thesis by (simp add: uinv_def s'_def)
qed

section \<open>Waiting\<close>

definition same_globals :: "usystem \<Rightarrow> usystem \<Rightarrow> bool" where
  "same_globals s s' \<longleftrightarrow> uhalted s' = uhalted s \<and> user_task_handle s' = user_task_handle s \<and> umode_task_table s' = umode_task_table s \<and>
     user_progress s' = user_progress s \<and> timing_report s' = timing_report s \<and> notify_given_mask s' = notify_given_mask s"

lemma wait_uinv:
  assumes "uinv K s" "i = 1 \<and> upc s i = 5 \<or> (i = 2 \<or> i = 3) \<and> upc s i = 1" "\<not> uwaiting s i"
  shows "uinv K (ustep K False i s)"
proof -
  have s: "tasks_ok K s" "globals_ok s" "chain_ok K s" "order_ok K s" "verdict_ok s" using assms(1) by (simp_all add: uinv_def)
  have i: "i < 4" "upc s i < length (user_entry False i)" using assms(2) by auto
  let ?w = "wrap_vTaskSwitchContext (r_handle K i) s"
  have act: "user_entry False i ! upc s i = User_syscall1 UMODE_SYSCALL_NOTIFY_WAIT 0"
    using assms(2) by (auto simp: user_entry_def user1_task_entry_def user2_task_entry_def user3_task_entry_def)
  have "application_exception_handler K MCAUSE_ECALL_FROM_UMODE UMODE_SYSCALL_NOTIFY_WAIT 0 (r_handle K i) ?w =
      Inr (Waits, ulog_call (Notify_take (r_handle K i)) ?w)" by (simp add: application_exception_handler_def)
  note step = ustep_act(4) [OF s(1) i(1) assms(3) i(2) act this]
  define s' where "s' = ustep K False i s"
  have s': "same_globals s s'" "upc s' = upc s" "uwaiting s' = (uwaiting s)(i := True)" "user_complete s' = user_complete s"
    "notify_woken_mask s' = notify_woken_mask s" "umode_result s' = umode_result s" "ulog s' = ulog s @ [Notify_take (r_handle K i)]"
    by (simp_all add: s'_def step ulog_call_def same_globals_def)
  have "tasks_ok K s'" using s(1) assms(2) s'(1) by (auto simp: tasks_ok_def s'(2,3) same_globals_def)
  moreover have "globals_ok s'" using s(2) s'(1) by (simp add: globals_ok_def s' same_globals_def)
  moreover have "chain_ok K s'" using s(3) by (simp add: chain_ok_def s' pending_step_def)
  moreover have "order_ok K s'" using s(4) by (simp add: order_ok_def s' subseq_snoc)
  moreover have "verdict_ok s'" using s(5) by (simp add: verdict_ok_def s')
  ultimately show ?thesis by (simp add: uinv_def s'_def)
qed

lemma wake_effect:
  assumes "rtos_ok K" "tasks_ok K s" "i = 1 \<or> i = 2 \<or> i = 3"
  shows "notify_wait_return (r_handle K i) (wrap_vTaskSwitchContext (r_handle K i) s) =
    (ulog_call (Notify_taken (r_handle K i)) (wrap_vTaskSwitchContext (r_handle K i) s))
      \<lparr>notify_woken_mask := notify_woken_mask s OR push_bit i 1\<rparr>"
proof -
  have t: "umode_task_table s 1 = r_handle K 1" "umode_task_table s 2 = r_handle K 2" "umode_task_table s 3 = r_handle K 3"
    using assms(2) by (simp_all add: tasks_ok_def)
  have hs: "r_handle K 1 \<noteq> r_handle K 2" "r_handle K 1 \<noteq> r_handle K 3" "r_handle K 2 \<noteq> r_handle K 3"
    using assms(1) by (auto simp: rtos_ok_def)
  show ?thesis using assms(3) t hs by (elim disjE) (simp_all add: notify_wait_return_def ulog_call_def Let_def)
qed

lemma wake_uinv:
  assumes "rtos_ok K" "uinv K s" "uwaiting s i"
  shows "uinv K (ustep K False i s)"
proof (cases "r_wakes K (ulog s) (r_handle K i)")
  case False
  have s: "tasks_ok K s" using assms(2) by (simp add: uinv_def)
  have i: "i = 1 \<and> upc s i = 5 \<or> (i = 2 \<or> i = 3) \<and> upc s i = 1" using s assms(3) by (simp add: tasks_ok_def)
  then have "ustep K False i s = wrap_vTaskSwitchContext (r_handle K i) s"
    using s assms(3) False by (auto simp: ustep_def tasks_ok_def Let_def)
  then show ?thesis using assms(2)
    by (simp add: uinv_def tasks_ok_def globals_ok_def chain_ok_def order_ok_def verdict_ok_def)
next
  case True
  have s: "tasks_ok K s" "globals_ok s" "chain_ok K s" "order_ok K s" "verdict_ok s" using assms(2) by (simp_all add: uinv_def)
  have i: "i = 1 \<and> upc s i = 5 \<or> (i = 2 \<or> i = 3) \<and> upc s i = 1" using s(1) assms(3) by (simp add: tasks_ok_def)
  then have i': "i = 1 \<or> i = 2 \<or> i = 3" "i < 4" by auto
  have pend: "0 < pending (r_handle K i) (ulog s)" using assms(1) True by (simp add: rtos_ok_def)
  have hs: "r_handle K 1 \<noteq> r_handle K 2" "r_handle K 1 \<noteq> r_handle K 3" "r_handle K 2 \<noteq> r_handle K 3"
    using assms(1) by (auto simp: rtos_ok_def)
  define s' where "s' = ustep K False i s"
  have h: "user_task_handle s i = r_handle K i" using s(1) i'(2) by (simp add: tasks_ok_def)
  have step: "s' = (notify_wait_return (r_handle K i) (wrap_vTaskSwitchContext (r_handle K i) s))
      \<lparr>uwaiting := (uwaiting s)(i := False), upc := (upc s)(i := Suc (upc s i))\<rparr>"
    using s(1) assms(3) True by (simp add: s'_def ustep_def tasks_ok_def h Let_def)
  have s': "same_globals s s'" "upc s' = (upc s)(i := Suc (upc s i))" "uwaiting s' = (uwaiting s)(i := False)" "user_complete s' = user_complete s"
    "notify_woken_mask s' = notify_woken_mask s OR push_bit i 1" "umode_result s' = umode_result s" "ulog s' = ulog s @ [Notify_taken (r_handle K i)]"
    unfolding step wake_effect [OF assms(1) s(1) i'(1)] by (simp_all add: ulog_call_def same_globals_def)
  have "tasks_ok K s'" using s(1) i s'(1) by (elim disjE conjE) (simp_all add: tasks_ok_def s'(2,3) same_globals_def, blast+)
  moreover have "globals_ok s'"
    using i s(2) s'(1) mask_give by (elim disjE conjE) (simp_all add: globals_ok_def s' same_globals_def)
  moreover have "chain_ok K s'" using i s(3) hs pend by (elim disjE conjE) (simp_all add: chain_ok_def s' pending_step_def)
  moreover have "order_ok K s'"
  proof -
    have old: "subseq xs (ulog s) \<Longrightarrow> subseq xs (ulog s')" for xs by (simp add: s' subseq_snoc)
    have "i = 1 \<Longrightarrow> subseq (take 2 (notify_chain K)) (ulog s')"
      using chain_snoc [of 1 K "ulog s" "Notify_taken (r_handle K 1)"] s(3,4) i pend
      by (simp add: s' chain_nth order_ok_def chain_ok_def numeral_2_eq_2 [symmetric])
    moreover have "i = 2 \<Longrightarrow> subseq (take 4 (notify_chain K)) (ulog s')"
      using chain_snoc [of 3 K "ulog s" "Notify_taken (r_handle K 2)"] s(3,4) i pend by (simp add: s' chain_nth order_ok_def chain_ok_def)
    moreover have "i = 3 \<Longrightarrow> subseq (notify_chain K) (ulog s')"
      using chain_snoc [of 5 K "ulog s" "Notify_taken (r_handle K 3)"] s(3,4) i pend by (simp add: s' chain_nth order_ok_def chain_ok_def)
    ultimately show ?thesis using i s(4) old by (elim disjE conjE) (simp_all add: order_ok_def s'(2))
  qed
  moreover have "verdict_ok s'" using i s(5) by (elim disjE conjE) (simp_all add: verdict_ok_def s')
  ultimately show ?thesis by (simp add: uinv_def s'_def)
qed

section \<open>Exits\<close>

lemma exit_places:
  "i = 0 \<and> n = 10 \<or> i = 1 \<and> n = 9 \<or> i = 2 \<and> n = 4 \<or> i = 3 \<and> n = 3 \<Longrightarrow> user_entry False i ! n = User_syscall1 UMODE_SYSCALL_EXIT 0"
  by (elim disjE) (simp_all add: user_entry_def user0_task_entry_def user1_task_entry_def user2_task_entry_def user3_task_entry_def)

lemma handle_neq:
  assumes "rtos_ok K"
  shows "r_handle K 0 \<noteq> r_handle K 1" "r_handle K 0 \<noteq> r_handle K 2" "r_handle K 0 \<noteq> r_handle K 3"
    "r_handle K 1 \<noteq> r_handle K 2" "r_handle K 1 \<noteq> r_handle K 3" "r_handle K 2 \<noteq> r_handle K 3"
  using assms by (simp_all add: rtos_ok_def)

text \<open>The first three tasks note that they are done.\<close>

lemma exit_uinv:
  assumes "rtos_ok K" "uinv K s" "i = 0 \<and> upc s i = 10 \<or> i = 1 \<and> upc s i = 9 \<or> i = 2 \<and> upc s i = 4"
  shows "uinv K (ustep K False i s)"
proof -
  have s: "tasks_ok K s" "globals_ok s" "chain_ok K s" "order_ok K s" "verdict_ok s" using assms(2) by (simp_all add: uinv_def)
  have i: "i < 4" "\<not> uwaiting s i" "upc s i < length (user_entry False i)" using assms(3) s(1) by (auto simp: tasks_ok_def)
  have h: "\<And>j. j < 4 \<Longrightarrow> user_task_handle s j = r_handle K j" using s(1) by (simp add: tasks_ok_def)
  let ?w = "wrap_vTaskSwitchContext (r_handle K i) s"
  have "application_exception_handler K MCAUSE_ECALL_FROM_UMODE UMODE_SYSCALL_EXIT 0 (r_handle K i) ?w =
      Inr (Deleted, ulog_call (Task_delete (r_handle K i)) (?w\<lparr>user_complete := (user_complete ?w)(i := 1)\<rparr>))"
    using assms(3) handle_neq [OF assms(1)] h
    by (elim disjE conjE) (simp_all add: application_exception_handler_def user_exit_def)
  note step = ustep_act(3) [OF s(1) i exit_places this]
  define s' where "s' = ustep K False i s"
  have s': "same_globals s s'" "upc s' = (upc s)(i := Suc (upc s i))" "uwaiting s' = uwaiting s" "user_complete s' = (user_complete s)(i := 1)"
    "notify_woken_mask s' = notify_woken_mask s" "umode_result s' = umode_result s" "ulog s' = ulog s @ [Task_delete (r_handle K i)]"
    unfolding s'_def using assms(3) by (subst step; force simp: ulog_call_def same_globals_def)+
  have "tasks_ok K s'" using s(1) i s'(1) by (simp add: tasks_ok_def s'(2,3) same_globals_def)
  moreover have "globals_ok s'" using assms(3) s(2) s'(1) by (elim disjE conjE) (simp_all add: globals_ok_def s' same_globals_def)
  moreover have "chain_ok K s'" using assms(3) s(3) by (elim disjE conjE) (simp_all add: chain_ok_def s' pending_step_def)
  moreover have "order_ok K s'" using assms(3) s(4) by (elim disjE conjE) (simp_all add: order_ok_def s' subseq_snoc)
  moreover have "verdict_ok s'" using assms(3) s(5) by (elim disjE conjE) (simp_all add: verdict_ok_def s')
  ultimately show ?thesis by (simp add: uinv_def s'_def)
qed

text \<open>The last one gives the verdict: all it checks holds by then, but the others may not be done.\<close>

lemma verdict_uinv:
  assumes "rtos_ok K" "uinv K s" "upc s 3 = 3"
  shows "uinv K (ustep K False 3 s)"
    "umode_result (ustep K False 3 s) = (if upc s 0 = 11 \<and> upc s 1 = 10 \<and> upc s 2 = 5 then 1 else 0xdead0001)"
proof -
  have s: "tasks_ok K s" "globals_ok s" "chain_ok K s" "order_ok K s" "verdict_ok s" using assms(2) by (simp_all add: uinv_def)
  have i: "(3::nat) < 4" "\<not> uwaiting s 3" "upc s 3 < length (user_entry False 3)" using assms(3) s(1) by (auto simp: tasks_ok_def)
  have h: "\<And>j. j < 4 \<Longrightarrow> user_task_handle s j = r_handle K j" using s(1) by (simp add: tasks_ok_def)
  let ?w = "wrap_vTaskSwitchContext (r_handle K 3) s"
  let ?r = "if upc s 0 = 11 \<and> upc s 1 = 10 \<and> upc s 2 = 5 then 1 else 0xdead0001"
  have p2: "3 < upc s 2" using s(3) assms(3) by (simp add: chain_ok_def)
  then have p1: "8 < upc s 1" using s(3) by (simp add: chain_ok_def)
  then have "8 < upc s 0" using s(3) by (simp add: chain_ok_def)
  with p1 p2 have "notify_given_mask s = 14" "notify_woken_mask s = 14" "wait_after (timing_report s) \<noteq> 0" 
      "user_progress s 1 = USER_PROGRESS_RESUMED" "user_progress s 2 = USER_PROGRESS_RESUMED" "user_progress s 3 = USER_PROGRESS_RESUMED"
    using s(2) assms(3) by (simp_all add: globals_ok_def chain_mask_def)
  moreover have "user_complete s 0 = (if upc s 0 = 11 then 1 else 0)" "user_complete s 1 = (if upc s 1 = 10 then 1 else 0)"
      "user_complete s 2 = (if upc s 2 = 5 then 1 else 0)" using s(2) by (simp_all add: globals_ok_def)
  ultimately have "application_exception_handler K MCAUSE_ECALL_FROM_UMODE UMODE_SYSCALL_EXIT 0 (r_handle K 3) ?w =
      Inr (Deleted, ulog_call (Task_delete (r_handle K 3)) (?w\<lparr>umode_result := ?r\<rparr>))"
    using handle_neq [OF assms(1)] h by (simp add: application_exception_handler_def user_exit_def)
  note step = ustep_act(3) [OF s(1) i exit_places this]
  define s' where "s' = ustep K False 3 s"
  have s': "same_globals s s'" "upc s' = (upc s)(3 := 4)" "uwaiting s' = uwaiting s" "user_complete s' = user_complete s"
    "notify_woken_mask s' = notify_woken_mask s" "umode_result s' = ?r" "ulog s' = ulog s @ [Task_delete (r_handle K 3)]"
    unfolding s'_def using assms(3) by (subst step; force simp: ulog_call_def same_globals_def)+
  show "umode_result (ustep K False 3 s) = ?r" using s'(6) by (simp add: s'_def)
  have "tasks_ok K s'" using s(1) i s'(1) by (simp add: tasks_ok_def s'(2,3) same_globals_def) blast
  moreover have "globals_ok s'" using assms(3) s(2) s'(1) by (simp add: globals_ok_def s' same_globals_def)
  moreover have "chain_ok K s'" using assms(3) s(3) by (simp add: chain_ok_def s' pending_step_def)
  moreover have "order_ok K s'" using assms(3) s(4) by (simp add: order_ok_def s' subseq_snoc)
  moreover have "verdict_ok s'" by (simp add: verdict_ok_def s')
  ultimately show "uinv K (ustep K False 3 s)" by (simp add: uinv_def s'_def)
qed

section \<open>Every step\<close>

lemma ustep_uinv:
  assumes "rtos_ok K" "uinv K s"
  shows "uinv K (ustep K False i s)"
proof -
  have t: "tasks_ok K s" using assms(2) by (simp add: uinv_def)
  have idle: "uinv K (wrap_vTaskSwitchContext h s)" for h
    using assms(2) by (simp add: uinv_def tasks_ok_def globals_ok_def chain_ok_def order_ok_def verdict_ok_def)
  show ?thesis
  proof (cases "uwaiting s i")
    case True
    then show ?thesis by (rule wake_uinv [OF assms])
  next
    case False
    show ?thesis
    proof (cases "upc s i < length (user_entry False i)")
      case stop: False
      then have "ustep K False i s = wrap_vTaskSwitchContext (user_task_handle s i) s"
        using t False by (simp add: ustep_def tasks_ok_def Let_def)
      then show ?thesis using idle by simp
    next
      case True
      then have i: "i < 4" by (auto simp: user_entry_def split: if_splits)
      show ?thesis
      proof (cases "quiet_action (user_entry False i ! upc s i)")
        case quiet: True
        show ?thesis by (rule quiet_uinv [OF assms(2) i False True quiet ustep_quiet [OF assms(1) t i False True quiet]])
      next
        case loud: False
        then consider "i = 0 \<and> upc s i = 8 \<or> i = 1 \<and> upc s i = 8 \<or> i = 2 \<and> upc s i = 3"
          | "i = 1 \<and> upc s i = 5 \<or> (i = 2 \<or> i = 3) \<and> upc s i = 1"
          | "i = 0 \<and> upc s i = 10 \<or> i = 1 \<and> upc s i = 9 \<or> i = 2 \<and> upc s i = 4" | "i = 3" "upc s 3 = 3"
          using quiet_places [OF i True] by blast
        then show ?thesis
          by cases (use give_uinv [OF assms] wait_uinv [OF assms(2) _ False] exit_uinv [OF assms] verdict_uinv(1) [OF assms] in blast)+
      qed
    qed
  qed
qed

lemma urun_uinv: "rtos_ok K \<Longrightarrow> uinv K s \<Longrightarrow> uinv K (urun K False sched s)"
  by (induction sched arbitrary: s) (simp_all add: ustep_uinv)

section \<open>From main\<close>

text \<open>The memory before \<open>main\<close>: variables without initial value are zero.\<close>

definition umode_boot :: usystem where
  "umode_boot = \<lparr>pmpcfg0 = 0, pmpaddr0 = 0, pmpaddr1 = 0, templates = replicate 4 no_template, umode_result = 0,
     user_progress = (\<lambda>_. 0), user_complete = (\<lambda>_. 0), user_task_handle = (\<lambda>_. 0), umode_task_table = (\<lambda>_. 0), task_mstatus = (\<lambda>_. 0),
     notify_given_mask = 0, notify_woken_mask = 0, kernel_secret = 0,
     timing_report = \<lparr>timing_magic = 0, yield_a_before = 0, yield_b_entry = 0, yield_b_before = 0, yield_a_resume = 0,
       delay_before = 0, delay_after = 0, notify_before = 0, notify_after = 0, wait_before = 0, wait_after = 0\<rparr>,
     ulog = [], upc = (\<lambda>_. 0), uwaiting = (\<lambda>_. False), uhalted = False\<rparr>"

definition umode_regs :: "rtos \<Rightarrow> (u32 \<times> u32) list" where
  "umode_regs K = [(r_handle K 0, USER0_DMEM_BASE), (r_handle K 1, USER1_DMEM_BASE), (r_handle K 2, USER2_DMEM_BASE),
     (r_handle K 3, USER3_DMEM_BASE)]"

definition main_step :: "rtos \<Rightarrow> nat \<Rightarrow> (u32 \<times> u32) list \<Rightarrow> usystem \<Rightarrow> usystem \<Rightarrow> bool" where
  "main_step K n regs s s' \<longleftrightarrow> templates s' = table_of regs \<and> upc s' = upc s \<and> uwaiting s' = uwaiting s \<and> uhalted s' = uhalted s \<and>
     user_task_handle s' = (user_task_handle s)(n := r_handle K n) \<and> umode_task_table s' = (umode_task_table s)(n := r_handle K n) \<and>
     task_mstatus s' = (task_mstatus s)(n := r_mstatus K n AND NOT MSTATUS_MPP_MASK) \<and>
     user_complete s' = user_complete s \<and> notify_given_mask s' = notify_given_mask s \<and> notify_woken_mask s' = notify_woken_mask s \<and>
     umode_result s' = umode_result s \<and> ulog s' = ulog s @ [Task_create n (r_handle K n)]"

lemma main_task_step:
  assumes "templates s = table_of regs" "regs_ok (regs @ [(r_handle K n, base)])"
  shows "\<exists>s'. main_task K n base s = Inr s' \<and> main_step K n (regs @ [(r_handle K n, base)]) s s'"
proof -
  have nz: "r_handle K n \<noteq> 0" using assms(2) by (simp add: regs_ok_def)
  have load: "main_step K n (regs @ [(r_handle K n, base)]) s (eriscv_umode_pmp_load h s')" if "main_step K n (regs @ [(r_handle K n, base)]) s s'" for h s'
    using that by (simp add: main_step_def eriscv_umode_pmp_load_def split: option.split)
  define s1 where "s1 = set_initial_task_to_umode K n ((ulog_call (Task_create n (r_handle K n))
    (s\<lparr>user_task_handle := (user_task_handle s)(n := r_handle K n)\<rparr>))\<lparr>umode_task_table := (umode_task_table s)(n := r_handle K n)\<rparr>)"
  have "templates s1 = table_of regs" using assms(1) by (simp add: s1_def set_initial_task_to_umode_def ulog_call_def)
  from register_one [OF this regs_ok_prefix [OF assms(2)], of "r_handle K n" base] assms(2)
  have "eriscv_umode_pmp_register (r_handle K n) base s1 = Inr (s1\<lparr>templates := table_of (regs @ [(r_handle K n, base)])\<rparr>)" by simp
  moreover have "main_step K n (regs @ [(r_handle K n, base)]) s (s1\<lparr>templates := table_of (regs @ [(r_handle K n, base)])\<rparr>)"
    by (simp add: main_step_def s1_def set_initial_task_to_umode_def ulog_call_def)
  moreover have "main_task K n base s = map_sum id (eriscv_umode_pmp_load (r_handle K n)) (eriscv_umode_pmp_register (r_handle K n) base s1)"
    using nz by (simp add: main_task_def s1_def ulog_call_def Let_def)
  ultimately show ?thesis using load by auto
qed

lemma main_ok:
  assumes "rtos_ok K"
  shows "\<exists>s. umode_main False K umode_boot = Inr s \<and> uinv K s \<and> templates s = table_of (umode_regs K) \<and> regs_ok (umode_regs K) \<and>
    (\<forall>i<4. task_mstatus s i AND MSTATUS_MPP_MASK = 0)"
proof -
  have ok: "regs_ok (umode_regs K)" using assms by (auto simp: regs_ok_def umode_regs_def rtos_ok_def)
  have ok1: "regs_ok (take n (umode_regs K))" for n using ok regs_ok_prefix [of "take n (umode_regs K)" "drop n (umode_regs K)"] by simp
  define s0 where "s0 = (ulog_call Set_mtvec umode_boot)\<lparr>kernel_secret := 0, umode_result := 0,
               timing_report := \<lparr>timing_magic = UMODE_TIMING_MAGIC, yield_a_before = 0, yield_b_entry = 0, yield_b_before = 0,
                 yield_a_resume = 0, delay_before = 0, delay_after = 0, notify_before = 0, notify_after = 0,
                 wait_before = 0, wait_after = 0\<rparr>,
               user_complete := (user_complete (ulog_call Set_mtvec umode_boot))(0 := 0, 1 := 0, 2 := 0), notify_given_mask := 0,
               notify_woken_mask := 0\<rparr>"
  have "templates s0 = table_of []" by (simp add: s0_def umode_boot_def ulog_call_def table_of_def)
  from main_task_step [OF this, of K 0 USER0_DMEM_BASE] ok1 [of 1]
  obtain s1 where s1: "main_task K 0 USER0_DMEM_BASE s0 = Inr s1" "main_step K 0 (take 1 (umode_regs K)) s0 s1" by (auto simp: umode_regs_def)
  from main_task_step [of s1 "take 1 (umode_regs K)" K 1 USER1_DMEM_BASE] ok1 [of 2] s1(2)
  obtain s2 where s2: "main_task K 1 USER1_DMEM_BASE s1 = Inr s2" "main_step K 1 (take 2 (umode_regs K)) s1 s2"
    by (auto simp: umode_regs_def main_step_def)
  from main_task_step [of s2 "take 2 (umode_regs K)" K 2 USER2_DMEM_BASE] ok1 [of 3] s2(2)
  obtain s3 where s3: "main_task K 2 USER2_DMEM_BASE s2 = Inr s3" "main_step K 2 (take 3 (umode_regs K)) s2 s3"
    by (auto simp: umode_regs_def main_step_def)
  from main_task_step [of s3 "take 3 (umode_regs K)" K 3 USER3_DMEM_BASE] ok s3(2)
  obtain s4 where s4: "main_task K 3 USER3_DMEM_BASE s3 = Inr s4" "main_step K 3 (umode_regs K) s3 s4"
    by (auto simp: umode_regs_def main_step_def)
  have main: "umode_main False K umode_boot = Inr s4"
    unfolding umode_main_def Let_def s0_def [symmetric] sum_bind_def by (simp only: s1(1) s2(1) s3(1) s4(1) sum.case if_False)
  have all: "upc s4 = (\<lambda>_. 0)" "uwaiting s4 = (\<lambda>_. False)" "\<not> uhalted s4" "user_task_handle s4 = ((\<lambda>_. 0)(0 := r_handle K 0, 1 := r_handle K 1, 2 := r_handle K 2, 3 := r_handle K 3))"
    "umode_task_table s4 = ((\<lambda>_. 0)(0 := r_handle K 0, 1 := r_handle K 1, 2 := r_handle K 2, 3 := r_handle K 3))"
    "task_mstatus s4 = ((\<lambda>_. 0)(0 := r_mstatus K 0 AND NOT MSTATUS_MPP_MASK, 1 := r_mstatus K 1 AND NOT MSTATUS_MPP_MASK,
       2 := r_mstatus K 2 AND NOT MSTATUS_MPP_MASK, 3 := r_mstatus K 3 AND NOT MSTATUS_MPP_MASK))"
    "user_complete s4 = (\<lambda>_. 0)(0 := 0, 1 := 0, 2 := 0)" "notify_given_mask s4 = 0" "notify_woken_mask s4 = 0" "umode_result s4 = 0"
    "ulog s4 = [Set_mtvec, Task_create 0 (r_handle K 0), Task_create 1 (r_handle K 1), Task_create 2 (r_handle K 2), Task_create 3 (r_handle K 3)]"
    using s1(2) s2(2) s3(2) s4(2) by (simp_all add: main_step_def s0_def umode_boot_def ulog_call_def)
  have four: "i < 4 \<Longrightarrow> i = 0 \<or> i = 1 \<or> i = 2 \<or> i = (3::nat)" for i by auto
  have "tasks_ok K s4" using four by (auto simp: tasks_ok_def all)
  moreover have "pending h (ulog s4) = 0" for h by (simp add: all pending_def pending_step_def)
  ultimately have "uinv K s4"
    by (simp add: uinv_def globals_ok_def chain_ok_def order_ok_def verdict_ok_def all chain_mask_def)
  moreover have "task_mstatus s4 i AND MSTATUS_MPP_MASK = 0" if "i < 4" for i
    using four [OF that] by (auto simp: all and.assoc)
  ultimately show ?thesis using main s4(2) ok by (auto simp: main_step_def)
qed

text \<open>A system call does not touch the protection.\<close>

definition same_pmp :: "usystem \<Rightarrow> usystem \<Rightarrow> bool" where
  "same_pmp s s' \<longleftrightarrow> pmp_regs.truncate s' = pmp_regs.truncate s \<and> templates s' = templates s"

lemma handler_pmp:
  "case application_exception_handler K c sv a h x of Inl y \<Rightarrow> same_pmp x y | Inr (_, y) \<Rightarrow> same_pmp x y"
  by (simp add: application_exception_handler_def user_exit_def vAssertCalled_def ulog_call_def same_pmp_def pmp_regs.truncate_def)

lemma ustep_pmp:
  assumes "\<not> uhalted s"
  shows "same_pmp (wrap_vTaskSwitchContext (user_task_handle s i) s) (ustep K bad i s)"
proof -
  let ?w = "wrap_vTaskSwitchContext (user_task_handle s i) s"
  have wake: "same_pmp ?w ((notify_wait_return h ?w)\<lparr>uwaiting := f, upc := g\<rparr>)" for h f g
    by (simp add: notify_wait_return_def ulog_call_def same_pmp_def pmp_regs.truncate_def Let_def split: option.split)
  have act: "same_pmp ?w (case application_exception_handler K c sv a h ?w of Inl y \<Rightarrow> y\<lparr>uhalted := True\<rparr>
      | Inr (Waits, y) \<Rightarrow> y\<lparr>uwaiting := (uwaiting y)(i := True)\<rparr> | Inr (_, y) \<Rightarrow> y\<lparr>upc := (upc y)(i := Suc (upc y i))\<rparr>)" for c sv a h
    using handler_pmp [where K = K and c = c and sv = sv and a = a and h = h and x = ?w]
    by (auto simp: same_pmp_def pmp_regs.truncate_def split: sum.splits prod.splits syscall_end.splits)
  show ?thesis using assms wake act
    by (simp add: ustep_def Let_def split: uaction.split) (simp add: same_pmp_def pmp_regs.truncate_def)
qed

lemma wrap_templates: "templates (wrap_vTaskSwitchContext h s) = templates s"
  by (simp add: wrap_vTaskSwitchContext_def eriscv_umode_pmp_load_def split: option.split)

lemma urun_templates: "templates (urun K bad sched s) = templates s"
proof (induction sched arbitrary: s)
  case (Cons i sched)
  have "templates (ustep K bad i s) = templates s"
  proof (cases "uhalted s")
    case False
    then show ?thesis using ustep_pmp [OF False, where i = i and K = K and bad = bad] by (simp add: same_pmp_def wrap_templates)
  qed (simp add: ustep_def)
  then show ?case using Cons.IH by simp
qed simp

text \<open>
  C5. The verdict of the profile is sound for every scheduler: from \<open>main\<close> no assertion ever fails, and the result is
  1 only when all four tasks have come to their end and the three notifications have been given and taken in
  order. What decides between 1 and the failure code is only which of the other tasks have made their exit call
  when the last one makes its own; everything else the code checks there always holds, as long as the cycle counter
  does not read 0.
\<close>

theorem umode_verdict:
  assumes "rtos_ok K"
  shows "\<exists>s0. umode_main False K umode_boot = Inr s0 \<and> (let s = urun K False sched s0 in
    \<not> uhalted s \<and> umode_result s \<in> {0, 1, 0xdead0001} \<and>
    (umode_result s = 1 \<longrightarrow> (\<forall>i<4. upc s i = length (user_entry False i)) \<and> subseq (notify_chain K) (ulog s)) \<and>
    (upc s 3 = 3 \<longrightarrow> umode_result (ustep K False 3 s) = (if \<forall>i<3. upc s i = length (user_entry False i) then 1 else 0xdead0001)))"
proof -
  obtain s0 where s0: "umode_main False K umode_boot = Inr s0" "uinv K s0" using main_ok [OF assms] by blast
  define s where "s = urun K False sched s0"
  have s: "uinv K s" unfolding s_def by (rule urun_uinv [OF assms s0(2)])
  have t: "tasks_ok K s" "order_ok K s" "verdict_ok s" using s by (simp_all add: uinv_def)
  have le: "upc s 3 \<le> 4" using t(1) by (auto simp: tasks_ok_def dest: spec [of _ 3])
  have four: "(\<forall>i<4. P i) \<longleftrightarrow> P 0 \<and> P 1 \<and> P 2 \<and> P (3 :: nat)" for P by (auto simp: numeral_eq_Suc less_Suc_eq)
  have three: "(\<forall>i<3. P i) \<longleftrightarrow> P 0 \<and> P 1 \<and> P (2 :: nat)" for P by (auto simp: numeral_eq_Suc less_Suc_eq)
  have "\<not> uhalted s" using t(1) by (simp add: tasks_ok_def)
  moreover have "umode_result s \<in> {0, 1, 0xdead0001}" using t(3) le by (auto simp: verdict_ok_def)
  moreover have "(\<forall>i<4. upc s i = length (user_entry False i)) \<and> subseq (notify_chain K) (ulog s)" if "umode_result s = 1"
  proof -
    have "upc s 3 = 4" "upc s 0 = 11" "upc s 1 = 10" "upc s 2 = 5" using that t(3) le by (auto simp: verdict_ok_def)
    then show ?thesis using t(2) by (simp add: four order_ok_def)
  qed
  moreover have "umode_result (ustep K False 3 s) = (if \<forall>i<3. upc s i = length (user_entry False i) then 1 else 0xdead0001)" if "upc s 3 = 3"
    using verdict_uinv(2) [OF assms s that] by (simp add: three)
  ultimately show ?thesis using s0(1) by (intro exI [of _ s0]) (simp add: s_def Let_def)
qed

definition demo_rtos :: rtos where
  "demo_rtos = \<lparr>r_handle = (\<lambda>i. of_nat (0x100 * Suc i)), r_mstatus = (\<lambda>_. 0x1880), r_mcycle = (\<lambda>log. 5),
     r_wakes = (\<lambda>log h. 0 < pending h log)\<rparr>"

lemma demo_rtos_ok: "rtos_ok demo_rtos"
  by (simp add: rtos_ok_def demo_rtos_def)

theorem umode_verdict_witness:
  "\<exists>s0. umode_main False demo_rtos umode_boot = Inr s0 \<and> (let s = urun demo_rtos False [0, 1, 0, 2, 1, 3, 1, 0] s0 in
    \<not> uhalted s \<and> umode_result s \<in> {0, 1, 0xdead0001} \<and>
    (umode_result s = 1 \<longrightarrow> (\<forall>i<4. upc s i = length (user_entry False i)) \<and> subseq (notify_chain demo_rtos) (ulog s)) \<and>
    (upc s 3 = 3 \<longrightarrow> umode_result (ustep demo_rtos False 3 s) = (if \<forall>i<3. upc s i = length (user_entry False i) then 1 else 0xdead0001)))"
  by (rule umode_verdict [OF demo_rtos_ok])

text \<open>
  C4. In the same system every task starts in user mode, and whatever has run before, a step of a task runs
  under a protection that admits the instruction memory for reading and execution, that task's own region for
  reading and writing, and nothing else.
\<close>

theorem umode_tasks_isolated:
  assumes "rtos_ok K" "pmp_spec pmp" "i < 4"
  shows "\<exists>s0. umode_main False K umode_boot = Inr s0 \<and> (\<forall>j<4. task_mstatus s0 j AND MSTATUS_MPP_MASK = 0) \<and>
    (let s = ustep K False i (urun K False sched s0) in \<forall>k x. pmp (pmp_regs.truncate s) k x =
      (if in_region 0x10000000 0x10000 x then k \<noteq> Store else in_region (snd (umode_regs K ! i)) 0x1000 x \<and> k \<noteq> Fetch))"
proof -
  obtain s0 where s0: "umode_main False K umode_boot = Inr s0" "uinv K s0" "templates s0 = table_of (umode_regs K)" "regs_ok (umode_regs K)"
    "\<forall>i<4. task_mstatus s0 i AND MSTATUS_MPP_MASK = 0" using main_ok [OF assms(1)] by blast
  define s where "s = urun K False sched s0"
  have "tasks_ok K s" using urun_uinv [OF assms(1) s0(2), of sched] by (simp add: uinv_def s_def)
  then have s: "\<not> uhalted s" "user_task_handle s i = r_handle K i" using assms(3) by (simp_all add: tasks_ok_def)
  have t: "templates s = table_of (umode_regs K)" using s0(3) by (simp add: s_def urun_templates)
  have fst: "fst (umode_regs K ! i) = r_handle K i" using assms(3) by (auto simp: umode_regs_def less_Suc_eq numeral_eq_Suc)
  have "umode_regs K ! i \<in> set (umode_regs K)" using assms(3) by (intro nth_mem) (simp add: umode_regs_def)
  then have mem: "(r_handle K i, snd (umode_regs K ! i)) \<in> set (umode_regs K)" using fst by (metis prod.collapse)
  have "pmp_regs.truncate (ustep K False i s) = pmp_regs.truncate (wrap_vTaskSwitchContext (r_handle K i) s)"
    using ustep_pmp [OF s(1), where i = i and K = K and bad = False] s(2) by (simp add: same_pmp_def)
  then have "pmp (pmp_regs.truncate (ustep K False i s)) k x =
      (if in_region 0x10000000 0x10000 x then k \<noteq> Store else in_region (snd (umode_regs K ! i)) 0x1000 x \<and> k \<noteq> Fetch)" for k x
    using switch_registered [OF assms(2) t s0(4) mem] by simp
  then show ?thesis using s0(1,5) by (intro exI [of _ s0]) (simp add: s_def Let_def)
qed

theorem umode_tasks_isolated_witness:
  "\<exists>s0. umode_main False demo_rtos umode_boot = Inr s0 \<and>
    pmp_demo (pmp_regs.truncate (ustep demo_rtos False 1 (urun demo_rtos False [0, 1, 0] s0))) Store 0x11001ffc \<and>
    \<not> pmp_demo (pmp_regs.truncate (ustep demo_rtos False 1 (urun demo_rtos False [0, 1, 0] s0))) Store 0x11000ffc"
proof -
  have pmp: "pmp_spec pmp_demo" by (simp add: pmp_spec_def pmp_demo_def)
  show ?thesis using umode_tasks_isolated [OF demo_rtos_ok pmp, of 1 "[0, 1, 0]"]
    by (auto simp: Let_def in_region_def umode_regs_def)
qed

end
