(* ===== verification/Ap_Board.thy ===== *)
theory Ap_Board
  imports Freertos_Spi
begin

text \<open>
  A board: the SPI master, the APB timer and the PLIC (\<^verbatim>\<open>rtl/soc/peripherals/plic.sv\<close>) with its pending and
  in-service bits, on one bus. The two devices drive their interrupt sources as levels; the PLIC latches a level that
  is not in service, and a claim takes the source of highest priority. An access to the timer takes one of its
  cycles, and \<open>board_clock\<close> is the time between accesses.
\<close>

section \<open>State\<close>

record ap_board =
  bd_spi :: spi_apb
  bd_timer :: timer_apb
  bd_plic :: plic
  bd_pending :: "nat set"
  bd_in_service :: "nat set"

definition timer_line :: "timer_apb \<Rightarrow> bool" where
  "timer_line t \<longleftrightarrow> t_expired t \<and> bit (t_ctrl t) 1"

definition board_level :: "ap_board \<Rightarrow> nat \<Rightarrow> bool" where
  "board_level b i \<longleftrightarrow> (i = 2 \<and> timer_line (bd_timer b)) \<or> (i = 3 \<and> spi_irq (bd_spi b))"

definition board_latch :: "ap_board \<Rightarrow> ap_board" where
  "board_latch b = b\<lparr>bd_pending := bd_pending b \<union> set (filter (\<lambda>i. board_level b i \<and> i \<notin> bd_in_service b) [2, 3])\<rparr>"

section \<open>Claim and complete\<close>

definition plic_eligible :: "ap_board \<Rightarrow> nat \<Rightarrow> bool" where
  "plic_eligible b i \<longleftrightarrow> i \<in> bd_pending b \<and> i \<in> p_enable (bd_plic b) \<and> i \<notin> bd_in_service b \<and>
     p_threshold (bd_plic b) < p_priority (bd_plic b) (of_nat i)"

definition plic_better :: "ap_board \<Rightarrow> nat \<Rightarrow> nat \<Rightarrow> bool" where
  "plic_better b i h \<longleftrightarrow>
    (let p = p_priority (bd_plic b) in h = 0 \<or> p (of_nat h) < p (of_nat i) \<or> p (of_nat i) = p (of_nat h) \<and> i < h)"

definition highest_id :: "ap_board \<Rightarrow> nat" where
  "highest_id b = fold (\<lambda>i h. if plic_eligible b i \<and> plic_better b i h then i else h) [1..<33] 0"

definition board_meip :: "ap_board \<Rightarrow> bool" where
  "board_meip b \<longleftrightarrow> highest_id b \<noteq> 0"

definition board_claim :: "ap_board \<Rightarrow> u32 \<times> ap_board" where
  "board_claim b =
    (let h = highest_id b
     in (of_nat h, if h = 0 then b else b\<lparr>bd_pending := bd_pending b - {h}, bd_in_service := insert h (bd_in_service b)\<rparr>))"

definition board_complete :: "u32 \<Rightarrow> ap_board \<Rightarrow> ap_board" where
  "board_complete v b =
    (if v \<noteq> 0 \<and> v \<le> 32 then b\<lparr>bd_in_service := bd_in_service b - {unat v}\<rparr> else b)"

section \<open>The bus\<close>

definition board_rd :: "u32 \<Rightarrow> ap_board \<Rightarrow> u32 \<times> ap_board" where
  "board_rd a b =
    (let (v, b) =
       (if a AND 0xfffff000 = ERISCV_MCU_SPI0_BASE then
          let (v, s) = spi_rd a (bd_spi b) in (v, b\<lparr>bd_spi := s\<rparr>)
        else if a AND 0xfffff000 = ERISCV_MCU_TIMER0_BASE then
          let (v, t) = timer_rd a (bd_timer b) in (v, b\<lparr>bd_timer := t\<rparr>)
        else if a = ERISCV_MCU_PLIC_BASE + ERISCV_MCU_PLIC_CLAIM then board_claim b
        else let (v, p) = plic_rd a (bd_plic b) in (v, b\<lparr>bd_plic := p\<rparr>))
     in (v, board_latch b))"

definition board_wr :: "u32 \<Rightarrow> u32 \<Rightarrow> ap_board \<Rightarrow> ap_board" where
  "board_wr a v b =
     board_latch
       (if a AND 0xfffff000 = ERISCV_MCU_SPI0_BASE then b\<lparr>bd_spi := spi_wr a v (bd_spi b)\<rparr>
        else if a AND 0xfffff000 = ERISCV_MCU_TIMER0_BASE then b\<lparr>bd_timer := timer_wr a v (bd_timer b)\<rparr>
        else if a = ERISCV_MCU_PLIC_BASE + ERISCV_MCU_PLIC_CLAIM then board_complete v b
        else b\<lparr>bd_plic := plic_wr a v (bd_plic b)\<rparr>)"

definition board_bus :: "ap_board bus" where
  "board_bus = \<lparr>bus_rd = board_rd, bus_wr = board_wr\<rparr>"

lemma board_bus_sel: "bus_rd board_bus = board_rd" "bus_wr board_bus = board_wr"
  by (simp_all add: board_bus_def)

text \<open>\<open>n\<close> cycles pass.\<close>

definition board_cycle :: "ap_board \<Rightarrow> ap_board" where
  "board_cycle b = board_latch (b\<lparr>bd_timer := timer_tick (bd_timer b), bd_spi := spi_progress (bd_spi b)\<rparr>)"

definition board_clock :: "nat \<Rightarrow> ap_board \<Rightarrow> ap_board" where
  "board_clock n b = (board_cycle ^^ n) b"

definition board_reset :: "(nat \<times> u8) list \<Rightarrow> ap_board" where
  "board_reset sc = \<lparr>bd_spi = spi_reset sc,
     bd_timer = \<lparr>t_ctrl = 0, t_count = 0, t_compare = 0, t_expired = False, t_gaps = []\<rparr>,
     bd_plic = \<lparr>p_priority = (\<lambda>_. 0), p_enable = {}, p_threshold = 0\<rparr>, bd_pending = {}, bd_in_service = {}\<rparr>"

section \<open>What the parts see\<close>

lemma board_latch_sel [simp]: "bd_spi (board_latch b) = bd_spi b" "bd_timer (board_latch b) = bd_timer b"
  "bd_plic (board_latch b) = bd_plic b" "bd_in_service (board_latch b) = bd_in_service b"
  by (simp_all add: board_latch_def)

lemma board_latch_pending: "i \<in> bd_pending (board_latch b) \<longleftrightarrow>
    i \<in> bd_pending b \<or> (board_level b i \<and> i \<notin> bd_in_service b)"
  by (auto simp: board_latch_def board_level_def)

text \<open>The claim takes an eligible source.\<close>

lemma plic_scan_eligible:
  "h = 0 \<or> plic_eligible b h \<Longrightarrow>
   fold (\<lambda>i h. if plic_eligible b i \<and> plic_better b i h then i else h) xs h = 0 \<or>
   plic_eligible b (fold (\<lambda>i h. if plic_eligible b i \<and> plic_better b i h then i else h) xs h)"
proof (induction xs arbitrary: h)
  case (Cons i xs)
  have "(if plic_eligible b i \<and> plic_better b i h then i else h) = 0 \<or>
      plic_eligible b (if plic_eligible b i \<and> plic_better b i h then i else h)" using Cons.prems by simp
  from Cons.IH [OF this] show ?case unfolding fold_simps(2) .
qed simp

lemma highest_id_eligible: "highest_id b = 0 \<or> plic_eligible b (highest_id b)"
  unfolding highest_id_def by (rule plic_scan_eligible, rule disjI1, rule refl)

interpretation board_spi: spi_port board_bus "\<lambda>b. spi_look (bd_spi b)"
proof unfold_locales
  fix d :: ap_board and x :: u32
  note s = apb_spi.tx [where d = "bd_spi d" and x = x] apb_spi.rx [where d = "bd_spi d"] apb_spi.status [where d = "bd_spi d"]
    apb_spi.clkdiv [where d = "bd_spi d" and x = x] apb_spi.ctrl [where d = "bd_spi d" and x = x]
    apb_spi.ss [where d = "bd_spi d" and x = x]
  note d = board_bus_sel spi_bus_sel board_rd_def board_wr_def Let_def split_beta
  let ?look = "\<lambda>b. spi_look (bd_spi b)"
  show "v_busy (?look d) = None \<Longrightarrow> bit (v_ctrl (?look d)) 0 \<Longrightarrow>
      ?look (bus_wr board_bus (ERISCV_MCU_SPI0_BASE + 0x00) x d) = spi_start (ucast x) (?look d)"
    using s(1) by (simp add: d)
  show "v_busy (?look d) = None \<Longrightarrow> ucast (fst (bus_rd board_bus (ERISCV_MCU_SPI0_BASE + 0x04) d)) = v_rx (?look d) \<and>
      ?look (snd (bus_rd board_bus (ERISCV_MCU_SPI0_BASE + 0x04) d)) = ?look d"
    using s(2) by (simp add: d)
  show "?look (snd (bus_rd board_bus (ERISCV_MCU_SPI0_BASE + 0x08) d)) = spi_poll (?look d) \<and>
      (bit (fst (bus_rd board_bus (ERISCV_MCU_SPI0_BASE + 0x08) d)) 1 \<longleftrightarrow> v_busy (spi_poll (?look d)) \<noteq> None) \<and>
      (bit (fst (bus_rd board_bus (ERISCV_MCU_SPI0_BASE + 0x08) d)) 3 \<longleftrightarrow> v_done (spi_poll (?look d)))"
    using s(3) by (simp add: d)
  show "v_busy (?look d) = None \<Longrightarrow> ?look (bus_wr board_bus (ERISCV_MCU_SPI0_BASE + 0x0c) x d) = ?look d"
    using s(4) by (simp add: d)
  show "v_busy (?look d) = None \<Longrightarrow> ?look (bus_wr board_bus (ERISCV_MCU_SPI0_BASE + 0x10) x d) =
      (?look d)\<lparr>v_ctrl := x, v_done := v_done (?look d) \<and> \<not> bit x 4\<rparr>"
    using s(5) by (simp add: d)
  show "?look (bus_wr board_bus (ERISCV_MCU_SPI0_BASE + 0x14) x d) = (spi_poll (?look d))\<lparr>v_ss := x AND 0xf\<rparr>"
    using s(6) by (simp add: d)
qed

end
