(* ===== verification/Freertos_App.thy ===== *)
theory Freertos_App
  imports Ap_Board
begin

text \<open>
  The FreeRTOS demonstration (\<^verbatim>\<open>sw/rtos/freertos/main.c\<close>): \<open>main\<close>, its four tasks, the interrupt handler and the tick
  hook. The kernel is not in the repository: it is the parameter \<open>fkernel\<close>, which answers from the history of the
  calls and says which task runs, and \<open>fkernel_ok\<close> is what its documentation promises. A step of a task ends at a
  kernel call, a store or a load of a variable it shares, so interrupts and the other tasks may come in between.
\<close>

section \<open>The kernel\<close>

datatype ftask = Consumer | Trigger | Yield_a | Yield_b

text \<open>The priorities \<open>main\<close> creates the tasks with.\<close>

fun fprio :: "ftask \<Rightarrow> nat" where
  "fprio Consumer = 2" | "fprio Yield_a = 1" | "fprio Yield_b = 1" | "fprio Trigger = 0"

text \<open>
  What has happened, in order. A call that may block is two entries: the wait, and the return, if it has a result.
\<close>

datatype fcall =
    Queue_wait | Queue_empty | Queue_receive u32 | Queue_send u32 | Notify_wait | Notify_take u32 | Notify_give
  | Mutex_take ftask | Mutex_give ftask | Task_delay ftask | Task_yield ftask | Task_delete ftask | Tick
  | Uart_init u32 | Uart_puts string

record fkernel =
  x_current :: "fcall list \<Rightarrow> ftask option"              \<comment> \<open>the running task, \<open>None\<close> for the idle task\<close>
  x_queue_receive :: "fcall list \<Rightarrow> int \<times> u32"           \<comment> \<open>what the call returns when it returns\<close>
  x_queue_send_from_isr :: "fcall list \<Rightarrow> u32 \<Rightarrow> int"
  x_notify_take :: "fcall list \<Rightarrow> u32"
  x_sem_take :: "fcall list \<Rightarrow> ftask \<Rightarrow> int"              \<comment> \<open>with a timeout of 0\<close>
  x_sem_give :: "fcall list \<Rightarrow> ftask \<Rightarrow> int"
  x_queue_create :: bool                                  \<comment> \<open>the static object is created\<close>
  x_mutex_create :: bool
  x_task_create :: "ftask \<Rightarrow> bool"
  x_malloc :: "(u32 \<Rightarrow> u8) \<Rightarrow> u32 \<times> (u32 \<Rightarrow> u8)"         \<comment> \<open>a block of 256 bytes, or 0\<close>
  x_free :: "u32 \<Rightarrow> (u32 \<Rightarrow> u8) \<Rightarrow> (u32 \<Rightarrow> u8)"
  x_start :: bool                                         \<comment> \<open>the scheduler starts\<close>

abbreviation (input) pdPASS :: int where "pdPASS \<equiv> 1"
abbreviation (input) errQUEUE_EMPTY :: int where "errQUEUE_EMPTY \<equiv> 0"

text \<open>What the history says about the kernel's objects: the queue of length 1, the mutex and the tasks.\<close>

datatype fwait = Not_blocked | Until nat | On_queue nat | On_notify | Deleted

record fobjects =
  ftick :: nat
  fwaits :: "ftask \<Rightarrow> fwait"
  fqueue :: "u32 list"
  fnotified :: u32
  fmutex :: "ftask option"

definition fobjects_init :: fobjects where
  "fobjects_init = \<lparr>ftick = 0, fwaits = (\<lambda>_. Not_blocked), fqueue = [], fnotified = 0, fmutex = None\<rparr>"

definition fwaits_set :: "ftask \<Rightarrow> fwait \<Rightarrow> fobjects \<Rightarrow> fobjects" where
  "fwaits_set t w z = z\<lparr>fwaits := (fwaits z)(t := w)\<rparr>"

fun fobjects_step :: "fcall \<Rightarrow> fobjects \<Rightarrow> fobjects" where
  "fobjects_step Queue_wait z = fwaits_set Consumer (On_queue (ftick z + 1)) z"
| "fobjects_step Queue_empty z = fwaits_set Consumer Not_blocked z"
| "fobjects_step (Queue_receive v) z = (fwaits_set Consumer Not_blocked z)\<lparr>fqueue := tl (fqueue z)\<rparr>"
| "fobjects_step (Queue_send v) z = z\<lparr>fqueue := fqueue z @ [v]\<rparr>"
| "fobjects_step Notify_wait z = fwaits_set Consumer On_notify z"
| "fobjects_step (Notify_take v) z = (fwaits_set Consumer Not_blocked z)\<lparr>fnotified := 0\<rparr>"
| "fobjects_step Notify_give z = z\<lparr>fnotified := fnotified z + 1\<rparr>"
| "fobjects_step (Mutex_take t) z = z\<lparr>fmutex := Some t\<rparr>"
| "fobjects_step (Mutex_give t) z = z\<lparr>fmutex := None\<rparr>"
| "fobjects_step (Task_delay t) z = fwaits_set t (Until (ftick z + 1)) z"
| "fobjects_step (Task_yield t) z = z"
| "fobjects_step (Task_delete t) z = fwaits_set t Deleted z"
| "fobjects_step Tick z = z\<lparr>ftick := ftick z + 1\<rparr>"
| "fobjects_step (Uart_init d) z = z"
| "fobjects_step (Uart_puts txt) z = z"

definition fobjects_of :: "fcall list \<Rightarrow> fobjects" where
  "fobjects_of log = fold fobjects_step log fobjects_init"

lemma fobjects_of_simps [simp]:
  "fobjects_of [] = fobjects_init" "fobjects_of (log @ cs) = fold fobjects_step cs (fobjects_of log)"
  by (simp_all add: fobjects_of_def)

definition fready :: "fobjects \<Rightarrow> ftask \<Rightarrow> bool" where
  "fready z t \<longleftrightarrow>
    (case fwaits z t of
       Not_blocked \<Rightarrow> True
     | Until w \<Rightarrow> w \<le> ftick z
     | On_queue w \<Rightarrow> w \<le> ftick z \<or> fqueue z \<noteq> []
     | On_notify \<Rightarrow> fnotified z \<noteq> 0
     | Deleted \<Rightarrow> False)"

text \<open>
  The documented behaviour the code relies on: a running task is able to run and no task of higher priority is, and the
  idle task runs only when nothing above its priority can; the queue gives its oldest item or reports that it is
  empty, and takes an item when it has room; taking a notification returns its count; a free mutex is taken at once
  and its owner can give it; static objects are created and the scheduler starts.
\<close>

definition fkernel_ok :: "fkernel \<Rightarrow> bool" where
  "fkernel_ok K \<longleftrightarrow>
     (\<forall>log t. x_current K log = Some t \<longrightarrow> fready (fobjects_of log) t \<and>
        (\<forall>t'. fready (fobjects_of log) t' \<longrightarrow> fprio t' \<le> fprio t)) \<and>
     (\<forall>log t. x_current K log = None \<longrightarrow> fready (fobjects_of log) t \<longrightarrow> fprio t = 0) \<and>
     (\<forall>log. fqueue (fobjects_of log) = [] \<longrightarrow> fst (x_queue_receive K log) = errQUEUE_EMPTY) \<and>
     (\<forall>log v vs. fqueue (fobjects_of log) = v # vs \<longrightarrow> x_queue_receive K log = (pdPASS, v)) \<and>
     (\<forall>log v. fqueue (fobjects_of log) = [] \<longrightarrow> x_queue_send_from_isr K log v = pdPASS) \<and>
     (\<forall>log. x_notify_take K log = fnotified (fobjects_of log)) \<and>
     (\<forall>log t. fmutex (fobjects_of log) = None \<longrightarrow> x_sem_take K log t = pdPASS) \<and>
     (\<forall>log t. fmutex (fobjects_of log) = Some t \<longrightarrow> x_sem_give K log t = pdPASS) \<and>
     x_queue_create K \<and> x_mutex_create K \<and> (\<forall>t. x_task_create K t) \<and> x_start K"

section \<open>State\<close>

abbreviation (input) DEMO_EVENT :: u32 where "DEMO_EVENT \<equiv> 0x4652544f"
abbreviation (input) FREERTOS_TIMING_MAGIC :: u32 where "FREERTOS_TIMING_MAGIC \<equiv> 0x46525432"
abbreviation (input) TASK_DONE_ALL :: u32 where "TASK_DONE_ALL \<equiv> 0xf"

fun task_done_bit :: "ftask \<Rightarrow> u32" where
  "task_done_bit Consumer = 1" | "task_done_bit Trigger = 2" | "task_done_bit Yield_a = 4" | "task_done_bit Yield_b = 8"

datatype consumer_pc =
    Co_receive | Co_received | Co_take | Co_taken | Co_wake | Co_receive_now | Co_event | Co_mutex_take | Co_mutex_give
  | Co_malloc | Co_load | Co_store | Co_while | Co_puts | Co_result | Co_delete | Co_done | Co_failed

datatype trigger_pc =
    Tr_delay | Tr_mutex_take | Tr_mutex_give | Tr_init | Tr_transfer | Tr_check | Tr_clear | Tr_async | Tr_wait
  | Tr_verdict | Tr_arm | Tr_start | Tr_load | Tr_store | Tr_delete | Tr_done | Tr_failed

datatype yield_pc =
    Yi_before | Yi_yield | Yi_resume | Yi_arm | Yi_spin | Yi_delay | Yi_load | Yi_store | Yi_delete | Yi_done

record timing_report =
  magic :: u32
  yield_a_before_mcycle :: u32
  yield_b_entry_mcycle :: u32
  yield_b_before_mcycle :: u32
  yield_a_resume_mcycle :: u32
  timeslice_tick_mcycle :: u32
  timeslice_b_entry_mcycle :: u32
  timer_arm_mcycle :: u32
  plic_isr_entry_mcycle :: u32
  consumer_wake_mcycle :: u32

text \<open>
  The driver's state, the variables of \<^verbatim>\<open>main.c\<close>, and for each task its control point and the register of the
  read-modify-write of \<open>task_done_bits\<close>. \<open>halted\<close>: in the endless loop of an assertion, outside the tasks.
\<close>

record 'd fapp = "('d, unit) freertos_spi" +
  consumer_pc :: consumer_pc
  consumer_event :: u32
  trigger_pc :: trigger_pc
  wait_cycles :: u32
  yield_a_pc :: yield_pc
  yield_b_pc :: yield_pc
  loaded :: "ftask \<Rightarrow> u32"
  timeslice_armed :: u32
  task_done_bits :: u32
  async_done :: u32
  async_result :: u32
  freertos_result :: u32
  malloc_ok :: u32
  timing :: timing_report
  mcycle :: u32
  flog :: "fcall list"
  halted :: bool

text \<open>Where the buffers of the trigger task are: \<open>spi_tx\<close>, \<open>spi_rx\<close> and the variable \<open>spi_async_rx\<close>.\<close>

record fsymbols =
  sym_spi_tx :: u32
  sym_spi_rx :: u32
  sym_async_rx :: u32

definition flog_call :: "fcall \<Rightarrow> 'd fapp \<Rightarrow> 'd fapp" where
  "flog_call c s = s\<lparr>flog := flog s @ [c]\<rparr>"

definition report :: "(timing_report \<Rightarrow> timing_report) \<Rightarrow> 'd fapp \<Rightarrow> 'd fapp" where
  "report f s = s\<lparr>timing := f (timing s)\<rparr>"

definition vAssertCalled_demo :: "'d fapp \<Rightarrow> 'd fapp" where
  "vAssertCalled_demo s = s\<lparr>freertos_result := 0xdead0001\<rparr>"

text \<open>Outside a task nothing runs once the assertion has failed.\<close>

definition assert_or_halt :: "bool \<Rightarrow> 'd fapp \<Rightarrow> 'd fapp" where
  "assert_or_halt ok s = (if ok then s else (vAssertCalled_demo s)\<lparr>halted := True\<rparr>)"

definition unless_halted :: "('d fapp \<Rightarrow> 'd fapp) \<Rightarrow> 'd fapp \<Rightarrow> 'd fapp" where
  "unless_halted f s = (if halted s then s else f s)"

section \<open>Hooks and interrupts\<close>

definition vApplicationStackOverflowHook_demo :: "'d fapp \<Rightarrow> 'd fapp" where
  "vApplicationStackOverflowHook_demo s = assert_or_halt False s"

definition freertos_risc_v_application_exception_handler :: "'d fapp \<Rightarrow> 'd fapp" where
  "freertos_risc_v_application_exception_handler s = assert_or_halt False s"

definition vApplicationTickHook :: "'d fapp \<Rightarrow> 'd fapp" where
  "vApplicationTickHook s =
    (if timeslice_armed s \<noteq> 0 \<and> timeslice_tick_mcycle (timing s) = 0 then
       (report (timeslice_tick_mcycle_update (\<lambda>_. mcycle s)) s)\<lparr>timeslice_armed := 0\<rparr>
     else s)"

definition spi_async_callback_fn :: "unit \<Rightarrow> int \<Rightarrow> u32 \<Rightarrow> 'd fapp \<Rightarrow> 'd fapp" where
  "spi_async_callback_fn cb result ctx s = s\<lparr>async_result := of_int result, async_done := 1\<rparr>"

definition freertos_risc_v_application_interrupt_handler :: "'d bus \<Rightarrow> fkernel \<Rightarrow> 'd fapp \<Rightarrow> 'd fapp" where
  "freertos_risc_v_application_interrupt_handler B K s =
    (let s = report (plic_isr_entry_mcycle_update (\<lambda>_. mcycle s)) s;
         (mcause, s) = csr_read Mcause s
     in if mcause AND ERISCV_MCU_MCAUSE_CODE_MASK \<noteq> ERISCV_MCU_MCAUSE_MEI then assert_or_halt False s
        else
          let (src, s) = freertos_plic_claim B s
          in if src = ERISCV_MCU_TIMER0_PLIC_SOURCE then
               let s = freertos_timer_stop B s
               in if x_queue_send_from_isr K (flog s) DEMO_EVENT \<noteq> pdPASS then assert_or_halt False s
                  else freertos_plic_complete B src (flog_call Notify_give (flog_call (Queue_send DEMO_EVENT) s))
             else if src = ERISCV_MCU_SPI0_PLIC_SOURCE then
               freertos_plic_complete B src (freertos_spi_irq_handler B spi_async_callback_fn s)
             else assert_or_halt False s)"

section \<open>The tasks\<close>

text \<open>\<open>configASSERT\<close> in the consumer and in the trigger task; the task goes on at \<open>pc\<close>.\<close>

definition consumer_assert :: "bool \<Rightarrow> consumer_pc \<Rightarrow> 'd fapp \<Rightarrow> 'd fapp" where
  "consumer_assert ok pc s = (if ok then s\<lparr>consumer_pc := pc\<rparr> else (vAssertCalled_demo s)\<lparr>consumer_pc := Co_failed\<rparr>)"

definition trigger_assert :: "bool \<Rightarrow> trigger_pc \<Rightarrow> 'd fapp \<Rightarrow> 'd fapp" where
  "trigger_assert ok pc s = (if ok then s\<lparr>trigger_pc := pc\<rparr> else (vAssertCalled_demo s)\<lparr>trigger_pc := Tr_failed\<rparr>)"

text \<open>\<open>task_done_bits |= task_bit\<close> on a volatile variable: a load, and then a store of what was loaded.\<close>

definition mark_task_load :: "ftask \<Rightarrow> 'd fapp \<Rightarrow> 'd fapp" where
  "mark_task_load t s = s\<lparr>loaded := (loaded s)(t := task_done_bits s)\<rparr>"

definition mark_task_store :: "ftask \<Rightarrow> 'd fapp \<Rightarrow> 'd fapp" where
  "mark_task_store t s = s\<lparr>task_done_bits := loaded s t OR task_done_bit t\<rparr>"

definition consumer_task_entry :: "fkernel \<Rightarrow> 'd fapp \<Rightarrow> 'd fapp" where
  "consumer_task_entry K s =
    (case consumer_pc s of
       Co_receive \<Rightarrow> (flog_call Queue_wait s)\<lparr>consumer_pc := Co_received\<rparr>
     | Co_received \<Rightarrow>
         (case x_queue_receive K (flog s) of
            (r, v) \<Rightarrow> if r = errQUEUE_EMPTY then consumer_assert True Co_take (flog_call Queue_empty s)
                      else consumer_assert False Co_take ((flog_call (Queue_receive v) s)\<lparr>consumer_event := v\<rparr>))
     | Co_take \<Rightarrow> (flog_call Notify_wait s)\<lparr>consumer_pc := Co_taken\<rparr>
     | Co_taken \<Rightarrow>
         (let n = x_notify_take K (flog s) in consumer_assert (n = 1) Co_wake (flog_call (Notify_take n) s))
     | Co_wake \<Rightarrow> (report (consumer_wake_mcycle_update (\<lambda>_. mcycle s)) s)\<lparr>consumer_pc := Co_receive_now\<rparr>
     | Co_receive_now \<Rightarrow>
         (case x_queue_receive K (flog s) of
            (r, v) \<Rightarrow> if r = pdPASS then consumer_assert True Co_event ((flog_call (Queue_receive v) s)\<lparr>consumer_event := v\<rparr>)
                      else consumer_assert False Co_event s)
     | Co_event \<Rightarrow> consumer_assert (consumer_event s = DEMO_EVENT) Co_mutex_take s
     | Co_mutex_take \<Rightarrow>
         if x_sem_take K (flog s) Consumer = pdPASS then consumer_assert True Co_mutex_give (flog_call (Mutex_take Consumer) s)
         else consumer_assert False Co_mutex_give s
     | Co_mutex_give \<Rightarrow>
         if x_sem_give K (flog s) Consumer = pdPASS then consumer_assert True Co_malloc (flog_call (Mutex_give Consumer) s)
         else consumer_assert False Co_malloc s
     | Co_malloc \<Rightarrow> consumer_assert (malloc_ok s = 1) Co_load s
     | Co_load \<Rightarrow> (mark_task_load Consumer s)\<lparr>consumer_pc := Co_store\<rparr>
     | Co_store \<Rightarrow> (mark_task_store Consumer s)\<lparr>consumer_pc := Co_while\<rparr>
     | Co_while \<Rightarrow> if task_done_bits s \<noteq> TASK_DONE_ALL then flog_call (Task_delay Consumer) s else s\<lparr>consumer_pc := Co_puts\<rparr>
     | Co_puts \<Rightarrow> (flog_call (Uart_puts ''FreeRTOS M-mode PASS\<newline>'') s)\<lparr>consumer_pc := Co_result\<rparr>
     | Co_result \<Rightarrow> s\<lparr>freertos_result := 1, consumer_pc := Co_delete\<rparr>
     | Co_delete \<Rightarrow> (flog_call (Task_delete Consumer) s)\<lparr>consumer_pc := Co_done\<rparr>
     | Co_done \<Rightarrow> s
     | Co_failed \<Rightarrow> s)"

text \<open>
  The transfers and the set-up of the port are one step each: nothing else in the program uses the SPI port while they
  run. So are the three stores before the asynchronous transfer and the three loads after it.
\<close>

definition trigger_task_entry :: "'d bus \<Rightarrow> fkernel \<Rightarrow> fsymbols \<Rightarrow> 'd fapp \<Rightarrow> 'd fapp" where
  "trigger_task_entry B K L s =
    (case trigger_pc s of
       Tr_delay \<Rightarrow>
         (flog_call (Task_delay Trigger) s)
           \<lparr>ram := (ram s)(sym_spi_rx L := 0, sym_spi_rx L + 1 := 0), trigger_pc := Tr_mutex_take\<rparr>
     | Tr_mutex_take \<Rightarrow>
         if x_sem_take K (flog s) Trigger = pdPASS then trigger_assert True Tr_mutex_give (flog_call (Mutex_take Trigger) s)
         else trigger_assert False Tr_mutex_give s
     | Tr_mutex_give \<Rightarrow>
         if x_sem_give K (flog s) Trigger = pdPASS then trigger_assert True Tr_init (flog_call (Mutex_give Trigger) s)
         else trigger_assert False Tr_init s
     | Tr_init \<Rightarrow> (case freertos_spi_init B 2 0 s of (r, s) \<Rightarrow> trigger_assert (r = 0) Tr_transfer s)
     | Tr_transfer \<Rightarrow>
         (case freertos_spi_transfer_buf B 0 (sym_spi_tx L) (sym_spi_rx L) 2 10000 s of
            (r, s) \<Rightarrow> trigger_assert (r = 0) Tr_check s)
     | Tr_check \<Rightarrow> trigger_assert (ram s (sym_spi_rx L) = 0x3c \<and> ram s (sym_spi_rx L + 1) = 0x3c) Tr_clear s
     | Tr_clear \<Rightarrow> s\<lparr>async_done := 0, async_result := 0xffffffff, ram := (ram s)(sym_async_rx L := 0), trigger_pc := Tr_async\<rparr>
     | Tr_async \<Rightarrow>
         (case freertos_spi_start_async B 0 (sym_spi_tx L) (sym_async_rx L) 1 (Some ()) 0 s of
            (r, s) \<Rightarrow> trigger_assert (r = 0) Tr_wait (s\<lparr>wait_cycles := 100000\<rparr>))
     | Tr_wait \<Rightarrow>
         if wait_cycles s \<noteq> 0 \<and> async_done s = 0 then s\<lparr>wait_cycles := wait_cycles s - 1\<rparr> else s\<lparr>trigger_pc := Tr_verdict\<rparr>
     | Tr_verdict \<Rightarrow>
         trigger_assert (async_done s \<noteq> 0 \<and> async_result s = 0 \<and> ram s (sym_async_rx L) = 0x3c) Tr_arm s
     | Tr_arm \<Rightarrow> (report (timer_arm_mcycle_update (\<lambda>_. mcycle s)) s)\<lparr>trigger_pc := Tr_start\<rparr>
     | Tr_start \<Rightarrow> (freertos_timer_start B 256 1 s)\<lparr>trigger_pc := Tr_load\<rparr>
     | Tr_load \<Rightarrow> (mark_task_load Trigger s)\<lparr>trigger_pc := Tr_store\<rparr>
     | Tr_store \<Rightarrow> (mark_task_store Trigger s)\<lparr>trigger_pc := Tr_delete\<rparr>
     | Tr_delete \<Rightarrow> (flog_call (Task_delete Trigger) s)\<lparr>trigger_pc := Tr_done\<rparr>
     | Tr_done \<Rightarrow> s
     | Tr_failed \<Rightarrow> s)"

definition yield_a_task_entry :: "'d fapp \<Rightarrow> 'd fapp" where
  "yield_a_task_entry s =
    (case yield_a_pc s of
       Yi_before \<Rightarrow> (report (yield_a_before_mcycle_update (\<lambda>_. mcycle s)) s)\<lparr>yield_a_pc := Yi_yield\<rparr>
     | Yi_yield \<Rightarrow> (flog_call (Task_yield Yield_a) s)\<lparr>yield_a_pc := Yi_resume\<rparr>
     | Yi_resume \<Rightarrow> (report (yield_a_resume_mcycle_update (\<lambda>_. mcycle s)) s)\<lparr>yield_a_pc := Yi_arm\<rparr>
     | Yi_arm \<Rightarrow> s\<lparr>timeslice_armed := 1, yield_a_pc := Yi_spin\<rparr>
     | Yi_spin \<Rightarrow> if timeslice_armed s \<noteq> 0 then s else s\<lparr>yield_a_pc := Yi_delay\<rparr>
     | Yi_delay \<Rightarrow> (flog_call (Task_delay Yield_a) s)\<lparr>yield_a_pc := Yi_load\<rparr>
     | Yi_load \<Rightarrow> (mark_task_load Yield_a s)\<lparr>yield_a_pc := Yi_store\<rparr>
     | Yi_store \<Rightarrow> (mark_task_store Yield_a s)\<lparr>yield_a_pc := Yi_delete\<rparr>
     | Yi_delete \<Rightarrow> (flog_call (Task_delete Yield_a) s)\<lparr>yield_a_pc := Yi_done\<rparr>
     | Yi_done \<Rightarrow> s)"

text \<open>The second yield task has no time slice to wait for.\<close>

definition yield_b_task_entry :: "'d fapp \<Rightarrow> 'd fapp" where
  "yield_b_task_entry s =
    (case yield_b_pc s of
       Yi_before \<Rightarrow>
         (report (yield_b_before_mcycle_update (\<lambda>_. mcycle s)) (report (yield_b_entry_mcycle_update (\<lambda>_. mcycle s)) s))
           \<lparr>yield_b_pc := Yi_yield\<rparr>
     | Yi_yield \<Rightarrow> (flog_call (Task_yield Yield_b) s)\<lparr>yield_b_pc := Yi_resume\<rparr>
     | Yi_resume \<Rightarrow> (report (timeslice_b_entry_mcycle_update (\<lambda>_. mcycle s)) s)\<lparr>yield_b_pc := Yi_delay\<rparr>
     | Yi_delay \<Rightarrow> (flog_call (Task_delay Yield_b) s)\<lparr>yield_b_pc := Yi_load\<rparr>
     | Yi_load \<Rightarrow> (mark_task_load Yield_b s)\<lparr>yield_b_pc := Yi_store\<rparr>
     | Yi_store \<Rightarrow> (mark_task_store Yield_b s)\<lparr>yield_b_pc := Yi_delete\<rparr>
     | Yi_delete \<Rightarrow> (flog_call (Task_delete Yield_b) s)\<lparr>yield_b_pc := Yi_done\<rparr>
     | _ \<Rightarrow> s)"

section \<open>Main\<close>

text \<open>The two loops of \<open>test_malloc\<close>, with \<open>k\<close> bytes to go: fill, and check.\<close>

fun malloc_fill :: "u32 \<Rightarrow> nat \<Rightarrow> u32 \<Rightarrow> (u32 \<Rightarrow> u8) \<Rightarrow> (u32 \<Rightarrow> u8)" where
  "malloc_fill p 0 i r = r"
| "malloc_fill p (Suc k) i r = malloc_fill p k (i + 1) (r(p + i := ucast (i XOR 0xaa)))"

fun malloc_check :: "u32 \<Rightarrow> nat \<Rightarrow> u32 \<Rightarrow> (u32 \<Rightarrow> u8) \<Rightarrow> bool" where
  "malloc_check p 0 i r = True"
| "malloc_check p (Suc k) i r = (if r (p + i) \<noteq> ucast (i XOR 0xaa) then False else malloc_check p k (i + 1) r)"

definition test_malloc :: "fkernel \<Rightarrow> 'd fapp \<Rightarrow> 'd fapp" where
  "test_malloc K s =
    (let (p, r) = x_malloc K (ram s); s = s\<lparr>malloc_ok := 0, ram := r\<rparr>
     in if p = 0 then assert_or_halt False s
        else
          let s = s\<lparr>ram := malloc_fill p 256 0 (ram s)\<rparr>
          in if \<not> malloc_check p 256 0 (ram s) then assert_or_halt False s
             else s\<lparr>ram := x_free K p (ram s), malloc_ok := 1\<rparr>)"

definition timing_cleared :: timing_report where
  "timing_cleared = \<lparr>magic = FREERTOS_TIMING_MAGIC, yield_a_before_mcycle = 0, yield_b_entry_mcycle = 0,
     yield_b_before_mcycle = 0, yield_a_resume_mcycle = 0, timeslice_tick_mcycle = 0, timeslice_b_entry_mcycle = 0,
     timer_arm_mcycle = 0, plic_isr_entry_mcycle = 0, consumer_wake_mcycle = 0\<rparr>"

definition freertos_variables :: "u32 \<Rightarrow> fsymbols \<Rightarrow> 'd fapp \<Rightarrow> 'd fapp" where
  "freertos_variables trap_handler L s =
    (csr_write Mtvec trap_handler (flog_call (Uart_init ERISCV_MCU_UART_DIVISOR) s))
      \<lparr>timing := timing_cleared, timeslice_armed := 0, task_done_bits := 0, async_done := 0, async_result := 0xffffffff,
       ram := (ram s)(sym_async_rx L := 0)\<rparr>"

text \<open>\<open>main\<close> up to the scheduler; the scheduler returns only when it could not start.\<close>

definition freertos_main :: "'d bus \<Rightarrow> fkernel \<Rightarrow> u32 \<Rightarrow> fsymbols \<Rightarrow> 'd fapp \<Rightarrow> 'd fapp" where
  "freertos_main B K trap_handler L s =
    (let s = test_malloc K s;
         s = unless_halted (freertos_variables trap_handler L) s;
         s = unless_halted (assert_or_halt (x_queue_create K)) s;
         s = unless_halted (assert_or_halt (x_mutex_create K)) s;
         s = fold (\<lambda>t. unless_halted (assert_or_halt (x_task_create K t))) [Consumer, Yield_a, Yield_b, Trigger] s;
         s = unless_halted (freertos_plic_init_source B ERISCV_MCU_TIMER0_PLIC_SOURCE 1) s
     in unless_halted (assert_or_halt (x_start K)) s)"

section \<open>Runs on the board\<close>

text \<open>
  What may happen next: the running task makes a step; the hart takes the external interrupt, if the PLIC asks for it;
  the kernel's tick; time passes, for the devices and for the cycle counter.
\<close>

datatype fevent = Run_task | External_irq | Tick_irq | Cycles nat

fun ftask_step :: "fkernel \<Rightarrow> fsymbols \<Rightarrow> ftask \<Rightarrow> ap_board fapp \<Rightarrow> ap_board fapp" where
  "ftask_step K L Consumer s = consumer_task_entry K s"
| "ftask_step K L Trigger s = trigger_task_entry board_bus K L s"
| "ftask_step K L Yield_a s = yield_a_task_entry s"
| "ftask_step K L Yield_b s = yield_b_task_entry s"

fun fevent_step :: "fkernel \<Rightarrow> fsymbols \<Rightarrow> fevent \<Rightarrow> ap_board fapp \<Rightarrow> ap_board fapp" where
  "fevent_step K L Run_task s = (case x_current K (flog s) of None \<Rightarrow> s | Some t \<Rightarrow> ftask_step K L t s)"
| "fevent_step K L External_irq s =
    (if board_meip (dev s) then
       freertos_risc_v_application_interrupt_handler board_bus K
         (s\<lparr>csrs := (csrs s)(Mcause := ERISCV_MCU_MCAUSE_INTERRUPT OR ERISCV_MCU_MCAUSE_MEI)\<rparr>)
     else s)"
| "fevent_step K L Tick_irq s = vApplicationTickHook (flog_call Tick s)"
| "fevent_step K L (Cycles n) s = s\<lparr>dev := board_clock n (dev s), mcycle := mcycle s + of_nat n\<rparr>"

definition frun :: "fkernel \<Rightarrow> fsymbols \<Rightarrow> fevent list \<Rightarrow> ap_board fapp \<Rightarrow> ap_board fapp" where
  "frun K L evs s = fold (\<lambda>ev. unless_halted (fevent_step K L ev)) evs s"

text \<open>At the entry of \<open>main\<close>: variables cleared by the start-up code, the tasks at their entries.\<close>

definition freertos_reset :: "(nat \<times> u8) list \<Rightarrow> (u32 \<Rightarrow> u8) \<Rightarrow> ap_board fapp" where
  "freertos_reset sc r = \<lparr>dev = board_reset sc, csrs = (\<lambda>_. 0), ram = r, trace = [], spi_control = 0,
     spi_async_active = False, spi_async_tx = 0, spi_async_rx = 0, spi_async_length = 0, spi_async_index = 0,
     spi_async_callback = None, spi_async_context = 0, consumer_pc = Co_receive, consumer_event = 0,
     trigger_pc = Tr_delay, wait_cycles = 0, yield_a_pc = Yi_before, yield_b_pc = Yi_before, loaded = (\<lambda>_. 0),
     timeslice_armed = 0, task_done_bits = 0, async_done = 0, async_result = 0, freertos_result = 0, malloc_ok = 0,
     timing = timing_cleared\<lparr>magic := 0\<rparr>, mcycle = 0, flog = [], halted = False\<rparr>"

end
