(* ===== verification/Freertos_Frame.thy ===== *)
theory Freertos_Frame
  imports Freertos_App
begin

text \<open>
  What the SPI driver leaves alone when it runs on the board in the FreeRTOS demonstration: the variables of
  \<^verbatim>\<open>main.c\<close>, the tasks, the timer, and every interrupt source but its own.
\<close>

text \<open>A source of the board that is switched on in the PLIC.\<close>

definition plic_on :: "plic \<Rightarrow> nat \<Rightarrow> bool" where
  "plic_on p i \<longleftrightarrow> (i = 2 \<or> i = 3) \<and> i \<in> p_enable p \<and> p_priority p (of_nat i) = 1 \<and> p_threshold p = 0"

definition spi_only :: "ap_board fapp \<Rightarrow> ap_board fapp \<Rightarrow> bool" where
  "spi_only s s' \<longleftrightarrow>
     freertos_spi.more s' = freertos_spi.more s \<and> bd_timer (dev s') = bd_timer (dev s) \<and>
     bd_in_service (dev s') = bd_in_service (dev s) \<and>
     (2 \<in> bd_pending (dev s') \<longrightarrow> 2 \<in> bd_pending (dev s) \<or> timer_line (bd_timer (dev s))) \<and>
     (p_enable (bd_plic (dev s)) \<subseteq> {2, 3} \<longrightarrow> p_enable (bd_plic (dev s')) \<subseteq> {2, 3}) \<and>
     (\<forall>i. plic_on (bd_plic (dev s)) i \<longrightarrow> plic_on (bd_plic (dev s')) i)"

lemma spi_only_refl [simp, intro]: "spi_only s s"
  by (simp add: spi_only_def)

lemma spi_only_trans: "spi_only s s' \<Longrightarrow> spi_only s' s'' \<Longrightarrow> spi_only s s''"
  by (auto simp: spi_only_def)

lemma spi_only_vars:
  assumes "spi_only s s'"
  shows "consumer_pc s' = consumer_pc s" "consumer_event s' = consumer_event s" "trigger_pc s' = trigger_pc s"
    "wait_cycles s' = wait_cycles s" "yield_a_pc s' = yield_a_pc s" "yield_b_pc s' = yield_b_pc s" "loaded s' = loaded s"
    "timeslice_armed s' = timeslice_armed s" "task_done_bits s' = task_done_bits s" "async_done s' = async_done s"
    "async_result s' = async_result s" "freertos_result s' = freertos_result s" "malloc_ok s' = malloc_ok s"
    "timing s' = timing s" "mcycle s' = mcycle s" "flog s' = flog s" "halted s' = halted s"
  using assms by (cases s; cases s'; simp add: spi_only_def)+

text \<open>The accesses.\<close>

lemma spi_only_write:
  assumes "a AND 0xfffff000 = 0x40030000"
  shows "spi_only s (eriscv_mcu_mmio_write32 board_bus a v s)"
  using assms by (auto simp: spi_only_def mach_simps board_bus_sel board_wr_def board_latch_pending board_level_def)

lemma spi_only_read:
  assumes "a AND 0xfffff000 = 0x40030000"
  shows "spi_only s (snd (eriscv_mcu_mmio_read32 board_bus a s))"
  using assms
  by (auto simp: spi_only_def mach_simps board_bus_sel board_rd_def Let_def split_beta board_latch_pending board_level_def)

text \<open>The three accesses to the PLIC that switch a source on.\<close>

lemma spi_only_priority: "src = 2 \<or> src = 3 \<Longrightarrow> spi_only s (eriscv_mcu_mmio_write32 board_bus (0xc000000 + 4 * src) 1 s)"
  by (auto simp: spi_only_def mach_simps board_bus_sel board_wr_def board_latch_pending board_level_def plic_wr_def Let_def
      plic_on_def)

lemma spi_only_enable_read: "spi_only s (snd (eriscv_mcu_mmio_read32 board_bus 0xc002000 s))"
  by (auto simp: spi_only_def mach_simps board_bus_sel board_rd_def Let_def split_beta board_latch_pending board_level_def
      plic_rd_def)

lemma spi_only_enable:
  assumes "\<forall>i \<in> {1..31}. bit v i \<longleftrightarrow> i \<in> p_enable (bd_plic (dev s)) \<or> i = src" "src = 2 \<or> src = 3"
  shows "spi_only s (eriscv_mcu_mmio_write32 board_bus 0xc002000 v s)"
proof -
  have "i div 32 = 0 \<Longrightarrow> i = 2 \<or> i = 3 \<Longrightarrow> i \<in> {1..31}" for i :: nat by auto
  then show ?thesis using assms
    by (auto simp: spi_only_def mach_simps board_bus_sel board_wr_def board_latch_pending board_level_def plic_wr_def Let_def
        plic_on_def)
qed

lemma spi_only_threshold: "spi_only s (eriscv_mcu_mmio_write32 board_bus 0xc200000 0 s)"
  by (auto simp: spi_only_def mach_simps board_bus_sel board_wr_def board_latch_pending board_level_def plic_wr_def Let_def
      plic_on_def)

lemma spi_only_locals:
  "spi_only s (s\<lparr>ram := r\<rparr>)" "spi_only s (s\<lparr>spi_control := c\<rparr>)" "spi_only s (s\<lparr>spi_async_active := b\<rparr>)"
  "spi_only s (s\<lparr>spi_async_callback := cb\<rparr>)" "spi_only s (s\<lparr>spi_async_index := i\<rparr>)" "spi_only s (s\<lparr>spi_async_context := x\<rparr>)"
  "spi_only s (s\<lparr>spi_control := c, spi_async_active := b, spi_async_callback := cb\<rparr>)"
  "spi_only s (s\<lparr>spi_async_tx := tx, spi_async_rx := rx, spi_async_length := len, spi_async_index := i,
     spi_async_callback := cb, spi_async_context := x, spi_async_active := b\<rparr>)"
  by (simp_all add: spi_only_def)

section \<open>The driver's functions\<close>

lemma spi_only_control: "spi_only s (spi_write_control board_bus irq clear s)"
  by (simp add: spi_write_control_def Let_def spi_only_write)

lemma spi_only_wait_idle: "spi_only s (snd (spi_wait_idle board_bus t s))"
proof (induction t arbitrary: s)
  case 0
  show ?case by (subst spi_wait_idle.simps) (simp add: split_beta Let_def spi_only_read)
next
  case (Suc t)
  show ?case using spi_only_read [where a = "0x40030008" and s = s] Suc spi_only_trans
    by (subst spi_wait_idle.simps) (auto simp: split_beta Let_def)
qed

lemma spi_only_rx_store: "spi_only s (spi_rx_store rx i v s)"
  by (simp add: spi_rx_store_def spi_only_locals)

lemma spi_only_transfer_byte: "spi_only s (snd (spi_transfer_byte board_bus tx rx t i s))"
proof -
  let ?s1 = "eriscv_mcu_mmio_write32 board_bus 0x40030000 (ucast (spi_tx_byte tx i (ram s))) s"
  let ?s2 = "snd (spi_wait_idle board_bus (unat t) ?s1)"
  let ?s3 = "spi_rx_store rx i (ucast (fst (eriscv_mcu_mmio_read32 board_bus 0x40030004 ?s2)))
    (snd (eriscv_mcu_mmio_read32 board_bus 0x40030004 ?s2))"
  have 2: "spi_only s ?s2" by (rule spi_only_trans [OF spi_only_write spi_only_wait_idle]) simp
  have 3: "spi_only s ?s3" by (rule spi_only_trans [OF spi_only_trans [OF 2 spi_only_read] spi_only_rx_store]) simp
  have 4: "spi_only s (eriscv_mcu_mmio_write32 board_bus 0x40030014 0xf ?s2)"
    by (rule spi_only_trans [OF 2 spi_only_write]) simp
  show ?thesis using 4 spi_only_trans [OF 2 spi_only_control] spi_only_trans [OF 3 spi_only_control]
    by (auto simp: spi_transfer_byte_def Let_def split_beta spi_clear_done_def)
qed

lemma spi_only_transfer_loop: "spi_only s (snd (spi_transfer_loop board_bus tx rx t i k s))"
proof (induction k arbitrary: i s)
  case (Suc k)
  show ?case using spi_only_transfer_byte [of s tx rx t i] spi_only_trans [OF spi_only_transfer_byte Suc]
    by (auto simp: Let_def split_beta)
qed simp

lemma spi_only_select: "spi_only s (snd (freertos_spi_select board_bus slave s))"
  by (simp add: freertos_spi_select_def spi_only_write)

lemma spi_only_transfer: "spi_only s (snd (freertos_spi_transfer_buf board_bus slave tx rx len t s))"
proof -
  let ?s1 = "snd (freertos_spi_select board_bus slave s)"
  let ?s2 = "snd (spi_transfer_loop board_bus tx rx t 0 (unat len) ?s1)"
  have 2: "spi_only s ?s2" by (rule spi_only_trans [OF spi_only_select spi_only_transfer_loop])
  have "spi_only s (eriscv_mcu_mmio_write32 board_bus 0x40030014 0xf ?s2)"
    by (rule spi_only_trans [OF 2 spi_only_write]) simp
  then show ?thesis using 2 spi_only_select [of s slave]
    by (auto simp: freertos_spi_transfer_buf_def Let_def split_beta)
qed

lemma spi_only_start_async: "spi_only s (snd (freertos_spi_start_async board_bus slave tx rx len cb x s))"
proof -
  let ?s1 = "snd (freertos_spi_select board_bus slave s)"
  let ?s2 = "?s1\<lparr>spi_async_tx := tx, spi_async_rx := rx, spi_async_length := len, spi_async_index := 0,
      spi_async_callback := cb, spi_async_context := x, spi_async_active := True\<rparr>"
  let ?s3 = "spi_write_control board_bus True True ?s2"
  have 3: "spi_only s ?s3"
    by (rule spi_only_trans [OF spi_only_trans [OF spi_only_select spi_only_locals(8)] spi_only_control])
  have "spi_only s (eriscv_mcu_mmio_write32 board_bus 0x40030000 v ?s3)" for v
    by (rule spi_only_trans [OF 3 spi_only_write]) simp
  then show ?thesis using spi_only_select [of s slave]
    by (auto simp: freertos_spi_start_async_def Let_def split_beta)
qed

lemma plic_write_board:
  assumes "a AND 0xfffff000 \<noteq> 0x40030000" "a AND 0xfffff000 \<noteq> 0x40020000" "a \<noteq> 0xc200004"
  shows "bd_plic (dev (eriscv_mcu_mmio_write32 board_bus a v s)) = plic_wr a v (bd_plic (dev s))"
    "bd_spi (dev (eriscv_mcu_mmio_write32 board_bus a v s)) = bd_spi (dev s)"
  using assms by (simp_all add: mach_simps board_bus_sel board_wr_def)

lemma plic_enable_read_board:
  "fst (eriscv_mcu_mmio_read32 board_bus 0xc002000 s) = source_word (p_enable (bd_plic (dev s))) 0"
  "bd_plic (dev (snd (eriscv_mcu_mmio_read32 board_bus 0xc002000 s))) = bd_plic (dev s)"
  "bd_spi (dev (snd (eriscv_mcu_mmio_read32 board_bus 0xc002000 s))) = bd_spi (dev s)"
  by (simp_all add: mach_simps board_bus_sel board_rd_def Let_def split_beta plic_rd_def)

lemma plic_source_page:
  "src = 2 \<or> src = 3 \<Longrightarrow> (0xc000000 + 4 * src :: u32) AND 0xfffff000 \<noteq> 0x40030000 \<and>
     (0xc000000 + 4 * src :: u32) AND 0xfffff000 \<noteq> 0x40020000 \<and> 0xc000000 + 4 * src \<noteq> 0xc200004"
  by auto

lemma plic_wr_sel:
  "src = 2 \<or> src = 3 \<Longrightarrow> plic_wr (0xc000000 + 4 * src) v p = p\<lparr>p_priority := (p_priority p)(src := v AND 7)\<rparr>"
  "plic_wr 0xc002000 v p = p\<lparr>p_enable := {i \<in> p_enable p. i div 32 \<noteq> 0} \<union> {i \<in> {1..31}. bit v i}\<rparr>"
  "plic_wr 0xc200000 v p = p\<lparr>p_threshold := v AND 7\<rparr>"
  by (auto simp: plic_wr_def Let_def)

lemma spi_only_plic_init:
  assumes "src = 2 \<or> src = 3"
  shows "spi_only s (freertos_plic_init_source board_bus src 1 s)"
    "plic_on (bd_plic (dev (freertos_plic_init_source board_bus src 1 s))) (unat src)"
    "bd_spi (dev (freertos_plic_init_source board_bus src 1 s)) = bd_spi (dev s)"
proof -
  let ?bit = "push_bit (unat (src AND 31)) 1 :: u32"
  define s1 where "s1 = eriscv_mcu_mmio_write32 board_bus (0xc000000 + 4 * src) 1 s"
  obtain v s2 where r: "eriscv_mcu_mmio_read32 board_bus 0xc002000 s1 = (v, s2)" by fastforce
  define s3 where "s3 = eriscv_mcu_mmio_write32 board_bus 0xc002000 (v OR ?bit) s2"
  define s4 where "s4 = eriscv_mcu_mmio_write32 board_bus 0xc200000 0 s3"
  have eq: "freertos_plic_init_source board_bus src 1 s = s4"
    using assms r unfolding s4_def s3_def s1_def by (elim disjE) (simp_all add: freertos_plic_init_source_def Let_def)
  have rd: "v = source_word (p_enable (bd_plic (dev s1))) 0" "bd_plic (dev s2) = bd_plic (dev s1)" "bd_spi (dev s2) = bd_spi (dev s1)"
    using plic_enable_read_board [of s1] r by simp_all
  have "bit ?bit i \<longleftrightarrow> i = unat src" for i
    using assms bit_exp_u32 [of 3 i] bit_exp_u32 [of 2 i] by (elim disjE) simp_all
  then have b: "\<forall>i \<in> {1..31}. bit (v OR ?bit) i \<longleftrightarrow> i \<in> p_enable (bd_plic (dev s2)) \<or> i = unat src"
    unfolding rd(1,2) by (simp add: bit_or_iff bit_source_word)
  have u: "unat src = 2 \<or> unat src = 3" using assms by auto
  note pg = plic_source_page [OF assms]
  have p1: "bd_plic (dev s1) = (bd_plic (dev s))\<lparr>p_priority := (p_priority (bd_plic (dev s)))(src := 1)\<rparr>" "bd_spi (dev s1) = bd_spi (dev s)"
    using plic_write_board [of "0xc000000 + 4 * src" 1 s] pg plic_wr_sel(1) [OF assms, of 1 "bd_plic (dev s)"] unfolding s1_def by simp_all
  have p3: "bd_plic (dev s3) = plic_wr 0xc002000 (v OR ?bit) (bd_plic (dev s2))" "bd_spi (dev s3) = bd_spi (dev s2)"
    using plic_write_board [of "0xc002000" "v OR ?bit" s2] unfolding s3_def by simp_all
  have p4: "bd_plic (dev s4) = (bd_plic (dev s3))\<lparr>p_threshold := 0\<rparr>" "bd_spi (dev s4) = bd_spi (dev s3)"
    using plic_write_board [of "0xc200000" 0 s3] unfolding s4_def by (simp_all add: plic_wr_sel)
  have 2: "spi_only s s2" unfolding s1_def
    using spi_only_trans [OF spi_only_priority [OF assms, of s] spi_only_enable_read] r unfolding s1_def by simp
  have "spi_only s s4" unfolding s4_def s3_def
    by (rule spi_only_trans [OF spi_only_trans [OF 2 spi_only_enable [OF b u]] spi_only_threshold])
  then show "spi_only s (freertos_plic_init_source board_bus src 1 s)" unfolding eq .
  show "bd_spi (dev (freertos_plic_init_source board_bus src 1 s)) = bd_spi (dev s)" unfolding eq p4(2) p3(2) rd(3) p1(2) ..
  have "p_priority (bd_plic (dev s4)) src = 1" "p_threshold (bd_plic (dev s4)) = 0"
    unfolding p4 p3 by (simp_all add: plic_wr_sel rd(2) p1(1))
  moreover have "unat src \<in> p_enable (bd_plic (dev s4))"
  proof -
    have "bit (v OR ?bit) (unat src)" "unat src \<in> {1..31}" using b u by auto
    then show ?thesis unfolding p4 p3 plic_wr_sel by simp
  qed
  ultimately show "plic_on (bd_plic (dev (freertos_plic_init_source board_bus src 1 s))) (unat src)"
    unfolding eq plic_on_def using u by simp
qed

lemma spi_only_init: "spi_only s (snd (freertos_spi_init board_bus d c s))"
proof -
  let ?s1 = "s\<lparr>spi_control := c AND SPI_MODE_MASK, spi_async_active := False, spi_async_callback := None\<rparr>"
  let ?s2 = "eriscv_mcu_mmio_write32 board_bus 0x4003000c (if d = 0 then 1 else d) ?s1"
  let ?s3 = "spi_write_control board_bus False True ?s2"
  let ?s4 = "eriscv_mcu_mmio_write32 board_bus 0x40030014 0xf ?s3"
  have 2: "spi_only s ?s2" by (rule spi_only_trans [OF spi_only_locals(7) spi_only_write]) simp
  have 4: "spi_only s ?s4" by (rule spi_only_trans [OF spi_only_trans [OF 2 spi_only_control] spi_only_write]) simp
  show ?thesis using spi_only_trans [OF 4 spi_only_plic_init(1) [of 3]]
    by (auto simp: freertos_spi_init_def Let_def)
qed

text \<open>The interrupt handler, up to the callback.\<close>

lemma spi_only_irq_handler:
  "spi_only s (freertos_spi_irq_handler board_bus spi_async_callback_fn s) \<or>
   (\<exists>s'. spi_only s s' \<and> freertos_spi_irq_handler board_bus spi_async_callback_fn s = spi_async_callback_fn () SPI_OK 0 s')"
proof -
  obtain status s1 where r: "eriscv_mcu_mmio_read32 board_bus 0x40030008 s = (status, s1)" by fastforce
  obtain v s2 where v: "eriscv_mcu_mmio_read32 board_bus 0x40030004 s1 = (v, s2)" by fastforce
  define s3 where "s3 = spi_clear_done board_bus True
    (spi_rx_store (spi_async_rx s2) (unat (spi_async_index s2)) (ucast v) s2)"
  define s4 where "s4 = s3\<lparr>spi_async_index := spi_async_index s3 + 1\<rparr>"
  define s5 where "s5 = spi_write_control board_bus False False
    (eriscv_mcu_mmio_write32 board_bus 0x40030014 0xf (s4\<lparr>spi_async_active := False\<rparr>))"
  define s6 where "s6 = s5\<lparr>spi_async_callback := None, spi_async_context := 0\<rparr>"
  have 1: "spi_only s s1" using spi_only_read [where a = "0x40030008" and s = s] r by simp
  have 2: "spi_only s s2" using spi_only_trans [OF 1] spi_only_read [where a = "0x40030004" and s = s1] v by simp
  have 4: "spi_only s s4" unfolding s4_def s3_def spi_clear_done_def
    by (rule spi_only_trans [OF spi_only_trans [OF spi_only_trans [OF 2 spi_only_rx_store] spi_only_control] spi_only_locals(5)])
  have w: "spi_only s (eriscv_mcu_mmio_write32 board_bus 0x40030000 x s4)" for x
    by (rule spi_only_trans [OF 4 spi_only_write]) simp
  have 5: "spi_only s s5" unfolding s5_def
    by (rule spi_only_trans [OF spi_only_trans [OF spi_only_trans [OF 4 spi_only_locals(3)] spi_only_write] spi_only_control]) simp
  have 6: "spi_only s s6" unfolding s6_def
    by (rule spi_only_trans [OF spi_only_trans [OF 5 spi_only_locals(4)] spi_only_locals(6)])
  have c: "spi_async_callback_fn () SPI_OK x s6 = spi_async_callback_fn () SPI_OK 0 s6" for x
    by (simp add: spi_async_callback_fn_def)
  have adv: "spi_only s (spi_async_advance board_bus spi_async_callback_fn s4) \<or>
      spi_async_advance board_bus spi_async_callback_fn s4 = spi_async_callback_fn () SPI_OK 0 s6"
  proof (cases "spi_async_index s4 < spi_async_length s4")
    case True
    then show ?thesis using w by (simp add: spi_async_advance_def)
  next
    case False
    then have "spi_async_advance board_bus spi_async_callback_fn s4 =
        (case spi_async_callback s5 of None \<Rightarrow> s6 | Some cb \<Rightarrow> spi_async_callback_fn cb SPI_OK (spi_async_context s5) s6)"
      unfolding s6_def s5_def by (simp add: spi_async_advance_def Let_def)
    then show ?thesis using 6 c by (cases "spi_async_callback s5") simp_all
  qed
  have "spi_only s (spi_clear_done board_bus False s1)"
    unfolding spi_clear_done_def by (rule spi_only_trans [OF 1 spi_only_control])
  moreover have "freertos_spi_irq_handler board_bus spi_async_callback_fn s =
      (if status AND SPI_STATUS_DONE = 0 then s1
       else if \<not> spi_async_active s1 then spi_clear_done board_bus False s1
       else spi_async_advance board_bus spi_async_callback_fn s4)"
    by (simp add: freertos_spi_irq_handler_def r v s4_def s3_def Let_def)
  ultimately show ?thesis using 1 adv 6 by metis
qed

end
