(* ===== verification/Freertos_Run.thy ===== *)
theory Freertos_Run
  imports Freertos_Frame
begin

text \<open>
  Every run of the FreeRTOS demonstration, for every kernel that does what its documentation says and every order of
  task steps, interrupts, ticks and time: what stays true, and what the published result means.
\<close>

section \<open>The invariant\<close>

text \<open>The messages between the interrupt and the consumer.\<close>

definition ftraffic :: "fcall list \<Rightarrow> fcall list" where
  "ftraffic log = filter (\<lambda>c. case c of
     Queue_send _ \<Rightarrow> True | Queue_receive _ \<Rightarrow> True | Notify_give \<Rightarrow> True | Notify_take _ \<Rightarrow> True | _ \<Rightarrow> False) log"

lemma ftraffic_simps [simp]:
  "ftraffic [] = []" "ftraffic (log @ cs) = ftraffic log @ ftraffic cs"
  "ftraffic (Queue_send v # cs) = Queue_send v # ftraffic cs" "ftraffic (Queue_receive v # cs) = Queue_receive v # ftraffic cs"
  "ftraffic (Notify_give # cs) = Notify_give # ftraffic cs" "ftraffic (Notify_take v # cs) = Notify_take v # ftraffic cs"
  "ftraffic (Queue_wait # cs) = ftraffic cs" "ftraffic (Queue_empty # cs) = ftraffic cs" "ftraffic (Notify_wait # cs) = ftraffic cs"
  "ftraffic (Mutex_take t # cs) = ftraffic cs" "ftraffic (Mutex_give t # cs) = ftraffic cs" "ftraffic (Task_delay t # cs) = ftraffic cs"
  "ftraffic (Task_yield t # cs) = ftraffic cs" "ftraffic (Task_delete t # cs) = ftraffic cs" "ftraffic (Tick # cs) = ftraffic cs"
  "ftraffic (Uart_init d # cs) = ftraffic cs" "ftraffic (Uart_puts txt # cs) = ftraffic cs"
  by (simp_all add: ftraffic_def)

lemma fwaits_set_sel [simp]: "fwaits (fwaits_set t w z) = (fwaits z)(t := w)" "ftick (fwaits_set t w z) = ftick z"
  "fqueue (fwaits_set t w z) = fqueue z" "fnotified (fwaits_set t w z) = fnotified z" "fmutex (fwaits_set t w z) = fmutex z"
  by (simp_all add: fwaits_set_def)

text \<open>The consumer before its wait for the notification; the trigger task once the timer runs.\<close>

definition co_early :: "consumer_pc \<Rightarrow> bool" where "co_early p \<longleftrightarrow> p = Co_receive \<or> p = Co_received \<or> p = Co_take"
definition tr_armed :: "trigger_pc \<Rightarrow> bool" where "tr_armed p \<longleftrightarrow> p = Tr_load \<or> p = Tr_store \<or> p = Tr_delete \<or> p = Tr_done"

text \<open>No timer interrupt is possible.\<close>

definition timer_quiet :: "ap_board \<Rightarrow> bool" where
  "timer_quiet b \<longleftrightarrow> t_ctrl (bd_timer b) = 0 \<and> \<not> t_expired (bd_timer b) \<and> 2 \<notin> bd_pending b"

definition board_ok :: "ap_board \<Rightarrow> bool" where
  "board_ok b \<longleftrightarrow> bd_in_service b = {} \<and> p_enable (bd_plic b) \<subseteq> {2, 3}"

text \<open>
  The priorities at work: the trigger task does not get past its delay before the consumer has given up on the empty
  queue and waits for the notification.
\<close>

definition sched_inv :: "consumer_pc \<Rightarrow> trigger_pc \<Rightarrow> fobjects \<Rightarrow> bool" where
  "sched_inv cp tp z \<longleftrightarrow>
     (cp = Co_receive \<or> cp = Co_take \<longrightarrow> fwaits z Consumer = Not_blocked) \<and>
     (cp = Co_received \<longrightarrow> (\<exists>w. fwaits z Consumer = On_queue w \<and> w \<le> ftick z + 1)) \<and>
     (cp = Co_taken \<longrightarrow> fwaits z Consumer = On_notify) \<and>
     (tp \<noteq> Tr_delay \<longrightarrow> cp \<noteq> Co_receive) \<and>
     (tp = Tr_mutex_take \<and> cp = Co_received \<longrightarrow>
        (\<exists>wt wc. fwaits z Trigger = Until wt \<and> fwaits z Consumer = On_queue wc \<and> wc \<le> wt)) \<and>
     (tp \<noteq> Tr_delay \<and> tp \<noteq> Tr_mutex_take \<longrightarrow> \<not> co_early cp)"

text \<open>The one event on its way from the interrupt to the consumer.\<close>

definition msg_inv :: "consumer_pc \<Rightarrow> trigger_pc \<Rightarrow> u32 \<Rightarrow> fobjects \<Rightarrow> fcall list \<Rightarrow> bool \<Rightarrow> bool" where
  "msg_inv cp tp ev z tr quiet \<longleftrightarrow>
     (\<not> tr_armed tp \<longrightarrow> quiet \<and> tr = []) \<and> (tr \<noteq> [] \<longrightarrow> quiet) \<and>
     (tr = [] \<and> fqueue z = [] \<and> fnotified z = 0 \<and> (co_early cp \<or> cp = Co_taken) \<or>
      tr = [Queue_send DEMO_EVENT, Notify_give] \<and> fqueue z = [DEMO_EVENT] \<and> fnotified z = 1 \<and> cp = Co_taken \<or>
      tr = [Queue_send DEMO_EVENT, Notify_give, Notify_take 1] \<and> fqueue z = [DEMO_EVENT] \<and> fnotified z = 0 \<and>
        (cp = Co_wake \<or> cp = Co_receive_now) \<or>
      tr = [Queue_send DEMO_EVENT, Notify_give, Notify_take 1, Queue_receive DEMO_EVENT] \<and> fqueue z = [] \<and> fnotified z = 0 \<and>
        \<not> co_early cp \<and> cp \<notin> {Co_taken, Co_wake, Co_receive_now, Co_failed} \<and> (cp = Co_event \<longrightarrow> ev = DEMO_EVENT))"

definition mutex_inv :: "consumer_pc \<Rightarrow> trigger_pc \<Rightarrow> fobjects \<Rightarrow> bool" where
  "mutex_inv cp tp z \<longleftrightarrow>
     fmutex z = (if tp = Tr_mutex_give then Some Trigger else if cp = Co_mutex_give then Some Consumer else None)"

text \<open>A task past its \<open>mark_task_done\<close>; a task between the load and the store of it.\<close>

fun marked :: "'d fapp \<Rightarrow> ftask \<Rightarrow> bool" where
  "marked s Consumer \<longleftrightarrow> consumer_pc s \<in> {Co_while, Co_puts, Co_result, Co_delete, Co_done}"
| "marked s Trigger \<longleftrightarrow> trigger_pc s \<in> {Tr_delete, Tr_done}"
| "marked s Yield_a \<longleftrightarrow> yield_a_pc s \<in> {Yi_delete, Yi_done}"
| "marked s Yield_b \<longleftrightarrow> yield_b_pc s \<in> {Yi_delete, Yi_done}"

fun storing :: "'d fapp \<Rightarrow> ftask \<Rightarrow> bool" where
  "storing s Consumer \<longleftrightarrow> consumer_pc s = Co_store"
| "storing s Trigger \<longleftrightarrow> trigger_pc s = Tr_store"
| "storing s Yield_a \<longleftrightarrow> yield_a_pc s = Yi_store"
| "storing s Yield_b \<longleftrightarrow> yield_b_pc s = Yi_store"

text \<open>Every bit that is set stands for a task that is past its mark.\<close>

definition bits_ok :: "'d fapp \<Rightarrow> u32 \<Rightarrow> bool" where
  "bits_ok s v \<longleftrightarrow> (\<forall>t. v AND task_done_bit t \<noteq> 0 \<longrightarrow> marked s t)"

definition mark_inv :: "'d fapp \<Rightarrow> bool" where
  "mark_inv s \<longleftrightarrow> bits_ok s (task_done_bits s) \<and> (\<forall>t. storing s t \<longrightarrow> bits_ok s (loaded s t)) \<and>
     (consumer_pc s \<in> {Co_puts, Co_result, Co_delete, Co_done} \<longrightarrow> (\<forall>t. marked s t))"

definition result_inv :: "'d fapp \<Rightarrow> bool" where
  "result_inv s \<longleftrightarrow> \<not> halted s \<and> consumer_pc s \<noteq> Co_failed \<and> malloc_ok s = 1 \<and>
     freertos_result s = (if consumer_pc s \<in> {Co_delete, Co_done} then 1 else if trigger_pc s = Tr_failed then 0xdead0001 else 0)"

definition finv :: "ap_board fapp \<Rightarrow> bool" where
  "finv s \<longleftrightarrow> board_ok (dev s) \<and>
     sched_inv (consumer_pc s) (trigger_pc s) (fobjects_of (flog s)) \<and>
     msg_inv (consumer_pc s) (trigger_pc s) (consumer_event s) (fobjects_of (flog s)) (ftraffic (flog s)) (timer_quiet (dev s)) \<and>
     mutex_inv (consumer_pc s) (trigger_pc s) (fobjects_of (flog s)) \<and> mark_inv s \<and> result_inv s"

section \<open>The tasks keep it\<close>

lemma fcalls_sel [simp]:
  "dev (flog_call c s) = dev s" "consumer_pc (flog_call c s) = consumer_pc s" "trigger_pc (flog_call c s) = trigger_pc s"
  "consumer_event (flog_call c s) = consumer_event s" "flog (flog_call c s) = flog s @ [c]" "halted (flog_call c s) = halted s"
  "malloc_ok (flog_call c s) = malloc_ok s" "freertos_result (flog_call c s) = freertos_result s"
  "yield_a_pc (flog_call c s) = yield_a_pc s" "yield_b_pc (flog_call c s) = yield_b_pc s" "loaded (flog_call c s) = loaded s"
  "task_done_bits (flog_call c s) = task_done_bits s" "timeslice_armed (flog_call c s) = timeslice_armed s"
  "timing (flog_call c s) = timing s" "async_done (flog_call c s) = async_done s" "async_result (flog_call c s) = async_result s"
  by (simp_all add: flog_call_def)

lemma report_sel [simp]:
  "dev (report f s) = dev s" "consumer_pc (report f s) = consumer_pc s" "trigger_pc (report f s) = trigger_pc s"
  "consumer_event (report f s) = consumer_event s" "flog (report f s) = flog s" "halted (report f s) = halted s"
  "malloc_ok (report f s) = malloc_ok s" "freertos_result (report f s) = freertos_result s"
  "yield_a_pc (report f s) = yield_a_pc s" "yield_b_pc (report f s) = yield_b_pc s" "loaded (report f s) = loaded s"
  "task_done_bits (report f s) = task_done_bits s" "timeslice_armed (report f s) = timeslice_armed s"
  "async_done (report f s) = async_done s" "async_result (report f s) = async_result s"
  by (simp_all add: report_def)

lemma marked_eq:
  assumes "consumer_pc s' = consumer_pc s" "trigger_pc s' = trigger_pc s" "yield_a_pc s' = yield_a_pc s"
    "yield_b_pc s' = yield_b_pc s"
  shows "marked s' t = marked s t" "storing s' t = storing s t"
  by (cases t; simp add: assms)+

lemma msg_inv_quiet: "msg_inv cp tp ev z tr q \<Longrightarrow> (q \<longrightarrow> q') \<Longrightarrow> msg_inv cp tp ev z tr q'"
  unfolding msg_inv_def by blast

text \<open>Only these fields matter to the invariant.\<close>

lemma finv_same:
  assumes "finv s" "consumer_pc s' = consumer_pc s" "trigger_pc s' = trigger_pc s" "yield_a_pc s' = yield_a_pc s"
    "yield_b_pc s' = yield_b_pc s" "consumer_event s' = consumer_event s" "flog s' = flog s" "halted s' = halted s"
    "malloc_ok s' = malloc_ok s" "freertos_result s' = freertos_result s" "loaded s' = loaded s"
    "task_done_bits s' = task_done_bits s" "board_ok (dev s')" "timer_quiet (dev s) \<longrightarrow> timer_quiet (dev s')"
  shows "finv s'"
proof -
  note m = marked_eq [OF assms(2-5)]
  have k: "mark_inv s' = mark_inv s" by (simp only: mark_inv_def bits_ok_def m assms(2,11,12))
  have r: "result_inv s' = result_inv s" by (simp only: result_inv_def assms(2,3,8,9,10))
  have i: "sched_inv (consumer_pc s) (trigger_pc s) (fobjects_of (flog s))"
    "msg_inv (consumer_pc s) (trigger_pc s) (consumer_event s) (fobjects_of (flog s)) (ftraffic (flog s)) (timer_quiet (dev s))"
    "mutex_inv (consumer_pc s) (trigger_pc s) (fobjects_of (flog s))" "mark_inv s" "result_inv s"
    using assms(1) unfolding finv_def by simp_all
  show ?thesis unfolding finv_def k r assms(2,3,6,7)
    by (intro conjI assms(13) i msg_inv_quiet [OF i(2) assms(14)])
qed

lemma done_bits_apart: "task_done_bit t AND task_done_bit t' \<noteq> 0 \<longleftrightarrow> t = t'"
  by (cases t; cases t') simp_all

lemma bits_ok_store:
  "bits_ok s v \<Longrightarrow> \<forall>t'. marked s t' \<longrightarrow> marked s' t' \<Longrightarrow> marked s' t \<Longrightarrow> bits_ok s' (v OR task_done_bit t)"
  unfolding bits_ok_def
  by (metis bit.conj_disj_distrib2 done_bits_apart or.left_neutral)

lemma bits_ok_mono: "bits_ok s v \<Longrightarrow> \<forall>t'. marked s t' \<longrightarrow> marked s' t' \<Longrightarrow> bits_ok s' v"
  unfolding bits_ok_def by blast

lemma bits_all: "bits_ok s 0xf \<Longrightarrow> marked s t"
  unfolding bits_ok_def by (drule spec [of _ t]) (cases t; simp)

text \<open>A step that stores no mark, and one that does.\<close>

lemma all_ftask: "(\<forall>t. P t) \<longleftrightarrow> P Consumer \<and> P Trigger \<and> P Yield_a \<and> P Yield_b"
  by (metis ftask.exhaust)

lemma mark_inv_step:
  assumes inv: "mark_inv s" and mono: "\<forall>t. marked s t \<longrightarrow> marked s' t" and same: "task_done_bits s' = task_done_bits s"
    and ld: "\<forall>t. storing s' t \<longrightarrow> loaded s' t = task_done_bits s \<or> storing s t \<and> loaded s' t = loaded s t"
    and fin: "consumer_pc s' \<in> {Co_puts, Co_result, Co_delete, Co_done} \<longrightarrow>
      consumer_pc s \<in> {Co_puts, Co_result, Co_delete, Co_done} \<or> task_done_bits s = 0xf"
  shows "mark_inv s'"
proof -
  have b: "bits_ok s (task_done_bits s)" and l: "storing s t \<Longrightarrow> bits_ok s (loaded s t)" for t
    using inv unfolding mark_inv_def by blast+
  have "bits_ok s' (loaded s' t)" if "storing s' t" for t
  proof -
    have "bits_ok s (loaded s' t)" using ld [rule_format, OF that] b l [of t] by presburger
    then show ?thesis using mono by (rule bits_ok_mono)
  qed
  moreover have "bits_ok s' (task_done_bits s')" unfolding same using b mono by (rule bits_ok_mono)
  moreover have "\<forall>t. marked s' t" if c: "consumer_pc s' \<in> {Co_puts, Co_result, Co_delete, Co_done}"
  proof -
    have "\<forall>t. marked s t"
    proof (cases "task_done_bits s = 0xf")
      case True
      then have "bits_ok s 0xf" using b by simp
      then show ?thesis using bits_all by blast
    next
      case False
      then have "consumer_pc s \<in> {Co_puts, Co_result, Co_delete, Co_done}" using fin c by blast
      then show ?thesis using inv unfolding mark_inv_def by blast
    qed
    then show ?thesis using mono by blast
  qed
  ultimately show ?thesis unfolding mark_inv_def by blast
qed

lemma mark_inv_store:
  assumes inv: "mark_inv s" and st: "storing s t" and mono: "\<forall>t'. marked s t' \<longrightarrow> marked s' t'" and m: "marked s' t"
    and bits: "task_done_bits s' = loaded s t OR task_done_bit t" and ld: "loaded s' = loaded s"
    and less: "\<forall>t'. storing s' t' \<longrightarrow> storing s t'"
    and fin: "consumer_pc s' \<in> {Co_puts, Co_result, Co_delete, Co_done} \<longrightarrow>
      consumer_pc s \<in> {Co_puts, Co_result, Co_delete, Co_done}"
  shows "mark_inv s'"
proof -
  have l: "storing s t \<Longrightarrow> bits_ok s (loaded s t)" for t using inv unfolding mark_inv_def by blast
  have "bits_ok s' (task_done_bits s')" unfolding bits using l [OF st] mono m by (rule bits_ok_store)
  moreover have "bits_ok s' (loaded s' t')" if "storing s' t'" for t'
    unfolding ld using l [OF less [rule_format, OF that]] mono by (rule bits_ok_mono)
  moreover have "consumer_pc s' \<in> {Co_puts, Co_result, Co_delete, Co_done} \<longrightarrow> (\<forall>t. marked s' t)"
    using inv fin mono unfolding mark_inv_def by blast
  ultimately show ?thesis unfolding mark_inv_def by blast
qed

lemmas mark_defs = all_ftask mark_task_load_def mark_task_store_def consumer_assert_def trigger_assert_def vAssertCalled_demo_def

lemma consumer_marks:
  assumes "mark_inv s"
  shows "mark_inv (consumer_task_entry K s)"
proof (cases "consumer_pc s = Co_store")
  case True
  then show ?thesis
    by (intro mark_inv_store [OF assms, of Consumer]) (simp_all add: consumer_task_entry_def mark_defs)
next
  case False
  then show ?thesis
    by (intro mark_inv_step [OF assms]; cases "consumer_pc s")
      (simp_all add: consumer_task_entry_def mark_defs Let_def split: prod.split)
qed

lemma yield_marks:
  assumes "mark_inv s"
  shows "mark_inv (yield_a_task_entry s)" "mark_inv (yield_b_task_entry s)"
proof -
  show "mark_inv (yield_a_task_entry s)"
  proof (cases "yield_a_pc s = Yi_store")
    case True
    then show ?thesis
      by (intro mark_inv_store [OF assms, of Yield_a]) (simp_all add: yield_a_task_entry_def mark_defs)
  next
    case False
    then show ?thesis
      by (intro mark_inv_step [OF assms]; cases "yield_a_pc s") (simp_all add: yield_a_task_entry_def mark_defs)
  qed
  show "mark_inv (yield_b_task_entry s)"
  proof (cases "yield_b_pc s = Yi_store")
    case True
    then show ?thesis
      by (intro mark_inv_store [OF assms, of Yield_b]) (simp_all add: yield_b_task_entry_def mark_defs)
  next
    case False
    then show ?thesis
      by (intro mark_inv_step [OF assms]; cases "yield_b_pc s") (simp_all add: yield_b_task_entry_def mark_defs)
  qed
qed

lemma fkernel_okD:
  assumes "fkernel_ok K"
  shows "x_current K log = Some t \<Longrightarrow> fready (fobjects_of log) t"
    "x_current K log = Some t \<Longrightarrow> fready (fobjects_of log) t' \<Longrightarrow> fprio t' \<le> fprio t"
    "fqueue (fobjects_of log) = [] \<Longrightarrow> fst (x_queue_receive K log) = errQUEUE_EMPTY"
    "fqueue (fobjects_of log) = v # vs \<Longrightarrow> x_queue_receive K log = (pdPASS, v)"
    "fqueue (fobjects_of log) = [] \<Longrightarrow> x_queue_send_from_isr K log v = pdPASS"
    "x_notify_take K log = fnotified (fobjects_of log)"
    "fmutex (fobjects_of log) = None \<Longrightarrow> x_sem_take K log t = pdPASS"
    "fmutex (fobjects_of log) = Some t \<Longrightarrow> x_sem_give K log t = pdPASS"
  using assms unfolding fkernel_ok_def by blast+

lemmas finv_defs = sched_inv_def msg_inv_def mutex_inv_def result_inv_def co_early_def tr_armed_def

lemma consumer_keeps:
  assumes "finv s" "fkernel_ok K" "fready (fobjects_of (flog s)) Consumer"
  shows "finv (consumer_task_entry K s)"
proof -
  note k = fkernel_okD [OF assms(2), of "flog s"]
  obtain r v where rv: "x_queue_receive K (flog s) = (r, v)" by fastforce
  note u = consumer_task_entry_def mark_defs Let_def rv finv_defs fready_def
  have "mark_inv (consumer_task_entry K s)" using assms(1) by (intro consumer_marks) (simp add: finv_def)
  moreover have "board_ok (dev (consumer_task_entry K s)) \<and> timer_quiet (dev (consumer_task_entry K s)) = timer_quiet (dev s)"
    using assms(1) by (cases "consumer_pc s") (simp_all add: u finv_def)
  moreover have "trigger_pc (consumer_task_entry K s) = trigger_pc s" by (cases "consumer_pc s") (simp_all add: u)
  ultimately show ?thesis using assms(1,3) k
    by (cases "consumer_pc s") (simp_all add: finv_def u, auto)
qed

text \<open>What the parts of the invariant do not depend on.\<close>

lemma inv_yield_waits [simp]:
  "sched_inv cp tp (fwaits_set Yield_a w z) = sched_inv cp tp z" "sched_inv cp tp (fwaits_set Yield_b w z) = sched_inv cp tp z"
  "msg_inv cp tp ev (fwaits_set t w z) tr q = msg_inv cp tp ev z tr q" "mutex_inv cp tp (fwaits_set t w z) = mutex_inv cp tp z"
  by (simp_all add: sched_inv_def msg_inv_def mutex_inv_def)

lemma yields_keep:
  assumes "finv s"
  shows "finv (yield_a_task_entry s)" "finv (yield_b_task_entry s)"
proof -
  have "mark_inv s" using assms by (simp add: finv_def)
  note m = yield_marks [OF this]
  show "finv (yield_a_task_entry s)" using assms m(1)
    by (cases "yield_a_pc s") (simp_all add: finv_def yield_a_task_entry_def mark_task_load_def mark_task_store_def result_inv_def)
  show "finv (yield_b_task_entry s)" using assms m(2)
    by (cases "yield_b_pc s") (simp_all add: finv_def yield_b_task_entry_def mark_task_load_def mark_task_store_def result_inv_def)
qed

text \<open>The trigger task: its calls of the driver change nothing the invariant speaks of.\<close>

lemma spi_only_finv:
  assumes "spi_only s s'" "finv s"
  shows "finv s'"
proof -
  have "board_ok (dev s')" using assms by (simp add: finv_def board_ok_def spi_only_def)
  moreover have "timer_quiet (dev s) \<longrightarrow> timer_quiet (dev s')"
    using assms(1) by (auto simp: timer_quiet_def spi_only_def timer_line_def)
  ultimately show ?thesis by (intro finv_same [OF assms(2)] spi_only_vars [OF assms(1)])
qed

definition tr_middle :: "trigger_pc \<Rightarrow> bool" where
  "tr_middle p \<longleftrightarrow> p \<notin> {Tr_delay, Tr_mutex_take, Tr_mutex_give, Tr_failed} \<and> \<not> tr_armed p"

lemma inv_trigger_pc:
  "sched_inv cp tp z \<Longrightarrow> tp \<noteq> Tr_delay \<Longrightarrow> tp \<noteq> Tr_mutex_take \<Longrightarrow> tp' \<noteq> Tr_mutex_take \<Longrightarrow> sched_inv cp tp' z"
  "msg_inv cp tp ev z tr q \<Longrightarrow> (tr_armed tp \<longrightarrow> tr_armed tp') \<Longrightarrow> msg_inv cp tp' ev z tr q"
  "mutex_inv cp tp z \<Longrightarrow> tp \<noteq> Tr_mutex_give \<Longrightarrow> tp' \<noteq> Tr_mutex_give \<Longrightarrow> mutex_inv cp tp' z"
  unfolding sched_inv_def msg_inv_def mutex_inv_def by (blast, blast, simp)

text \<open>Before the timer runs no message has been sent, so the consumer has not published a result.\<close>

lemma unarmed_consumer:
  "msg_inv cp tp ev z tr q \<Longrightarrow> \<not> tr_armed tp \<Longrightarrow> cp = Co_receive \<or> cp = Co_received \<or> cp = Co_take \<or> cp = Co_taken"
  unfolding msg_inv_def co_early_def by blast

lemma finv_trigger_pc:
  assumes "finv s" "mark_inv s'" "result_inv s'" "consumer_pc s' = consumer_pc s" "consumer_event s' = consumer_event s"
    "flog s' = flog s" "dev s' = dev s" "trigger_pc s \<noteq> Tr_delay" "trigger_pc s \<noteq> Tr_mutex_take" "trigger_pc s \<noteq> Tr_mutex_give"
    "trigger_pc s' \<noteq> Tr_mutex_take" "trigger_pc s' \<noteq> Tr_mutex_give" "\<not> tr_armed (trigger_pc s)"
  shows "finv s'"
proof -
  have i: "sched_inv (consumer_pc s) (trigger_pc s) (fobjects_of (flog s))"
    "msg_inv (consumer_pc s) (trigger_pc s) (consumer_event s) (fobjects_of (flog s)) (ftraffic (flog s)) (timer_quiet (dev s))"
    "mutex_inv (consumer_pc s) (trigger_pc s) (fobjects_of (flog s))" "board_ok (dev s)"
    using assms(1) unfolding finv_def by simp_all
  have "tr_armed (trigger_pc s) \<longrightarrow> tr_armed (trigger_pc s')" using assms(13) by simp
  from inv_trigger_pc(1) [OF i(1) assms(8,9,11)] inv_trigger_pc(2) [OF i(2) this] inv_trigger_pc(3) [OF i(3) assms(10,12)]
  show ?thesis unfolding finv_def assms(4-7) using i(4) assms(2,3) by (intro conjI)
qed

lemma trigger_moves:
  assumes "finv s" "tr_middle (trigger_pc s)" "tr_middle pc \<or> pc = Tr_load"
  shows "finv (s\<lparr>trigger_pc := pc\<rparr>)"
proof -
  have i: "mark_inv s" "result_inv s" using assms(1) by (simp_all add: finv_def)
  have p: "trigger_pc s \<noteq> Tr_delay" "trigger_pc s \<noteq> Tr_mutex_take" "trigger_pc s \<noteq> Tr_mutex_give" "trigger_pc s \<noteq> Tr_failed"
    "\<not> tr_armed (trigger_pc s)" "pc \<noteq> Tr_mutex_take" "pc \<noteq> Tr_mutex_give" "pc \<noteq> Tr_failed" "pc \<noteq> Tr_store"
    using assms(2,3) by (auto simp: tr_middle_def tr_armed_def)
  have "mark_inv (s\<lparr>trigger_pc := pc\<rparr>)"
    using p by (intro mark_inv_step [OF i(1)]) (simp_all add: all_ftask tr_armed_def)
  moreover have "result_inv (s\<lparr>trigger_pc := pc\<rparr>)" using i(2) p(4,8) by (simp add: result_inv_def)
  ultimately show ?thesis by (rule finv_trigger_pc [OF assms(1)]) (use p in simp_all)
qed

lemma trigger_fails:
  assumes "finv s" "\<not> tr_armed (trigger_pc s)" "trigger_pc s \<notin> {Tr_delay, Tr_mutex_take, Tr_mutex_give}"
  shows "finv ((vAssertCalled_demo s)\<lparr>trigger_pc := Tr_failed\<rparr>)"
proof -
  have i: "mark_inv s" "result_inv s"
    and m: "msg_inv (consumer_pc s) (trigger_pc s) (consumer_event s) (fobjects_of (flog s)) (ftraffic (flog s)) (timer_quiet (dev s))"
    using assms(1) unfolding finv_def by simp_all
  let ?s' = "(vAssertCalled_demo s)\<lparr>trigger_pc := Tr_failed\<rparr>"
  have "mark_inv ?s'"
    using assms(2) by (intro mark_inv_step [OF i(1)]) (simp_all add: all_ftask tr_armed_def vAssertCalled_demo_def)
  moreover have "result_inv ?s'" using i(2) unarmed_consumer [OF m assms(2)] by (auto simp: result_inv_def vAssertCalled_demo_def)
  ultimately show ?thesis by (rule finv_trigger_pc [OF assms(1)]) (use assms(2,3) in \<open>simp_all add: vAssertCalled_demo_def\<close>)
qed

lemma trigger_asserts:
  assumes "finv s" "tr_middle (trigger_pc s)" "tr_middle pc"
  shows "finv (trigger_assert ok pc s)"
  using trigger_moves [OF assms(1,2)] trigger_fails [OF assms(1)] assms(2,3)
  by (cases ok) (simp_all add: trigger_assert_def tr_middle_def)

lemma trigger_marks:
  assumes "mark_inv s" "trigger_pc s \<in> {Tr_delay, Tr_mutex_take, Tr_mutex_give} \<or> tr_armed (trigger_pc s)"
  shows "mark_inv (trigger_task_entry B K L s)"
proof (cases "trigger_pc s = Tr_store")
  case True
  then show ?thesis
    by (intro mark_inv_store [OF assms(1), of Trigger]) (simp_all add: trigger_task_entry_def mark_defs)
next
  case False
  then show ?thesis using assms(2) unfolding tr_armed_def
    by (intro mark_inv_step [OF assms(1)]; elim insertE emptyE disjE) (simp_all add: trigger_task_entry_def mark_defs)
qed

lemma sched_trigger:
  "sched_inv cp Tr_delay z \<Longrightarrow> \<not> fready z Consumer \<Longrightarrow> sched_inv cp Tr_mutex_take (fwaits_set Trigger (Until (ftick z + 1)) z)"
  "sched_inv cp Tr_mutex_take z \<Longrightarrow> fready z Trigger \<Longrightarrow> \<not> fready z Consumer \<Longrightarrow> \<not> co_early cp"
  "sched_inv cp tp z \<Longrightarrow> tp \<noteq> Tr_mutex_take \<Longrightarrow> sched_inv cp tp (fwaits_set Trigger w z)"
  "\<not> co_early cp \<Longrightarrow> sched_inv cp tp z \<Longrightarrow> sched_inv cp tp' (z\<lparr>fmutex := m\<rparr>)"
  by (auto simp: sched_inv_def fready_def co_early_def)

lemma msg_inv_mutex [simp]: "msg_inv cp tp ev (z\<lparr>fmutex := m\<rparr>) tr q = msg_inv cp tp ev z tr q"
  by (simp add: msg_inv_def)

lemma trigger_keeps_begin:
  assumes "finv s" "fkernel_ok K" "fready (fobjects_of (flog s)) Trigger" "\<not> fready (fobjects_of (flog s)) Consumer"
    "trigger_pc s \<in> {Tr_delay, Tr_mutex_take, Tr_mutex_give}"
  shows "finv (trigger_task_entry board_bus K L s)"
proof -
  let ?z = "fobjects_of (flog s)" and ?s' = "trigger_task_entry board_bus K L s"
  note k = fkernel_okD(7,8) [OF assms(2), of "flog s"]
  have mk: "mark_inv ?s'" by (rule trigger_marks) (use assms(1,5) in \<open>simp_all add: finv_def\<close>)
  have i: "sched_inv (consumer_pc s) (trigger_pc s) ?z"
    "msg_inv (consumer_pc s) (trigger_pc s) (consumer_event s) ?z (ftraffic (flog s)) (timer_quiet (dev s))"
    "mutex_inv (consumer_pc s) (trigger_pc s) ?z" "board_ok (dev s)" "result_inv s"
    using assms(1) unfolding finv_def by simp_all
  have na: "\<not> tr_armed (trigger_pc s)" using assms(5) by (auto simp: tr_armed_def)
  have cm: "consumer_pc s \<noteq> Co_mutex_give" using unarmed_consumer [OF i(2) na] by auto
  have m: "msg_inv (consumer_pc s) tp' (consumer_event s) ?z (ftraffic (flog s)) (timer_quiet (dev s))" for tp'
    using inv_trigger_pc(2) [OF i(2)] na by blast
  show ?thesis
  proof (cases "trigger_pc s")
    case Tr_delay
    have "sched_inv (consumer_pc s) Tr_mutex_take (fwaits_set Trigger (Until (ftick ?z + 1)) ?z)"
      using sched_trigger(1) i(1) assms(4) Tr_delay by simp
    moreover have "mutex_inv (consumer_pc s) Tr_mutex_take ?z" using i(3) Tr_delay by (simp add: mutex_inv_def)
    ultimately show ?thesis using mk i(4,5) m Tr_delay
      by (simp add: finv_def trigger_task_entry_def result_inv_def)
  next
    case Tr_mutex_take
    have e: "\<not> co_early (consumer_pc s)" using sched_trigger(2) i(1) assms(3,4) Tr_mutex_take by simp
    have "x_sem_take K (flog s) Trigger = pdPASS" using k(1) i(3) cm Tr_mutex_take by (simp add: mutex_inv_def)
    moreover have "mutex_inv (consumer_pc s) Tr_mutex_give (?z\<lparr>fmutex := Some Trigger\<rparr>)" by (simp add: mutex_inv_def)
    ultimately show ?thesis using mk i(4,5) m Tr_mutex_take sched_trigger(4) [OF e i(1)]
      by (simp add: finv_def trigger_task_entry_def result_inv_def trigger_assert_def)
  next
    case Tr_mutex_give
    have e: "\<not> co_early (consumer_pc s)" using i(1) Tr_mutex_give by (simp add: sched_inv_def)
    have "x_sem_give K (flog s) Trigger = pdPASS" using k(2) i(3) Tr_mutex_give by (simp add: mutex_inv_def)
    moreover have "mutex_inv (consumer_pc s) Tr_init (?z\<lparr>fmutex := None\<rparr>)" using cm by (simp add: mutex_inv_def)
    ultimately show ?thesis using mk i(4,5) m Tr_mutex_give sched_trigger(4) [OF e i(1)]
      by (simp add: finv_def trigger_task_entry_def result_inv_def trigger_assert_def)
  qed (use assms(5) in simp_all)
qed

text \<open>And its end, once the timer runs.\<close>

lemma trigger_keeps_end:
  assumes "finv s" "tr_armed (trigger_pc s)"
  shows "finv (trigger_task_entry board_bus K L s)"
proof -
  let ?z = "fobjects_of (flog s)" and ?s' = "trigger_task_entry board_bus K L s"
  have mk: "mark_inv ?s'" using assms by (intro trigger_marks) (simp_all add: finv_def)
  have i: "sched_inv (consumer_pc s) (trigger_pc s) ?z"
    "msg_inv (consumer_pc s) (trigger_pc s) (consumer_event s) ?z (ftraffic (flog s)) (timer_quiet (dev s))"
    "mutex_inv (consumer_pc s) (trigger_pc s) ?z" "board_ok (dev s)" "result_inv s"
    using assms(1) unfolding finv_def by simp_all
  have j: "sched_inv (consumer_pc s) tp' ?z" "mutex_inv (consumer_pc s) tp' ?z"
    "msg_inv (consumer_pc s) tp' (consumer_event s) ?z (ftraffic (flog s)) (timer_quiet (dev s))" if "tr_armed tp'" for tp'
    using inv_trigger_pc(1) [OF i(1), of tp'] inv_trigger_pc(2) [OF i(2), of tp'] inv_trigger_pc(3) [OF i(3), of tp'] assms(2) that
    by (auto simp: tr_armed_def)
  have "sched_inv (consumer_pc s) Tr_done (fwaits_set Trigger Deleted ?z)"
    by (rule sched_trigger(3) [OF j(1)]) (simp_all add: tr_armed_def)
  with mk i(4,5) j assms(2) show ?thesis unfolding tr_armed_def
    by (elim disjE)
      (simp_all add: finv_def trigger_task_entry_def result_inv_def mark_task_load_def mark_task_store_def)
qed

lemma trigger_keeps_middle:
  assumes "finv s" "tr_middle (trigger_pc s)"
  shows "finv (trigger_task_entry board_bus K L s)"
proof -
  let ?tx = "sym_spi_tx L" and ?s' = "trigger_task_entry board_bus K L s"
  note d = trigger_task_entry_def split_beta tr_middle_def tr_armed_def
  have call: "finv (trigger_assert (r = 0) pc s')" if "spi_only s s'" "tr_middle pc" for r :: int and pc s'
    by (rule trigger_asserts [OF spi_only_finv [OF that(1) assms(1)] _ that(2)])
      (simp add: spi_only_vars(3) [OF that(1)] assms(2))
  have same: "finv (s'\<lparr>trigger_pc := pc\<rparr>)" if "finv s'" "trigger_pc s' = trigger_pc s" "tr_middle pc" for pc s'
    using trigger_moves [OF that(1)] that(2,3) assms(2) by simp
  have b: "board_ok (dev s)" using assms(1) by (simp add: finv_def)
  show ?thesis
  proof (cases "trigger_pc s")
    case Tr_init
    then show ?thesis using call [OF spi_only_init [of s 2 0]] by (simp add: d)
  next
    case Tr_transfer
    then show ?thesis using call [OF spi_only_transfer [of s 0 ?tx "sym_spi_rx L" 2 10000]] by (simp add: d)
  next
    case Tr_check
    then show ?thesis using trigger_asserts [OF assms] by (simp add: d)
  next
    case Tr_clear
    have "finv (s\<lparr>async_done := 0, async_result := 0xffffffff, ram := (ram s)(sym_async_rx L := 0)\<rparr>)"
      by (rule finv_same [OF assms(1)]) (simp_all add: b)
    from same [OF this] Tr_clear show ?thesis by (simp add: d)
  next
    case Tr_async
    obtain r s1 where r: "freertos_spi_start_async board_bus 0 ?tx (sym_async_rx L) 1 (Some ()) 0 s = (r, s1)" by fastforce
    have so: "spi_only s s1" using spi_only_start_async [of s 0 ?tx "sym_async_rx L" 1 "Some ()" 0] r by simp
    have f: "finv s1" by (rule spi_only_finv [OF so assms(1)])
    have "finv (s1\<lparr>wait_cycles := 100000\<rparr>)" by (rule finv_same [OF f]) (use f in \<open>simp_all add: finv_def\<close>)
    from trigger_asserts [OF this, of Tr_wait "r = 0"] Tr_async r spi_only_vars(3) [OF so] show ?thesis by (simp add: d)
  next
    case Tr_wait
    have "finv (s\<lparr>wait_cycles := wait_cycles s - 1\<rparr>)" by (rule finv_same [OF assms(1)]) (simp_all add: b)
    with Tr_wait same [OF assms(1) refl] show ?thesis by (simp add: d)
  next
    case Tr_verdict
    then show ?thesis using trigger_asserts [OF assms] by (simp add: d)
  next
    case Tr_arm
    have "finv (report (timer_arm_mcycle_update (\<lambda>_. mcycle s)) s)" by (rule finv_same [OF assms(1)]) (simp_all add: b)
    from same [OF this] Tr_arm show ?thesis by (simp add: d)
  next
    case Tr_start
    have f: "finv (s\<lparr>trigger_pc := Tr_load\<rparr>)" by (rule trigger_moves [OF assms]) simp
    have 0: "ftraffic (flog s) = []" using assms by (auto simp: finv_def msg_inv_def tr_middle_def)
    obtain d tr where s': "?s' = s\<lparr>dev := d, trace := tr, trigger_pc := Tr_load\<rparr>"
      using Tr_start by (simp add: trigger_task_entry_def freertos_timer_start_def mach_simps)
    have "board_ok (dev ?s')" using b Tr_start
      by (simp add: trigger_task_entry_def board_ok_def freertos_timer_start_def mach_simps board_bus_sel board_wr_def)
    moreover have "mark_inv ?s' = mark_inv (s\<lparr>trigger_pc := Tr_load\<rparr>)"
      unfolding s' by (simp add: mark_inv_def bits_ok_def all_ftask)
    moreover have "msg_inv (consumer_pc s) Tr_load (consumer_event s) (fobjects_of (flog s)) [] (timer_quiet d)"
      using f 0 by (simp add: finv_def msg_inv_def tr_armed_def)
    ultimately show ?thesis using f 0 unfolding s' by (simp add: finv_def result_inv_def)
  qed (use assms(2) in \<open>simp_all add: tr_middle_def tr_armed_def\<close>)
qed

lemma trigger_keeps:
  assumes "finv s" "fkernel_ok K" "fready (fobjects_of (flog s)) Trigger" "\<not> fready (fobjects_of (flog s)) Consumer"
  shows "finv (trigger_task_entry board_bus K L s)"
proof (cases "trigger_pc s = Tr_failed")
  case True
  then show ?thesis using assms(1) by (simp add: trigger_task_entry_def)
next
  case False
  then show ?thesis using trigger_keeps_begin [OF assms] trigger_keeps_middle [OF assms(1)] trigger_keeps_end [OF assms(1)]
    unfolding tr_middle_def by blast
qed

section \<open>Ticks, time and interrupts keep it\<close>

lemma tick_keeps:
  assumes "finv s"
  shows "finv (vApplicationTickHook (flog_call Tick s))"
proof -
  let ?z = "fobjects_of (flog s)" and ?s1 = "flog_call Tick s"
  have "sched_inv cp tp (?z\<lparr>ftick := ftick ?z + 1\<rparr>)" if "sched_inv cp tp ?z" for cp tp
    using that by (auto simp: sched_inv_def)
  moreover have "msg_inv cp tp ev (?z\<lparr>ftick := ftick ?z + 1\<rparr>) tr q = msg_inv cp tp ev ?z tr q" for cp tp ev tr q
    by (simp add: msg_inv_def)
  moreover have "mark_inv ?s1 = mark_inv s" by (simp add: mark_inv_def bits_ok_def all_ftask)
  ultimately have f: "finv ?s1" using assms by (simp add: finv_def mutex_inv_def result_inv_def)
  have "finv ((report g ?s1)\<lparr>timeslice_armed := 0\<rparr>)" for g
    by (rule finv_same [OF f]) (use f in \<open>simp_all add: finv_def\<close>)
  then show ?thesis using f by (simp add: vApplicationTickHook_def)
qed

lemma board_cycle_keeps: "board_ok b \<Longrightarrow> board_ok (board_cycle b)" "timer_quiet b \<Longrightarrow> timer_quiet (board_cycle b)"
  by (simp_all add: board_ok_def timer_quiet_def board_cycle_def board_latch_pending board_level_def timer_tick_def timer_line_def)

lemma board_clock_keeps: "board_ok b \<Longrightarrow> board_ok (board_clock n b)" "timer_quiet b \<Longrightarrow> timer_quiet (board_clock n b)"
  unfolding board_clock_def by (induction n) (simp_all add: board_cycle_keeps)

lemma cycles_keep:
  assumes "finv s"
  shows "finv (s\<lparr>dev := board_clock n (dev s), mcycle := v\<rparr>)"
  by (rule finv_same [OF assms]) (use assms in \<open>simp_all add: finv_def board_clock_keeps\<close>)

text \<open>The claim of the interrupt handler finds the timer or the SPI port.\<close>

lemma board_claimed:
  assumes "board_meip b" "board_ok b"
  obtains h b' where "board_rd 0xc200004 b = (of_nat h, b')" "h = 2 \<or> h = 3" "h \<in> bd_pending b" "bd_in_service b' = {h}"
    "bd_timer b' = bd_timer b" "bd_plic b' = bd_plic b"
    "2 \<in> bd_pending b' \<longrightarrow> h = 3 \<and> (2 \<in> bd_pending b \<or> timer_line (bd_timer b))"
proof -
  let ?h = "highest_id b"
  let ?b = "board_latch (b\<lparr>bd_pending := bd_pending b - {?h}, bd_in_service := insert ?h (bd_in_service b)\<rparr>)"
  have h: "?h \<noteq> 0" "plic_eligible b ?h" using assms(1) highest_id_eligible [of b] by (simp_all add: board_meip_def)
  then have c: "?h = 2 \<or> ?h = 3" "?h \<in> bd_pending b" using assms(2) by (auto simp: plic_eligible_def board_ok_def)
  have "board_rd 0xc200004 b = (of_nat ?h, ?b)" using h(1) by (simp add: board_rd_def board_claim_def Let_def)
  moreover have "2 \<in> bd_pending ?b \<longrightarrow> ?h = 3 \<and> (2 \<in> bd_pending b \<or> timer_line (bd_timer b))"
    using c(1) by (auto simp: board_latch_pending board_level_def)
  ultimately show ?thesis using that [of ?h ?b] c assms(2) by (simp add: board_ok_def)
qed

text \<open>What the handler does with either of them.\<close>

definition isr_entry :: "ap_board fapp \<Rightarrow> ap_board fapp" where
  "isr_entry s = report (plic_isr_entry_mcycle_update (\<lambda>_. mcycle s))
     (s\<lparr>csrs := (csrs s)(Mcause := ERISCV_MCU_MCAUSE_INTERRUPT OR ERISCV_MCU_MCAUSE_MEI)\<rparr>)"

lemma isr_eq:
  assumes "board_rd 0xc200004 (dev s) = (src, b')"
  shows "freertos_risc_v_application_interrupt_handler board_bus K
      (s\<lparr>csrs := (csrs s)(Mcause := ERISCV_MCU_MCAUSE_INTERRUPT OR ERISCV_MCU_MCAUSE_MEI)\<rparr>) =
    (let s = (isr_entry s)\<lparr>dev := b', trace := trace s @ [CsrRd Mcause 0x8000000b, Rd 0xc200004 src]\<rparr>
     in if src = 2 then
          let s = freertos_timer_stop board_bus s
          in if x_queue_send_from_isr K (flog s) DEMO_EVENT \<noteq> pdPASS then assert_or_halt False s
             else freertos_plic_complete board_bus src (flog_call Notify_give (flog_call (Queue_send DEMO_EVENT) s))
        else if src = 3 then freertos_plic_complete board_bus src (freertos_spi_irq_handler board_bus spi_async_callback_fn s)
        else assert_or_halt False s)"
  using assms
  by (simp add: freertos_risc_v_application_interrupt_handler_def isr_entry_def report_def mach_simps
      freertos_plic_claim_def board_bus_sel Let_def)

lemma isr_entry_sel [simp]:
  "dev (isr_entry s) = dev s" "consumer_pc (isr_entry s) = consumer_pc s" "trigger_pc (isr_entry s) = trigger_pc s"
  "consumer_event (isr_entry s) = consumer_event s" "flog (isr_entry s) = flog s" "halted (isr_entry s) = halted s"
  "malloc_ok (isr_entry s) = malloc_ok s" "freertos_result (isr_entry s) = freertos_result s"
  "yield_a_pc (isr_entry s) = yield_a_pc s" "yield_b_pc (isr_entry s) = yield_b_pc s" "loaded (isr_entry s) = loaded s"
  "task_done_bits (isr_entry s) = task_done_bits s"
  by (simp_all add: isr_entry_def)

lemma complete_board:
  assumes "bd_in_service b \<subseteq> {unat h}" "h = 2 \<or> h = 3" "p_enable (bd_plic b) \<subseteq> {2, 3}"
  shows "board_ok (board_wr 0xc200004 h b)"
    "t_ctrl (bd_timer b) = 0 \<Longrightarrow> \<not> t_expired (bd_timer b) \<Longrightarrow> 2 \<notin> bd_pending b \<Longrightarrow> timer_quiet (board_wr 0xc200004 h b)"
proof -
  have "bd_in_service b - {unat h} = {}" using assms(1) by blast
  then show "board_ok (board_wr 0xc200004 h b)"
    "t_ctrl (bd_timer b) = 0 \<Longrightarrow> \<not> t_expired (bd_timer b) \<Longrightarrow> 2 \<notin> bd_pending b \<Longrightarrow> timer_quiet (board_wr 0xc200004 h b)"
    using assms(2,3)
    by (auto simp: board_wr_def board_complete_def board_ok_def timer_quiet_def board_latch_pending board_level_def timer_line_def)
qed

lemma timer_idle_stopped: "t_ctrl t = 0 \<Longrightarrow> t_ctrl (timer_idle t) = 0 \<and> t_expired (timer_idle t) = t_expired t"
  by (simp add: timer_idle_def timer_stopped split: list.split)

lemma timer_stopped_board:
  fixes s :: "ap_board fapp"
  assumes "bd_in_service (dev s) = {2}" "2 \<notin> bd_pending (dev s)"
  shows "t_ctrl (bd_timer (dev (freertos_timer_stop board_bus s))) = 0" "\<not> t_expired (bd_timer (dev (freertos_timer_stop board_bus s)))"
    "2 \<notin> bd_pending (dev (freertos_timer_stop board_bus s))" "bd_in_service (dev (freertos_timer_stop board_bus s)) = {2}"
    "bd_plic (dev (freertos_timer_stop board_bus s)) = bd_plic (dev s)"
  using assms
  by (simp_all add: freertos_timer_stop_def mach_simps board_bus_sel board_wr_def board_latch_pending timer_wr_def Let_def
      timer_tick_def timer_idle_stopped)

lemma msg_inv_send:
  assumes "msg_inv cp tp ev z tr q" "\<not> q" "sched_inv cp tp z"
  shows "msg_inv cp tp ev (z\<lparr>fqueue := fqueue z @ [DEMO_EVENT], fnotified := fnotified z + 1\<rparr>) (tr @ [Queue_send DEMO_EVENT, Notify_give]) True"
    "fqueue z = []"
proof -
  have t: "tr = []" "tr_armed tp" "fqueue z = []" "fnotified z = 0" "co_early cp \<or> cp = Co_taken"
    using assms(1,2) unfolding msg_inv_def by blast+
  then have "\<not> co_early cp" using assms(3) unfolding sched_inv_def tr_armed_def by blast
  then show "msg_inv cp tp ev (z\<lparr>fqueue := fqueue z @ [DEMO_EVENT], fnotified := fnotified z + 1\<rparr>)
      (tr @ [Queue_send DEMO_EVENT, Notify_give]) True" "fqueue z = []"
    using t by (simp_all add: msg_inv_def)
qed

lemma isr_timer_keeps:
  assumes "finv s" "fkernel_ok K" "2 \<in> bd_pending (dev s)" "bd_in_service b' = {2}" "bd_plic b' = bd_plic (dev s)" "2 \<notin> bd_pending b'"
  shows "finv (let m = freertos_timer_stop board_bus ((isr_entry s)\<lparr>dev := b', trace := tr\<rparr>)
     in if x_queue_send_from_isr K (flog m) DEMO_EVENT \<noteq> pdPASS then assert_or_halt False m
        else freertos_plic_complete board_bus 2 (flog_call Notify_give (flog_call (Queue_send DEMO_EVENT) m)))"
proof -
  let ?z = "fobjects_of (flog s)"
  define m where "m = freertos_timer_stop board_bus ((isr_entry s)\<lparr>dev := b', trace := tr\<rparr>)"
  have i: "sched_inv (consumer_pc s) (trigger_pc s) ?z"
    "msg_inv (consumer_pc s) (trigger_pc s) (consumer_event s) ?z (ftraffic (flog s)) (timer_quiet (dev s))"
    "mutex_inv (consumer_pc s) (trigger_pc s) ?z" "board_ok (dev s)" "result_inv s" "mark_inv s"
    using assms(1) unfolding finv_def by simp_all
  have nq: "\<not> timer_quiet (dev s)" using assms(3) by (simp add: timer_quiet_def)
  note send = msg_inv_send [OF i(2) nq i(1)]
  have sel: "consumer_pc m = consumer_pc s" "trigger_pc m = trigger_pc s" "consumer_event m = consumer_event s" "flog m = flog s"
    "halted m = halted s" "malloc_ok m = malloc_ok s" "freertos_result m = freertos_result s" "yield_a_pc m = yield_a_pc s"
    "yield_b_pc m = yield_b_pc s" "loaded m = loaded s" "task_done_bits m = task_done_bits s"
    unfolding m_def by (simp_all add: freertos_timer_stop_def mach_simps)
  have d: "t_ctrl (bd_timer (dev m)) = 0" "\<not> t_expired (bd_timer (dev m))" "2 \<notin> bd_pending (dev m)" "bd_in_service (dev m) = {2}"
    "bd_plic (dev m) = bd_plic (dev s)"
    unfolding m_def using timer_stopped_board [of "(isr_entry s)\<lparr>dev := b', trace := tr\<rparr>"] assms(4-6) by simp_all
  let ?b = "board_wr 0xc200004 2 (dev m)"
  have q: "board_ok ?b" "timer_quiet ?b"
    using complete_board [of "dev m" 2] d i(4) by (simp_all add: board_ok_def)
  have ok: "x_queue_send_from_isr K (flog s) DEMO_EVENT = pdPASS" by (rule fkernel_okD(5) [OF assms(2) send(2)])
  obtain tr' where f: "freertos_plic_complete board_bus 2 (flog_call Notify_give (flog_call (Queue_send DEMO_EVENT) m)) =
      (flog_call Notify_give (flog_call (Queue_send DEMO_EVENT) m))\<lparr>dev := ?b, trace := tr'\<rparr>" (is "?f = ?s'")
    by (simp add: freertos_plic_complete_def mach_simps board_bus_sel)
  have "mark_inv ?s' = mark_inv s" by (simp add: mark_inv_def bits_ok_def all_ftask sel)
  moreover have "sched_inv (consumer_pc s) (trigger_pc s) (?z\<lparr>fqueue := fqueue ?z @ [DEMO_EVENT], fnotified := fnotified ?z + 1\<rparr>)"
    using i(1) by (simp add: sched_inv_def)
  ultimately have "finv ?s'" using i(3,5,6) send(1) q
    by (simp add: finv_def sel mutex_inv_def result_inv_def)
  then show ?thesis unfolding m_def [symmetric] Let_def using ok by (simp add: sel f)
qed

lemma isr_spi_keeps:
  assumes "finv s" "bd_in_service b' = {3}" "bd_plic b' = bd_plic (dev s)" "bd_timer b' = bd_timer (dev s)"
    "2 \<in> bd_pending b' \<longrightarrow> 2 \<in> bd_pending (dev s) \<or> timer_line (bd_timer (dev s))"
  shows "finv (freertos_plic_complete board_bus 3
    (freertos_spi_irq_handler board_bus spi_async_callback_fn ((isr_entry s)\<lparr>dev := b', trace := tr\<rparr>)))"
proof -
  let ?s1 = "(isr_entry s)\<lparr>dev := b', trace := tr\<rparr>"
  define m where "m = freertos_spi_irq_handler board_bus spi_async_callback_fn ?s1"
  have "\<exists>s2. spi_only ?s1 s2 \<and> (m = s2 \<or> m = spi_async_callback_fn () SPI_OK 0 s2)"
    using spi_only_irq_handler [of ?s1] unfolding m_def by blast
  then obtain s2 where s2: "spi_only ?s1 s2" "m = s2 \<or> m = spi_async_callback_fn () SPI_OK 0 s2" by blast
  have sel: "consumer_pc m = consumer_pc s" "trigger_pc m = trigger_pc s" "consumer_event m = consumer_event s" "flog m = flog s"
    "halted m = halted s" "malloc_ok m = malloc_ok s" "freertos_result m = freertos_result s" "yield_a_pc m = yield_a_pc s"
    "yield_b_pc m = yield_b_pc s" "loaded m = loaded s" "task_done_bits m = task_done_bits s" "dev m = dev s2"
    using s2(2) spi_only_vars [OF s2(1)] by (auto simp: spi_async_callback_fn_def)
  have e: "p_enable (bd_plic (dev s)) \<subseteq> {2, 3}" using assms(1) by (simp add: finv_def board_ok_def)
  have d: "bd_in_service (dev m) = {3}" "p_enable (bd_plic (dev m)) \<subseteq> {2, 3}" "bd_timer (dev m) = bd_timer (dev s)"
    "2 \<in> bd_pending (dev m) \<longrightarrow> 2 \<in> bd_pending (dev s) \<or> timer_line (bd_timer (dev s))"
    using s2(1) assms(2-5) e unfolding sel(12) spi_only_def by auto
  let ?b = "board_wr 0xc200004 3 (dev m)"
  have q: "board_ok ?b" "timer_quiet (dev s) \<longrightarrow> timer_quiet ?b"
    using complete_board [of "dev m" 3] d by (auto simp: timer_quiet_def timer_line_def)
  have "dev (freertos_plic_complete board_bus 3 m) = ?b" by (simp add: freertos_plic_complete_def mach_simps board_bus_sel)
  with q show ?thesis unfolding m_def [symmetric]
    by (intro finv_same [OF assms(1)]) (simp_all add: freertos_plic_complete_def mach_simps board_bus_sel sel)
qed

lemma isr_keeps:
  assumes "finv s" "fkernel_ok K" "board_meip (dev s)"
  shows "finv (freertos_risc_v_application_interrupt_handler board_bus K
      (s\<lparr>csrs := (csrs s)(Mcause := ERISCV_MCU_MCAUSE_INTERRUPT OR ERISCV_MCU_MCAUSE_MEI)\<rparr>))"
proof -
  have ok: "board_ok (dev s)" using assms(1) by (simp add: finv_def)
  obtain h b' where b: "board_rd 0xc200004 (dev s) = (of_nat h, b')" "h = 2 \<or> h = 3" "h \<in> bd_pending (dev s)" "bd_in_service b' = {h}"
    "bd_timer b' = bd_timer (dev s)" "bd_plic b' = bd_plic (dev s)"
    "2 \<in> bd_pending b' \<longrightarrow> h = 3 \<and> (2 \<in> bd_pending (dev s) \<or> timer_line (bd_timer (dev s)))"
    using board_claimed [OF assms(3) ok] by blast
  show ?thesis
  proof (cases "h = 2")
    case True
    then have r: "board_rd 0xc200004 (dev s) = (2, b')" using b(1) by simp
    show ?thesis using isr_timer_keeps [OF assms(1,2), of b'] b True unfolding isr_eq [OF r] by (simp add: Let_def)
  next
    case False
    then have r: "board_rd 0xc200004 (dev s) = (3, b')" using b(1,2) by simp
    show ?thesis using isr_spi_keeps [OF assms(1), of b'] b False unfolding isr_eq [OF r] by (simp add: Let_def)
  qed
qed

lemma frun_keeps:
  assumes "finv s" "fkernel_ok K"
  shows "finv (frun K L evs s)"
  using assms(1)
proof (induction evs arbitrary: s)
  case (Cons ev evs)
  have "finv (fevent_step K L ev s)"
  proof (cases ev)
    case Run_task
    have c: "fready (fobjects_of (flog s)) t" if "x_current K (flog s) = Some t" for t
      using fkernel_okD(1) [OF assms(2) that] .
    have t: "\<not> fready (fobjects_of (flog s)) Consumer" if "x_current K (flog s) = Some Trigger"
      using fkernel_okD(2) [OF assms(2) that, of Consumer] by auto
    show ?thesis
    proof (cases "x_current K (flog s)")
      case (Some t)
      then show ?thesis using Run_task c [of t] t consumer_keeps [OF Cons.prems assms(2)] yields_keep [OF Cons.prems]
          trigger_keeps [OF Cons.prems assms(2)] by (cases t) simp_all
    qed (simp add: Run_task Cons.prems)
  next
    case External_irq
    then show ?thesis using isr_keeps [OF Cons.prems assms(2)] Cons.prems by simp
  qed (use Cons.prems in \<open>simp_all add: tick_keeps cycles_keep\<close>)
  then have "finv (unless_halted (fevent_step K L ev) s)" using Cons.prems by (simp add: unless_halted_def)
  from Cons.IH [OF this] show ?case by (simp add: frun_def)
qed (simp add: frun_def)

section \<open>Main establishes it\<close>

text \<open>What the two loops of \<open>test_malloc\<close> do to a block.\<close>

definition malloc_pattern :: "u32 \<Rightarrow> u8" where "malloc_pattern i = ucast (i XOR 0xaa)"

lemma malloc_fill_eq:
  "n + k \<le> 2 ^ 32 \<Longrightarrow> malloc_fill p k (of_nat n) r a =
    (if n \<le> unat (a - p) \<and> unat (a - p) < n + k then malloc_pattern (a - p) else r a)"
proof (induction k arbitrary: n r)
  case (Suc k)
  have u: "unat (of_nat n :: u32) = n" using Suc.prems by (simp add: unat_of_nat)
  have "a = p + of_nat n \<longleftrightarrow> a - p = of_nat n" by (auto simp: algebra_simps)
  then have eq: "a = p + of_nat n \<longleftrightarrow> unat (a - p) = n" using u by (simp add: word_unat_eq_iff [of "a - p"])
  define r' where "r' = r(p + of_nat n := malloc_pattern (of_nat n))"
  have s: "malloc_fill p (Suc k) (of_nat n) r = malloc_fill p k (of_nat (Suc n)) r'"
    by (simp add: r'_def malloc_pattern_def add.commute)
  have "r' a = (if unat (a - p) = n then malloc_pattern (a - p) else r a)"
    using eq u by (auto simp: r'_def word_unat_eq_iff [of "a - p"])
  then show ?case using Suc.IH [of "Suc n" r'] Suc.prems unfolding s by (auto simp del: of_nat_Suc)
qed auto

lemma malloc_check_eq:
  "n + k \<le> 2 ^ 32 \<Longrightarrow> (\<And>a. n \<le> unat (a - p) \<Longrightarrow> unat (a - p) < n + k \<Longrightarrow> r a = malloc_pattern (a - p)) \<Longrightarrow>
   malloc_check p k (of_nat n) r"
proof (induction k arbitrary: n)
  case (Suc k)
  have "unat (of_nat n :: u32) = n" using Suc.prems(1) by (simp add: unat_of_nat)
  then have "r (p + of_nat n) = malloc_pattern (of_nat n)" using Suc.prems(2) [of "p + of_nat n"] by simp
  moreover have "malloc_check p k (of_nat (Suc n)) r" using Suc.IH [of "Suc n"] Suc.prems by simp
  ultimately show ?case by (simp add: malloc_pattern_def add.commute)
qed simp

lemma test_malloc_eq:
  assumes "x_malloc K (ram s) = (p, r)"
  shows "test_malloc K s =
    (if p = 0 then assert_or_halt False (s\<lparr>malloc_ok := 0, ram := r\<rparr>)
     else s\<lparr>ram := x_free K p (\<lambda>a. if unat (a - p) < 256 then malloc_pattern (a - p) else r a), malloc_ok := 1\<rparr>)"
proof -
  have f: "malloc_fill p 256 0 r = (\<lambda>a. if unat (a - p) < 256 then malloc_pattern (a - p) else r a)"
    using malloc_fill_eq [of 0 256 p r] by auto
  have "malloc_check p 256 0 (\<lambda>a. if unat (a - p) < 256 then malloc_pattern (a - p) else r a)"
    using malloc_check_eq [of 0 256 p] by auto
  then show ?thesis using assms f by (simp add: test_malloc_def Let_def del: malloc_fill.simps malloc_check.simps)
qed

text \<open>\<open>main\<close> leaves the tasks at their entries, and the board reset but for the PLIC.\<close>

lemma main_start:
  assumes "fkernel_ok K" "fst (x_malloc K r) \<noteq> 0"
  shows "\<exists>s1. freertos_main board_bus K trap_handler L (freertos_reset sc r) = freertos_plic_init_source board_bus 2 1 s1 \<and>
    consumer_pc s1 = Co_receive \<and> trigger_pc s1 = Tr_delay \<and> yield_a_pc s1 = Yi_before \<and> yield_b_pc s1 = Yi_before \<and>
    task_done_bits s1 = 0 \<and> timeslice_armed s1 = 0 \<and> timing s1 = timing_cleared \<and> \<not> halted s1 \<and> malloc_ok s1 = 1 \<and>
    freertos_result s1 = 0 \<and> flog s1 = [Uart_init ERISCV_MCU_UART_DIVISOR] \<and> dev s1 = board_reset sc \<and>
    \<not> spi_async_active s1 \<and> spi_control s1 = 0"
proof -
  have k: "x_queue_create K" "x_mutex_create K" "x_task_create K t" "x_start K" for t
    using assms(1) unfolding fkernel_ok_def by blast+
  let ?s0 = "freertos_reset sc r"
  define s1 where "s1 = freertos_variables trap_handler L (test_malloc K ?s0)"
  obtain p r' where m: "x_malloc K r = (p, r')" "p \<noteq> 0" using assms(2) by (metis fst_conv surj_pair)
  have t: "test_malloc K ?s0 = ?s0\<lparr>ram := x_free K p (\<lambda>a. if unat (a - p) < 256 then malloc_pattern (a - p) else r' a), malloc_ok := 1\<rparr>"
    using test_malloc_eq [of K ?s0 p r'] m by (simp add: freertos_reset_def)
  have sel: "consumer_pc s1 = Co_receive" "trigger_pc s1 = Tr_delay" "yield_a_pc s1 = Yi_before" "yield_b_pc s1 = Yi_before"
    "task_done_bits s1 = 0" "freertos_result s1 = 0" "malloc_ok s1 = 1" "halted s1 = False"
    "flog s1 = [Uart_init ERISCV_MCU_UART_DIVISOR]" "dev s1 = board_reset sc" "timeslice_armed s1 = 0" "timing s1 = timing_cleared"
    "spi_async_active s1 = False" "spi_control s1 = 0"
    unfolding s1_def t by (simp_all add: freertos_variables_def csr_write_def flog_call_def freertos_reset_def)
  have pl: "spi_only s1 (freertos_plic_init_source board_bus 2 1 s1)" by (rule spi_only_plic_init(1)) simp
  have "halted (test_malloc K ?s0) = False" unfolding t by (simp add: freertos_reset_def)
  then have "freertos_main board_bus K trap_handler L ?s0 = freertos_plic_init_source board_bus 2 1 s1"
    using k sel(8) spi_only_vars(17) [OF pl]
    by (simp add: freertos_main_def Let_def unless_halted_def assert_or_halt_def s1_def)
  with sel show ?thesis by (intro exI [of _ s1]) simp
qed

lemma main_establishes:
  assumes "fkernel_ok K" "fst (x_malloc K r) \<noteq> 0"
  shows "finv (freertos_main board_bus K trap_handler L (freertos_reset sc r))"
proof -
  obtain s1 where s1: "freertos_main board_bus K trap_handler L (freertos_reset sc r) = freertos_plic_init_source board_bus 2 1 s1"
    "consumer_pc s1 = Co_receive" "trigger_pc s1 = Tr_delay" "yield_a_pc s1 = Yi_before" "yield_b_pc s1 = Yi_before"
    "task_done_bits s1 = 0" "\<not> halted s1" "malloc_ok s1 = 1" "freertos_result s1 = 0"
    "flog s1 = [Uart_init ERISCV_MCU_UART_DIVISOR]" "dev s1 = board_reset sc"
    using main_start [OF assms, of trap_handler L sc] by blast
  have "board_ok (board_reset sc)" "timer_quiet (board_reset sc)" by (simp_all add: board_ok_def timer_quiet_def board_reset_def)
  then have f: "finv s1"
    by (simp add: finv_def s1 sched_inv_def msg_inv_def mutex_inv_def mark_inv_def result_inv_def bits_ok_def all_ftask
        co_early_def fobjects_of_def fobjects_init_def)
  show ?thesis unfolding s1(1) by (rule spi_only_finv [OF spi_only_plic_init(1) f]) simp
qed

lemma msg_inv_published:
  "msg_inv cp tp ev z tr q \<Longrightarrow> cp = Co_delete \<or> cp = Co_done \<Longrightarrow>
   tr_armed tp \<and> tr = [Queue_send DEMO_EVENT, Notify_give, Notify_take 1, Queue_receive DEMO_EVENT]"
  by (elim disjE) (simp_all add: msg_inv_def co_early_def, blast+)


end
