(* ===== verification/Freertos_Kernel.thy ===== *)
theory Freertos_Kernel
  imports Freertos_Run
begin

text \<open>A kernel with the documented behaviour, and runs of the FreeRTOS demonstration on it.\<close>

definition fslices :: "fcall list \<Rightarrow> nat" where
  "fslices log = length (filter (\<lambda>c. case c of Tick \<Rightarrow> True | Task_yield _ \<Rightarrow> True | _ \<Rightarrow> False) log)"

definition fmodel_current :: "fcall list \<Rightarrow> ftask option" where
  "fmodel_current log =
    (let z = fobjects_of log
     in if fready z Consumer then Some Consumer
        else if fready z Yield_a \<and> (\<not> fready z Yield_b \<or> even (fslices log)) then Some Yield_a
        else if fready z Yield_b then Some Yield_b
        else if fready z Trigger then Some Trigger
        else None)"

definition fkernel_model :: fkernel where
  "fkernel_model = \<lparr>x_current = fmodel_current,
     x_queue_receive = (\<lambda>log. case fqueue (fobjects_of log) of [] \<Rightarrow> (0, 0) | v # _ \<Rightarrow> (1, v)),
     x_queue_send_from_isr = (\<lambda>log v. if fqueue (fobjects_of log) = [] then 1 else 0),
     x_notify_take = (\<lambda>log. fnotified (fobjects_of log)),
     x_sem_take = (\<lambda>log t. if fmutex (fobjects_of log) = None then 1 else 0),
     x_sem_give = (\<lambda>log t. if fmutex (fobjects_of log) = Some t then 1 else 0),
     x_queue_create = True, x_mutex_create = True, x_task_create = (\<lambda>_. True),
     x_malloc = (\<lambda>r. (0x1000, r)), x_free = (\<lambda>_ r. r), x_start = True\<rparr>"

lemma fkernel_model_ok: "fkernel_ok fkernel_model"
proof -
  have "fmodel_current log = Some t \<Longrightarrow> fready (fobjects_of log) t \<and> (\<forall>t'. fready (fobjects_of log) t' \<longrightarrow> fprio t' \<le> fprio t)" for log t
    by (cases t) (auto simp: fmodel_current_def Let_def all_ftask split: if_splits)
  moreover have "fmodel_current log = None \<Longrightarrow> fready (fobjects_of log) t \<Longrightarrow> fprio t = 0" for log t
    by (cases t) (auto simp: fmodel_current_def Let_def split: if_splits)
  ultimately show ?thesis by (simp add: fkernel_ok_def fkernel_model_def)
qed

lemma frun_simps [simp]: "frun K L [] s = s" "frun K L (ev # evs) s = frun K L evs (unless_halted (fevent_step K L ev) s)"
  "frun K L (evs @ evs') s = frun K L evs' (frun K L evs s)"
  by (simp_all add: frun_def)

lemmas fmodel_defs = fkernel_model_def fmodel_current_def fslices_def fready_def fobjects_of_def fobjects_init_def fwaits_set_def Let_def

lemmas fstep_defs = unless_halted_def flog_call_def report_def consumer_task_entry_def consumer_assert_def vAssertCalled_demo_def
  trigger_task_entry_def trigger_assert_def yield_a_task_entry_def yield_b_task_entry_def mark_task_load_def mark_task_store_def
  vApplicationTickHook_def


section \<open>Lost marks\<close>

text \<open>What one event does to the marks: nothing, the load of a task, or its store.\<close>

definition passed_loop :: "consumer_pc \<Rightarrow> bool" where
  "passed_loop p \<longleftrightarrow> p \<in> {Co_puts, Co_result, Co_delete, Co_done}"

definition loop_ok :: "'d fapp \<Rightarrow> 'd fapp \<Rightarrow> bool" where
  "loop_ok s s' \<longleftrightarrow> (passed_loop (consumer_pc s') \<longrightarrow> passed_loop (consumer_pc s) \<or> task_done_bits s = TASK_DONE_ALL)"

definition marks_keep :: "'d fapp \<Rightarrow> 'd fapp \<Rightarrow> bool" where
  "marks_keep s s' \<longleftrightarrow> task_done_bits s' = task_done_bits s \<and> loaded s' = loaded s \<and>
     (\<forall>t. marked s' t = marked s t) \<and> (\<forall>t. storing s' t = storing s t) \<and> loop_ok s s'"

definition marks_load :: "ftask \<Rightarrow> 'd fapp \<Rightarrow> 'd fapp \<Rightarrow> bool" where
  "marks_load u s s' \<longleftrightarrow> task_done_bits s' = task_done_bits s \<and> loaded s' = (loaded s)(u := task_done_bits s) \<and> \<not> storing s u \<and>
     (\<forall>t. marked s' t = marked s t) \<and> (\<forall>t. storing s' t \<longleftrightarrow> t = u \<or> storing s t) \<and> loop_ok s s'"

definition marks_store :: "ftask \<Rightarrow> 'd fapp \<Rightarrow> 'd fapp \<Rightarrow> bool" where
  "marks_store u s s' \<longleftrightarrow> storing s u \<and> task_done_bits s' = loaded s u OR task_done_bit u \<and> loaded s' = loaded s \<and>
     (\<forall>t. marked s' t \<longleftrightarrow> t = u \<or> marked s t) \<and> (\<forall>t. storing s' t \<longleftrightarrow> t \<noteq> u \<and> storing s t) \<and> loop_ok s s'"

lemmas marks_defs = marks_keep_def marks_load_def marks_store_def all_ftask loop_ok_def passed_loop_def

lemma marks_fields:
  "consumer_pc s' = consumer_pc s \<Longrightarrow> trigger_pc s' = trigger_pc s \<Longrightarrow> yield_a_pc s' = yield_a_pc s \<Longrightarrow> yield_b_pc s' = yield_b_pc s \<Longrightarrow>
   task_done_bits s' = task_done_bits s \<Longrightarrow> loaded s' = loaded s \<Longrightarrow> marks_keep s s'"
  by (simp add: marks_defs)

lemma consumer_marks_step:
  "marks_keep s (consumer_task_entry K s) \<or> marks_load Consumer s (consumer_task_entry K s) \<or>
   marks_store Consumer s (consumer_task_entry K s)"
  by (cases "consumer_pc s")
    (simp_all add: consumer_task_entry_def mark_defs marks_defs Let_def split: prod.split)

lemma yield_marks_step:
  "marks_keep s (yield_a_task_entry s) \<or> marks_load Yield_a s (yield_a_task_entry s) \<or> marks_store Yield_a s (yield_a_task_entry s)"
  "marks_keep s (yield_b_task_entry s) \<or> marks_load Yield_b s (yield_b_task_entry s) \<or> marks_store Yield_b s (yield_b_task_entry s)"
  by (cases "yield_a_pc s"; simp add: yield_a_task_entry_def mark_defs marks_defs)
    (cases "yield_b_pc s"; simp add: yield_b_task_entry_def mark_defs marks_defs)

lemma trigger_marks_step:
  "marks_keep s (trigger_task_entry board_bus K L s) \<or> marks_load Trigger s (trigger_task_entry board_bus K L s) \<or>
   marks_store Trigger s (trigger_task_entry board_bus K L s)"
proof -
  have call: "marks_keep s (trigger_assert ok pc s')"
    if "trigger_pc s' = trigger_pc s" "consumer_pc s' = consumer_pc s" "yield_a_pc s' = yield_a_pc s" "yield_b_pc s' = yield_b_pc s"
      "task_done_bits s' = task_done_bits s" "loaded s' = loaded s" "\<not> tr_armed (trigger_pc s)" "\<not> tr_armed pc" for ok pc s'
    using that by (simp add: marks_defs trigger_assert_def vAssertCalled_demo_def tr_armed_def)
  show ?thesis
  proof (cases "trigger_pc s")
    case Tr_init
    obtain r s1 where r: "freertos_spi_init board_bus 2 0 s = (r, s1)" by fastforce
    have "spi_only s s1" using spi_only_init [of s 2 0] r by simp
    from spi_only_vars [OF this] Tr_init r show ?thesis using call [of s1 Tr_transfer "r = 0"]
      by (simp add: trigger_task_entry_def tr_armed_def)
  next
    case Tr_transfer
    let ?c = "freertos_spi_transfer_buf board_bus 0 (sym_spi_tx L) (sym_spi_rx L) 2 10000 s"
    obtain r s1 where r: "?c = (r, s1)" by fastforce
    have "spi_only s s1" using spi_only_transfer [of s 0 "sym_spi_tx L" "sym_spi_rx L" 2 10000] r by simp
    from spi_only_vars [OF this] Tr_transfer r show ?thesis using call [of s1 Tr_check "r = 0"]
      by (simp add: trigger_task_entry_def tr_armed_def)
  next
    case Tr_async
    let ?c = "freertos_spi_start_async board_bus 0 (sym_spi_tx L) (sym_async_rx L) 1 (Some ()) 0 s"
    obtain r s1 where r: "?c = (r, s1)" by fastforce
    have "spi_only s s1" using spi_only_start_async [of s 0 "sym_spi_tx L" "sym_async_rx L" 1 "Some ()" 0] r by simp
    from spi_only_vars [OF this] Tr_async r show ?thesis using call [of "s1\<lparr>wait_cycles := 100000\<rparr>" Tr_wait "r = 0"]
      by (simp add: trigger_task_entry_def tr_armed_def)
  qed (simp_all add: trigger_task_entry_def mark_defs marks_defs freertos_timer_start_def mach_simps report_def)
qed

lemma isr_marks_step:
  "marks_keep s (freertos_risc_v_application_interrupt_handler board_bus K
      (s\<lparr>csrs := (csrs s)(Mcause := ERISCV_MCU_MCAUSE_INTERRUPT OR ERISCV_MCU_MCAUSE_MEI)\<rparr>))"
proof -
  obtain src b' where r: "board_rd 0xc200004 (dev s) = (src, b')" by fastforce
  let ?s1 = "(isr_entry s)\<lparr>dev := b', trace := trace s @ [CsrRd Mcause 0x8000000b, Rd 0xc200004 src]\<rparr>"
  define m where "m = freertos_spi_irq_handler board_bus spi_async_callback_fn ?s1"
  have "\<exists>s2. spi_only ?s1 s2 \<and> (m = s2 \<or> m = spi_async_callback_fn () SPI_OK 0 s2)"
    using spi_only_irq_handler [of ?s1] unfolding m_def by blast
  then obtain s2 where s2: "spi_only ?s1 s2" "m = s2 \<or> m = spi_async_callback_fn () SPI_OK 0 s2" by blast
  have sel: "consumer_pc m = consumer_pc s" "trigger_pc m = trigger_pc s" "yield_a_pc m = yield_a_pc s"
    "yield_b_pc m = yield_b_pc s" "loaded m = loaded s" "task_done_bits m = task_done_bits s"
    using s2(2) spi_only_vars [OF s2(1)] by (auto simp: spi_async_callback_fn_def)
  show ?thesis unfolding isr_eq [OF r] Let_def m_def [symmetric]
    by (simp add: marks_fields sel freertos_plic_complete_def freertos_timer_stop_def mach_simps assert_or_halt_def vAssertCalled_demo_def
        flog_call_def)
qed

lemma marks_step:
  "marks_keep s (unless_halted (fevent_step K L ev) s) \<or> (\<exists>u. marks_load u s (unless_halted (fevent_step K L ev) s)) \<or>
   (\<exists>u. marks_store u s (unless_halted (fevent_step K L ev) s))"
proof (cases "halted s")
  case True
  then show ?thesis by (simp add: unless_halted_def marks_fields)
next
  case False
  then have u: "unless_halted (fevent_step K L ev) s = fevent_step K L ev s" by (simp add: unless_halted_def)
  show ?thesis unfolding u
  proof (cases ev)
    case Run_task
    show "marks_keep s (fevent_step K L ev s) \<or> (\<exists>u. marks_load u s (fevent_step K L ev s)) \<or>
        (\<exists>u. marks_store u s (fevent_step K L ev s))"
    proof (cases "x_current K (flog s)")
      case None
      then show ?thesis by (simp add: Run_task marks_fields)
    next
      case (Some t)
      then show ?thesis using consumer_marks_step [of s K] yield_marks_step [of s] trigger_marks_step [of s K L]
        unfolding Run_task by (cases t) (simp_all, blast+)
    qed
  next
    case External_irq
    then show "marks_keep s (fevent_step K L ev s) \<or> (\<exists>u. marks_load u s (fevent_step K L ev s)) \<or>
        (\<exists>u. marks_store u s (fevent_step K L ev s))"
      using isr_marks_step [of s K] by (simp add: marks_fields)
  qed (simp_all add: marks_fields vApplicationTickHook_def)
qed

text \<open>
  Once a task is about to store a value without the bit of a task that has already marked itself, some bit of a marked
  task stays missing for ever: no value that is still to be stored has all of them.
\<close>

definition lacks_marked :: "'d fapp \<Rightarrow> u32 \<Rightarrow> bool" where
  "lacks_marked s v \<longleftrightarrow> (\<exists>t. marked s t \<and> v AND task_done_bit t = 0)"

definition lost :: "'d fapp \<Rightarrow> bool" where
  "lost s \<longleftrightarrow> (\<exists>t. storing s t \<and> lacks_marked s (loaded s t)) \<or>
     (lacks_marked s (task_done_bits s) \<and> (\<forall>t. storing s t \<longrightarrow> lacks_marked s (loaded s t)))"

lemma lacks_marked_mono: "lacks_marked s v \<Longrightarrow> \<forall>t. marked s t \<longrightarrow> marked s' t \<Longrightarrow> lacks_marked s' v"
  unfolding lacks_marked_def by blast

lemma marked_not_storing: "marked s t \<Longrightarrow> \<not> storing s t"
  by (cases t) auto

lemma lacks_or:
  "marked s t' \<Longrightarrow> v AND task_done_bit t' = 0 \<Longrightarrow> storing s u \<Longrightarrow> (v OR task_done_bit u) AND task_done_bit t' = 0"
  using marked_not_storing [of s t'] done_bits_apart [of u t']
  by (metis bit.conj_disj_distrib2 or.left_neutral)

lemma lost_keeps:
  assumes "lost s" "mark_inv s" "marks_keep s s' \<or> (\<exists>u. marks_load u s s') \<or> (\<exists>u. marks_store u s s')"
  shows "lost s'"
  using assms(3)
proof (elim disjE exE)
  assume k: "marks_keep s s'"
  then have "lacks_marked s' v = lacks_marked s v" for v by (simp add: lacks_marked_def marks_keep_def)
  with assms(1) k show ?thesis by (simp add: lost_def marks_keep_def)
next
  fix u assume k: "marks_load u s s'"
  then have "lacks_marked s' v = lacks_marked s v" for v by (simp add: lacks_marked_def marks_load_def)
  note l = this
  have k': "loaded s' u = task_done_bits s" "\<And>t. storing s t \<Longrightarrow> storing s' t \<and> loaded s' t = loaded s t"
    "\<And>t. storing s' t \<Longrightarrow> t = u \<or> storing s t" "task_done_bits s' = task_done_bits s"
    using k by (auto simp: marks_load_def)
  show ?thesis
  proof (cases "\<exists>t. storing s t \<and> lacks_marked s (loaded s t)")
    case True
    then show ?thesis using k'(2) l unfolding lost_def by metis
  next
    case False
    then have "lacks_marked s (task_done_bits s)" "storing s t \<Longrightarrow> lacks_marked s (loaded s t)" for t
      using assms(1) unfolding lost_def by blast+
    then show ?thesis using k' l unfolding lost_def by metis
  qed
next
  fix u assume k: "marks_store u s s'"
  then have m: "\<forall>t. marked s t \<longrightarrow> marked s' t" and mu: "marked s' u" and st: "storing s u"
    and b: "task_done_bits s' = loaded s u OR task_done_bit u" and ld: "loaded s' = loaded s"
    and less: "storing s' t \<longleftrightarrow> t \<noteq> u \<and> storing s t" for t
    by (simp_all add: marks_store_def)
  have own: "lacks_marked s' (task_done_bits s')" if l: "lacks_marked s (loaded s u)"
  proof -
    obtain t where "marked s t" "loaded s u AND task_done_bit t = 0" using l unfolding lacks_marked_def by blast
    with lacks_or [OF this st] m show ?thesis unfolding lacks_marked_def b by blast
  qed
  have other: "lacks_marked s' (loaded s t)" if "storing s t" for t
  proof -
    have "bits_ok s (loaded s t)" using assms(2) that unfolding mark_inv_def by blast
    then have "loaded s t AND task_done_bit u = 0" using marked_not_storing [of s u] st unfolding bits_ok_def by blast
    then show ?thesis using mu unfolding lacks_marked_def by blast
  qed
  show ?thesis
  proof (cases "\<exists>t. t \<noteq> u \<and> storing s t \<and> lacks_marked s (loaded s t)")
    case True
    then show ?thesis using less lacks_marked_mono [OF _ m] unfolding lost_def ld by blast
  next
    case False
    then have "lacks_marked s (loaded s u)" using assms(1) st unfolding lost_def by metis
    then show ?thesis using own other less unfolding lost_def ld by blast
  qed
qed

lemma lost_not_all:
  assumes "lost s" "mark_inv s"
  shows "task_done_bits s \<noteq> TASK_DONE_ALL"
proof
  assume a: "task_done_bits s = TASK_DONE_ALL"
  have "bits_ok s TASK_DONE_ALL" using assms(2) a unfolding mark_inv_def by simp
  then have "marked s t" for t by (rule bits_all)
  moreover have "\<not> lacks_marked s TASK_DONE_ALL"
  proof -
    have "TASK_DONE_ALL AND task_done_bit t \<noteq> 0" for t by (cases t) simp_all
    then show ?thesis unfolding lacks_marked_def by blast
  qed
  ultimately show False using assms(1) a marked_not_storing unfolding lost_def by metis
qed

lemma lost_run_keeps:
  assumes "finv s" "fkernel_ok K" "lost s" "\<not> passed_loop (consumer_pc s)"
  shows "lost (frun K L evs s) \<and> \<not> passed_loop (consumer_pc (frun K L evs s))"
  using assms(1,3,4)
proof (induction evs arbitrary: s)
  case (Cons ev evs)
  let ?s' = "unless_halted (fevent_step K L ev) s"
  have m: "mark_inv s" using Cons.prems(1) by (simp add: finv_def)
  have "frun K L [ev] s = ?s'" by simp
  then have f: "finv ?s'" using frun_keeps [OF Cons.prems(1) assms(2), of L "[ev]"] by simp
  note step = marks_step [of s K L ev]
  have "loop_ok s ?s'" using step by (auto simp: marks_keep_def marks_load_def marks_store_def)
  then have "\<not> passed_loop (consumer_pc ?s')"
    using lost_not_all [OF Cons.prems(2) m] Cons.prems(3) unfolding loop_ok_def by blast
  with Cons.IH [OF f lost_keeps [OF Cons.prems(2) m step]] show ?case by simp
qed simp

text \<open>
  C38. \<open>mark_task_done\<close> can lose the mark of a task, and then the demonstration never publishes a result: if a task is
  between the load and the store of \<open>task_done_bits |= task_bit\<close> and another task has marked itself since the load, then
  whatever happens afterwards, on any kernel, the consumer waits in its loop for ever.
\<close>

theorem freertos_mark_lost:
  assumes "fkernel_ok K" "fst (x_malloc K r) \<noteq> 0"
    "s = frun K L evs (freertos_main board_bus K trap_handler L (freertos_reset sc r))"
    "storing s t" "marked s t'" "loaded s t AND task_done_bit t' = 0"
  shows "\<forall>evs'. freertos_result (frun K L evs' s) \<noteq> 1 \<and> task_done_bits (frun K L evs' s) \<noteq> TASK_DONE_ALL"
proof -
  have f: "finv s" unfolding assms(3) by (rule frun_keeps [OF main_establishes [OF assms(1,2)] assms(1)])
  have l: "lost s" using assms(4-6) unfolding lost_def lacks_marked_def by blast
  have p: "\<not> passed_loop (consumer_pc s)"
    using f assms(4) marked_not_storing [of s t] unfolding finv_def mark_inv_def passed_loop_def by blast
  have "freertos_result s' \<noteq> 1 \<and> task_done_bits s' \<noteq> TASK_DONE_ALL" if s': "s' = frun K L evs' s" for s' evs'
  proof -
    note k = lost_run_keeps [OF f assms(1) l p, of L evs'] and f' = frun_keeps [OF f assms(1), of L evs']
    have "result_inv s'" "mark_inv s'" using f' s' by (simp_all add: finv_def)
    then show ?thesis using k lost_not_all [of s'] s' by (auto simp: result_inv_def passed_loop_def split: if_splits)
  qed
  then show ?thesis by blast
qed

definition lost_run :: "fevent list" where
  "lost_run =
    [Run_task, Run_task, Run_task, Run_task, Run_task, Run_task, Run_task, Tick_irq, Run_task, Run_task, Run_task,
     Run_task, Run_task, Run_task, Run_task, Tick_irq, Run_task, Tick_irq, Run_task, Run_task]"

lemma lost_run_ends:
  assumes "consumer_pc s = Co_receive" "trigger_pc s = Tr_delay" "yield_a_pc s = Yi_before" "yield_b_pc s = Yi_before"
    "task_done_bits s = 0" "timeslice_armed s = 0" "timing s = timing_cleared" "\<not> halted s" "flog s = [Uart_init d]"
  shows "yield_a_pc (frun fkernel_model L lost_run s) = Yi_store \<and> loaded (frun fkernel_model L lost_run s) Yield_a = 0 \<and>
    yield_b_pc (frun fkernel_model L lost_run s) = Yi_delete"
  using assms by (simp add: lost_run_def fmodel_defs fstep_defs timing_cleared_def)

definition fsymbols_at :: fsymbols where
  "fsymbols_at = \<lparr>sym_spi_tx = 0x100, sym_spi_rx = 0x110, sym_async_rx = 0x120\<rparr>"

definition freertos_boot :: "(nat \<times> u8) list \<Rightarrow> ap_board fapp" where
  "freertos_boot sc = freertos_main board_bus fkernel_model 0x80 fsymbols_at (freertos_reset sc (\<lambda>_. 0))"

lemma fkernel_model_malloc [simp]: "fst (x_malloc fkernel_model r) \<noteq> 0"
  by (simp add: fkernel_model_def)

lemma freertos_boot_vars:
  "consumer_pc (freertos_boot sc) = Co_receive" "trigger_pc (freertos_boot sc) = Tr_delay" "yield_a_pc (freertos_boot sc) = Yi_before"
  "yield_b_pc (freertos_boot sc) = Yi_before" "task_done_bits (freertos_boot sc) = 0" "timeslice_armed (freertos_boot sc) = 0"
  "timing (freertos_boot sc) = timing_cleared" "\<not> halted (freertos_boot sc)" "flog (freertos_boot sc) = [Uart_init ERISCV_MCU_UART_DIVISOR]"
  "malloc_ok (freertos_boot sc) = 1" "freertos_result (freertos_boot sc) = 0"
proof -
  obtain s1 where s1: "freertos_boot sc = freertos_plic_init_source board_bus 2 1 s1"
    "consumer_pc s1 = Co_receive" "trigger_pc s1 = Tr_delay" "yield_a_pc s1 = Yi_before" "yield_b_pc s1 = Yi_before"
    "task_done_bits s1 = 0" "timeslice_armed s1 = 0" "timing s1 = timing_cleared" "\<not> halted s1" "malloc_ok s1 = 1"
    "freertos_result s1 = 0" "flog s1 = [Uart_init ERISCV_MCU_UART_DIVISOR]"
    using main_start [OF fkernel_model_ok fkernel_model_malloc [of "\<lambda>_. 0"], where trap_handler = "0x80" and L = fsymbols_at and sc = sc] unfolding freertos_boot_def by blast
  have "spi_only s1 (freertos_boot sc)" unfolding s1(1) by (rule spi_only_plic_init(1)) simp
  from spi_only_vars [OF this] s1(2-) show
    "consumer_pc (freertos_boot sc) = Co_receive" "trigger_pc (freertos_boot sc) = Tr_delay" "yield_a_pc (freertos_boot sc) = Yi_before"
    "yield_b_pc (freertos_boot sc) = Yi_before" "task_done_bits (freertos_boot sc) = 0" "timeslice_armed (freertos_boot sc) = 0"
    "timing (freertos_boot sc) = timing_cleared" "\<not> halted (freertos_boot sc)" "flog (freertos_boot sc) = [Uart_init ERISCV_MCU_UART_DIVISOR]"
    "malloc_ok (freertos_boot sc) = 1" "freertos_result (freertos_boot sc) = 0"
    by simp_all
qed

theorem freertos_mark_lost_witness:
  "\<forall>evs. freertos_result (frun fkernel_model fsymbols_at evs
     (frun fkernel_model fsymbols_at lost_run (freertos_boot [(3, 0x3c)]))) \<noteq> 1"
proof -
  let ?sc = "[(3, 0x3c)]"
  define s where "s = frun fkernel_model fsymbols_at lost_run (freertos_boot ?sc)"
  have e: "yield_a_pc s = Yi_store" "loaded s Yield_a = 0" "yield_b_pc s = Yi_delete"
    using lost_run_ends [OF freertos_boot_vars(1-9) [of ?sc], where L = fsymbols_at] unfolding s_def by simp_all
  have s: "s = frun fkernel_model fsymbols_at lost_run
      (freertos_main board_bus fkernel_model 0x80 fsymbols_at (freertos_reset ?sc (\<lambda>_. 0)))"
    unfolding s_def freertos_boot_def ..
  show ?thesis
    using freertos_mark_lost [OF fkernel_model_ok fkernel_model_malloc s, where t = Yield_a and t' = Yield_b] e
    unfolding s_def [symmetric] by simp
qed


end
