(* ===== verification/Spec2Isabelle.thy ===== *)
theory Spec2Isabelle
  imports Zephyr_Uart Zephyr_Demo Eth_Life Umode_Run Freertos_Kernel
begin

text \<open>
  A verification library for the software of eRISCV-AP.

  The repository holds a RISC-V system on chip (\<^verbatim>\<open>rtl\<close>) and its software in C (\<^verbatim>\<open>sw\<close>). The software is four
  layers: a register map and inline access functions (\<^verbatim>\<open>sw/include\<close>); a bare-metal library with the UART and DMA
  drivers and the trap dispatch (\<^verbatim>\<open>sw/lib\<close>); the drivers and demonstration profiles of two real-time kernels
  (\<^verbatim>\<open>sw/rtos/freertos\<close>, \<^verbatim>\<open>sw/rtos/freertos_umode\<close>, \<^verbatim>\<open>sw/rtos/zephyr\<close>); and a Linux driver for the Ethernet DMA
  (\<^verbatim>\<open>sw/linux/eriscv_ap_eth\<close>). Every driver reaches its device by 32-bit loads and stores and is called back by
  interrupts; the rings of the UART, of the console and of the Ethernet driver are shared between the two sides.

  HOW THE CODE IS MODELLED. A C function is a function on a state record, with the name it has in C. The record
  extends \<open>mach\<close> (\<^verbatim>\<open>Machine\<close>): the state of the device, the CSRs, the memory and the trace of all accesses in program
  order; the static variables of a driver are further fields. A \<open>bus\<close> says what the device answers; time and the
  outside world are part of the device's state, as a script of what happens before each access, so a statement for
  all device states holds for every timing. Machine integers are words of the width of the C type and wrap. Error
  codes are \<open>Inl\<close> values. A loop that may not end is a \<open>partial_function (option)\<close>, so that \<open>None\<close> means the code never
  returns (or dereferences a null pointer, where the text says so), and theorems state that results are \<open>Some\<close>; the
  only bounds are the ones the C code has itself (poll counts, budgets), there is no fuel. Interrupts are separate
  steps of a run: the foreground code of the UART library masks them from its first access to its last, which is
  proved (\<open>masked_section\<close>), so a run is a list of whole calls and whole interrupts.

  THE THEORIES.
  \<^item> \<^verbatim>\<open>Prelude\<close>: integer types, bit lemmas, the collections of simplification rules, and the locale \<open>ring\<close>, the law of
    a power-of-two ring index, with the FIFO lemmas proved once; interpreted for the UART rings and the Ethernet rings.
  \<^item> \<^verbatim>\<open>Mcu_Regs\<close>: the register map of \<^verbatim>\<open>eriscv_mcu_config.h\<close> and \<^verbatim>\<open>eriscv_mcu.h\<close>. \<^verbatim>\<open>Machine\<close>: bus, CSRs, trace, and the
    access functions of the header. \<^verbatim>\<open>Mcu_Bsp\<close>: the other inline functions of the header.
  \<^item> \<^verbatim>\<open>Bsp_Uart\<close>, \<^verbatim>\<open>Uart_Session\<close>: \<^verbatim>\<open>sw/lib/uart.c\<close>, polled and interrupt-driven, and its runs; the locale \<open>uart_device\<close> is
    what the transmit side needs of a UART. \<^verbatim>\<open>Rtl_Uart\<close>: the UART of the SoC (\<^verbatim>\<open>uart_apb.sv\<close>), the interpretation of the
    locale on it, and the end-to-end theorem: every accepted byte is on the line, in the UART or queued, in order.
  \<^item> \<^verbatim>\<open>Bsp_Dma\<close>: \<^verbatim>\<open>sw/lib/dma.c\<close> and \<^verbatim>\<open>sw/lib/trap.c\<close>; the locale \<open>irq_hooks\<close> is the contract of the handlers an application
    may replace, interpreted on the weak defaults.
  \<^item> \<^verbatim>\<open>Rtl_Time\<close>: CLINT and APB timer cycle by cycle under the header functions (locale \<open>mtime_clock\<close>): the 64-bit clock
    read is linearizable, the comparison register is set without a spurious interrupt, when the timer fires.
  \<^item> \<^verbatim>\<open>Rtl_Sys\<close>: GPIO, clock controller, PLIC and watchdog (locale \<open>rw_register\<close>, interpreted for each register).
  \<^item> \<^verbatim>\<open>Freertos_Drivers\<close>, \<^verbatim>\<open>Freertos_Spi\<close>: the FreeRTOS drivers. \<^verbatim>\<open>Zephyr_Drivers\<close>, \<^verbatim>\<open>Zephyr_Spi\<close>, \<^verbatim>\<open>Zephyr_Uart\<close>: the Zephyr
    drivers and the console; the kernel's functions are parameters (locale \<open>zephyr_irq\<close>; \<open>ring_laws\<close> for its ring
    buffer). \<^verbatim>\<open>Spi_Port\<close>: the SPI master of the SoC and the locale \<open>spi_port\<close> both SPI drivers are verified against;
    the transfers are refinements of \<open>deposits\<close> and \<open>spi_answer\<close>, what the slave answers byte by byte.
  \<^item> \<^verbatim>\<open>Linux_Eth\<close>: every function of the Ethernet driver; the kernel is a function of the history of calls. \<^verbatim>\<open>Eth_Owned\<close>:
    the accounting of every resource taken. \<^verbatim>\<open>Eth_Open\<close>: open, stop, probe and remove with all error paths. \<^verbatim>\<open>Eth_Ring\<close>:
    the rings against the locale \<open>eth_device\<close>. \<^verbatim>\<open>Eth_Run\<close>: runs. \<^verbatim>\<open>Rtl_Eth\<close>: the DMA registers and ring engine, the
    interpretation of the locale. \<^verbatim>\<open>Eth_Life\<close>: the life of the interface, delivery, and the full-test race.
  \<^item> \<^verbatim>\<open>Umode_Pmp\<close>, \<^verbatim>\<open>Umode_Tasks\<close>, \<^verbatim>\<open>Umode_Run\<close>: the FreeRTOS user-mode profile: protection templates, system calls, tasks
    and \<open>main\<close>, and an invariant of all schedules: isolation, and the meaning of the verdict.

  WHAT THE LEMMAS SHOW. Per operation, its effect on every branch, errors included (\<open>..._correct\<close>, \<open>..._exact\<close>,
  \<open>..._verdicts\<close>); per component, an invariant that start-up establishes and every operation keeps (\<open>uart_ok\<close>,
  \<open>wdt_ok\<close>, \<open>eth_ok\<close>, \<open>uinv\<close>); conservation of bytes and frames over all runs; termination of every loop that has
  it, and exactly when the others return; and, where the code does not do what it should, a theorem that shows how.

  NOT MODELLED. Assembly (\<^verbatim>\<open>crt0.S\<close>, \<^verbatim>\<open>trap.S\<close>, the boot ROM payloads), linker scripts and the Python tools; the kernels
  and the CPU core's protection unit, which are not in the repository (they are parameters with their documented
  behaviour as hypotheses); bit timing of the serial lines; the DMA engine of the microcontroller, which is not in the
  repository; the RTL other than the register behaviour the drivers rely on; \<^verbatim>\<open>sw/rtos/freertos/drivers/uart.c\<close>,
  which is byte for byte \<^verbatim>\<open>sw/lib/uart.c\<close>; the benchmarks (ports of Dhrystone, CoreMark, Embench and Linpack, whose
  kernels are third-party code); the example programs that only call the drivers; and the generated FFT vectors.
\<close>

end
